(* ===== verification/Prelude.thy ===== *)
theory Prelude
  imports Complex_Main "HOL-Library.Word" "HOL-Library.Char_ord" "HOL-Library.List_Lexorder"
    "HOL-Library.Multiset" "HOL-Library.Sublist"
begin

text \<open>
  Shared vocabulary of the development: the machine types of Go as the kernel uses them, association
  lists for Go maps, the sorting routines of package \<open>sort\<close>, the few functions of package
  \<open>strings\<close> the kernel calls, and the list lemmas the component theories rely on.

  Conventions. A Go \<open>string\<close> and a \<open>[]byte\<close> are byte strings, the type \<^typ>\<open>string\<close>; the order on
  strings is the byte-wise lexicographic order of \<open>List_Lexorder\<close> and \<open>Char_ord\<close>, which is Go's
  \<open><\<close>. An \<open>int64\<close> is an \<^typ>\<open>int\<close> on which every addition and subtraction of the source is
  followed by \<open>wrap64\<close>. A \<open>uint64\<close> is a \<open>64 word\<close>. A Go map is an association list with distinct
  keys, whose order stands for the order in which one run ranges over the map; a lemma that holds
  for every such list therefore holds for every iteration order.
\<close>

section \<open>Collections of rewrite rules\<close>

named_theorems go_simps \<open>unfolding rules for the language-level operations\<close>
named_theorems alist_simps \<open>lookups and key sets after map updates\<close>
named_theorems sort_simps \<open>permutation and membership facts about the sorting routines\<close>

section \<open>Signed 64-bit integers\<close>

type_synonym u64 = "64 word"

definition wrap64 :: "int \<Rightarrow> int" where
  "wrap64 x = (x + 2 ^ 63) mod 2 ^ 64 - 2 ^ 63"

definition in64 :: "int \<Rightarrow> bool" where
  "in64 x \<longleftrightarrow> - (2 ^ 63) \<le> x \<and> x < 2 ^ 63"

lemma wrap64_id [simp]: "in64 x \<Longrightarrow> wrap64 x = x"
  by (simp add: wrap64_def in64_def)

lemma in64_wrap64 [simp, intro]: "in64 (wrap64 x)"
  by (simp add: wrap64_def in64_def pos_mod_sign)

lemma wrap64_idem [simp]: "wrap64 (wrap64 x) = wrap64 x"
  by simp

lemma in64_diff_nonneg: "in64 a \<Longrightarrow> in64 b \<Longrightarrow> 0 \<le> a \<Longrightarrow> 0 \<le> b \<Longrightarrow> in64 (a - b)"
  by (auto simp: in64_def)

section \<open>Go maps as association lists\<close>

type_synonym ('k, 'v) gomap = "('k \<times> 'v) list"

text \<open>
  \<open>m_get\<close> is the two-valued read \<open>v, ok := m[k]\<close>, \<open>m_get_or\<close> the one-valued read that yields the
  zero value of the element type, \<open>m_set\<close> is \<open>m[k] = v\<close> and \<open>m_del\<close> is \<open>delete(m, k)\<close>.
\<close>

definition m_get :: "('k, 'v) gomap \<Rightarrow> 'k \<Rightarrow> 'v option" where
  "m_get m k = map_of m k"

definition m_get_or :: "'v \<Rightarrow> ('k, 'v) gomap \<Rightarrow> 'k \<Rightarrow> 'v" where
  "m_get_or z m k = (case map_of m k of None \<Rightarrow> z | Some v \<Rightarrow> v)"

fun m_set :: "'k \<Rightarrow> 'v \<Rightarrow> ('k, 'v) gomap \<Rightarrow> ('k, 'v) gomap" where
  "m_set k v [] = [(k, v)]"
| "m_set k v ((k', v') # m) = (if k' = k then (k, v) # m else (k', v') # m_set k v m)"

definition m_del :: "'k \<Rightarrow> ('k, 'v) gomap \<Rightarrow> ('k, 'v) gomap" where
  "m_del k m = filter (\<lambda>(k', _). k' \<noteq> k) m"

abbreviation keys :: "('k, 'v) gomap \<Rightarrow> 'k list" where
  "keys m \<equiv> map fst m"

definition wf_map :: "('k, 'v) gomap \<Rightarrow> bool" where
  "wf_map m \<longleftrightarrow> distinct (keys m)"

lemma m_get_empty [simp, alist_simps]: "m_get [] k = None"
  by (simp add: m_get_def)

lemma map_of_m_set [simp]: "map_of (m_set k v m) = (map_of m)(k \<mapsto> v)"
  by (induction m) (auto simp: fun_eq_iff)

lemma m_get_set [simp, alist_simps]:
  "m_get (m_set k v m) k' = (if k' = k then Some v else m_get m k')"
  by (simp add: m_get_def)

lemma m_get_or_set [simp, alist_simps]:
  "m_get_or z (m_set k v m) k' = (if k' = k then v else m_get_or z m k')"
  by (simp add: m_get_or_def)

lemma m_get_or_get: "m_get_or z m k = (case m_get m k of None \<Rightarrow> z | Some v \<Rightarrow> v)"
  by (simp add: m_get_or_def m_get_def)

lemma map_of_m_del [simp]: "map_of (m_del k m) = (map_of m)(k := None)"
  by (induction m) (auto simp: m_del_def fun_eq_iff)

lemma m_get_del [simp, alist_simps]:
  "m_get (m_del k m) k' = (if k' = k then None else m_get m k')"
  by (simp add: m_get_def)

lemma set_keys_m_set [simp, alist_simps]: "fst ` set (m_set k v m) = insert k (fst ` set m)"
  by (simp flip: dom_map_of_conv_image_fst)

lemma set_keys_m_del [simp, alist_simps]: "fst ` set (m_del k m) = fst ` set m - {k}"
  by (simp flip: dom_map_of_conv_image_fst)

lemma wf_map_empty [simp]: "wf_map []"
  by (simp add: wf_map_def)

lemma wf_map_m_set [simp, intro]: "wf_map m \<Longrightarrow> wf_map (m_set k v m)"
  by (induction m) (auto simp: wf_map_def simp del: image_iff)

lemma wf_map_m_del [simp, intro]: "wf_map m \<Longrightarrow> wf_map (m_del k m)"
  by (induction m) (auto simp: wf_map_def m_del_def)

lemma m_get_None_iff: "m_get m k = None \<longleftrightarrow> k \<notin> set (keys m)"
  by (simp add: m_get_def map_of_eq_None_iff)

lemma length_m_set: "length (m_set k v m) = (if k \<in> set (keys m) then length m else Suc (length m))"
  by (induction m) (simp_all add: split_paired_all)

lemma length_m_del_le: "length (m_del k m) \<le> length m"
  by (simp add: m_del_def)

section \<open>Sorting\<close>

text \<open>
  \<open>sort.SliceStable\<close> and \<open>sort.Slice\<close> with a \<open>less\<close> callback. Insertion in front of the first
  element that is strictly greater keeps equal elements in their order, so \<open>go_sort\<close> is the stable
  sort. Where the source calls the unstable \<open>sort.Slice\<close> its comparison is total on the elements
  in question, so the result does not depend on stability.
\<close>

fun go_insert :: "('a \<Rightarrow> 'a \<Rightarrow> bool) \<Rightarrow> 'a \<Rightarrow> 'a list \<Rightarrow> 'a list" where
  "go_insert lt x [] = [x]"
| "go_insert lt x (y # ys) = (if lt y x then y # go_insert lt x ys else x # y # ys)"

fun go_sort :: "('a \<Rightarrow> 'a \<Rightarrow> bool) \<Rightarrow> 'a list \<Rightarrow> 'a list" where
  "go_sort lt [] = []"
| "go_sort lt (x # xs) = go_insert lt x (go_sort lt xs)"

lemma mset_go_insert [simp, sort_simps]: "mset (go_insert lt x ys) = add_mset x (mset ys)"
  by (induction ys) auto

lemma mset_go_sort [simp, sort_simps]: "mset (go_sort lt xs) = mset xs"
  by (induction xs) auto

lemma set_go_insert [simp, sort_simps]: "set (go_insert lt x ys) = insert x (set ys)"
  by (induction ys) auto

lemma set_go_sort [simp, sort_simps]: "set (go_sort lt xs) = set xs"
  by (induction xs) auto

lemma length_go_sort [simp, sort_simps]: "length (go_sort lt xs) = length xs"
  by (metis mset_go_sort size_mset)

lemma distinct_go_sort [simp]: "distinct (go_sort lt xs) = distinct xs"
  by (metis mset_go_sort mset_eq_imp_distinct_iff)

lemma go_sort_eq_Nil [simp]: "go_sort lt xs = [] \<longleftrightarrow> xs = []"
  by (metis length_go_sort length_0_conv)

text \<open>
  The contract a comparison has to meet for the sort to be correct: a strict weak order on the set of
  elements being sorted. Comparisons of floats meet it away from NaN only, hence the carrier.
\<close>

locale weak_order_on =
  fixes A :: "'a set" and lt :: "'a \<Rightarrow> 'a \<Rightarrow> bool"
  assumes asym_on: "x \<in> A \<Longrightarrow> y \<in> A \<Longrightarrow> lt x y \<Longrightarrow> \<not> lt y x"
    and neg_trans_on: "x \<in> A \<Longrightarrow> y \<in> A \<Longrightarrow> z \<in> A \<Longrightarrow> \<not> lt y x \<Longrightarrow> \<not> lt z y \<Longrightarrow> \<not> lt z x"
begin

lemma sorted_go_insert:
  "x \<in> A \<Longrightarrow> set ys \<subseteq> A \<Longrightarrow> sorted_wrt (\<lambda>a b. \<not> lt b a) ys \<Longrightarrow>
     sorted_wrt (\<lambda>a b. \<not> lt b a) (go_insert lt x ys)"
proof (induction ys)
  case (Cons y ys)
  then have A: "y \<in> A" "\<And>z. z \<in> set ys \<Longrightarrow> z \<in> A" by auto
  show ?case
  proof (cases "lt y x")
    case True
    then show ?thesis using Cons A(1) asym_on [OF A(1) Cons.prems(1)] by simp
  next
    case False
    then have "\<not> lt z x" if "z \<in> set ys" for z
      using neg_trans_on [OF Cons.prems(1) A(1) A(2) [OF that]] Cons.prems(3) that by simp
    then show ?thesis using False Cons.prems by simp
  qed
qed simp

lemma sorted_go_sort: "set xs \<subseteq> A \<Longrightarrow> sorted_wrt (\<lambda>a b. \<not> lt b a) (go_sort lt xs)"
  by (induction xs) (simp_all add: sorted_go_insert)

text \<open>What a prefix of the sorted list holds comes no later than what it leaves out.\<close>

lemma sorted_prefix:
  assumes "set xs \<subseteq> A" "a \<in> set (take n (go_sort lt xs))" "b \<in> set (drop n (go_sort lt xs))"
  shows "\<not> lt b a"
proof -
  have "sorted_wrt (\<lambda>a b. \<not> lt b a) (take n (go_sort lt xs) @ drop n (go_sort lt xs))"
    using sorted_go_sort [OF assms(1)] by simp
  then show ?thesis using assms(2,3) by (auto simp only: sorted_wrt_append)
qed

end

locale weak_order =
  fixes lt :: "'a \<Rightarrow> 'a \<Rightarrow> bool"
  assumes asym: "lt x y \<Longrightarrow> \<not> lt y x"
    and neg_trans: "\<not> lt y x \<Longrightarrow> \<not> lt z y \<Longrightarrow> \<not> lt z x"

sublocale weak_order \<subseteq> everywhere: weak_order_on UNIV lt
  by unfold_locales (auto dest: asym neg_trans)

lemma sorted_wrt_antisym_unique:
  assumes "mset xs = mset ys" and "sorted_wrt R xs" and "sorted_wrt R ys"
    and "\<And>a b. a \<in> set xs \<Longrightarrow> b \<in> set xs \<Longrightarrow> R a b \<Longrightarrow> R b a \<Longrightarrow> a = b"
  shows "xs = ys"
  using assms
proof (induction xs arbitrary: ys)
  case Nil
  then show ?case by simp
next
  case (Cons x xs)
  from Cons.prems(1) obtain y ys' where ys: "ys = y # ys'"
    by (cases ys) auto
  have sets: "set (x # xs) = set ys"
    using Cons.prems(1) by (metis set_mset_mset)
  have "x = y"
  proof (rule ccontr)
    assume "x \<noteq> y"
    then have "y \<in> set xs" and "x \<in> set ys'"
      using sets ys by auto
    then have "R x y" and "R y x"
      using Cons.prems(2,3) ys by auto
    then show False
      using Cons.prems(4) [of x y] \<open>y \<in> set xs\<close> \<open>x \<noteq> y\<close> by simp
  qed
  moreover have "xs = ys'"
    by (rule Cons.IH) (use Cons.prems ys \<open>x = y\<close> in auto)
  ultimately show ?case by (simp add: ys)
qed

text \<open>\<open>sort.Strings\<close>.\<close>

definition sort_strings :: "string list \<Rightarrow> string list" where
  "sort_strings xs = go_sort (<) xs"

interpretation string_order: weak_order "(<) :: string \<Rightarrow> string \<Rightarrow> bool"
  by unfold_locales auto

lemma sorted_sort_strings [simp]: "sorted (sort_strings xs)"
  using string_order.everywhere.sorted_go_sort [of xs] by (simp add: sort_strings_def not_less)

lemma set_sort_strings [simp]: "set (sort_strings xs) = set xs"
  by (simp add: sort_strings_def)

lemma mset_sort_strings [simp]: "mset (sort_strings xs) = mset xs"
  by (simp add: sort_strings_def)

lemma distinct_sort_strings [simp]: "distinct (sort_strings xs) = distinct xs"
  by (simp add: sort_strings_def)

lemma length_sort_strings [simp]: "length (sort_strings xs) = length xs"
  by (simp add: sort_strings_def)

lemma sort_strings_perm: "mset xs = mset ys \<Longrightarrow> sort_strings xs = sort_strings ys"
  by (rule sorted_wrt_antisym_unique [where R = "(\<le>)"]) auto

lemma take_min_prefix: "take (min k (length xs)) (xs @ ys) = take k xs"
  by (cases "k \<le> length xs") (auto simp: min_def)

section \<open>Filtering a list with one position updated\<close>

lemma filter_update_remove:
  assumes "i < length xs" "\<not> P x" "\<not> Q (xs ! i)"
    and "\<And>j. j < length xs \<Longrightarrow> j \<noteq> i \<Longrightarrow> P (xs ! j) \<Longrightarrow> Q (xs ! j)"
  shows "filter P (xs[i := x]) = filter Q (filter P xs)"
proof -
  have xs: "xs = take i xs @ xs ! i # drop (Suc i) xs" using assms(1) by (rule id_take_nth_drop)
  have l: "filter P (take i xs) = filter (\<lambda>y. P y \<and> Q y) (take i xs)"
    by (rule filter_cong) (use assms(1,4) in \<open>auto simp: in_set_conv_nth\<close>)
  have r: "filter P (drop (Suc i) xs) = filter (\<lambda>y. P y \<and> Q y) (drop (Suc i) xs)"
    by (rule filter_cong) (use assms(1) assms(4) [of "Suc i + _"] in \<open>auto simp: in_set_conv_nth\<close>)
  have "filter Q (filter P xs) = filter (\<lambda>y. P y \<and> Q y) xs" by (simp add: conj_commute)
  also have "\<dots> = filter P (take i xs) @ filter P (drop (Suc i) xs)"
    by (subst xs) (simp add: l r assms(3))
  also have "\<dots> = filter P (xs[i := x])"
    using assms(1,2) by (simp add: upd_conv_take_nth_drop)
  finally show ?thesis by simp
qed

lemma filter_update_map:
  assumes "i < length xs" "P (xs ! i)" "P (f (xs ! i))" "Q (xs ! i)"
    and "\<And>j. j < length xs \<Longrightarrow> j \<noteq> i \<Longrightarrow> P (xs ! j) \<Longrightarrow> \<not> Q (xs ! j)"
  shows "filter P (xs[i := f (xs ! i)]) = map (\<lambda>y. if Q y then f y else y) (filter P xs)"
proof -
  have xs: "xs = take i xs @ xs ! i # drop (Suc i) xs" using assms(1) by (rule id_take_nth_drop)
  have l: "map (\<lambda>y. if Q y then f y else y) (filter P (take i xs)) = filter P (take i xs)"
    by (rule map_idI) (use assms(1,5) in \<open>auto simp: in_set_conv_nth\<close>)
  have r: "map (\<lambda>y. if Q y then f y else y) (filter P (drop (Suc i) xs)) = filter P (drop (Suc i) xs)"
    by (rule map_idI) (use assms(1) assms(5) [of "Suc i + _"] in \<open>auto simp: in_set_conv_nth\<close>)
  have "map (\<lambda>y. if Q y then f y else y) (filter P xs) =
      filter P (take i xs) @ f (xs ! i) # filter P (drop (Suc i) xs)"
    by (subst xs) (simp add: l r assms(2,4))
  then show ?thesis
    using assms(1,3) by (simp add: upd_conv_take_nth_drop)
qed

section \<open>Package strings\<close>

text \<open>
  The UTF-8 encodings of the code points \<open>unicode.IsSpace\<close> accepts. None of their first bytes can be
  a continuation byte, so matching the encodings at the front (or at the end) of a byte string is
  what decoding it rune by rune and testing each rune does, also when the string is not valid UTF-8.
\<close>

definition space_seqs :: "string list" where
  "space_seqs = [[CHR 0x09], [CHR 0x0A], [CHR 0x0B], [CHR 0x0C], [CHR 0x0D], [CHR 0x20],
     [CHR 0xC2, CHR 0x85], [CHR 0xC2, CHR 0xA0], [CHR 0xE1, CHR 0x9A, CHR 0x80],
     [CHR 0xE2, CHR 0x80, CHR 0x80], [CHR 0xE2, CHR 0x80, CHR 0x81], [CHR 0xE2, CHR 0x80, CHR 0x82],
     [CHR 0xE2, CHR 0x80, CHR 0x83], [CHR 0xE2, CHR 0x80, CHR 0x84], [CHR 0xE2, CHR 0x80, CHR 0x85],
     [CHR 0xE2, CHR 0x80, CHR 0x86], [CHR 0xE2, CHR 0x80, CHR 0x87], [CHR 0xE2, CHR 0x80, CHR 0x88],
     [CHR 0xE2, CHR 0x80, CHR 0x89], [CHR 0xE2, CHR 0x80, CHR 0x8A], [CHR 0xE2, CHR 0x80, CHR 0xA8],
     [CHR 0xE2, CHR 0x80, CHR 0xA9], [CHR 0xE2, CHR 0x80, CHR 0xAF], [CHR 0xE2, CHR 0x81, CHR 0x9F],
     [CHR 0xE3, CHR 0x80, CHR 0x80]]"

definition space_at :: "string \<Rightarrow> nat" where
  "space_at s = (case find (\<lambda>p. prefix p s) space_seqs of None \<Rightarrow> 0 | Some p \<Rightarrow> length p)"

definition space_end :: "string \<Rightarrow> nat" where
  "space_end s = (case find (\<lambda>p. suffix p s) space_seqs of None \<Rightarrow> 0 | Some p \<Rightarrow> length p)"

lemma space_at_Nil [simp]: "space_at [] = 0"
  by (simp add: space_at_def space_seqs_def)

lemma space_end_Nil [simp]: "space_end [] = 0"
  by (simp add: space_end_def space_seqs_def)

function trim_left :: "string \<Rightarrow> string" where
  "trim_left s = (if space_at s = 0 then s else trim_left (drop (space_at s) s))"
  by pat_completeness auto
termination
  by (relation "measure length") (auto intro: diff_less simp: length_greater_0_conv [symmetric]
      simp del: length_greater_0_conv intro!: Nat.gr0I)

function trim_right :: "string \<Rightarrow> string" where
  "trim_right s = (if space_end s = 0 then s else trim_right (take (length s - space_end s) s))"
  by pat_completeness auto
termination
  by (relation "measure length") (auto intro: diff_less simp: length_greater_0_conv [symmetric]
      simp del: length_greater_0_conv intro!: Nat.gr0I)

declare trim_left.simps [simp del] trim_right.simps [simp del]

definition trim_space :: "string \<Rightarrow> string" where
  "trim_space s = trim_right (trim_left s)"

text \<open>\<open>strings.Fields\<close>; the first argument is the field being read, in reverse.\<close>

function fields_from :: "string \<Rightarrow> string \<Rightarrow> string list" where
  "fields_from cur s =
     (if s = [] then (if cur = [] then [] else [rev cur])
      else if space_at s \<noteq> 0 then
        (if cur = [] then fields_from [] (drop (space_at s) s)
         else rev cur # fields_from [] (drop (space_at s) s))
      else fields_from (hd s # cur) (tl s))"
  by pat_completeness auto
termination
  by (relation "measure (\<lambda>(cur, s). length s)") auto

declare fields_from.simps [simp del]

definition go_fields :: "string \<Rightarrow> string list" where
  "go_fields s = fields_from [] s"

lemma fields_nonempty: "f \<in> set (fields_from cur s) \<Longrightarrow> f \<noteq> []"
proof (induction cur s rule: fields_from.induct)
  case (1 cur s)
  from "1.prems" show ?case
    by (subst (asm) fields_from.simps) (auto split: if_splits dest: "1.IH")
qed

text \<open>
  \<open>strings.ToLower\<close> where the result is compared with an ASCII literal: ASCII letters are lowered,
  the two code points outside ASCII whose lower case is an ASCII letter (U+0130 and U+212A) are
  replaced by it, and every other byte outside ASCII is kept, so it stays outside ASCII.
\<close>

definition lower_byte :: "char \<Rightarrow> char" where
  "lower_byte c = (let n = of_char c :: nat in if 65 \<le> n \<and> n \<le> 90 then char_of (n + 32) else c)"

fun to_lower :: "string \<Rightarrow> string" where
  "to_lower [] = []"
| "to_lower (a # s) =
     (if a = CHR 0xC4 \<and> prefix [CHR 0xB0] s then CHR ''i'' # to_lower (drop 1 s)
      else if a = CHR 0xE2 \<and> prefix [CHR 0x84, CHR 0xAA] s then CHR ''k'' # to_lower (drop 2 s)
      else lower_byte a # to_lower s)"

text \<open>Decimal rendering of a natural number, as \<open>%d\<close> prints it.\<close>

fun itoa :: "nat \<Rightarrow> string" where
  "itoa n = (if n < 10 then [char_of (48 + n)] else itoa (n div 10) @ [char_of (48 + n mod 10)])"

declare itoa.simps [simp del]

end
