(* ===== verification/Go_Float.thy ===== *)
theory Go_Float
  imports Prelude "HOL-Library.Log_Nat"
begin

text \<open>
  Go's \<open>float64\<close>: IEEE 754 binary64 with round-to-nearest, ties to even. A finite value is the
  rational it denotes; every arithmetic operation is the exact rational operation followed by
  \<open>r64\<close>, which rounds to 53 significant bits, to a multiple of \<open>2 ^ -1074\<close> in the subnormal range,
  and to an infinity from \<open>2 ^ 1024\<close> on. The two zeros are one value: the kernel never reads the
  sign of a zero and guards every division whose divisor may vanish. All operations are executable.

  What the components use is that rounding is monotone and exact on small integers: the locale
  \<open>rounding\<close> states this contract, \<open>r64\<close> is shown to meet it, and the facts about quotients are
  proved once from the contract.
\<close>

section \<open>Values and comparisons\<close>

datatype f64 = Fin rat | PInf | NInf | NaN

fun flt :: "f64 \<Rightarrow> f64 \<Rightarrow> bool" where
  "flt (Fin a) (Fin b) = (a < b)"
| "flt (Fin a) PInf = True"
| "flt NInf (Fin b) = True"
| "flt NInf PInf = True"
| "flt _ _ = False"

fun feq :: "f64 \<Rightarrow> f64 \<Rightarrow> bool" where
  "feq NaN _ = False"
| "feq _ NaN = False"
| "feq a b = (a = b)"

definition fle :: "f64 \<Rightarrow> f64 \<Rightarrow> bool" where
  "fle a b \<longleftrightarrow> flt a b \<or> feq a b"

definition fne :: "f64 \<Rightarrow> f64 \<Rightarrow> bool" where
  "fne a b \<longleftrightarrow> \<not> feq a b"

definition is_nan :: "f64 \<Rightarrow> bool" where "is_nan a \<longleftrightarrow> a = NaN"

definition is_inf :: "f64 \<Rightarrow> bool" where "is_inf a \<longleftrightarrow> a = PInf \<or> a = NInf"

definition is_fin :: "f64 \<Rightarrow> bool" where "is_fin a \<longleftrightarrow> \<not> is_nan a \<and> \<not> is_inf a"

lemma fle_Fin [simp]: "fle (Fin a) (Fin b) \<longleftrightarrow> a \<le> b"
  by (auto simp: fle_def)

lemma fle_NaN [simp]: "\<not> fle NaN b" "\<not> fle a NaN"
  by (auto simp: fle_def elim: flt.elims feq.elims)

lemma fle_PInf [simp]: "fle (Fin a) PInf" "fle PInf PInf" "\<not> fle PInf (Fin a)" "fle NInf PInf"
  by (auto simp: fle_def)

lemma fle_NInf [simp]: "fle NInf (Fin a)" "fle NInf NInf" "\<not> fle (Fin a) NInf" "\<not> fle PInf NInf"
  by (auto simp: fle_def)

lemma is_fin_iff: "is_fin a \<longleftrightarrow> (\<exists>x. a = Fin x)"
  by (cases a) (auto simp: is_fin_def is_nan_def is_inf_def)

lemma is_fin_simps [simp]: "is_fin (Fin x)" "\<not> is_fin PInf" "\<not> is_fin NInf" "\<not> is_fin NaN"
  by (auto simp: is_fin_iff)

lemma is_nan_simps [simp]: "\<not> is_nan (Fin x)" "\<not> is_nan PInf" "\<not> is_nan NInf" "is_nan NaN"
  by (auto simp: is_nan_def)

lemma is_inf_simps [simp]: "\<not> is_inf (Fin x)" "is_inf PInf" "is_inf NInf" "\<not> is_inf NaN"
  by (auto simp: is_inf_def)

lemma fle_trans [trans]: "fle a b \<Longrightarrow> fle b c \<Longrightarrow> fle a c"
  by (cases a; cases b; cases c) auto

lemma flt_not_fle: "flt a b \<Longrightarrow> \<not> fle b a"
  by (cases a; cases b) auto

lemma not_flt_fle: "\<not> is_nan a \<Longrightarrow> \<not> is_nan b \<Longrightarrow> \<not> flt a b \<longleftrightarrow> fle b a"
  by (cases a; cases b) auto

lemma flt_fle_trans: "flt a b \<Longrightarrow> fle b c \<Longrightarrow> flt a c"
  by (cases a; cases b; cases c) auto

lemma fle_flt_trans: "fle a b \<Longrightarrow> flt b c \<Longrightarrow> flt a c"
  by (cases a; cases b; cases c) auto

lemma flt_irrefl [simp]: "\<not> flt a a"
  by (cases a) auto

lemma flt_trans: "flt a b \<Longrightarrow> flt b c \<Longrightarrow> flt a c"
  by (cases a; cases b; cases c) auto

section \<open>Rounding\<close>

definition rne :: "rat \<Rightarrow> int" where
  "rne y = (let f = \<lfloor>y\<rfloor>; d = y - of_int f in
     if d < 1/2 then f else if 1/2 < d then f + 1 else if even f then f else f + 1)"

definition pow2 :: "int \<Rightarrow> rat" where
  "pow2 e = (if 0 \<le> e then 2 ^ nat e else 1 / 2 ^ nat (- e))"

text \<open>\<open>bexp x\<close> is the binary exponent of a non-zero \<open>x\<close>: \<open>pow2 (bexp x) \<le> \<bar>x\<bar> < pow2 (bexp x + 1)\<close>.\<close>

definition bexp :: "rat \<Rightarrow> int" where
  "bexp x = (let (n, d) = quotient_of \<bar>x\<bar>; k = bitlen n - bitlen d in
     if pow2 k \<le> \<bar>x\<bar> then k else k - 1)"

definition r64 :: "rat \<Rightarrow> f64" where
  "r64 x = (if x = 0 then Fin 0 else
     let u = pow2 (max (bexp x - 52) (- 1074)); y = of_int (rne (x / u)) * u in
       if 2 ^ 1024 \<le> y then PInf else if y \<le> - (2 ^ 1024) then NInf else Fin y)"

section \<open>Arithmetic\<close>

fun fneg :: "f64 \<Rightarrow> f64" where
  "fneg (Fin a) = Fin (- a)" | "fneg PInf = NInf" | "fneg NInf = PInf" | "fneg NaN = NaN"

fun fadd :: "f64 \<Rightarrow> f64 \<Rightarrow> f64" where
  "fadd NaN _ = NaN" | "fadd _ NaN = NaN"
| "fadd (Fin a) (Fin b) = r64 (a + b)"
| "fadd PInf NInf = NaN" | "fadd NInf PInf = NaN"
| "fadd PInf _ = PInf" | "fadd _ PInf = PInf"
| "fadd NInf _ = NInf" | "fadd _ NInf = NInf"

definition fsub :: "f64 \<Rightarrow> f64 \<Rightarrow> f64" where
  "fsub a b = fadd a (fneg b)"

definition finf :: "bool \<Rightarrow> f64" where
  "finf pos = (if pos then PInf else NInf)"

fun fmul :: "f64 \<Rightarrow> f64 \<Rightarrow> f64" where
  "fmul NaN _ = NaN" | "fmul _ NaN = NaN"
| "fmul (Fin a) (Fin b) = r64 (a * b)"
| "fmul (Fin a) PInf = (if a = 0 then NaN else finf (0 < a))"
| "fmul (Fin a) NInf = (if a = 0 then NaN else finf (a < 0))"
| "fmul PInf (Fin b) = (if b = 0 then NaN else finf (0 < b))"
| "fmul NInf (Fin b) = (if b = 0 then NaN else finf (b < 0))"
| "fmul PInf PInf = PInf" | "fmul NInf NInf = PInf" | "fmul PInf NInf = NInf" | "fmul NInf PInf = NInf"

fun fdiv :: "f64 \<Rightarrow> f64 \<Rightarrow> f64" where
  "fdiv NaN _ = NaN" | "fdiv _ NaN = NaN"
| "fdiv (Fin a) (Fin b) = (if b = 0 then (if a = 0 then NaN else finf (0 < a)) else r64 (a / b))"
| "fdiv (Fin a) _ = Fin 0"
| "fdiv PInf (Fin b) = finf (0 \<le> b)"
| "fdiv NInf (Fin b) = finf (b < 0)"
| "fdiv _ _ = NaN"

text \<open>\<open>float64(n)\<close> of an integer, and a constant of the source.\<close>

definition f_of_int :: "int \<Rightarrow> f64" where
  "f_of_int n = r64 (of_int n)"

abbreviation f0 :: f64 where "f0 \<equiv> Fin 0"
abbreviation f1 :: f64 where "f1 \<equiv> Fin 1"

section \<open>Rounding is monotone\<close>

lemma rne_floor: "\<lfloor>y\<rfloor> \<le> rne y" "rne y \<le> \<lfloor>y\<rfloor> + 1"
  by (auto simp: rne_def Let_def)

lemma rne_of_int [simp]: "rne (of_int n) = n"
  by (simp add: rne_def)

lemma rne_mono: assumes "x \<le> y" shows "rne x \<le> rne y"
proof (cases "\<lfloor>x\<rfloor> = \<lfloor>y\<rfloor>")
  case True
  with assms show ?thesis by (auto simp: rne_def Let_def)
next
  case False
  with assms have "\<lfloor>x\<rfloor> + 1 \<le> \<lfloor>y\<rfloor>" using floor_mono [OF assms] by linarith
  with rne_floor [of x] rne_floor [of y] show ?thesis by linarith
qed

lemma rne_minus: "rne (- y) = - rne y"
proof (cases "y = of_int \<lfloor>y\<rfloor>")
  case True
  then have "rne y = \<lfloor>y\<rfloor>" "rne (- y) = - \<lfloor>y\<rfloor>"
    by (metis rne_of_int, metis of_int_minus rne_of_int)
  then show ?thesis by simp
next
  case False
  define d where "d = y - of_int \<lfloor>y\<rfloor>"
  have d: "0 < d" "d < 1"
    using False floor_correct [of y] by (auto simp: d_def less_le)
  have f: "\<lfloor>- y\<rfloor> = - \<lfloor>y\<rfloor> - 1"
    by (rule floor_unique) (use d in \<open>auto simp: d_def\<close>)
  then have "- y - of_int \<lfloor>- y\<rfloor> = 1 - d" by (simp add: d_def)
  with f d show ?thesis by (auto simp: rne_def Let_def d_def [symmetric] even_add)
qed

lemma pow2_pos [simp]: "0 < pow2 e"
  by (simp add: pow2_def)

lemma pow2_nonzero [simp]: "pow2 e \<noteq> 0"
  using pow2_pos [of e] by linarith

lemma abs_pow2 [simp]: "\<bar>pow2 e\<bar> = pow2 e"
  by (simp add: less_imp_le)

lemma pow2_powi: "pow2 e = 2 powi e"
  by (simp add: pow2_def power_int_def power_one_over inverse_eq_divide)

lemma pow2_add: "pow2 (a + b) = pow2 a * pow2 b"
  by (simp add: pow2_powi power_int_add)

lemma pow2_mono: "a \<le> b \<Longrightarrow> pow2 a \<le> pow2 b"
  by (simp add: pow2_powi power_int_increasing)

lemma pow2_nat: "0 \<le> e \<Longrightarrow> pow2 e = of_int (2 ^ nat e)"
  by (simp add: pow2_def)

lemma bexp_bounds:
  assumes "x \<noteq> 0"
  shows "pow2 (bexp x) \<le> \<bar>x\<bar>" and "\<bar>x\<bar> < pow2 (bexp x + 1)"
proof -
  obtain n d where q: "quotient_of \<bar>x\<bar> = (n, d)" by force
  have d: "0 < d" and x: "\<bar>x\<bar> = of_int n / of_int d"
    using quotient_of_denom_pos [OF q] quotient_of_div [OF q] by auto
  have "0 < \<bar>x\<bar>" using assms by simp
  then have "0 < (of_int n :: rat)" using d by (simp add: x zero_less_divide_iff)
  then have n: "0 < n" by simp
  have pw: "\<And>k::int. 0 < k \<Longrightarrow> pow2 (bitlen k - 1) \<le> of_int k \<and> of_int k < pow2 (bitlen k)"
  proof -
    fix k :: int assume "0 < k"
    then have "0 < bitlen k" "2 ^ nat (bitlen k - 1) \<le> k" "k < 2 ^ nat (bitlen k)"
      using bitlen_bounds [of k] by (auto simp: bitlen_eq_zero_iff bitlen_nonneg less_le)
    then show "pow2 (bitlen k - 1) \<le> of_int k \<and> of_int k < pow2 (bitlen k)"
      by (auto simp: pow2_nat simp del: of_int_power)
  qed
  define k where "k = bitlen n - bitlen d"
  have "of_int n / of_int d < pow2 (bitlen n) / pow2 (bitlen d - 1)"
    using pw [OF n] pw [OF d] d n by (intro frac_less) auto
  also have "\<dots> = pow2 (k + 1)"
    using pow2_add [of "k + 1" "bitlen d - 1"] by (simp add: k_def field_simps)
  finally have up: "\<bar>x\<bar> < pow2 (k + 1)" by (simp add: x)
  have "pow2 (k - 1) = pow2 (bitlen n - 1) / pow2 (bitlen d)"
    using pow2_add [of "k - 1" "bitlen d"] by (simp add: k_def field_simps)
  also have "\<dots> \<le> of_int n / of_int d"
    using pw [OF n] pw [OF d] d n by (intro frac_le) auto
  finally have low: "pow2 (k - 1) \<le> \<bar>x\<bar>" by (simp add: x)
  have b: "bexp x = (if pow2 k \<le> \<bar>x\<bar> then k else k - 1)"
    by (simp add: bexp_def q k_def)
  show "pow2 (bexp x) \<le> \<bar>x\<bar>" using low by (simp add: b)
  show "\<bar>x\<bar> < pow2 (bexp x + 1)" using up by (simp add: b)
qed

lemma pow2_less_cancel: "pow2 a < pow2 b \<Longrightarrow> a < b"
  by (meson pow2_mono not_less)

lemma bexp_mono: assumes "0 < x" "x \<le> y" shows "bexp x \<le> bexp y"
proof -
  have "pow2 (bexp x) \<le> \<bar>x\<bar>" "\<bar>y\<bar> < pow2 (bexp y + 1)"
    using bexp_bounds [of x] bexp_bounds [of y] assms by auto
  then have "pow2 (bexp x) < pow2 (bexp y + 1)" using assms by simp
  from pow2_less_cancel [OF this] show ?thesis by simp
qed

text \<open>The rounded value before the overflow test.\<close>

definition rq :: "rat \<Rightarrow> rat" where
  "rq x = (if x = 0 then 0 else
     let u = pow2 (max (bexp x - 52) (- 1074)) in of_int (rne (x / u)) * u)"

lemma r64_rq: "r64 x = (if 2 ^ 1024 \<le> rq x then PInf else if rq x \<le> - (2 ^ 1024) then NInf else Fin (rq x))"
  by (simp add: r64_def rq_def Let_def)

lemma bexp_minus [simp]: "bexp (- x) = bexp x"
  by (simp add: bexp_def)

lemma rq_zero [simp]: "rq 0 = 0"
  by (simp add: rq_def)

lemma rq_minus: "rq (- x) = - rq x"
  by (simp add: rq_def Let_def rne_minus)

lemma rq_nonneg: assumes "0 \<le> x" shows "0 \<le> rq x"
proof -
  have "0 \<le> rne (x / pow2 e)" for e
    using rne_mono [of 0 "x / pow2 e"] rne_of_int [of 0] assms less_imp_le [OF pow2_pos [of e]]
    by (simp del: pow2_pos)
  then show ?thesis
    by (simp add: rq_def Let_def zero_le_mult_iff less_imp_le)
qed

text \<open>Grid points bound the rounding of what lies below or above them.\<close>

lemma rq_le_grid:
  assumes "0 < x" "x \<le> pow2 t" "max (bexp x - 52) (- 1074) \<le> t"
  shows "rq x \<le> pow2 t"
proof -
  define e where "e = max (bexp x - 52) (- 1074)"
  have t: "pow2 t = of_int (2 ^ nat (t - e)) * pow2 e"
    using pow2_add [of "t - e" e] assms(3) by (simp add: e_def pow2_nat)
  have "rne (x / pow2 e) \<le> rne (of_int (2 ^ nat (t - e)))"
    by (rule rne_mono) (use assms(2) t in \<open>simp add: divide_le_eq\<close>)
  then have "rne (x / pow2 e) \<le> 2 ^ nat (t - e)" by (simp del: of_int_power)
  then have "(of_int (rne (x / pow2 e)) :: rat) \<le> of_int (2 ^ nat (t - e))"
    by (simp only: of_int_le_iff)
  then have "of_int (rne (x / pow2 e)) * pow2 e \<le> pow2 t"
    unfolding t by (rule mult_right_mono) (simp add: less_imp_le)
  then show ?thesis using assms(1) by (simp add: rq_def e_def Let_def)
qed

lemma rq_ge_grid:
  assumes "0 < x" "pow2 t \<le> x" "max (bexp x - 52) (- 1074) \<le> t"
  shows "pow2 t \<le> rq x"
proof -
  define e where "e = max (bexp x - 52) (- 1074)"
  have t: "pow2 t = of_int (2 ^ nat (t - e)) * pow2 e"
    using pow2_add [of "t - e" e] assms(3) by (simp add: e_def pow2_nat)
  have "rne (of_int (2 ^ nat (t - e))) \<le> rne (x / pow2 e)"
    by (rule rne_mono) (use assms(2) t in \<open>simp add: le_divide_eq\<close>)
  then have "2 ^ nat (t - e) \<le> rne (x / pow2 e)" by (simp del: of_int_power)
  then have "(of_int (2 ^ nat (t - e)) :: rat) \<le> of_int (rne (x / pow2 e))"
    by (simp only: of_int_le_iff)
  then have "pow2 t \<le> of_int (rne (x / pow2 e)) * pow2 e"
    unfolding t by (rule mult_right_mono) (simp add: less_imp_le)
  then show ?thesis using assms(1) by (simp add: rq_def e_def Let_def)
qed

lemma rq_mono_pos:
  assumes "0 < x" "x \<le> y" shows "rq x \<le> rq y"
proof -
  define ex ey where "ex = max (bexp x - 52) (- 1074)" and "ey = max (bexp y - 52) (- 1074)"
  have y: "0 < y" using assms by simp
  have le: "ex \<le> ey" using bexp_mono [OF assms] by (simp add: ex_def ey_def)
  show ?thesis
  proof (cases "ex = ey")
    case True
    have "rne (x / pow2 ex) \<le> rne (y / pow2 ex)"
      by (rule rne_mono) (use assms in \<open>simp add: divide_right_mono less_imp_le\<close>)
    then have "of_int (rne (x / pow2 ex)) * pow2 ex \<le> of_int (rne (y / pow2 ex)) * pow2 ex"
      by (intro mult_right_mono) (auto simp: less_imp_le)
    then show ?thesis using assms y True
      by (simp add: rq_def Let_def ex_def [symmetric] ey_def [symmetric])
  next
    case False
    define t where "t = max (bexp x + 1) ex"
    have ey: "ey = bexp y - 52" and ty: "t \<le> bexp y"
      using le False by (auto simp: ex_def ey_def t_def)
    have "x \<le> pow2 t"
      using bexp_bounds(2) [of x] assms pow2_mono [of "bexp x + 1" t] by (auto simp: t_def)
    then have "rq x \<le> pow2 t"
      using assms by (intro rq_le_grid) (auto simp: t_def ex_def)
    also have "\<dots> \<le> pow2 (bexp y)" by (rule pow2_mono [OF ty])
    also have "\<dots> \<le> rq y"
      using bexp_bounds(1) [of y] y ey by (intro rq_ge_grid) (auto simp: ey_def)
    finally show ?thesis .
  qed
qed

lemma rq_mono: assumes "x \<le> y" shows "rq x \<le> rq y"
proof -
  consider "0 < x" | "x \<le> 0" "0 \<le> y" | "y < 0" by linarith
  then show ?thesis
  proof cases
    case 1 then show ?thesis using assms by (rule rq_mono_pos)
  next
    case 2
    then have "0 \<le> rq (- x)" "0 \<le> rq y" by (auto intro!: rq_nonneg)
    then show ?thesis by (simp add: rq_minus)
  next
    case 3
    then have "rq (- y) \<le> rq (- x)" using assms by (intro rq_mono_pos) auto
    then show ?thesis by (simp add: rq_minus)
  qed
qed

lemma r64_mono: "x \<le> y \<Longrightarrow> fle (r64 x) (r64 y)"
  using rq_mono [of x y] by (auto simp: r64_rq)

lemma rq_exact:
  assumes "\<bar>n\<bar> < 2 ^ 53" "- 1074 \<le> e"
  shows "rq (of_int n * pow2 e) = of_int n * pow2 e"
proof (cases "n = 0")
  case False
  define x where "x = of_int n * pow2 e"
  define ex where "ex = max (bexp x - 52) (- 1074)"
  have "x \<noteq> 0" using False by (simp add: x_def)
  have "\<bar>of_int n :: rat\<bar> < of_int (2 ^ 53)"
    using assms(1) by (metis of_int_abs of_int_less_iff)
  then have "\<bar>x\<bar> < of_int (2 ^ 53) * pow2 e"
    unfolding x_def abs_mult by (simp add: mult_strict_right_mono)
  also have "\<dots> = pow2 (53 + e)" by (simp only: pow2_add) (simp add: pow2_def)
  finally have "pow2 (bexp x) < pow2 (53 + e)"
    using bexp_bounds(1) [OF \<open>x \<noteq> 0\<close>] by linarith
  from pow2_less_cancel [OF this] have le: "ex \<le> e" using assms(2) by (simp add: ex_def)
  have "x = of_int (n * 2 ^ nat (e - ex)) * pow2 ex"
    using pow2_add [of "e - ex" ex] le by (simp add: x_def pow2_nat)
  then have "x / pow2 ex = of_int (n * 2 ^ nat (e - ex))" by (simp add: field_simps)
  then have "of_int (rne (x / pow2 ex)) * pow2 ex = x"
    by (metis rne_of_int \<open>x = of_int (n * 2 ^ nat (e - ex)) * pow2 ex\<close>)
  then show ?thesis
    using \<open>x \<noteq> 0\<close> by (simp add: rq_def Let_def x_def [symmetric] ex_def [symmetric])
qed simp

text \<open>Rounding is idempotent: the mantissa has at most 53 bits, or is the power of two above them.\<close>

lemma mantissa_bound:
  assumes "x \<noteq> 0" shows "\<bar>rne (x / pow2 (max (bexp x - 52) (- 1074)))\<bar> \<le> 2 ^ 53"
proof -
  let ?e = "max (bexp x - 52) (- 1074)"
  have "\<bar>x\<bar> < pow2 (bexp x + 1)" using bexp_bounds(2) [OF assms] .
  also have "\<dots> \<le> pow2 (53 + ?e)" by (rule pow2_mono) simp
  also have "\<dots> = of_int (2 ^ 53) * pow2 ?e" by (simp only: pow2_add) (simp add: pow2_def)
  finally have "\<bar>x / pow2 ?e\<bar> \<le> of_int (2 ^ 53)"
    by (simp add: abs_divide divide_le_eq)
  then have "x / pow2 ?e \<le> of_int (2 ^ 53)" "of_int (- (2 ^ 53)) \<le> x / pow2 ?e"
    by (simp_all only: abs_le_iff of_int_minus) simp_all
  then have "rne (x / pow2 ?e) \<le> 2 ^ 53" "- (2 ^ 53) \<le> rne (x / pow2 ?e)"
    using rne_mono [of "x / pow2 ?e" "of_int (2 ^ 53)"] rne_mono [of "of_int (- (2 ^ 53))" "x / pow2 ?e"]
    by (simp_all only: rne_of_int)
  then show ?thesis by simp
qed

lemma rq_idem: "rq (rq x) = rq x"
proof (cases "x = 0")
  case False
  define e where "e = max (bexp x - 52) (- 1074)"
  define m where "m = rne (x / pow2 e)"
  have r: "rq x = of_int m * pow2 e" using False by (simp add: rq_def Let_def e_def m_def)
  have m: "\<bar>m\<bar> \<le> 2 ^ 53" using mantissa_bound [OF False] by (simp add: m_def e_def)
  have e: "- 1074 \<le> e" by (simp add: e_def)
  show ?thesis
  proof (cases "\<bar>m\<bar> < 2 ^ 53")
    case True
    then show ?thesis using rq_exact [OF True e] r by simp
  next
    case False
    then have "m = 2 ^ 53 \<or> m = - (2 ^ 53)" using m by auto
    then obtain k where k: "m = k * 2" "\<bar>k\<bar> < 2 ^ 53"
      by (auto intro: that [of "2 ^ 52"] that [of "- (2 ^ 52)"])
    have "rq x = of_int k * pow2 (e + 1)" by (simp add: r k(1) pow2_add) (simp add: pow2_def)
    then show ?thesis using rq_exact [OF k(2), of "e + 1"] e by simp
  qed
qed simp

lemma r64_idem: "r64 x = Fin r \<Longrightarrow> r64 r = Fin r"
  using rq_idem [of x] by (auto simp: r64_rq split: if_splits)

lemma r64_not_nan [simp]: "r64 x \<noteq> NaN" "\<not> is_nan (r64 x)"
  by (simp_all add: r64_rq)

lemma r64_of_int: assumes "\<bar>n\<bar> < 2 ^ 53" shows "r64 (of_int n) = Fin (of_int n)"
proof -
  have "rq (of_int n) = of_int n" using rq_exact [OF assms, of 0] by (simp add: pow2_def)
  moreover have "\<bar>of_int n :: rat\<bar> < 2 ^ 53"
    using assms by (metis of_int_abs of_int_less_iff of_int_numeral of_int_power)
  ultimately show ?thesis by (auto simp: r64_rq abs_less_iff)
qed

text \<open>
  The overflow test compares with \<open>2 ^ 1024\<close>, which is slow to evaluate; below a binary exponent of
  1000 it cannot succeed, and the code equation skips it there.
\<close>

lemma rq_upper: assumes "x \<noteq> 0" shows "\<bar>rq x\<bar> \<le> pow2 (max (bexp x + 1) (- 1074))"
proof -
  have pos: "rq y \<le> pow2 (max (bexp y + 1) (- 1074))" if "0 < y" for y
    using that bexp_bounds(2) [of y] pow2_mono [of "bexp y + 1" "max (bexp y + 1) (- 1074)"]
    by (intro rq_le_grid) auto
  show ?thesis
    using pos [of x] pos [of "- x"] assms rq_nonneg [of x] rq_nonneg [of "- x"]
    by (cases "0 < x") (auto simp: rq_minus)
qed

lemma r64_code [code]:
  "r64 x = (if x = 0 then Fin 0 else
     let b = bexp x; u = pow2 (max (b - 52) (- 1074)); y = of_int (rne (x / u)) * u in
       if b < 1000 then Fin y
       else if 2 ^ 1024 \<le> y then PInf else if y \<le> - (2 ^ 1024) then NInf else Fin y)"
proof (cases "x = 0 \<or> 1000 \<le> bexp x")
  case True
  then show ?thesis by (auto simp: r64_def Let_def)
next
  case False
  have "\<bar>rq x\<bar> \<le> pow2 1000"
    using rq_upper [of x] pow2_mono [of "max (bexp x + 1) (- 1074)" 1000] False by linarith
  also have "\<dots> < 2 ^ 1024" by (simp add: pow2_def)
  finally have "r64 x = Fin (rq x)" by (auto simp: r64_rq)
  with False show ?thesis by (simp add: rq_def Let_def)
qed

section \<open>The contract of rounding and its consequences\<close>

locale rounding =
  fixes rnd :: "rat \<Rightarrow> f64"
  assumes mono: "x \<le> y \<Longrightarrow> fle (rnd x) (rnd y)"
    and at_zero: "rnd 0 = Fin 0"
    and at_one: "rnd 1 = Fin 1"
begin

lemma nonneg: "0 \<le> x \<Longrightarrow> fle (Fin 0) (rnd x)"
  using mono [of 0 x] by (simp add: at_zero)

lemma nonpos: "x \<le> 0 \<Longrightarrow> fle (rnd x) (Fin 0)"
  using mono [of x 0] by (simp add: at_zero)

lemma unit_interval: assumes "0 \<le> x" "x \<le> 1" obtains q where "rnd x = Fin q" "0 \<le> q" "q \<le> 1"
proof -
  have "fle (Fin 0) (rnd x)" "fle (rnd x) (Fin 1)"
    using mono [of 0 x] mono [of x 1] assms by (auto simp: at_zero at_one)
  then show ?thesis by (cases "rnd x") (auto intro: that)
qed

lemma quotient_mono: "0 < b \<Longrightarrow> a \<le> a' \<Longrightarrow> fle (rnd (a / b)) (rnd (a' / b))"
  by (rule mono) (simp add: divide_right_mono)

lemma quotient_antimono: "0 \<le> a \<Longrightarrow> 0 < b \<Longrightarrow> b \<le> b' \<Longrightarrow> fle (rnd (a / b')) (rnd (a / b))"
  by (rule mono) (simp add: divide_left_mono)

end

interpretation r64: rounding r64
proof
  show "x \<le> y \<Longrightarrow> fle (r64 x) (r64 y)" for x y by (rule r64_mono)
  show "r64 0 = Fin 0" by (simp add: r64_def)
  show "r64 1 = Fin 1" using r64_of_int [of 1] by simp
qed

lemmas r64_01 [simp] = r64.at_zero r64.at_one

lemma fdiv_pos: "0 < b \<Longrightarrow> fdiv (Fin a) (Fin b) = r64 (a / b)"
  by simp

lemma fdiv_mono_left:
  "fle a a' \<Longrightarrow> flt f0 b \<Longrightarrow> is_fin b \<Longrightarrow> is_fin a' \<Longrightarrow> is_fin a \<Longrightarrow> fle (fdiv a b) (fdiv a' b)"
  by (auto simp: is_fin_iff intro: r64.quotient_mono)

lemma fdiv_le_one:
  assumes "fle a b" "flt f0 a" "is_fin b"
  shows "fle (fdiv a b) f1" and "fle f0 (fdiv a b)"
proof -
  from assms obtain x y where "a = Fin x" "b = Fin y" "0 < x" "x \<le> y"
    by (cases a; cases b) auto
  then have "0 \<le> x / y" "x / y \<le> 1" by (auto simp: divide_le_eq)
  then obtain q where "r64 (x / y) = Fin q" "0 \<le> q" "q \<le> 1" by (rule r64.unit_interval)
  then show "fle (fdiv a b) f1" "fle f0 (fdiv a b)"
    using \<open>a = Fin x\<close> \<open>b = Fin y\<close> \<open>0 < x\<close> \<open>x \<le> y\<close> by auto
qed

lemma f_of_int_mono: "a \<le> b \<Longrightarrow> fle (f_of_int a) (f_of_int b)"
  by (simp add: f_of_int_def r64_mono)

lemma f_of_int_small: "\<bar>n\<bar> < 2 ^ 53 \<Longrightarrow> f_of_int n = Fin (of_int n)"
  by (simp add: f_of_int_def r64_of_int)

end
