(* ===== verification/Slice_Types.thy ===== *)
theory Slice_Types
  imports Go_Float
begin

text \<open>
  The data model of the memory kernel, \<open>kernel/slice/slice.go\<close>, with the scope admission matrix of
  \<open>kernel/slice/admission.go\<close>. A \<open>SliceType\<close> and a \<open>Scope\<close> are Go integers with named constants:
  a value outside the named range, which a library file may carry, is \<open>OtherType\<close> or \<open>OtherScope\<close>.
  Record fields keep the source's names behind a prefix per struct.
\<close>

section \<open>Types and scopes\<close>

datatype SliceType = Prompt | Context | ToolPattern | Result | Memory | OtherType int

datatype Scope = Session | Project | User | OtherScope int

fun SliceType_String :: "SliceType \<Rightarrow> string" where
  "SliceType_String Prompt = ''prompt''"
| "SliceType_String Context = ''context''"
| "SliceType_String ToolPattern = ''tool_pattern''"
| "SliceType_String Result = ''result''"
| "SliceType_String Memory = ''memory''"
| "SliceType_String (OtherType _) = ''unknown''"

text \<open>\<open>None\<close> is the result \<open>(0, false)\<close>.\<close>

definition TypeFromString :: "string \<Rightarrow> SliceType option" where
  "TypeFromString s =
     (if s = ''prompt'' then Some Prompt
      else if s = ''context'' then Some Context
      else if s = ''tool_pattern'' then Some ToolPattern
      else if s = ''result'' then Some Result
      else if s = ''memory'' then Some Memory
      else None)"

fun EvictPriorityOf :: "SliceType \<Rightarrow> int" where
  "EvictPriorityOf Result = 0"
| "EvictPriorityOf ToolPattern = 1"
| "EvictPriorityOf Memory = 2"
| "EvictPriorityOf Prompt = 3"
| "EvictPriorityOf Context = 4"
| "EvictPriorityOf (OtherType _) = 5"

fun Scope_String :: "Scope \<Rightarrow> string" where
  "Scope_String Session = ''session''"
| "Scope_String Project = ''project''"
| "Scope_String User = ''user''"
| "Scope_String (OtherScope _) = ''unknown''"

section \<open>Usage statistics\<close>

record SliceStats =
  st_Hits :: u64
  st_Misses :: u64
  st_Injected :: u64
  st_Rejected :: u64
  st_Useful :: u64
  st_Neutral :: u64
  st_Harmful :: u64
  st_UserFeedback :: f64
  st_LastUsed :: int

definition zero_stats :: SliceStats where
  "zero_stats = \<lparr>st_Hits = 0, st_Misses = 0, st_Injected = 0, st_Rejected = 0, st_Useful = 0,
     st_Neutral = 0, st_Harmful = 0, st_UserFeedback = f0, st_LastUsed = 0\<rparr>"

definition mergeStats :: "SliceStats \<Rightarrow> SliceStats \<Rightarrow> SliceStats" where
  "mergeStats cur delta =
     cur\<lparr>st_Hits := st_Hits cur + st_Hits delta,
         st_Misses := st_Misses cur + st_Misses delta,
         st_Injected := st_Injected cur + st_Injected delta,
         st_Rejected := st_Rejected cur + st_Rejected delta,
         st_Useful := st_Useful cur + st_Useful delta,
         st_Neutral := st_Neutral cur + st_Neutral delta,
         st_Harmful := st_Harmful cur + st_Harmful delta,
         st_UserFeedback := fadd (st_UserFeedback cur) (st_UserFeedback delta),
         st_LastUsed := (if st_LastUsed delta > st_LastUsed cur then st_LastUsed delta
                         else st_LastUsed cur)\<rparr>"

section \<open>Provenance\<close>

type_synonym Origin = string
type_synonym ResultStatus = string
type_synonym Deps = "(string, string) gomap"

definition ResultStatusProbation :: ResultStatus where "ResultStatusProbation = ''probation''"
definition ResultStatusVerified :: ResultStatus where "ResultStatusVerified = ''verified''"

definition OriginSessionAuto :: Origin where "OriginSessionAuto = ''session-auto''"
definition OriginPrefetch :: Origin where "OriginPrefetch = ''prefetch''"
definition OriginImport :: Origin where "OriginImport = ''import''"
definition OriginUserCurated :: Origin where "OriginUserCurated = ''user-curated''"

lemmas origin_defs = OriginSessionAuto_def OriginPrefetch_def OriginImport_def OriginUserCurated_def
lemmas status_defs = ResultStatusProbation_def ResultStatusVerified_def

definition Origin_Level :: "Origin \<Rightarrow> int" where
  "Origin_Level orig =
     (if orig = OriginUserCurated then 3
      else if orig = OriginSessionAuto \<or> orig = OriginPrefetch then 2
      else 1)"

definition Origin_Valid :: "Origin \<Rightarrow> bool" where
  "Origin_Valid orig \<longleftrightarrow>
     orig = OriginSessionAuto \<or> orig = OriginPrefetch \<or> orig = OriginImport \<or> orig = OriginUserCurated"

record SliceMeta =
  m_SourceSession :: string
  m_SourceSessions :: "string list"
  m_TaskType :: string
  m_Language :: string
  m_ProjectSlug :: string
  m_BaseCommit :: string
  m_Origin :: Origin
  m_CompressionVersion :: string
  m_SanitizeVersion :: string
  m_OriginalBytes :: int
  m_StoredBytes :: int
  m_Historical :: bool
  m_Deps :: Deps
  m_Mtimes :: "(string, int) gomap"
  m_L3Safe :: bool
  m_EmbedModel :: string
  m_EmbedDim :: int
  m_EmbedSource :: string
  m_EmbedContentHash :: string
  m_ContextHash :: string
  m_Model :: string
  m_ResultStatus :: ResultStatus
  m_ResultVerifiedBy :: string
  m_ResultVerificationEvidence :: string

definition zero_meta :: SliceMeta where
  "zero_meta = \<lparr>m_SourceSession = [], m_SourceSessions = [], m_TaskType = [], m_Language = [],
     m_ProjectSlug = [], m_BaseCommit = [], m_Origin = [], m_CompressionVersion = [],
     m_SanitizeVersion = [], m_OriginalBytes = 0, m_StoredBytes = 0, m_Historical = False,
     m_Deps = [], m_Mtimes = [], m_L3Safe = False, m_EmbedModel = [], m_EmbedDim = 0,
     m_EmbedSource = [], m_EmbedContentHash = [], m_ContextHash = [], m_Model = [],
     m_ResultStatus = [], m_ResultVerifiedBy = [], m_ResultVerificationEvidence = []\<rparr>"

definition EffectiveResultStatus :: "SliceMeta \<Rightarrow> ResultStatus" where
  "EffectiveResultStatus m =
     (if m_ResultStatus m = ResultStatusVerified then ResultStatusVerified
      else ResultStatusProbation)"

section \<open>Slices and search hits\<close>

text \<open>
  \<open>Embedding\<close> is a vector of \<open>float32\<close>; the kernel code modelled here only tests it for nil, drops
  it and marshals it, so it is kept as the JSON text of the vector, \<open>None\<close> standing for nil.
\<close>

record Slice =
  sl_ID :: string
  sl_Type :: SliceType
  sl_Scope :: Scope
  sl_Content :: string
  sl_Embedding :: "string option"
  sl_Stats :: SliceStats
  sl_Weight :: f64
  sl_Meta :: SliceMeta
  sl_CreatedAt :: int

definition zero_slice :: Slice where
  "zero_slice = \<lparr>sl_ID = [], sl_Type = Prompt, sl_Scope = Session, sl_Content = [],
     sl_Embedding = None, sl_Stats = zero_stats, sl_Weight = f0, sl_Meta = zero_meta,
     sl_CreatedAt = 0\<rparr>"

text \<open>A \<open>Hit\<close> points to its slice; \<open>None\<close> is the nil pointer.\<close>

record Hit =
  h_Slice :: "Slice option"
  h_Score :: f64
  h_QueryCoverage :: f64
  h_QueryCoverageValid :: bool
  h_Lexical :: f64
  h_LexicalValid :: bool

definition IsHistoricalObservation :: "Slice option \<Rightarrow> bool" where
  "IsHistoricalObservation os = (case os of None \<Rightarrow> False | Some s \<Rightarrow>
     m_Historical (sl_Meta s) \<and> (sl_Type s = Context \<or> sl_Type s = Memory) \<and>
     Origin_Level (m_Origin (sl_Meta s)) \<ge> Origin_Level OriginSessionAuto \<and>
     m_SourceSession (sl_Meta s) \<noteq> [] \<and> m_BaseCommit (sl_Meta s) \<noteq> [])"

section \<open>The scope admission matrix\<close>

text \<open>\<open>EnforceAdmission\<close> adjusts the slice in place: the model returns it with the reported flag.\<close>

definition EnforceAdmission :: "Slice \<Rightarrow> Slice \<times> bool" where
  "EnforceAdmission s =
     (if sl_Scope s \<noteq> User then (s, False)
      else case sl_Type s of
             ToolPattern \<Rightarrow> (s\<lparr>sl_Scope := Project\<rparr>, True)
           | Result \<Rightarrow> (s\<lparr>sl_Scope := Project\<rparr>, True)
           | _ \<Rightarrow> (s, False))"

definition admitted :: "Slice \<Rightarrow> bool" where
  "admitted s \<longleftrightarrow> \<not> (sl_Scope s = User \<and> (sl_Type s = ToolPattern \<or> sl_Type s = Result))"

section \<open>Facts\<close>

text \<open>Admission establishes the matrix, is the identity on what it holds for, and moves only the scope.\<close>

lemma EnforceAdmission_admitted [simp]: "admitted (fst (EnforceAdmission s))"
  by (auto simp: EnforceAdmission_def admitted_def split: SliceType.splits)

lemma EnforceAdmission_id [simp]: "admitted s \<Longrightarrow> EnforceAdmission s = (s, False)"
  by (auto simp: EnforceAdmission_def admitted_def split: SliceType.splits)

lemma EnforceAdmission_ID [simp]: "sl_ID (fst (EnforceAdmission s)) = sl_ID s"
  by (auto simp: EnforceAdmission_def split: SliceType.splits)

lemma EnforceAdmission_frame:
  "fst (EnforceAdmission s) = s\<lparr>sl_Scope := sl_Scope (fst (EnforceAdmission s))\<rparr>"
  by (auto simp: EnforceAdmission_def split: SliceType.splits)

lemma TypeFromString_String [simp]:
  "TypeFromString (SliceType_String t) = (case t of OtherType _ \<Rightarrow> None | _ \<Rightarrow> Some t)"
  by (cases t) (simp_all add: TypeFromString_def)

lemma Origin_Level_range: "1 \<le> Origin_Level orig" "Origin_Level orig \<le> 3"
  by (auto simp: Origin_Level_def)

lemma Origin_Level_trusted: "2 \<le> Origin_Level orig \<Longrightarrow> Origin_Valid orig"
  by (auto simp: Origin_Level_def Origin_Valid_def split: if_splits)

text \<open>
  Merging statistics: the counters form a commutative monoid under wrap-around addition and
  \<open>LastUsed\<close> a semilattice, so the counters and the clock do not depend on the order in which deltas
  are folded. The feedback is a floating-point sum, which does.
\<close>

lemma mergeStats_counters_commute:
  "mergeStats (mergeStats s a) b\<lparr>st_UserFeedback := x\<rparr> =
   mergeStats (mergeStats s b) a\<lparr>st_UserFeedback := x\<rparr>"
  by (cases s) (auto simp: mergeStats_def algebra_simps)

lemma mergeStats_LastUsed: "st_LastUsed (mergeStats s d) = max (st_LastUsed s) (st_LastUsed d)"
  by (simp add: mergeStats_def max_def)

end
