(* ===== verification/File_Store.thy ===== *)
theory File_Store
  imports Slice_Types
begin

text \<open>
  The journaled slice store of \<open>kernel/slice/file_store.go\<close>: a JSONL base file and an append-only
  sidecar journal, loaded once and served from memory, with geometric compaction.

  Memory. The Go store keeps \<open>entries\<close>, a map from IDs to entry pointers, and \<open>order\<close>, the slice of
  the same pointers in arrival order. A pointer is modelled by its position in \<open>order\<close>, so a write
  through \<open>entries\<close> is seen through \<open>order\<close> as in the source.

  Disk. A file is a list of lines. A line is what the JSON decoder makes of it together with its
  length in bytes; the length matters because a line over 8 MiB is skipped by every reader. A journal
  can also end in an unterminated line, which is what a torn write leaves. The JSON codec is the
  standard library's: a value that \<open>json.Marshal\<close> accepts is read back as the same value, and it
  accepts a value unless it holds a NaN or an infinity (strings are taken to be valid UTF-8).

  Failures. Every system call is a call point; the environment of an operation says which of its
  call points fail, what a failing write leaves on disk, the time stamp a new base file gets and the
  lengths of the encoded records. The store is the one \<open>NewFileStore\<close> opens: the read-only variant
  \<open>prune\<close> uses, the advisory lease and the header's content hash, which only that variant compares,
  are not part of this model.
\<close>

section \<open>Entries and wire records\<close>

record storedEntry =
  se_s :: Slice
  se_embRaw :: "string option"
  se_dead :: bool

record sliceDTO =
  d_ID :: string
  d_Type :: SliceType
  d_Scope :: Scope
  d_Content :: string
  d_Embedding :: "string option"
  d_Stats :: SliceStats
  d_Weight :: f64
  d_Meta :: SliceMeta
  d_CreatedAt :: int

definition journalVersion :: int where "journalVersion = 1"

record journalHeader =
  jh_J :: int
  jh_BSize :: int
  jh_BMtime :: int

record journalRecord =
  jr_Op :: string
  jr_S :: "sliceDTO option"
  jr_ID :: string
  jr_D :: "SliceStats option"

definition put_rec :: "sliceDTO \<Rightarrow> journalRecord" where
  "put_rec d = \<lparr>jr_Op = ''put'', jr_S = Some d, jr_ID = [], jr_D = None\<rparr>"

definition del_rec :: "string \<Rightarrow> journalRecord" where
  "del_rec sid = \<lparr>jr_Op = ''del'', jr_S = None, jr_ID = sid, jr_D = None\<rparr>"

definition stat_rec :: "string \<Rightarrow> SliceStats \<Rightarrow> journalRecord" where
  "stat_rec sid d = \<lparr>jr_Op = ''stat'', jr_S = None, jr_ID = sid, jr_D = Some d\<rparr>"

definition entryFromSlice :: "Slice \<Rightarrow> storedEntry" where
  "entryFromSlice sl =
     \<lparr>se_s = sl\<lparr>sl_Embedding := None\<rparr>, se_embRaw = sl_Embedding sl, se_dead = False\<rparr>"

definition entryFromDTO :: "sliceDTO \<Rightarrow> storedEntry" where
  "entryFromDTO dto =
     (let raw = (case d_Embedding dto of None \<Rightarrow> None
                 | Some r \<Rightarrow> if trim_space r = ''null'' then None else Some r)
      in \<lparr>se_s = \<lparr>sl_ID = d_ID dto, sl_Type = d_Type dto, sl_Scope = d_Scope dto,
                  sl_Content = d_Content dto, sl_Embedding = None, sl_Stats = d_Stats dto,
                  sl_Weight = d_Weight dto, sl_Meta = d_Meta dto, sl_CreatedAt = d_CreatedAt dto\<rparr>,
          se_embRaw = raw, se_dead = False\<rparr>)"

definition dtoFromEntry :: "storedEntry \<Rightarrow> sliceDTO" where
  "dtoFromEntry e =
     \<lparr>d_ID = sl_ID (se_s e), d_Type = sl_Type (se_s e), d_Scope = sl_Scope (se_s e),
      d_Content = sl_Content (se_s e), d_Embedding = se_embRaw e, d_Stats = sl_Stats (se_s e),
      d_Weight = sl_Weight (se_s e), d_Meta = sl_Meta (se_s e), d_CreatedAt = sl_CreatedAt (se_s e)\<rparr>"

definition cloneStored :: "storedEntry \<Rightarrow> Slice" where
  "cloneStored e = (se_s e)\<lparr>sl_Embedding := None\<rparr>"

text \<open>What \<open>json.Marshal\<close> accepts: NaN and infinities have no JSON form.\<close>

definition stats_ok :: "SliceStats \<Rightarrow> bool" where
  "stats_ok st \<longleftrightarrow> is_fin (st_UserFeedback st)"

definition dto_ok :: "sliceDTO \<Rightarrow> bool" where
  "dto_ok d \<longleftrightarrow> stats_ok (d_Stats d) \<and> is_fin (d_Weight d)"

definition rec_ok :: "journalRecord \<Rightarrow> bool" where
  "rec_ok r \<longleftrightarrow> (case jr_S r of None \<Rightarrow> True | Some d \<Rightarrow> dto_ok d) \<and>
               (case jr_D r of None \<Rightarrow> True | Some st \<Rightarrow> stats_ok st)"

section \<open>Files\<close>

definition maxImportLine :: nat where "maxImportLine = 8 * 1024 * 1024"

text \<open>
  \<open>Good x n\<close>: a line of \<open>n\<close> bytes that decodes to \<open>x\<close>; \<open>Junk n\<close>: one the decoder refuses;
  \<open>Blank n\<close>: one that is empty after trimming. The length includes the newline.
\<close>

datatype 'a fline = Good 'a nat | Junk nat | Blank nat

fun line_len :: "'a fline \<Rightarrow> nat" where
  "line_len (Good _ n) = n" | "line_len (Junk n) = n" | "line_len (Blank n) = n"

definition file_size :: "'a fline list \<Rightarrow> int" where
  "file_size ls = int (sum_list (map line_len ls))"

text \<open>The journal holds a header line and records; either may be decoded as the other.\<close>

datatype jentry = JHdr journalHeader | JRec journalRecord

record jfile =
  jf_lines :: "jentry fline list"
  jf_tail :: "jentry fline option"

record Disk =
  dk_base :: "sliceDTO fline list"
  dk_bmtime :: int
  dk_journal :: "jfile option"
  dk_stash :: "jfile list"

text \<open>
  Appending to a file that ends in an unterminated line glues the first new record to it. The glued
  bytes are two JSON texts in a row, or a fragment and a text, which the decoder refuses.
\<close>

fun append_recs :: "jfile \<Rightarrow> (journalRecord \<times> nat) list \<Rightarrow> jfile" where
  "append_recs f [] = f"
| "append_recs f ((r, n) # rs) =
     append_recs
       (case jf_tail f of
          None \<Rightarrow> f\<lparr>jf_lines := jf_lines f @ [Good (JRec r) n]\<rparr>
        | Some l \<Rightarrow> f\<lparr>jf_lines := jf_lines f @ [Junk (line_len l + n)], jf_tail := None\<rparr>) rs"

text \<open>What a failing write leaves: the first \<open>k\<close> records and \<open>m\<close> bytes of the next one.\<close>

definition torn_append :: "jfile \<Rightarrow> (journalRecord \<times> nat) list \<Rightarrow> nat \<Rightarrow> nat \<Rightarrow> jfile" where
  "torn_append f rs k m =
     (let f' = append_recs f (take k rs) in
      if k < length rs \<and> 0 < m
      then f'\<lparr>jf_tail := Some (Junk (m + (case jf_tail f' of None \<Rightarrow> 0 | Some l \<Rightarrow> line_len l)))\<rparr>
      else f')"

section \<open>The store and its environment\<close>

datatype callpoint =
  JTmpCreate | JTmpChmod | JTmpWrite | JTmpSync | JTmpClose | JRename | JOpen | JReopen
| JWrite | JFlush | JSync | JClose | JRemove
| BTmpCreate | BTmpChmod | BTmpWrite | BTmpSync | BTmpClose | BRename | BStat | SRename

datatype store_err = ErrClosed | ErrNotFound | ErrMarshal | IOErr callpoint | IOErr2 callpoint callpoint

record env =
  e_fails :: "callpoint \<Rightarrow> bool"
  e_torn :: "nat \<times> nat"
  e_mtime :: int
  e_jlen :: "journalRecord \<Rightarrow> nat"
  e_blen :: "sliceDTO \<Rightarrow> nat"
  e_hlen :: "journalHeader \<Rightarrow> nat"

record jwriter =
  jw_buf :: "(journalRecord \<times> nat) list"
  jw_err :: bool

record fileStore =
  fs_closed :: bool
  fs_entries :: "(string, nat) gomap"
  fs_order :: "storedEntry list"
  fs_baseSkipped :: nat
  fs_journalSkipped :: nat
  fs_baseSize :: int
  fs_baseMtime :: int
  fs_jw :: "jwriter option"
  fs_jOps :: nat
  fs_jBytes :: int
  fs_opsSinceSync :: nat
  fs_bytesSinceSync :: int
  fs_compactions :: nat
  fs_disk :: Disk

type_synonym io_result = "store_err option \<times> fileStore"

text \<open>\<open>if err := f(); err != nil { return err }; g()\<close>\<close>

definition andthen :: "io_result \<Rightarrow> (fileStore \<Rightarrow> io_result) \<Rightarrow> io_result" where
  "andthen r g = (case r of (Some e, s) \<Rightarrow> (Some e, s) | (None, s) \<Rightarrow> g s)"

definition failing :: "env \<Rightarrow> callpoint list \<Rightarrow> callpoint option" where
  "failing en cs = find (e_fails en) cs"

abbreviation set_journal :: "jfile option \<Rightarrow> fileStore \<Rightarrow> fileStore" where
  "set_journal j s \<equiv> s\<lparr>fs_disk := (fs_disk s)\<lparr>dk_journal := j\<rparr>\<rparr>"

abbreviation upd_entry :: "nat \<Rightarrow> (storedEntry \<Rightarrow> storedEntry) \<Rightarrow> fileStore \<Rightarrow> fileStore" where
  "upd_entry i f s \<equiv> s\<lparr>fs_order := (fs_order s)[i := f (fs_order s ! i)]\<rparr>"

section \<open>Journal handling\<close>

definition upsertLocked :: "storedEntry \<Rightarrow> fileStore \<Rightarrow> fileStore" where
  "upsertLocked e s =
     (let s1 = (case m_get (fs_entries s) (sl_ID (se_s e)) of
                  None \<Rightarrow> s | Some i \<Rightarrow> upd_entry i (se_dead_update (\<lambda>_. True)) s)
      in s1\<lparr>fs_entries := m_set (sl_ID (se_s e)) (length (fs_order s1)) (fs_entries s1),
            fs_order := fs_order s1 @ [e]\<rparr>)"

definition killLocked :: "string \<Rightarrow> fileStore \<Rightarrow> fileStore" where
  "killLocked sid s =
     (case m_get (fs_entries s) sid of None \<Rightarrow> s
      | Some i \<Rightarrow> (upd_entry i (se_dead_update (\<lambda>_. True)) s)\<lparr>fs_entries := m_del sid (fs_entries s)\<rparr>)"

definition statLocked :: "string \<Rightarrow> SliceStats \<Rightarrow> fileStore \<Rightarrow> fileStore" where
  "statLocked sid d s =
     (case m_get (fs_entries s) sid of None \<Rightarrow> s
      | Some i \<Rightarrow> upd_entry i (se_s_update (sl_Stats_update (\<lambda>st. mergeStats st d))) s)"

definition ensureJournalLocked :: "env \<Rightarrow> fileStore \<Rightarrow> io_result" where
  "ensureJournalLocked en s =
     (if fs_closed s then (Some ErrClosed, s)
      else if fs_jw s \<noteq> None then (None, s)
      else let hdr = \<lparr>jh_J = journalVersion, jh_BSize = fs_baseSize s, jh_BMtime = fs_baseMtime s\<rparr> in
        case failing en [JTmpCreate, JTmpChmod, JTmpWrite, JTmpSync, JTmpClose, JRename] of
          Some c \<Rightarrow> (Some (IOErr c), s)
        | None \<Rightarrow>
            let s1 = set_journal (Some \<lparr>jf_lines = [Good (JHdr hdr) (e_hlen en hdr)], jf_tail = None\<rparr>) s in
            if e_fails en JOpen then (Some (IOErr JOpen), s1)
            else (None, s1\<lparr>fs_jw := Some \<lparr>jw_buf = [], jw_err = False\<rparr>, fs_jOps := 0, fs_jBytes := 0\<rparr>))"

definition reopenJournalLocked :: "env \<Rightarrow> fileStore \<Rightarrow> io_result" where
  "reopenJournalLocked en s =
     (if e_fails en JReopen then (Some (IOErr JReopen), s)
      else (None, s\<lparr>fs_jw := Some \<lparr>jw_buf = [], jw_err = False\<rparr>\<rparr>))"

text \<open>
  A failed write of the buffered journal writer: part of the buffer may have reached the file, and the
  \<open>bufio.Writer\<close> keeps its error, so every later write and flush through it fails too.
\<close>

definition torn_write :: "env \<Rightarrow> jwriter \<Rightarrow> fileStore \<Rightarrow> fileStore" where
  "torn_write en w s =
     (let s1 = set_journal (map_option (\<lambda>f. torn_append f (jw_buf w) (fst (e_torn en)) (snd (e_torn en)))
                              (dk_journal (fs_disk s))) s
      in s1\<lparr>fs_jw := Some \<lparr>jw_buf = [], jw_err = True\<rparr>\<rparr>)"

definition appendLocked :: "env \<Rightarrow> journalRecord \<Rightarrow> fileStore \<Rightarrow> io_result" where
  "appendLocked en r s =
     (if \<not> rec_ok r then (Some ErrMarshal, s)
      else case fs_jw s of
        None \<Rightarrow> (Some (IOErr JWrite), s)
      | Some w \<Rightarrow>
          let n = e_jlen en r + 1 in
          if jw_err w then (Some (IOErr JWrite), s)
          else if e_fails en JWrite then (Some (IOErr JWrite), torn_write en (w\<lparr>jw_buf := jw_buf w @ [(r, n)]\<rparr>) s)
          else (None, s\<lparr>fs_jw := Some (w\<lparr>jw_buf := jw_buf w @ [(r, n)]\<rparr>),
                        fs_jOps := fs_jOps s + 1, fs_jBytes := fs_jBytes s + int n,
                        fs_opsSinceSync := fs_opsSinceSync s + 1,
                        fs_bytesSinceSync := fs_bytesSinceSync s + int n\<rparr>))"

definition syncEveryOps :: nat where "syncEveryOps = 128"
definition syncEveryBytes :: int where "syncEveryBytes = 1048576"

text \<open>\<open>jw.Flush()\<close>: \<open>None\<close> when the buffer reached the file.\<close>

definition jw_flush :: "env \<Rightarrow> fileStore \<Rightarrow> io_result" where
  "jw_flush en s =
     (case fs_jw s of
        None \<Rightarrow> (Some (IOErr JFlush), s)
      | Some w \<Rightarrow>
          if jw_err w then (Some (IOErr JFlush), s)
          else if e_fails en JFlush then (Some (IOErr JFlush), torn_write en w s)
          else (None, (set_journal (map_option (\<lambda>f. append_recs f (jw_buf w)) (dk_journal (fs_disk s))) s)
                        \<lparr>fs_jw := Some (w\<lparr>jw_buf := []\<rparr>)\<rparr>))"

definition flushLocked :: "env \<Rightarrow> fileStore \<Rightarrow> io_result" where
  "flushLocked en s =
     andthen (jw_flush en s) (\<lambda>s.
       if fs_opsSinceSync s \<ge> syncEveryOps \<or> fs_bytesSinceSync s \<ge> syncEveryBytes then
         if e_fails en JSync then (Some (IOErr JSync), s)
         else (None, s\<lparr>fs_opsSinceSync := 0, fs_bytesSinceSync := 0\<rparr>)
       else (None, s))"

section \<open>Loading\<close>

text \<open>One step of the loop over the base file.\<close>

definition load_base_line :: "sliceDTO fline \<Rightarrow> fileStore \<Rightarrow> fileStore" where
  "load_base_line l s =
     (if line_len l > maxImportLine then s\<lparr>fs_baseSkipped := fs_baseSkipped s + 1\<rparr>
      else case l of
        Blank _ \<Rightarrow> s
      | Junk _ \<Rightarrow> s\<lparr>fs_baseSkipped := fs_baseSkipped s + 1\<rparr>
      | Good dto _ \<Rightarrow>
          if d_ID dto = [] then s\<lparr>fs_baseSkipped := fs_baseSkipped s + 1\<rparr>
          else upsertLocked (entryFromDTO dto) s)"

definition apply_rec :: "journalRecord \<Rightarrow> fileStore \<Rightarrow> fileStore" where
  "apply_rec r s =
     (if jr_Op r = ''put'' then
        (case jr_S r of
           None \<Rightarrow> s\<lparr>fs_journalSkipped := fs_journalSkipped s + 1\<rparr>
         | Some d \<Rightarrow> if d_ID d = [] then s\<lparr>fs_journalSkipped := fs_journalSkipped s + 1\<rparr>
                     else upsertLocked (entryFromDTO d) s)
      else if jr_Op r = ''del'' then killLocked (jr_ID r) s
      else if jr_Op r = ''stat'' then
        (case jr_D r of None \<Rightarrow> s | Some d \<Rightarrow> statLocked (jr_ID r) d s)
      else s\<lparr>fs_journalSkipped := fs_journalSkipped s + 1\<rparr>)"

definition load_journal_line :: "jentry fline \<Rightarrow> fileStore \<Rightarrow> fileStore" where
  "load_journal_line l s =
     (if line_len l > maxImportLine then s\<lparr>fs_journalSkipped := fs_journalSkipped s + 1\<rparr>
      else case l of
        Blank _ \<Rightarrow> s
      | Junk n \<Rightarrow> s\<lparr>fs_jOps := fs_jOps s + 1, fs_jBytes := fs_jBytes s + int n,
                     fs_journalSkipped := fs_journalSkipped s + 1\<rparr>
      | Good x n \<Rightarrow>
          let s1 = s\<lparr>fs_jOps := fs_jOps s + 1, fs_jBytes := fs_jBytes s + int n\<rparr> in
          (case x of JRec r \<Rightarrow> apply_rec r s1
                   | JHdr _ \<Rightarrow> s1\<lparr>fs_journalSkipped := fs_journalSkipped s1 + 1\<rparr>))"

definition stashJournal :: "env \<Rightarrow> fileStore \<Rightarrow> io_result" where
  "stashJournal en s =
     (if e_fails en SRename then (Some (IOErr SRename), s)
      else (None, s\<lparr>fs_disk := (fs_disk s)\<lparr>dk_journal := None,
                      dk_stash := dk_stash (fs_disk s) @
                        (case dk_journal (fs_disk s) of None \<Rightarrow> [] | Some f \<Rightarrow> [f])\<rparr>\<rparr>))"

text \<open>The lines a reader sees: the unterminated tail counts as a last line.\<close>

definition all_lines :: "jfile \<Rightarrow> jentry fline list" where
  "all_lines f = jf_lines f @ (case jf_tail f of None \<Rightarrow> [] | Some l \<Rightarrow> [l])"

definition loadJournal :: "env \<Rightarrow> fileStore \<Rightarrow> io_result" where
  "loadJournal en s =
     (case dk_journal (fs_disk s) of
        None \<Rightarrow> (None, s)
      | Some f \<Rightarrow>
          (case all_lines f of
             [] \<Rightarrow> stashJournal en s
           | h # ls \<Rightarrow>
               if line_len h > maxImportLine then stashJournal en s
               else (case h of
                 Good (JHdr hdr) _ \<Rightarrow>
                   if jh_J hdr = 0 then stashJournal en s
                   else if jh_J hdr \<noteq> journalVersion then stashJournal en s
                   else if jh_BSize hdr \<noteq> fs_baseSize s \<or> jh_BMtime hdr \<noteq> fs_baseMtime s then stashJournal en s
                   else let s1 = fold load_journal_line ls s in
                     if e_fails en JOpen then (Some (IOErr JOpen), s1)
                     else (None, s1\<lparr>fs_jw := Some \<lparr>jw_buf = [], jw_err = False\<rparr>\<rparr>)
               | _ \<Rightarrow> stashJournal en s)))"

definition new_store :: "Disk \<Rightarrow> fileStore" where
  "new_store d = \<lparr>fs_closed = False, fs_entries = [], fs_order = [], fs_baseSkipped = 0,
     fs_journalSkipped = 0, fs_baseSize = 0, fs_baseMtime = 0, fs_jw = None, fs_jOps = 0, fs_jBytes = 0,
     fs_opsSinceSync = 0, fs_bytesSinceSync = 0, fs_compactions = 0, fs_disk = d\<rparr>"

definition load :: "env \<Rightarrow> fileStore \<Rightarrow> io_result" where
  "load en s =
     (let s1 = fold load_base_line (dk_base (fs_disk s)) s in
      loadJournal en (s1\<lparr>fs_baseSize := file_size (dk_base (fs_disk s)),
                         fs_baseMtime := dk_bmtime (fs_disk s)\<rparr>))"

definition NewFileStore :: "env \<Rightarrow> Disk \<Rightarrow> io_result" where
  "NewFileStore en d = load en (new_store d)"

section \<open>Compaction\<close>

text \<open>A journal descriptor whose close failed is kept, but nothing can be written through it.\<close>

definition broken_writer :: "fileStore \<Rightarrow> fileStore" where
  "broken_writer s = s\<lparr>fs_jw := map_option (jw_err_update (\<lambda>_. True)) (fs_jw s)\<rparr>"

definition live :: "fileStore \<Rightarrow> storedEntry list" where
  "live s = filter (\<lambda>e. \<not> se_dead e) (fs_order s)"

text \<open>The entries a compaction keeps: all live ones, or what the callback returns of their clones.\<close>

definition compact_kept :: "(Slice list \<Rightarrow> Slice list) option \<Rightarrow> fileStore \<Rightarrow> storedEntry list" where
  "compact_kept rescore s =
     (let lives = live s in
      case rescore of None \<Rightarrow> lives
      | Some f \<Rightarrow>
          map (\<lambda>sl. (entryFromSlice sl)\<lparr>se_embRaw :=
                 (case map_of (rev (map (\<lambda>e. (sl_ID (se_s e), se_embRaw e)) lives)) (sl_ID sl) of
                    None \<Rightarrow> None | Some r \<Rightarrow> r)\<rparr>)
            (filter (\<lambda>sl. sl_ID sl \<noteq> []) (f (map cloneStored lives))))"

fun index_entries :: "nat \<Rightarrow> storedEntry list \<Rightarrow> (string, nat) gomap \<Rightarrow> (string, nat) gomap" where
  "index_entries i [] m = m"
| "index_entries i (e # es) m = index_entries (Suc i) es (m_set (sl_ID (se_s e)) i m)"

text \<open>The first half of the swap: flush and close the journal descriptor, when there is one.\<close>

definition retireJournal :: "env \<Rightarrow> fileStore \<Rightarrow> io_result" where
  "retireJournal en s =
     (if fs_jw s \<noteq> None then
        andthen (jw_flush en s) (\<lambda>s. if e_fails en JClose then (Some (IOErr JClose), broken_writer s)
                                     else (None, s\<lparr>fs_jw := None\<rparr>))
      else (None, s))"

text \<open>The second half: rename the new base into place, start a fresh journal, install the kept entries.\<close>

definition swapBase ::
  "env \<Rightarrow> bool \<Rightarrow> storedEntry list \<Rightarrow> sliceDTO fline list \<Rightarrow> fileStore \<Rightarrow> io_result" where
  "swapBase en retiredJournal kept newbase s =
     (if e_fails en BRename then
        (if retiredJournal then
           (case reopenJournalLocked en s of
              (Some _, s') \<Rightarrow> (Some (IOErr2 BRename JReopen), s')
            | (None, s') \<Rightarrow> (Some (IOErr BRename), s'))
         else (Some (IOErr BRename), s))
      else
        let s1 = s\<lparr>fs_disk := (fs_disk s)\<lparr>dk_base := newbase, dk_bmtime := e_mtime en\<rparr>\<rparr> in
        if e_fails en BStat then (Some (IOErr BStat), s1)
        else
          let s2 = s1\<lparr>fs_baseSize := file_size newbase, fs_baseMtime := e_mtime en\<rparr> in
          if e_fails en JRemove then (Some (IOErr JRemove), s2)
          else
            andthen (ensureJournalLocked en (set_journal None s2)) (\<lambda>s3.
              (None, s3\<lparr>fs_opsSinceSync := 0, fs_bytesSinceSync := 0,
                        fs_baseSkipped := 0, fs_journalSkipped := 0,
                        fs_entries := index_entries 0 kept [], fs_order := kept,
                        fs_compactions := fs_compactions s3 + 1\<rparr>)))"

definition compactLocked ::
  "env \<Rightarrow> (Slice list \<Rightarrow> Slice list) option \<Rightarrow> fileStore \<Rightarrow> io_result" where
  "compactLocked en rescore s =
     (if fs_closed s then (Some ErrClosed, s)
      else let kept = compact_kept rescore s in
      if \<not> list_all (\<lambda>e. dto_ok (dtoFromEntry e)) kept then (Some ErrMarshal, s)
      else case failing en [BTmpCreate, BTmpChmod, BTmpWrite, BTmpSync, BTmpClose] of
        Some c \<Rightarrow> (Some (IOErr c), s)
      | None \<Rightarrow>
          andthen (retireJournal en s)
            (swapBase en (fs_jw s \<noteq> None) kept
               (map (\<lambda>e. Good (dtoFromEntry e) (e_blen en (dtoFromEntry e) + 1)) kept)))"

definition compactMinOps :: nat where "compactMinOps = 1024"
definition compactMinBytes :: int where "compactMinBytes = 4194304"

definition maybeCompactLocked :: "env \<Rightarrow> fileStore \<Rightarrow> io_result" where
  "maybeCompactLocked en s =
     (let opsTrig = fs_jOps s \<ge> compactMinOps \<and> fs_jOps s \<ge> length (fs_entries s);
          byteTrig = fs_jBytes s \<ge> compactMinBytes \<and> fs_jBytes s \<ge> fs_baseSize s
      in if \<not> opsTrig \<and> \<not> byteTrig then (None, s) else compactLocked en None s)"

definition Compact :: "env \<Rightarrow> fileStore \<Rightarrow> io_result" where
  "Compact en s =
     (if fs_closed s then (Some ErrClosed, s)
      else if fs_jOps s = 0 \<and> fs_baseSkipped s = 0 \<and> fs_journalSkipped s = 0 then (None, s)
      else compactLocked en None s)"

definition CompactWith :: "env \<Rightarrow> (Slice list \<Rightarrow> Slice list) \<Rightarrow> fileStore \<Rightarrow> io_result" where
  "CompactWith en f s = compactLocked en (Some f) s"

section \<open>The Store interface\<close>

definition Put :: "env \<Rightarrow> Slice \<Rightarrow> fileStore \<Rightarrow> io_result" where
  "Put en sl0 s =
     (let sl = fst (EnforceAdmission sl0); e = entryFromSlice sl in
      andthen (ensureJournalLocked en s) (\<lambda>s.
      andthen (appendLocked en (put_rec (dtoFromEntry e)) s) (\<lambda>s.
      andthen (flushLocked en s) (\<lambda>s.
        maybeCompactLocked en (upsertLocked e s)))))"

definition Get :: "string \<Rightarrow> fileStore \<Rightarrow> Slice option" where
  "Get sid s = (case m_get (fs_entries s) sid of None \<Rightarrow> None
               | Some i \<Rightarrow> Some (cloneStored (fs_order s ! i)))"

definition ListScope :: "Scope \<Rightarrow> fileStore \<Rightarrow> Slice list" where
  "ListScope sc s =
     map cloneStored (filter (\<lambda>e. \<not> se_dead e \<and> sl_Scope (se_s e) = sc) (fs_order s))"

definition ListAll :: "fileStore \<Rightarrow> Slice list" where
  "ListAll s = map cloneStored (filter (\<lambda>e. \<not> se_dead e) (fs_order s))"

definition Delete :: "env \<Rightarrow> string \<Rightarrow> fileStore \<Rightarrow> io_result" where
  "Delete en sid s =
     (if m_get (fs_entries s) sid = None then (None, s)
      else
      andthen (ensureJournalLocked en s) (\<lambda>s.
      andthen (appendLocked en (del_rec sid) s) (\<lambda>s.
      andthen (flushLocked en s) (\<lambda>s.
        maybeCompactLocked en (killLocked sid s)))))"

definition UpdateStats :: "env \<Rightarrow> string \<Rightarrow> SliceStats \<Rightarrow> fileStore \<Rightarrow> io_result" where
  "UpdateStats en sid delta s =
     (if m_get (fs_entries s) sid = None then (Some ErrNotFound, s)
      else
      andthen (ensureJournalLocked en s) (\<lambda>s.
      andthen (appendLocked en (stat_rec sid delta) s) (\<lambda>s.
      andthen (flushLocked en s) (\<lambda>s.
        maybeCompactLocked en (statLocked sid delta s)))))"

fun appendAll :: "env \<Rightarrow> journalRecord list \<Rightarrow> fileStore \<Rightarrow> io_result" where
  "appendAll en [] s = (None, s)"
| "appendAll en (r # rs) s = andthen (appendLocked en r s) (appendAll en rs)"

definition UpdateStatsBatch :: "env \<Rightarrow> (string, SliceStats) gomap \<Rightarrow> fileStore \<Rightarrow> io_result" where
  "UpdateStatsBatch en deltas s =
     (let ids = sort_strings (filter (\<lambda>sid. m_get (fs_entries s) sid \<noteq> None) (keys deltas)) in
      if deltas = [] \<or> ids = [] then (None, s)
      else
      andthen (ensureJournalLocked en s) (\<lambda>s.
      andthen (appendAll en (map (\<lambda>sid. stat_rec sid (m_get_or zero_stats deltas sid)) ids) s) (\<lambda>s.
      andthen (flushLocked en s) (\<lambda>s.
        maybeCompactLocked en
          (fold (\<lambda>sid. statLocked sid (m_get_or zero_stats deltas sid)) ids s)))))"

text \<open>\<open>Close\<close> joins the errors of its three calls; the first one is reported here.\<close>

definition Close :: "env \<Rightarrow> fileStore \<Rightarrow> io_result" where
  "Close en s =
     (if fs_closed s then (None, s)
      else let s1 = s\<lparr>fs_closed := True\<rparr> in
        (case fs_jw s of None \<Rightarrow> (None, s1)
         | Some _ \<Rightarrow>
             (case jw_flush en s1 of
                (Some e, s2) \<Rightarrow> (Some e, s2\<lparr>fs_jw := None\<rparr>)
              | (None, s2) \<Rightarrow> (map_option IOErr (failing en [JSync, JClose]), s2\<lparr>fs_jw := None\<rparr>))))"

definition exportLines :: "fileStore \<Rightarrow> (sliceDTO list \<times> nat) option" where
  "exportLines s =
     (if list_all (\<lambda>e. dto_ok (dtoFromEntry e)) (live s)
      then Some (map dtoFromEntry (live s), fs_baseSkipped s + fs_journalSkipped s)
      else None)"

definition ReadEmbedding :: "string \<Rightarrow> fileStore \<Rightarrow> store_err + string option" where
  "ReadEmbedding sid s =
     (if fs_closed s then Inl ErrClosed
      else case m_get (fs_entries s) sid of None \<Rightarrow> Inr None
           | Some i \<Rightarrow> Inr (se_embRaw (fs_order s ! i)))"

end
