(* ===== verification/File_Store_Correct.thy ===== *)
theory File_Store_Correct
  imports File_Store
begin

text \<open>
  Correctness of the journaled store. The abstract state is the list of live entries in arrival
  order. First the memory: the index and the order list agree (\<open>mem_inv\<close>) and the three in-memory
  updates act on the live list as the abstract operations do. Then the disk: \<open>disk_live\<close> is the live
  list the next open computes. An operation that succeeds keeps both in step (\<open>ready\<close>); an operation
  that fails at any system call leaves a disk on which the next open finds the old or the new list.
\<close>

section \<open>The live list and its updates\<close>

abbreviation eid :: "storedEntry \<Rightarrow> string" where "eid e \<equiv> sl_ID (se_s e)"

definition spec_put :: "storedEntry \<Rightarrow> storedEntry list \<Rightarrow> storedEntry list" where
  "spec_put e L = filter (\<lambda>x. eid x \<noteq> eid e) L @ [e]"

definition spec_del :: "string \<Rightarrow> storedEntry list \<Rightarrow> storedEntry list" where
  "spec_del k L = filter (\<lambda>x. eid x \<noteq> k) L"

definition spec_stat :: "string \<Rightarrow> SliceStats \<Rightarrow> storedEntry list \<Rightarrow> storedEntry list" where
  "spec_stat k d L =
     map (\<lambda>x. if eid x = k then se_s_update (sl_Stats_update (\<lambda>st. mergeStats st d)) x else x) L"

definition mem_inv :: "fileStore \<Rightarrow> bool" where
  "mem_inv s \<longleftrightarrow> wf_map (fs_entries s) \<and>
     (\<forall>k i. m_get (fs_entries s) k = Some i \<longleftrightarrow>
        i < length (fs_order s) \<and> \<not> se_dead (fs_order s ! i) \<and> eid (fs_order s ! i) = k)"

lemma mem_inv_get:
  "mem_inv s \<Longrightarrow> m_get (fs_entries s) k = Some i \<longleftrightarrow>
     i < length (fs_order s) \<and> \<not> se_dead (fs_order s ! i) \<and> eid (fs_order s ! i) = k"
  by (simp add: mem_inv_def)

lemma mem_inv_get_None:
  assumes "mem_inv s"
  shows "m_get (fs_entries s) k = None \<longleftrightarrow> k \<notin> eid ` set (live s)"
proof -
  have "m_get (fs_entries s) k = None \<longleftrightarrow> (\<forall>i. m_get (fs_entries s) k \<noteq> Some i)"
    by (cases "m_get (fs_entries s) k") auto
  then show ?thesis
    using assms by (auto simp: live_def in_set_conv_nth mem_inv_get)
qed

lemma mem_inv_unique:
  assumes "mem_inv s" "i < length (fs_order s)" "\<not> se_dead (fs_order s ! i)"
    "j < length (fs_order s)" "\<not> se_dead (fs_order s ! j)" "eid (fs_order s ! i) = eid (fs_order s ! j)"
  shows "i = j"
proof -
  have "m_get (fs_entries s) (eid (fs_order s ! i)) = Some i"
    "m_get (fs_entries s) (eid (fs_order s ! i)) = Some j"
    using assms by (auto simp: mem_inv_get)
  then show ?thesis by simp
qed

lemma live_not_dead: "e \<in> set (live s) \<Longrightarrow> \<not> se_dead e"
  by (simp add: live_def)

text \<open>Marking one entry dead removes its ID from the live list.\<close>

lemma live_mark_dead:
  assumes "mem_inv s" "m_get (fs_entries s) k = Some i"
  shows "live (upd_entry i (se_dead_update (\<lambda>_. True)) s) = spec_del k (live s)"
proof -
  have i: "i < length (fs_order s)" "\<not> se_dead (fs_order s ! i)" "eid (fs_order s ! i) = k"
    using assms by (auto simp: mem_inv_get)
  have "\<And>j. j < length (fs_order s) \<Longrightarrow> j \<noteq> i \<Longrightarrow> \<not> se_dead (fs_order s ! j) \<Longrightarrow> eid (fs_order s ! j) \<noteq> k"
    using mem_inv_unique [OF assms(1)] i by metis
  then show ?thesis
    using i unfolding live_def spec_del_def by (simp add: filter_update_remove del: filter_filter)
qed

lemma spec_del_id: "k \<notin> eid ` set L \<Longrightarrow> spec_del k L = L"
  by (auto simp: spec_del_def filter_id_conv)

lemma live_killLocked: "mem_inv s \<Longrightarrow> live (killLocked k s) = spec_del k (live s)"
  using live_mark_dead [of s k]
  by (auto simp: killLocked_def live_def spec_del_id mem_inv_get_None split: option.split)

lemma live_upsertLocked:
  assumes "mem_inv s" "\<not> se_dead e"
  shows "live (upsertLocked e s) = spec_put e (live s)"
proof (cases "m_get (fs_entries s) (eid e)")
  case None
  then have "spec_del (eid e) (live s) = live s"
    using assms(1) by (simp add: spec_del_id mem_inv_get_None)
  then show ?thesis
    using None assms(2) by (simp add: upsertLocked_def live_def spec_put_def spec_del_def)
next
  case (Some i)
  then show ?thesis
    using live_mark_dead [OF assms(1) Some] assms(2)
    by (simp add: upsertLocked_def live_def spec_put_def spec_del_def)
qed

lemma live_statLocked:
  assumes "mem_inv s"
  shows "live (statLocked k d s) = spec_stat k d (live s)"
proof (cases "m_get (fs_entries s) k")
  case None
  then have "k \<notin> eid ` set (live s)" using assms by (simp add: mem_inv_get_None)
  then have "spec_stat k d (live s) = live s"
    unfolding spec_stat_def by (intro map_idI) auto
  with None show ?thesis by (simp add: statLocked_def)
next
  case (Some i)
  then have i: "i < length (fs_order s)" "\<not> se_dead (fs_order s ! i)" "eid (fs_order s ! i) = k"
    using assms by (auto simp: mem_inv_get)
  have "\<And>j. j < length (fs_order s) \<Longrightarrow> j \<noteq> i \<Longrightarrow> \<not> se_dead (fs_order s ! j) \<Longrightarrow> eid (fs_order s ! j) \<noteq> k"
    using mem_inv_unique [OF assms] i by metis
  then show ?thesis
    using i Some unfolding live_def spec_stat_def statLocked_def by (simp add: filter_update_map)
qed

section \<open>The memory invariant is kept\<close>

lemma mem_inv_new_store [simp]: "mem_inv (new_store d)"
  by (simp add: mem_inv_def new_store_def)

lemma mem_inv_cong:
  "fs_entries s' = fs_entries s \<Longrightarrow> fs_order s' = fs_order s \<Longrightarrow> mem_inv s' = mem_inv s"
  by (simp add: mem_inv_def)

lemma live_cong: "fs_order s' = fs_order s \<Longrightarrow> live s' = live s"
  by (simp add: live_def)

lemma mem_inv_kill: assumes "mem_inv s" shows "mem_inv (killLocked k s)"
proof (cases "m_get (fs_entries s) k")
  case None
  with assms show ?thesis by (simp add: killLocked_def)
next
  case (Some i)
  have "eid (fs_order s ! j) \<noteq> k"
    if "j < length (fs_order s)" "\<not> se_dead (fs_order s ! j)" "j \<noteq> i" for j
    using mem_inv_unique [OF assms, of i j] that Some assms by (auto simp: mem_inv_get)
  moreover have "killLocked k s =
      (upd_entry i (se_dead_update (\<lambda>_. True)) s)\<lparr>fs_entries := m_del k (fs_entries s)\<rparr>"
    using Some by (simp add: killLocked_def)
  ultimately show ?thesis
    using Some assms by (auto simp: mem_inv_def nth_list_update)
qed

lemma mem_inv_stat: "mem_inv s \<Longrightarrow> mem_inv (statLocked k d s)"
  by (auto simp: mem_inv_def statLocked_def nth_list_update split: option.splits)

lemma mem_inv_upsert:
  assumes "mem_inv s" "\<not> se_dead e"
  shows "mem_inv (upsertLocked e s)"
proof -
  define s1 where "s1 = killLocked (eid e) s"
  have s1: "mem_inv s1" using assms(1) by (simp add: s1_def mem_inv_kill)
  have order: "fs_order (upsertLocked e s) = fs_order s1 @ [e]"
    and entries: "fs_entries (upsertLocked e s) = m_set (eid e) (length (fs_order s1)) (fs_entries s)"
    and other: "\<And>k. k \<noteq> eid e \<Longrightarrow> m_get (fs_entries s) k = m_get (fs_entries s1) k"
    and none: "m_get (fs_entries s1) (eid e) = None"
    by (auto simp: upsertLocked_def s1_def killLocked_def split: option.split)
  have none': "\<not> (i < length (fs_order s1) \<and> \<not> se_dead (fs_order s1 ! i) \<and> eid (fs_order s1 ! i) = eid e)" for i
    using mem_inv_get [OF s1, of "eid e" i] none by simp
  have "(m_get (fs_entries (upsertLocked e s)) k = Some i) \<longleftrightarrow>
      i < length (fs_order s1 @ [e]) \<and> \<not> se_dead ((fs_order s1 @ [e]) ! i) \<and> eid ((fs_order s1 @ [e]) ! i) = k" for k i
    using assms(2) none' [of i] other [of k] mem_inv_get [OF s1, of k i]
    by (cases "k = eid e") (auto simp: entries nth_append less_Suc_eq)
  moreover have "wf_map (fs_entries (upsertLocked e s))"
    using assms(1) by (auto simp: entries mem_inv_def)
  ultimately show ?thesis by (simp add: mem_inv_def order)
qed

section \<open>What the next open finds on disk\<close>

definition rec_effect :: "journalRecord \<Rightarrow> storedEntry list \<Rightarrow> storedEntry list" where
  "rec_effect r L =
     (if jr_Op r = ''put'' then
        (case jr_S r of None \<Rightarrow> L
         | Some d \<Rightarrow> if d_ID d = [] then L else spec_put (entryFromDTO d) L)
      else if jr_Op r = ''del'' then spec_del (jr_ID r) L
      else if jr_Op r = ''stat'' then (case jr_D r of None \<Rightarrow> L | Some d \<Rightarrow> spec_stat (jr_ID r) d L)
      else L)"

definition line_effect :: "jentry fline \<Rightarrow> storedEntry list \<Rightarrow> storedEntry list" where
  "line_effect l L =
     (if line_len l > maxImportLine then L
      else case l of Good (JRec r) _ \<Rightarrow> rec_effect r L | _ \<Rightarrow> L)"

definition base_effect :: "sliceDTO fline \<Rightarrow> storedEntry list \<Rightarrow> storedEntry list" where
  "base_effect l L =
     (if line_len l > maxImportLine then L
      else case l of Good d _ \<Rightarrow> if d_ID d = [] then L else spec_put (entryFromDTO d) L | _ \<Rightarrow> L)"

definition base_live :: "Disk \<Rightarrow> storedEntry list" where
  "base_live d = fold base_effect (dk_base d) []"

definition hdr_ok :: "int \<Rightarrow> int \<Rightarrow> jentry fline \<Rightarrow> bool" where
  "hdr_ok sz mt h \<longleftrightarrow> line_len h \<le> maxImportLine \<and>
     (case h of Good (JHdr hdr) _ \<Rightarrow>
        jh_J hdr = journalVersion \<and> jh_BSize hdr = sz \<and> jh_BMtime hdr = mt
      | _ \<Rightarrow> False)"

definition disk_live :: "Disk \<Rightarrow> storedEntry list" where
  "disk_live d =
     (case dk_journal d of None \<Rightarrow> base_live d
      | Some f \<Rightarrow> (case all_lines f of [] \<Rightarrow> base_live d
          | h # ls \<Rightarrow> if hdr_ok (file_size (dk_base d)) (dk_bmtime d) h
                     then fold line_effect ls (base_live d) else base_live d))"

text \<open>The parts of the store that replaying a line does not touch.\<close>

definition outer :: "fileStore \<Rightarrow> bool \<times> int \<times> int \<times> jwriter option \<times> Disk" where
  "outer s = (fs_closed s, fs_baseSize s, fs_baseMtime s, fs_jw s, fs_disk s)"

lemma outer_mem [simp]:
  "outer (upsertLocked e s) = outer s" "outer (killLocked k s) = outer s" "outer (statLocked k d s) = outer s"
  by (auto simp: outer_def upsertLocked_def killLocked_def statLocked_def Let_def split: option.split)

lemma counter_frame [simp]:
  "mem_inv (s\<lparr>fs_journalSkipped := n\<rparr>) = mem_inv s" "live (s\<lparr>fs_journalSkipped := n\<rparr>) = live s"
  "outer (s\<lparr>fs_journalSkipped := n\<rparr>) = outer s"
  "mem_inv (s\<lparr>fs_baseSkipped := n\<rparr>) = mem_inv s" "live (s\<lparr>fs_baseSkipped := n\<rparr>) = live s"
  "outer (s\<lparr>fs_baseSkipped := n\<rparr>) = outer s"
  "mem_inv (s\<lparr>fs_jOps := n, fs_jBytes := b\<rparr>) = mem_inv s" "live (s\<lparr>fs_jOps := n, fs_jBytes := b\<rparr>) = live s"
  "outer (s\<lparr>fs_jOps := n, fs_jBytes := b\<rparr>) = outer s"
  "mem_inv (s\<lparr>fs_jOps := n, fs_jBytes := b, fs_journalSkipped := m\<rparr>) = mem_inv s"
  "live (s\<lparr>fs_jOps := n, fs_jBytes := b, fs_journalSkipped := m\<rparr>) = live s"
  "outer (s\<lparr>fs_jOps := n, fs_jBytes := b, fs_journalSkipped := m\<rparr>) = outer s"
  by (simp_all add: mem_inv_def live_def outer_def)

lemma se_dead_from [simp]: "\<not> se_dead (entryFromDTO d)" "\<not> se_dead (entryFromSlice sl)"
  by (simp_all add: entryFromDTO_def entryFromSlice_def Let_def)

lemmas mem_step_simps = live_killLocked mem_inv_kill live_statLocked mem_inv_stat
  live_upsertLocked mem_inv_upsert

lemma apply_rec_live:
  assumes "mem_inv s"
  shows "mem_inv (apply_rec r s) \<and> live (apply_rec r s) = rec_effect r (live s) \<and> outer (apply_rec r s) = outer s"
  using assms by (simp add: apply_rec_def rec_effect_def mem_step_simps split: option.split)

lemma load_base_lines:
  "mem_inv s \<Longrightarrow> mem_inv (fold load_base_line ls s) \<and>
     live (fold load_base_line ls s) = fold base_effect ls (live s) \<and>
     outer (fold load_base_line ls s) = outer s"
proof (induction ls arbitrary: s)
  case (Cons l ls)
  have "mem_inv (load_base_line l s) \<and> live (load_base_line l s) = base_effect l (live s) \<and>
      outer (load_base_line l s) = outer s"
    using Cons.prems by (simp add: load_base_line_def base_effect_def mem_step_simps split: fline.split)
  then show ?case using Cons.IH by simp
qed simp

lemma load_journal_lines:
  "mem_inv s \<Longrightarrow> mem_inv (fold load_journal_line ls s) \<and>
     live (fold load_journal_line ls s) = fold line_effect ls (live s) \<and>
     outer (fold load_journal_line ls s) = outer s"
proof (induction ls arbitrary: s)
  case (Cons l ls)
  have "mem_inv (load_journal_line l s) \<and> live (load_journal_line l s) = line_effect l (live s) \<and>
      outer (load_journal_line l s) = outer s"
    using Cons.prems
    by (simp add: load_journal_line_def line_effect_def apply_rec_live Let_def split: fline.split jentry.split)
  then show ?case using Cons.IH by simp
qed simp

section \<open>Opening a store\<close>

definition jclean :: "fileStore \<Rightarrow> bool" where
  "jclean s \<longleftrightarrow> (\<exists>h ls. dk_journal (fs_disk s) = Some \<lparr>jf_lines = h # ls, jf_tail = None\<rparr> \<and>
     hdr_ok (file_size (dk_base (fs_disk s))) (dk_bmtime (fs_disk s)) h)"

definition base_bound :: "fileStore \<Rightarrow> bool" where
  "base_bound s \<longleftrightarrow> fs_baseSize s = file_size (dk_base (fs_disk s)) \<and> fs_baseMtime s = dk_bmtime (fs_disk s)"

definition entry_wf :: "storedEntry \<Rightarrow> bool" where
  "entry_wf e \<longleftrightarrow> eid e \<noteq> [] \<and> sl_Embedding (se_s e) = None \<and>
     (case se_embRaw e of None \<Rightarrow> True | Some r \<Rightarrow> trim_space r \<noteq> ''null'')"

text \<open>
  \<open>ready\<close>: the store is open, memory and disk agree, and the journal is either absent with no writer
  or ends in a complete line under a writer with an empty buffer and no error.
\<close>

definition ready :: "fileStore \<Rightarrow> bool" where
  "ready s \<longleftrightarrow> mem_inv s \<and> \<not> fs_closed s \<and> base_bound s \<and> live s = disk_live (fs_disk s) \<and>
     (\<forall>e \<in> set (live s). entry_wf e) \<and>
     (if fs_jw s = None then dk_journal (fs_disk s) = None
      else fs_jw s = Some \<lparr>jw_buf = [], jw_err = False\<rparr> \<and> jclean s)"

lemma entryFromDTO_wf: "d_ID d \<noteq> [] \<Longrightarrow> entry_wf (entryFromDTO d)"
  by (auto simp: entry_wf_def entryFromDTO_def Let_def split: option.split)

lemma spec_wf:
  "\<forall>e\<in>set L. entry_wf e \<Longrightarrow> entry_wf e \<Longrightarrow> \<forall>e\<in>set (spec_put e L). entry_wf e"
  "\<forall>e\<in>set L. entry_wf e \<Longrightarrow> \<forall>e\<in>set (spec_del k L). entry_wf e"
  "\<forall>e\<in>set L. entry_wf e \<Longrightarrow> \<forall>e\<in>set (spec_stat k d L). entry_wf e"
  by (auto simp: spec_put_def spec_del_def spec_stat_def entry_wf_def)

lemma rec_effect_wf: "\<forall>e\<in>set L. entry_wf e \<Longrightarrow> \<forall>e\<in>set (rec_effect r L). entry_wf e"
  unfolding rec_effect_def by (auto split: option.split dest: spec_wf intro!: entryFromDTO_wf)

lemma disk_live_wf: "\<forall>e\<in>set (disk_live d). entry_wf e"
proof -
  have b: "\<forall>e\<in>set L. entry_wf e \<Longrightarrow> \<forall>e\<in>set (fold base_effect ls L). entry_wf e" for ls L
  proof (induction ls arbitrary: L)
    case (Cons l ls)
    have "\<forall>e\<in>set (base_effect l L). entry_wf e"
      using Cons.prems unfolding base_effect_def
      by (auto split: fline.split dest: spec_wf intro!: entryFromDTO_wf)
    then show ?case using Cons.IH by simp
  qed simp
  have j: "\<forall>e\<in>set L. entry_wf e \<Longrightarrow> \<forall>e\<in>set (fold line_effect ls L). entry_wf e" for ls L
  proof (induction ls arbitrary: L)
    case (Cons l ls)
    have "\<forall>e\<in>set (line_effect l L). entry_wf e"
      using Cons.prems rec_effect_wf unfolding line_effect_def by (auto split: fline.split jentry.split)
    then show ?case using Cons.IH by simp
  qed simp
  show ?thesis
    using b [of "[]" "dk_base d"] j [of "base_live d"]
    by (auto simp: disk_live_def base_live_def split: option.split list.split)
qed

text \<open>Opening the journal either finds none, moves it aside, or replays it.\<close>

definition journal_fits :: "fileStore \<Rightarrow> jfile \<Rightarrow> bool" where
  "journal_fits s f \<longleftrightarrow> (case all_lines f of [] \<Rightarrow> False | h # _ \<Rightarrow> hdr_ok (fs_baseSize s) (fs_baseMtime s) h)"

lemma loadJournal_eq:
  "loadJournal en s =
     (case dk_journal (fs_disk s) of None \<Rightarrow> (None, s)
      | Some f \<Rightarrow> if \<not> journal_fits s f then stashJournal en s
          else let s1 = fold load_journal_line (tl (all_lines f)) s in
            if e_fails en JOpen then (Some (IOErr JOpen), s1)
            else (None, s1\<lparr>fs_jw := Some \<lparr>jw_buf = [], jw_err = False\<rparr>\<rparr>))"
  by (simp add: loadJournal_def journal_fits_def hdr_ok_def journalVersion_def
      split: option.split list.split fline.split jentry.split)

lemma disk_live_eq:
  "disk_live d =
     (case dk_journal d of None \<Rightarrow> base_live d
      | Some f \<Rightarrow> if all_lines f \<noteq> [] \<and> hdr_ok (file_size (dk_base d)) (dk_bmtime d) (hd (all_lines f))
                 then fold line_effect (tl (all_lines f)) (base_live d) else base_live d)"
  by (simp add: disk_live_def split: option.split list.split)

lemma NewFileStore_live:
  assumes "NewFileStore en d = (None, s)"
  shows "mem_inv s" and "\<not> fs_closed s" and "live s = disk_live d" and "base_bound s"
    and "dk_base (fs_disk s) = dk_base d" and "dk_bmtime (fs_disk s) = dk_bmtime d"
    and "disk_live (fs_disk s) = disk_live d"
proof -
  define s0 where "s0 = (fold load_base_line (dk_base d) (new_store d))
    \<lparr>fs_baseSize := file_size (dk_base d), fs_baseMtime := dk_bmtime d\<rparr>"
  have b: "mem_inv s0" "live s0 = base_live d" "outer s0 = (False, file_size (dk_base d), dk_bmtime d, None, d)"
    using load_base_lines [OF mem_inv_new_store, of "dk_base d" d]
    by (auto simp: s0_def mem_inv_def live_def outer_def base_live_def new_store_def)
  have eq: "loadJournal en s0 = (None, s)"
    using assms by (simp add: NewFileStore_def load_def s0_def new_store_def Let_def)
  have o: "fs_disk s0 = d" "fs_baseSize s0 = file_size (dk_base d)" "fs_baseMtime s0 = dk_bmtime d" "\<not> fs_closed s0"
    using b(3) by (auto simp: outer_def)
  have "mem_inv s \<and> \<not> fs_closed s \<and> live s = disk_live d \<and> base_bound s \<and>
      dk_base (fs_disk s) = dk_base d \<and> dk_bmtime (fs_disk s) = dk_bmtime d \<and>
      disk_live (fs_disk s) = disk_live d"
  proof (cases "dk_journal d")
    case None
    then have "s = s0" using eq o by (simp add: loadJournal_eq)
    then show ?thesis using None b(1,2) o by (simp add: disk_live_eq base_bound_def)
  next
    case (Some f)
    show ?thesis
    proof (cases "journal_fits s0 f")
      case False
      then have "s = s0\<lparr>fs_disk := d\<lparr>dk_journal := None, dk_stash := dk_stash d @ [f]\<rparr>\<rparr>"
        using eq o Some by (auto simp: loadJournal_eq stashJournal_def split: if_splits)
      then show ?thesis using False Some b(1,2) o
        by (auto simp: disk_live_eq base_bound_def journal_fits_def base_live_def mem_inv_def live_def
            split: list.splits)
    next
      case True
      let ?s1 = "fold load_journal_line (tl (all_lines f)) s0"
      have "s = ?s1\<lparr>fs_jw := Some \<lparr>jw_buf = [], jw_err = False\<rparr>\<rparr>"
        using eq o Some True by (auto simp: loadJournal_eq Let_def split: if_splits)
      moreover have "all_lines f \<noteq> [] \<and> hdr_ok (file_size (dk_base d)) (dk_bmtime d) (hd (all_lines f))"
        using True o by (auto simp: journal_fits_def split: list.splits)
      ultimately show ?thesis using Some b o load_journal_lines [OF b(1), of "tl (all_lines f)"]
        by (auto simp: disk_live_eq base_bound_def mem_inv_def live_def outer_def)
    qed
  qed
  then show "mem_inv s" "\<not> fs_closed s" "live s = disk_live d" "base_bound s"
    "dk_base (fs_disk s) = dk_base d" "dk_bmtime (fs_disk s) = dk_bmtime d"
    "disk_live (fs_disk s) = disk_live d" by auto
qed

lemma NewFileStore_ready:
  assumes "NewFileStore en d = (None, s)" and "\<And>f. dk_journal d = Some f \<Longrightarrow> jf_tail f = None"
  shows "ready s"
proof -
  note nf = NewFileStore_live [OF assms(1)]
  define s0 where "s0 = (fold load_base_line (dk_base d) (new_store d))
    \<lparr>fs_baseSize := file_size (dk_base d), fs_baseMtime := dk_bmtime d\<rparr>"
  have b: "mem_inv s0" "outer s0 = (False, file_size (dk_base d), dk_bmtime d, None, d)"
    using load_base_lines [OF mem_inv_new_store, of "dk_base d" d]
    by (auto simp: s0_def mem_inv_def outer_def new_store_def)
  have eq: "loadJournal en s0 = (None, s)"
    using assms(1) by (simp add: NewFileStore_def load_def s0_def new_store_def Let_def)
  have "if fs_jw s = None then dk_journal (fs_disk s) = None
      else fs_jw s = Some \<lparr>jw_buf = [], jw_err = False\<rparr> \<and> jclean s"
  proof (cases "\<exists>f. dk_journal d = Some f \<and> journal_fits s0 f")
    case True
    then obtain f where f: "dk_journal d = Some f" "journal_fits s0 f" by blast
    then have "s = (fold load_journal_line (tl (all_lines f)) s0)\<lparr>fs_jw := Some \<lparr>jw_buf = [], jw_err = False\<rparr>\<rparr>"
      using eq b(2) by (auto simp: loadJournal_eq Let_def outer_def split: if_splits)
    then have "fs_disk s = d" "fs_jw s = Some \<lparr>jw_buf = [], jw_err = False\<rparr>"
      using load_journal_lines [OF b(1), of "tl (all_lines f)"] b(2) by (auto simp: outer_def)
    moreover have "f = \<lparr>jf_lines = hd (jf_lines f) # tl (jf_lines f), jf_tail = None\<rparr>"
      "hdr_ok (file_size (dk_base d)) (dk_bmtime d) (hd (jf_lines f))"
      using f assms(2) [OF f(1)] b(2) by (auto simp: journal_fits_def all_lines_def outer_def split: list.splits)
    ultimately show ?thesis using f(1) unfolding jclean_def by auto
  next
    case False
    then show ?thesis
      using eq b(2) by (auto simp: loadJournal_eq stashJournal_def outer_def split: option.splits if_splits)
  qed
  then show ?thesis
    using nf disk_live_wf by (simp add: ready_def)
qed

section \<open>Appending to the journal\<close>

definition recs_effect :: "(journalRecord \<times> nat) list \<Rightarrow> storedEntry list \<Rightarrow> storedEntry list" where
  "recs_effect rs L = fold (\<lambda>(r, n). line_effect (Good (JRec r) n)) rs L"

lemma append_recs_clean:
  "jf_tail f = None \<Longrightarrow>
     append_recs f rs = f\<lparr>jf_lines := jf_lines f @ map (\<lambda>(r, n). Good (JRec r) n) rs\<rparr>"
  by (induction rs arbitrary: f) auto

lemma fold_line_effect_map:
  "fold line_effect (map (\<lambda>(r, n). Good (JRec r) n) rs) L = recs_effect rs L"
  by (induction rs arbitrary: L) (auto simp: recs_effect_def)

lemma disk_live_append:
  assumes "dk_journal d = Some \<lparr>jf_lines = h # ls, jf_tail = None\<rparr>"
    and "hdr_ok (file_size (dk_base d)) (dk_bmtime d) h"
  shows "disk_live (d\<lparr>dk_journal := Some (append_recs \<lparr>jf_lines = h # ls, jf_tail = None\<rparr> rs)\<rparr>) =
      recs_effect rs (disk_live d)"
  using assms by (simp add: append_recs_clean disk_live_eq all_lines_def base_live_def fold_line_effect_map)

lemma line_effect_Junk [simp]: "line_effect (Junk n) L = L"
  by (simp add: line_effect_def)

lemma disk_live_torn:
  assumes "dk_journal d = Some \<lparr>jf_lines = h # ls, jf_tail = None\<rparr>"
    and "hdr_ok (file_size (dk_base d)) (dk_bmtime d) h"
  shows "disk_live (d\<lparr>dk_journal := Some (torn_append \<lparr>jf_lines = h # ls, jf_tail = None\<rparr> rs k m)\<rparr>) =
      recs_effect (take k rs) (disk_live d)"
  using assms
  by (simp add: torn_append_def append_recs_clean disk_live_eq all_lines_def base_live_def
      fold_line_effect_map Let_def)

definition writing :: "(journalRecord \<times> nat) list \<Rightarrow> fileStore \<Rightarrow> bool" where
  "writing B s \<longleftrightarrow> \<not> fs_closed s \<and> base_bound s \<and> jclean s \<and> fs_jw s = Some \<lparr>jw_buf = B, jw_err = False\<rparr>"

abbreviation mem_same :: "fileStore \<Rightarrow> fileStore \<Rightarrow> bool" where
  "mem_same s s' \<equiv> fs_entries s' = fs_entries s \<and> fs_order s' = fs_order s"

abbreviation base_same :: "fileStore \<Rightarrow> fileStore \<Rightarrow> bool" where
  "base_same s s' \<equiv> dk_base (fs_disk s') = dk_base (fs_disk s) \<and> dk_bmtime (fs_disk s') = dk_bmtime (fs_disk s)"

lemma torn_write_live:
  assumes "jclean s"
  shows "\<exists>k. disk_live (fs_disk (torn_write en w s)) = recs_effect (take k (jw_buf w)) (disk_live (fs_disk s))"
    and "mem_same s (torn_write en w s)" and "base_same s (torn_write en w s)"
proof -
  obtain h ls where h: "dk_journal (fs_disk s) = Some \<lparr>jf_lines = h # ls, jf_tail = None\<rparr>"
    "hdr_ok (file_size (dk_base (fs_disk s))) (dk_bmtime (fs_disk s)) h"
    using assms by (auto simp: jclean_def)
  then show "\<exists>k. disk_live (fs_disk (torn_write en w s)) = recs_effect (take k (jw_buf w)) (disk_live (fs_disk s))"
    using disk_live_torn [OF h] by (auto simp: torn_write_def Let_def)
qed (simp_all add: torn_write_def Let_def)

lemma ensure_stage:
  assumes "ready s" "ensureJournalLocked en s = (r, s')" "\<And>h. e_hlen en h \<le> maxImportLine"
  shows "mem_same s s'" "base_same s s'" "disk_live (fs_disk s') = disk_live (fs_disk s)"
    "r = None \<Longrightarrow> writing [] s'"
  using assms
  by (auto simp: ensureJournalLocked_def ready_def writing_def Let_def disk_live_eq all_lines_def base_live_def
      base_bound_def jclean_def hdr_ok_def split: if_splits option.splits)

lemma append_stage:
  assumes "writing B s" "appendLocked en r s = (x, s')"
  shows "mem_same s s'" "base_same s s'"
    "x = None \<Longrightarrow> writing (B @ [(r, e_jlen en r + 1)]) s' \<and> fs_disk s' = fs_disk s"
    "\<exists>k. disk_live (fs_disk s') = recs_effect (take k (B @ [(r, e_jlen en r + 1)])) (disk_live (fs_disk s))"
proof -
  have j: "jclean s" using assms(1) by (simp add: writing_def)
  have k0: "\<exists>k. disk_live (fs_disk s) = recs_effect (take k L) (disk_live (fs_disk s))" for L
    by (rule exI [of _ 0]) (simp add: recs_effect_def)
  note tw = torn_write_live [OF j]
  show "\<exists>k. disk_live (fs_disk s') = recs_effect (take k (B @ [(r, e_jlen en r + 1)])) (disk_live (fs_disk s))"
    using assms tw(1) [of en "\<lparr>jw_buf = B @ [(r, e_jlen en r + 1)], jw_err = False\<rparr>"] k0
    by (auto simp: appendLocked_def writing_def Let_def split: if_splits simp del: take_append)
  show "mem_same s s'" "base_same s s'"
    using assms tw(2,3) by (auto simp: appendLocked_def writing_def Let_def split: if_splits)
  show "x = None \<Longrightarrow> writing (B @ [(r, e_jlen en r + 1)]) s' \<and> fs_disk s' = fs_disk s"
    using assms by (auto simp: appendLocked_def writing_def Let_def jclean_def base_bound_def split: if_splits)
qed

definition sized :: "env \<Rightarrow> journalRecord list \<Rightarrow> (journalRecord \<times> nat) list" where
  "sized en rs = map (\<lambda>r. (r, e_jlen en r + 1)) rs"

lemma appendAll_stage:
  assumes "writing B s" "appendAll en rs s = (x, s')"
  shows "mem_same s s' \<and> base_same s s' \<and>
    (x = None \<longrightarrow> writing (B @ sized en rs) s' \<and> fs_disk s' = fs_disk s) \<and>
    (\<exists>k. disk_live (fs_disk s') = recs_effect (take k (B @ sized en rs)) (disk_live (fs_disk s)))"
  using assms
proof (induction rs arbitrary: B s)
  case Nil
  then show ?case
    by (auto simp: sized_def recs_effect_def intro!: exI [of _ 0])
next
  case (Cons r rs)
  obtain y s1 where ap: "appendLocked en r s = (y, s1)" by force
  note st = append_stage [OF Cons.prems(1) ap]
  have split: "B @ sized en (r # rs) = (B @ [(r, e_jlen en r + 1)]) @ sized en rs"
    by (simp add: sized_def)
  show ?case
  proof (cases y)
    case None
    then have "appendAll en rs s1 = (x, s')" using Cons.prems(2) ap by (simp add: andthen_def)
    then show ?thesis
      using Cons.IH [of "B @ [(r, e_jlen en r + 1)]" s1] st None unfolding split by auto
  next
    case (Some e)
    then have "x \<noteq> None" "s' = s1" using Cons.prems(2) ap by (auto simp: andthen_def)
    moreover obtain k where "disk_live (fs_disk s1) =
        recs_effect (take k (B @ [(r, e_jlen en r + 1)])) (disk_live (fs_disk s))"
      using st(4) by blast
    then have "disk_live (fs_disk s1) =
        recs_effect (take (min k (length (B @ [(r, e_jlen en r + 1)]))) (B @ sized en (r # rs))) (disk_live (fs_disk s))"
      unfolding split by (simp only: take_min_prefix)
    ultimately show ?thesis using st by blast
  qed
qed

lemma jw_flush_stage:
  assumes "writing B s" "jw_flush en s = (x, s')"
  shows "mem_same s s'" "base_same s s'"
    "x = None \<Longrightarrow> writing [] s' \<and> disk_live (fs_disk s') = recs_effect B (disk_live (fs_disk s))"
    "\<exists>k. disk_live (fs_disk s') = recs_effect (take k B) (disk_live (fs_disk s))"
proof -
  have j: "jclean s" using assms(1) by (simp add: writing_def)
  then obtain h ls where h: "dk_journal (fs_disk s) = Some \<lparr>jf_lines = h # ls, jf_tail = None\<rparr>"
    "hdr_ok (file_size (dk_base (fs_disk s))) (dk_bmtime (fs_disk s)) h"
    by (auto simp: jclean_def)
  note tw = torn_write_live [OF j]
  show "mem_same s s'" "base_same s s'"
    using assms tw(2,3) by (auto simp: jw_flush_def writing_def Let_def split: if_splits)
  show ok: "x = None \<Longrightarrow> writing [] s' \<and> disk_live (fs_disk s') = recs_effect B (disk_live (fs_disk s))"
    using assms h disk_live_append [OF h, of B]
    by (auto simp: jw_flush_def writing_def base_bound_def jclean_def append_recs_clean split: if_splits)
  show "\<exists>k. disk_live (fs_disk s') = recs_effect (take k B) (disk_live (fs_disk s))"
  proof (cases "e_fails en JFlush")
    case True
    then have "s' = torn_write en \<lparr>jw_buf = B, jw_err = False\<rparr> s"
      using assms by (simp add: jw_flush_def writing_def)
    then show ?thesis using tw(1) [of en "\<lparr>jw_buf = B, jw_err = False\<rparr>"] by simp
  next
    case False
    then have "x = None" using assms by (auto simp: jw_flush_def writing_def)
    then show ?thesis using ok by (metis order_refl take_all)
  qed
qed

lemma flush_stage:
  assumes "writing B s" "flushLocked en s = (x, s')"
  shows "mem_same s s'" "base_same s s'"
    "x = None \<Longrightarrow> writing [] s' \<and> disk_live (fs_disk s') = recs_effect B (disk_live (fs_disk s))"
    "\<exists>k. disk_live (fs_disk s') = recs_effect (take k B) (disk_live (fs_disk s))"
proof -
  obtain y s1 where f: "jw_flush en s = (y, s1)" by force
  note st = jw_flush_stage [OF assms(1) f]
  have s': "mem_same s1 s' \<and> fs_disk s' = fs_disk s1 \<and> fs_jw s' = fs_jw s1 \<and> fs_closed s' = fs_closed s1
      \<and> fs_baseSize s' = fs_baseSize s1 \<and> fs_baseMtime s' = fs_baseMtime s1" "x = None \<Longrightarrow> y = None"
    using assms(2) f by (auto simp: flushLocked_def andthen_def split: option.splits if_splits)
  show "mem_same s s'" "base_same s s'" using st(1,2) s' by auto
  show "\<exists>k. disk_live (fs_disk s') = recs_effect (take k B) (disk_live (fs_disk s))"
    using st(4) s' by simp
  assume "x = None"
  then show "writing [] s' \<and> disk_live (fs_disk s') = recs_effect B (disk_live (fs_disk s))"
    using st(3) s' by (auto simp: writing_def base_bound_def jclean_def)
qed

section \<open>Compaction\<close>

lemma entry_roundtrip: "entry_wf e \<Longrightarrow> \<not> se_dead e \<Longrightarrow> entryFromDTO (dtoFromEntry e) = e"
  by (cases e; cases "se_s e") (auto simp: entry_wf_def entryFromDTO_def dtoFromEntry_def split: option.splits)

lemma distinct_filter_nth:
  assumes "\<And>i j. i < j \<Longrightarrow> j < length xs \<Longrightarrow> P (xs ! i) \<Longrightarrow> P (xs ! j) \<Longrightarrow> f (xs ! i) \<noteq> f (xs ! j)"
  shows "distinct (map f (filter P xs))"
proof -
  have "sorted_wrt (\<lambda>x y. P x \<longrightarrow> P y \<longrightarrow> f x \<noteq> f y) xs"
    using assms by (auto simp: sorted_wrt_iff_nth_less)
  then show ?thesis by (induction xs) auto
qed

lemma distinct_live: "mem_inv s \<Longrightarrow> distinct (map eid (live s))"
  unfolding live_def by (rule distinct_filter_nth) (metis mem_inv_unique less_irrefl less_trans)

lemma index_entries_get:
  "distinct (map eid es) \<Longrightarrow>
     m_get (index_entries n es m) k = Some j \<longleftrightarrow>
       (\<exists>i<length es. eid (es ! i) = k \<and> j = n + i) \<or> (k \<notin> eid ` set es \<and> m_get m k = Some j)"
proof (induction es arbitrary: n m)
  case (Cons e es)
  then have "m_get (index_entries (Suc n) es (m_set (eid e) n m)) k = Some j \<longleftrightarrow>
      (\<exists>i<length es. eid (es ! i) = k \<and> j = Suc n + i) \<or>
      (k \<notin> eid ` set es \<and> m_get (m_set (eid e) n m) k = Some j)"
    by simp
  then show ?case
    using Cons.prems by (cases "k = eid e") (auto simp: Ex_less_Suc2 in_set_conv_nth)
qed simp

lemma wf_index_entries: "wf_map m \<Longrightarrow> wf_map (index_entries n es m)"
  by (induction es arbitrary: n m) auto

lemma mem_inv_indexed:
  assumes "distinct (map eid es)" "\<forall>e\<in>set es. \<not> se_dead e"
    "fs_entries s = index_entries 0 es []" "fs_order s = es"
  shows "mem_inv s" "live s = es"
  using assms by (auto simp: mem_inv_def index_entries_get wf_index_entries live_def filter_id_conv)

lemma fold_base_put:
  assumes "\<forall>e\<in>set es. entry_wf e \<and> \<not> se_dead e \<and> bl e \<le> maxImportLine"
    "distinct (map eid es)" "\<forall>e\<in>set es. eid e \<notin> eid ` set L"
  shows "fold base_effect (map (\<lambda>e. Good (dtoFromEntry e) (bl e)) es) L = L @ es"
  using assms
proof (induction es arbitrary: L)
  case (Cons e es)
  have "base_effect (Good (dtoFromEntry e) (bl e)) L = L @ [e]"
  proof -
    have "filter (\<lambda>x. eid x \<noteq> eid e) L = L" 
      by (rule filter_True) (use Cons.prems(3) in \<open>metis imageI list.set_intros(1)\<close>)
    moreover have "d_ID (dtoFromEntry e) \<noteq> []"
      using Cons.prems(1) by (simp add: dtoFromEntry_def entry_wf_def)
    ultimately show ?thesis
      using Cons.prems(1) by (simp add: base_effect_def spec_put_def entry_roundtrip)
  qed
  moreover have "fold base_effect (map (\<lambda>e. Good (dtoFromEntry e) (bl e)) es) (L @ [e]) = (L @ [e]) @ es"
    by (rule Cons.IH) (use Cons.prems in \<open>auto, metis imageI\<close>)
  ultimately show ?case by simp
qed simp

text \<open>
  What a compaction needs of its environment: the new base file gets a time stamp different from the
  old one, which is what tells an old journal from a fresh one, and every line written can be read.
\<close>

definition compactable :: "env \<Rightarrow> fileStore \<Rightarrow> storedEntry list \<Rightarrow> bool" where
  "compactable en s kept \<longleftrightarrow> e_mtime en \<noteq> dk_bmtime (fs_disk s) \<and> (\<forall>h. e_hlen en h \<le> maxImportLine) \<and>
     distinct (map eid kept) \<and>
     (\<forall>e\<in>set kept. entry_wf e \<and> \<not> se_dead e \<and> e_blen en (dtoFromEntry e) < maxImportLine)"

abbreviation base_lines :: "env \<Rightarrow> storedEntry list \<Rightarrow> sliceDTO fline list" where
  "base_lines en kept \<equiv> map (\<lambda>e. Good (dtoFromEntry e) (e_blen en (dtoFromEntry e) + 1)) kept"

lemma base_live_new:
  assumes "compactable en s kept"
  shows "fold base_effect (base_lines en kept) [] = kept"
  using fold_base_put [of kept "\<lambda>e. e_blen en (dtoFromEntry e) + 1" "[]"] assms
  by (simp add: compactable_def Suc_le_eq)

text \<open>The new base file under the old journal: the header no longer fits, so the base alone counts.\<close>

lemma hdr_ok_mtime: "hdr_ok a m h \<Longrightarrow> hdr_ok b m' h \<Longrightarrow> m = m'"
  by (auto simp: hdr_ok_def split: fline.splits jentry.splits)

lemma disk_live_swapped:
  assumes "compactable en s kept" "dk_bmtime (fs_disk t) = dk_bmtime (fs_disk s)"
    "dk_journal (fs_disk t) = None \<or> jclean t"
  shows "disk_live ((fs_disk t)\<lparr>dk_base := base_lines en kept, dk_bmtime := e_mtime en\<rparr>) = kept"
  using assms(3)
proof
  assume "dk_journal (fs_disk t) = None"
  then show ?thesis using base_live_new [OF assms(1)] by (simp add: disk_live_eq base_live_def)
next
  assume "jclean t"
  then obtain h ls where h: "dk_journal (fs_disk t) = Some \<lparr>jf_lines = h # ls, jf_tail = None\<rparr>"
    "hdr_ok (file_size (dk_base (fs_disk t))) (dk_bmtime (fs_disk t)) h"
    by (auto simp: jclean_def)
  have "\<not> hdr_ok z (e_mtime en) h" for z
    using hdr_ok_mtime [OF h(2)] assms(1,2) by (auto simp: compactable_def)
  then show ?thesis
    using h(1) base_live_new [OF assms(1)] by (simp add: disk_live_eq base_live_def all_lines_def)
qed

text \<open>The state once the journal descriptor has been retired.\<close>

definition retired :: "fileStore \<Rightarrow> bool" where
  "retired s \<longleftrightarrow> fs_jw s = None \<and> \<not> fs_closed s \<and> (dk_journal (fs_disk s) = None \<or> jclean s)"

lemma retire_stage:
  assumes "ready s" "retireJournal en s = (x, s')"
  shows "mem_same s s' \<and> base_same s s' \<and> disk_live (fs_disk s') = live s \<and> (x = None \<longrightarrow> retired s')"
proof (cases "fs_jw s")
  case None
  then show ?thesis using assms by (auto simp: retireJournal_def retired_def ready_def)
next
  case (Some w)
  have w: "writing [] s" using assms(1) Some by (auto simp: ready_def writing_def)
  obtain y s1 where f: "jw_flush en s = (y, s1)" by force
  have d: "disk_live (fs_disk s1) = live s"
    using jw_flush_stage(4) [OF w f] assms(1) by (auto simp: recs_effect_def ready_def)
  show ?thesis
    using assms(2) f Some d jw_flush_stage(1-3) [OF w f]
    by (auto simp: retireJournal_def andthen_def retired_def writing_def broken_writer_def jclean_def
        split: option.splits if_splits)
qed

lemma swap_stage:
  assumes "retired t" "compactable en s kept" "base_same s t"
    "swapBase en r kept (base_lines en kept) t = (x, s')"
  shows "x = None \<Longrightarrow> ready s' \<and> live s' = kept"
    and "x \<noteq> None \<Longrightarrow> mem_same t s'"
    and "disk_live (fs_disk s') = disk_live (fs_disk t) \<or> disk_live (fs_disk s') = kept"
proof -
  note sw = disk_live_swapped [OF assms(2), of t]
  have nj: "disk_live ((fs_disk t)\<lparr>dk_base := base_lines en kept, dk_bmtime := e_mtime en, dk_journal := j\<rparr>) = kept"
    if "j = None \<or> (\<exists>h n. j = Some \<lparr>jf_lines = [Good (JHdr h) n], jf_tail = None\<rparr>)" for j
    using that base_live_new [OF assms(2)] by (auto simp: disk_live_eq base_live_def all_lines_def)
  have t: "dk_bmtime (fs_disk t) = dk_bmtime (fs_disk s)" "dk_journal (fs_disk t) = None \<or> jclean t"
    "fs_jw t = None" "\<not> fs_closed t"
    using assms(1,3) by (auto simp: retired_def)
  show "x \<noteq> None \<Longrightarrow> mem_same t s'"
    using assms(4)
    by (auto simp: swapBase_def reopenJournalLocked_def ensureJournalLocked_def andthen_def Let_def
        split: if_splits option.splits)
  show "disk_live (fs_disk s') = disk_live (fs_disk t) \<or> disk_live (fs_disk s') = kept"
    using assms(4) sw [OF t(1,2)] nj t(3,4)
    by (auto simp: swapBase_def reopenJournalLocked_def ensureJournalLocked_def andthen_def Let_def
        split: if_splits option.splits)
  assume "x = None"
  define hdr where "hdr = \<lparr>jh_J = journalVersion, jh_BSize = file_size (base_lines en kept), jh_BMtime = e_mtime en\<rparr>"
  let ?jf = "\<lparr>jf_lines = [Good (JHdr hdr) (e_hlen en hdr)], jf_tail = None\<rparr>"
  have s': "fs_disk s' = (fs_disk t)\<lparr>dk_base := base_lines en kept, dk_bmtime := e_mtime en, dk_journal := Some ?jf\<rparr>"
    "fs_entries s' = index_entries 0 kept []" "fs_order s' = kept" "\<not> fs_closed s'"
    "fs_jw s' = Some \<lparr>jw_buf = [], jw_err = False\<rparr>" "fs_baseSize s' = file_size (base_lines en kept)"
    "fs_baseMtime s' = e_mtime en"
    using assms(4) t(3,4) \<open>x = None\<close>
    by (auto simp: swapBase_def ensureJournalLocked_def andthen_def Let_def hdr_def reopenJournalLocked_def
        split: if_splits option.splits)
  have mem: "mem_inv s'" "live s' = kept"
    using mem_inv_indexed [of kept s'] s'(2,3) assms(2) by (auto simp: compactable_def)
  moreover have "jclean s'"
    using assms(2) by (auto simp: jclean_def s'(1) hdr_ok_def hdr_def compactable_def)
  ultimately show "ready s' \<and> live s' = kept"
    using nj [of "Some ?jf"] assms(2) s' by (auto simp: ready_def base_bound_def compactable_def)
qed

lemma compact_stage:
  assumes "ready s" "compactLocked en rescore s = (x, s')"
    "compactable en s (compact_kept rescore s)"
  shows "x = None \<Longrightarrow> ready s' \<and> live s' = compact_kept rescore s"
    and "x \<noteq> None \<Longrightarrow> mem_same s s'"
    and "disk_live (fs_disk s') = live s \<or> disk_live (fs_disk s') = compact_kept rescore s"
proof -
  let ?kept = "compact_kept rescore s"
  obtain y t where rt: "retireJournal en s = (y, t)" by force
  note r = retire_stage [OF assms(1) rt]
  have same: "disk_live (fs_disk s) = live s" using assms(1) by (simp add: ready_def)
  have cases: "(x \<noteq> None \<and> s' = s) \<or> (y \<noteq> None \<and> x \<noteq> None \<and> s' = t) \<or>
      (y = None \<and> swapBase en (fs_jw s \<noteq> None) ?kept (base_lines en ?kept) t = (x, s'))"
    using assms(2) rt by (auto simp: compactLocked_def Let_def andthen_def split: if_splits option.splits)
  note sw = swap_stage [OF _ assms(3), of t "fs_jw s \<noteq> None" x s']
  show "x = None \<Longrightarrow> ready s' \<and> live s' = ?kept" using cases r sw(1) by auto
  show "x \<noteq> None \<Longrightarrow> mem_same s s'" using cases r sw(2) by auto
  show "disk_live (fs_disk s') = live s \<or> disk_live (fs_disk s') = ?kept" using cases r sw(3) same by auto
qed

section \<open>The write path, once for all writers\<close>

text \<open>
  \<open>Put\<close>, \<open>Delete\<close>, \<open>UpdateStats\<close> and \<open>UpdateStatsBatch\<close> share one shape: make sure there is a
  journal, append the records, flush, update memory, compact when the journal has grown.
\<close>

definition journaled :: "env \<Rightarrow> journalRecord list \<Rightarrow> (fileStore \<Rightarrow> fileStore) \<Rightarrow> fileStore \<Rightarrow> io_result" where
  "journaled en rs upd s =
     andthen (ensureJournalLocked en s) (\<lambda>s.
     andthen (appendAll en rs s) (\<lambda>s.
     andthen (flushLocked en s) (\<lambda>s. maybeCompactLocked en (upd s))))"

lemma andthen_return [simp]: "andthen r (\<lambda>s. (None, s)) = r"
  by (auto simp: andthen_def split: prod.split option.split)

lemma andthen_appendAll_Nil [simp]: "andthen r (appendAll en []) = r"
  by (auto simp: andthen_def split: prod.split option.split)

lemma Put_journaled:
  "Put en sl s = (let e = entryFromSlice (fst (EnforceAdmission sl)) in
     journaled en [put_rec (dtoFromEntry e)] (upsertLocked e) s)"
  by (simp add: Put_def journaled_def Let_def)

lemma Delete_journaled:
  "m_get (fs_entries s) k \<noteq> None \<Longrightarrow> Delete en k s = journaled en [del_rec k] (killLocked k) s"
  by (auto simp: Delete_def journaled_def)

lemma UpdateStats_journaled:
  "m_get (fs_entries s) k \<noteq> None \<Longrightarrow> UpdateStats en k d s = journaled en [stat_rec k d] (statLocked k d) s"
  by (auto simp: UpdateStats_def journaled_def)

text \<open>
  What a write needs of its environment, for the list it is going to leave: a fresh time stamp should
  it compact, and lines short enough to be read back.
\<close>

definition env_for :: "env \<Rightarrow> fileStore \<Rightarrow> journalRecord list \<Rightarrow> storedEntry list \<Rightarrow> bool" where
  "env_for en s rs L \<longleftrightarrow> compactable en s L \<and> (\<forall>r\<in>set rs. e_jlen en r < maxImportLine)"

text \<open>
  The contract between the records a writer logs and the update it makes in memory: replaying the
  records has the effect of the update, whatever else the store holds.
\<close>

locale logged_update =
  fixes rs :: "journalRecord list"
    and upd :: "fileStore \<Rightarrow> fileStore"
    and eff :: "storedEntry list \<Rightarrow> storedEntry list"
  assumes upd_inv: "mem_inv t \<Longrightarrow> mem_inv (upd t)"
    and upd_live: "mem_inv t \<Longrightarrow> live (upd t) = eff (live t)"
    and upd_outer: "outer (upd t) = outer t"
    and logged: "fold rec_effect rs L = eff L"
begin

lemma sized_effect:
  assumes "\<forall>r\<in>set rs'. e_jlen en r < maxImportLine"
  shows "recs_effect (sized en rs') L = fold rec_effect rs' L"
  using assms
proof (induction rs' arbitrary: L)
  case (Cons r rs')
  then show ?case by (simp add: recs_effect_def sized_def line_effect_def)
qed (simp add: recs_effect_def sized_def)

lemma recs_effect_prefix:
  assumes "env_for en s rs (eff (live s))"
  shows "recs_effect (take k (sized en rs)) L = fold rec_effect (take k rs) L"
proof -
  have "take k (sized en rs) = sized en (take k rs)" by (simp add: sized_def take_map)
  moreover have "\<forall>r\<in>set (take k rs). e_jlen en r < maxImportLine"
    using assms by (auto simp: env_for_def dest: in_set_takeD)
  ultimately show ?thesis by (simp add: sized_effect)
qed

lemma ready_updated:
  assumes "writing [] t" "mem_inv t" "disk_live (fs_disk t) = eff (live t)"
    "\<forall>e\<in>set (eff (live t)). entry_wf e"
  shows "ready (upd t)" "live (upd t) = eff (live t)"
  using assms upd_inv [of t] upd_live [of t] upd_outer [of t]
  by (auto simp: ready_def writing_def outer_def base_bound_def jclean_def)

lemma maybe_compact_stage:
  assumes "ready t" "maybeCompactLocked en t = (x, s')" "compactable en t (live t)"
  shows "(x = None \<longrightarrow> ready s') \<and> mem_inv s' \<and> live s' = live t \<and> disk_live (fs_disk s') = live t"
proof (cases "s' = t \<and> x = None")
  case True
  then show ?thesis using assms by (auto simp: ready_def)
next
  case False
  then have c: "compactLocked en None t = (x, s')"
    using assms(2) by (auto simp: maybeCompactLocked_def Let_def split: if_splits)
  have kept: "compact_kept None t = live t" by (simp add: compact_kept_def)
  have "mem_inv t" using assms(1) by (simp add: ready_def)
  moreover have "mem_same t s' \<Longrightarrow> mem_inv s' = mem_inv t \<and> live s' = live t"
    using mem_inv_cong [of s' t] live_cong [of s' t] by simp
  moreover have "ready s' \<Longrightarrow> mem_inv s'" by (simp add: ready_def)
  ultimately show ?thesis
    using compact_stage [OF assms(1) c] assms(3) unfolding kept by (cases x) auto
qed

text \<open>
  Whatever fails, memory holds the old or the new list, never a mixture, and the disk holds the old
  list with some of the records of this write replayed. A write that reports no error has both.
\<close>

lemma journaled_stage:
  assumes "ready s" "journaled en rs upd s = (x, s')" "env_for en s rs (eff (live s))"
  shows "x = None \<Longrightarrow> ready s' \<and> live s' = eff (live s)"
    and "mem_inv s' \<and> (live s' = live s \<or> live s' = eff (live s))"
    and "\<exists>k. disk_live (fs_disk s') = fold rec_effect (take k rs) (live s)"
proof -
  have inv: "mem_inv s" and dl: "disk_live (fs_disk s) = live s" using assms(1) by (auto simp: ready_def)
  have hl: "\<And>h. e_hlen en h \<le> maxImportLine" using assms(3) by (simp add: env_for_def compactable_def)
  have full: "fold rec_effect (take (length rs) rs) (live s) = eff (live s)" by (simp add: logged)
  obtain a s1 where e1: "ensureJournalLocked en s = (a, s1)" by force
  note st1 = ensure_stage [OF assms(1) e1 hl]
  obtain b s2 where e2: "appendAll en rs s1 = (b, s2)" by force
  obtain c s3 where e3: "flushLocked en s2 = (c, s3)" by force
  obtain d s4 where e4: "maybeCompactLocked en (upd s3) = (d, s4)" by force
  have mem: "live t = live s \<and> mem_inv t" if "mem_same s t" for t
    using that inv live_cong [of t s] mem_inv_cong [of t s] by simp
  have "(x = None \<longrightarrow> ready s' \<and> live s' = eff (live s)) \<and>
      (mem_inv s' \<and> (live s' = live s \<or> live s' = eff (live s))) \<and>
      (\<exists>k. disk_live (fs_disk s') = fold rec_effect (take k rs) (live s))"
  proof (cases a)
    case (Some e)
    then have "x \<noteq> None" "s' = s1" using assms(2) e1 by (auto simp: journaled_def andthen_def)
    then show ?thesis using st1 mem [of s1] dl by (auto intro!: exI [of _ 0])
  next
    case a: None
    note st2 = appendAll_stage [OF st1(4) [OF a] e2]
    show ?thesis
    proof (cases b)
      case (Some e)
      then have "x \<noteq> None" "s' = s2" using assms(2) e1 e2 a by (auto simp: journaled_def andthen_def)
      then show ?thesis
        using st1 st2 mem [of s2] dl by (auto simp: recs_effect_prefix [OF assms(3)])
    next
      case b: None
      have w2: "writing (sized en rs) s2" using st2 b by simp
      note st3 = flush_stage [OF w2 e3]
      have m3: "mem_same s s3" using st1(1) st2 st3(1) by simp
      show ?thesis
      proof (cases c)
        case (Some e)
        then have "x \<noteq> None" "s' = s3" using assms(2) e1 e2 e3 a b by (auto simp: journaled_def andthen_def)
        then show ?thesis
          using st1 st2 st3(4) mem [OF m3] dl b by (auto simp: recs_effect_prefix [OF assms(3)])
      next
        case c: None
        then have "x = d" "s' = s4" using assms(2) e1 e2 e3 e4 a b by (auto simp: journaled_def andthen_def)
        have d3: "disk_live (fs_disk s3) = eff (live s)"
          using st3(3) [OF c] st2 b st1(3) dl sized_effect [of rs en] assms(3) by (simp add: logged env_for_def)
        have r: "ready (upd s3)" "live (upd s3) = eff (live s)"
          using ready_updated [of s3] st3(3) [OF c] mem [OF m3] d3 assms(3)
          by (auto simp: env_for_def compactable_def)
        have "fs_disk (upd s3) = fs_disk s3" using upd_outer [of s3] by (simp add: outer_def)
        then have "compactable en (upd s3) (live (upd s3))"
          using assms(3) r(2) st1(2) st2 st3(2) by (auto simp: env_for_def compactable_def)
        from maybe_compact_stage [OF r(1) e4 this] show ?thesis
          using r(2) \<open>x = d\<close> \<open>s' = s4\<close> full by (auto intro!: exI [of _ "length rs"])
      qed
    qed
  qed
  then show "x = None \<Longrightarrow> ready s' \<and> live s' = eff (live s)"
    "mem_inv s' \<and> (live s' = live s \<or> live s' = eff (live s))"
    "\<exists>k. disk_live (fs_disk s') = fold rec_effect (take k rs) (live s)" by auto
qed

end

section \<open>The four writers\<close>

text \<open>
  A slice is storable when it has an ID and its embedding, if any, is a JSON text other than \<open>null\<close>
  (an encoded vector is an array). The total versions of the logged put are what the contract is
  interpreted on; for a storable slice they are the put itself.
\<close>

definition storable :: "Slice \<Rightarrow> bool" where
  "storable sl \<longleftrightarrow> sl_ID sl \<noteq> [] \<and> (case sl_Embedding sl of None \<Rightarrow> True | Some r \<Rightarrow> trim_space r \<noteq> ''null'')"

definition put_entry :: "Slice \<Rightarrow> storedEntry" where
  "put_entry sl = entryFromSlice (fst (EnforceAdmission sl))"

definition put_log :: "storedEntry \<Rightarrow> journalRecord list" where
  "put_log e = (if entry_wf e \<and> \<not> se_dead e then [put_rec (dtoFromEntry e)] else [])"

definition put_upd :: "storedEntry \<Rightarrow> fileStore \<Rightarrow> fileStore" where
  "put_upd e s = (if entry_wf e \<and> \<not> se_dead e then upsertLocked e s else s)"

definition put_eff :: "storedEntry \<Rightarrow> storedEntry list \<Rightarrow> storedEntry list" where
  "put_eff e L = (if entry_wf e \<and> \<not> se_dead e then spec_put e L else L)"

lemma EnforceAdmission_Embedding [simp]: "sl_Embedding (fst (EnforceAdmission sl)) = sl_Embedding sl"
  by (auto simp: EnforceAdmission_def split: SliceType.split)

lemma put_entry_wf: "storable sl \<Longrightarrow> entry_wf (put_entry sl) \<and> \<not> se_dead (put_entry sl)"
  by (auto simp: storable_def entry_wf_def put_entry_def entryFromSlice_def split: option.splits)

interpretation put: logged_update "put_log e" "put_upd e" "put_eff e"
proof
  fix t :: fileStore and L
  show "mem_inv t \<Longrightarrow> mem_inv (put_upd e t)" by (simp add: put_upd_def mem_inv_upsert)
  show "mem_inv t \<Longrightarrow> live (put_upd e t) = put_eff e (live t)"
    by (simp add: put_upd_def put_eff_def live_upsertLocked)
  show "outer (put_upd e t) = outer t" by (simp add: put_upd_def)
  show "fold rec_effect (put_log e) L = put_eff e L"
    by (auto simp: put_log_def put_eff_def put_rec_def rec_effect_def entry_roundtrip)
      (auto simp: dtoFromEntry_def entry_wf_def)
qed

interpretation del: logged_update "[del_rec k]" "killLocked k" "spec_del k"
  by unfold_locales (simp_all add: mem_inv_kill live_killLocked rec_effect_def del_rec_def)

interpretation stat: logged_update "[stat_rec k d]" "statLocked k d" "spec_stat k d"
  by unfold_locales (simp_all add: mem_inv_stat live_statLocked rec_effect_def stat_rec_def)

interpretation batch: logged_update "map (\<lambda>k. stat_rec k (f k)) ks" "fold (\<lambda>k. statLocked k (f k)) ks"
  "fold (\<lambda>k. spec_stat k (f k)) ks"
proof
  fix t :: fileStore and L
  show "mem_inv t \<Longrightarrow> mem_inv (fold (\<lambda>k. statLocked k (f k)) ks t)"
    by (induction ks arbitrary: t) (auto simp: mem_inv_stat)
  show "mem_inv t \<Longrightarrow> live (fold (\<lambda>k. statLocked k (f k)) ks t) = fold (\<lambda>k. spec_stat k (f k)) ks (live t)"
    by (induction ks arbitrary: t) (auto simp: mem_inv_stat live_statLocked)
  show "outer (fold (\<lambda>k. statLocked k (f k)) ks t) = outer t"
    by (induction ks arbitrary: t) auto
  show "fold rec_effect (map (\<lambda>k. stat_rec k (f k)) ks) L = fold (\<lambda>k. spec_stat k (f k)) ks L"
    by (induction ks arbitrary: L) (auto simp: rec_effect_def stat_rec_def)
qed

lemma Put_as_logged:
  "storable sl \<Longrightarrow> Put en sl s = journaled en (put_log (put_entry sl)) (put_upd (put_entry sl)) s"
  using put_entry_wf [of sl]
  by (simp add: Put_journaled Let_def put_log_def put_upd_def put_entry_def journaled_def)

lemma Put_stage:
  assumes "ready s" "storable sl" "Put en sl s = (x, s')"
    "env_for en s [put_rec (dtoFromEntry (put_entry sl))] (spec_put (put_entry sl) (live s))"
  shows "x = None \<Longrightarrow> ready s' \<and> live s' = spec_put (put_entry sl) (live s)"
    and "mem_inv s' \<and> (live s' = live s \<or> live s' = spec_put (put_entry sl) (live s))"
    and "disk_live (fs_disk s') = live s \<or> disk_live (fs_disk s') = spec_put (put_entry sl) (live s)"
proof -
  have wf: "entry_wf (put_entry sl) \<and> \<not> se_dead (put_entry sl)" using assms(2) by (rule put_entry_wf)
  have w: "env_for en s (put_log (put_entry sl)) (put_eff (put_entry sl) (live s))"
    using assms(4) wf by (simp add: put_eff_def put_log_def)
  note st = put.journaled_stage [OF assms(1) assms(3) [unfolded Put_as_logged [OF assms(2)]] w]
  show "x = None \<Longrightarrow> ready s' \<and> live s' = spec_put (put_entry sl) (live s)"
    "mem_inv s' \<and> (live s' = live s \<or> live s' = spec_put (put_entry sl) (live s))"
    using st(1,2) wf by (auto simp: put_eff_def)
  obtain k where k: "disk_live (fs_disk s') = fold rec_effect (take k (put_log (put_entry sl))) (live s)"
    using st(3) by blast
  then show "disk_live (fs_disk s') = live s \<or> disk_live (fs_disk s') = spec_put (put_entry sl) (live s)"
    using put.logged [of "put_entry sl" "live s"] wf by (cases k) (auto simp: put_log_def put_eff_def)
qed

lemma Delete_stage:
  assumes "ready s" "Delete en k s = (x, s')" "env_for en s [del_rec k] (spec_del k (live s))"
  shows "x = None \<Longrightarrow> ready s' \<and> live s' = spec_del k (live s)"
    and "mem_inv s' \<and> (live s' = live s \<or> live s' = spec_del k (live s))"
    and "disk_live (fs_disk s') = live s \<or> disk_live (fs_disk s') = spec_del k (live s)"
proof -
  have ready: "mem_inv s" "disk_live (fs_disk s) = live s" using assms(1) by (auto simp: ready_def)
  have "(x = None \<longrightarrow> ready s' \<and> live s' = spec_del k (live s)) \<and>
      (mem_inv s' \<and> (live s' = live s \<or> live s' = spec_del k (live s))) \<and>
      (disk_live (fs_disk s') = live s \<or> disk_live (fs_disk s') = spec_del k (live s))"
  proof (cases "m_get (fs_entries s) k = None")
    case True
    then have "spec_del k (live s) = live s" using ready(1) by (simp add: mem_inv_get_None spec_del_id)
    with True show ?thesis using assms ready by (auto simp: Delete_def)
  next
    case False
    note st = del.journaled_stage [OF assms(1) assms(2) [unfolded Delete_journaled [OF False]] assms(3)]
    obtain n where n: "disk_live (fs_disk s') = fold rec_effect (take n [del_rec k]) (live s)"
      using st(3) by blast
    then have "disk_live (fs_disk s') = live s \<or> disk_live (fs_disk s') = spec_del k (live s)"
      using del.logged [of k "live s"] by (cases n) auto
    with st(1,2) show ?thesis by blast
  qed
  then show "x = None \<Longrightarrow> ready s' \<and> live s' = spec_del k (live s)"
    "mem_inv s' \<and> (live s' = live s \<or> live s' = spec_del k (live s))"
    "disk_live (fs_disk s') = live s \<or> disk_live (fs_disk s') = spec_del k (live s)" by auto
qed

lemma UpdateStats_stage:
  assumes "ready s" "UpdateStats en k d s = (x, s')" "env_for en s [stat_rec k d] (spec_stat k d (live s))"
    "k \<in> eid ` set (live s)"
  shows "x = None \<Longrightarrow> ready s' \<and> live s' = spec_stat k d (live s)"
    and "mem_inv s' \<and> (live s' = live s \<or> live s' = spec_stat k d (live s))"
    and "disk_live (fs_disk s') = live s \<or> disk_live (fs_disk s') = spec_stat k d (live s)"
proof -
  have "mem_inv s" using assms(1) by (auto simp: ready_def)
  then have ne: "m_get (fs_entries s) k \<noteq> None" using assms(4) by (simp add: mem_inv_get_None)
  note st = stat.journaled_stage [OF assms(1) assms(2) [unfolded UpdateStats_journaled [OF ne]] assms(3)]
  show "x = None \<Longrightarrow> ready s' \<and> live s' = spec_stat k d (live s)"
    "mem_inv s' \<and> (live s' = live s \<or> live s' = spec_stat k d (live s))" using st(1,2) by auto
  obtain n where n: "disk_live (fs_disk s') = fold rec_effect (take n [stat_rec k d]) (live s)"
    using st(3) by blast
  then show "disk_live (fs_disk s') = live s \<or> disk_live (fs_disk s') = spec_stat k d (live s)"
    using stat.logged [of k d "live s"] by (cases n) auto
qed

section \<open>Without failures every write succeeds\<close>

definition quiet :: "env \<Rightarrow> bool" where
  "quiet en \<longleftrightarrow> (\<forall>c. \<not> e_fails en c)"

lemma failing_quiet [simp]: "quiet en \<Longrightarrow> failing en cs = None"
  by (simp add: quiet_def failing_def find_None_iff)

lemma quiet_fails [simp]: "quiet en \<Longrightarrow> \<not> e_fails en c"
  by (simp add: quiet_def)

lemma ensure_ok: "quiet en \<Longrightarrow> ready s \<Longrightarrow> fst (ensureJournalLocked en s) = None"
  by (simp add: ensureJournalLocked_def ready_def Let_def)

lemma appendAll_ok:
  "quiet en \<Longrightarrow> writing B s \<Longrightarrow> \<forall>r\<in>set rs. rec_ok r \<Longrightarrow> fst (appendAll en rs s) = None"
proof (induction rs arbitrary: B s)
  case (Cons r rs)
  have a: "fst (appendLocked en r s) = None"
    using Cons.prems by (auto simp: appendLocked_def writing_def Let_def)
  obtain s1 where s1: "appendLocked en r s = (None, s1)" using a by (metis prod.collapse)
  have "writing (B @ [(r, e_jlen en r + 1)]) s1" using append_stage(3) [OF Cons.prems(2) s1] by simp
  then show ?case using Cons s1 by (simp add: andthen_def)
qed simp

lemma jw_flush_ok: "quiet en \<Longrightarrow> writing B s \<Longrightarrow> fst (jw_flush en s) = None"
  by (simp add: jw_flush_def writing_def)

lemma flush_ok: "quiet en \<Longrightarrow> writing B s \<Longrightarrow> fst (flushLocked en s) = None"
  using jw_flush_ok [of en B s] by (cases "jw_flush en s") (simp add: flushLocked_def andthen_def)

lemma compact_ok:
  assumes "quiet en" "ready s" "\<forall>e\<in>set (compact_kept rescore s). dto_ok (dtoFromEntry e)"
  shows "fst (compactLocked en rescore s) = None"
proof -
  obtain y t where rt: "retireJournal en s = (y, t)" by force
  have "y = None"
  proof (cases "fs_jw s")
    case (Some w)
    then have "writing [] s" using assms(2) by (auto simp: ready_def writing_def)
    then have "fst (jw_flush en s) = None" by (rule jw_flush_ok [OF assms(1)])
    then show ?thesis using rt assms(1) Some
      by (cases "jw_flush en s") (auto simp: retireJournal_def andthen_def)
  qed (use rt in \<open>simp add: retireJournal_def\<close>)
  moreover have "retired t" using retire_stage [OF assms(2) rt] calculation by simp
  ultimately show ?thesis
    using assms rt
    by (simp add: compactLocked_def Let_def andthen_def list_all_iff ready_def retired_def swapBase_def
        ensureJournalLocked_def)
qed

context logged_update
begin

lemma journaled_ok:
  assumes "quiet en" "ready s" "env_for en s rs (eff (live s))" "\<forall>r\<in>set rs. rec_ok r"
    "\<forall>e\<in>set (eff (live s)). dto_ok (dtoFromEntry e)"
  shows "fst (journaled en rs upd s) = None"
proof -
  have hl: "\<And>h. e_hlen en h \<le> maxImportLine" using assms(3) by (simp add: env_for_def compactable_def)
  obtain s1 where e1: "ensureJournalLocked en s = (None, s1)"
    using ensure_ok [OF assms(1,2)] by (metis prod.collapse)
  note st1 = ensure_stage [OF assms(2) e1 hl]
  have w1: "writing [] s1" using st1(4) by simp
  obtain s2 where e2: "appendAll en rs s1 = (None, s2)"
    using appendAll_ok [OF assms(1) w1 assms(4)] by (metis prod.collapse)
  note st2 = appendAll_stage [OF w1 e2]
  have w2: "writing (sized en rs) s2" using st2 by simp
  obtain s3 where e3: "flushLocked en s2 = (None, s3)"
    using flush_ok [OF assms(1) w2] by (metis prod.collapse)
  note st3 = flush_stage [OF w2 e3]
  have "mem_inv s" using assms(2) by (simp add: ready_def)
  then have m3: "mem_inv s3" "live s3 = live s"
    using st1(1) st2 st3(1) mem_inv_cong [of s3 s] live_cong [of s3 s] by auto
  have "disk_live (fs_disk s3) = eff (live s)"
    using st3(3) st2 st1(3) assms(2,3) sized_effect [of rs en] by (simp add: logged env_for_def ready_def)
  then have r: "ready (upd s3)" "live (upd s3) = eff (live s)"
    using ready_updated [of s3] st3(3) m3 assms(3) by (auto simp: env_for_def compactable_def)
  then have "fst (maybeCompactLocked en (upd s3)) = None"
    using compact_ok [OF assms(1) r(1), of None] assms(5)
    by (auto simp: maybeCompactLocked_def Let_def compact_kept_def)
  then show ?thesis using e1 e2 e3 by (simp add: journaled_def andthen_def)
qed

end

section \<open>Reads\<close>

lemma ListAll_live: "ListAll s = map cloneStored (live s)"
  by (simp add: ListAll_def live_def)

lemma ListScope_live: "ListScope sc s = filter (\<lambda>sl. sl_Scope sl = sc) (ListAll s)"
proof -
  have "map f (filter (\<lambda>e. P e \<and> Q (f e)) xs) = filter Q (map f (filter P xs))" for f P Q and xs :: "storedEntry list"
    by (induction xs) auto
  from this [of cloneStored "\<lambda>e. \<not> se_dead e" "\<lambda>sl. sl_Scope sl = sc"] show ?thesis
    by (simp add: ListScope_def ListAll_def cloneStored_def)
qed

lemma Get_live:
  assumes "mem_inv s"
  shows "Get k s = map_option cloneStored (find (\<lambda>e. eid e = k) (live s))"
proof (cases "m_get (fs_entries s) k")
  case None
  then have "find (\<lambda>e. eid e = k) (live s) = None"
    using assms by (auto simp: mem_inv_get_None find_None_iff)
  with None show ?thesis by (simp add: Get_def)
next
  case (Some i)
  then have i: "i < length (fs_order s)" "\<not> se_dead (fs_order s ! i)" "eid (fs_order s ! i) = k"
    using assms by (auto simp: mem_inv_get)
  then have "fs_order s ! i \<in> set (live s)" by (simp add: live_def)
  with i(3) have "find (\<lambda>e. eid e = k) (live s) \<noteq> None" by (auto simp: find_None_iff)
  then obtain e where e: "find (\<lambda>e. eid e = k) (live s) = Some e" by blast
  then have "e \<in> set (live s)" "eid e = k" by (auto simp: find_Some_iff)
  then have "e = fs_order s ! i"
    using distinct_live [OF assms] \<open>fs_order s ! i \<in> set (live s)\<close> i(3)
    by (auto simp: distinct_map dest: inj_onD)
  with Some e show ?thesis by (simp add: Get_def)
qed

end
