(* ===== verification/File_Store_Props.thy ===== *)
theory File_Store_Props
  imports File_Store_Correct
begin

text \<open>
  What the journaled store promises its callers: atomicity of every write under arbitrary system-call
  failures, durability of acknowledged histories across restarts, success in the absence of failures,
  and the places where the promise breaks (a torn journal tail, a failed \<open>Stat\<close> after the swap).
\<close>

section \<open>Operations as values\<close>

datatype store_op = PutOp Slice | DeleteOp string | StatOp string SliceStats | CompactOp

fun run_op :: "env \<Rightarrow> store_op \<Rightarrow> fileStore \<Rightarrow> io_result" where
  "run_op en (PutOp sl) s = Put en sl s"
| "run_op en (DeleteOp k) s = Delete en k s"
| "run_op en (StatOp k d) s = UpdateStats en k d s"
| "run_op en CompactOp s = Compact en s"

text \<open>The abstract operation on the live list.\<close>

fun op_effect :: "store_op \<Rightarrow> storedEntry list \<Rightarrow> storedEntry list" where
  "op_effect (PutOp sl) L = spec_put (put_entry sl) L"
| "op_effect (DeleteOp k) L = spec_del k L"
| "op_effect (StatOp k d) L = spec_stat k d L"
| "op_effect CompactOp L = L"

fun op_records :: "store_op \<Rightarrow> journalRecord list" where
  "op_records (PutOp sl) = [put_rec (dtoFromEntry (put_entry sl))]"
| "op_records (DeleteOp k) = [del_rec k]"
| "op_records (StatOp k d) = [stat_rec k d]"
| "op_records CompactOp = []"

fun op_ok :: "store_op \<Rightarrow> bool" where
  "op_ok (PutOp sl) \<longleftrightarrow> storable sl"
| "op_ok _ \<longleftrightarrow> True"

abbreviation op_env :: "env \<Rightarrow> store_op \<Rightarrow> fileStore \<Rightarrow> bool" where
  "op_env en op s \<equiv> env_for en s (op_records op) (op_effect op (live s))"

lemma ready_disk: "ready s \<Longrightarrow> disk_live (fs_disk s) = live s"
  by (simp add: ready_def)

lemma spec_stat_absent: "k \<notin> eid ` set L \<Longrightarrow> spec_stat k d L = L"
  by (auto simp: spec_stat_def intro!: map_idI)

lemma Compact_stage:
  assumes "ready s" "Compact en s = (x, s')" "compactable en s (live s)"
  shows "x = None \<Longrightarrow> ready s' \<and> live s' = live s"
    and "mem_inv s' \<and> live s' = live s \<and> disk_live (fs_disk s') = live s"
proof -
  have *: "(x = None \<longrightarrow> ready s' \<and> live s' = live s) \<and> mem_inv s' \<and> live s' = live s \<and>
      disk_live (fs_disk s') = live s"
  proof (cases "fs_jOps s = 0 \<and> fs_baseSkipped s = 0 \<and> fs_journalSkipped s = 0")
    case True
    then show ?thesis using assms(1,2) by (auto simp: Compact_def ready_def split: if_splits)
  next
    case False
    then have c: "compactLocked en None s = (x, s')"
      using assms(1,2) by (auto simp: Compact_def ready_def split: if_splits)
    have k: "compact_kept None s = live s" by (simp add: compact_kept_def)
    note st = compact_stage [OF assms(1) c, unfolded k, OF assms(3)]
    show ?thesis
    proof (cases "x = None")
      case True
      then show ?thesis using st by (auto simp: ready_def)
    next
      case False
      then have "mem_same s s'" using st(2) by blast
      then show ?thesis using st(3) False assms(1) mem_inv_cong [of s' s] live_cong [of s' s]
        by (auto simp: ready_def)
    qed
  qed
  show "x = None \<Longrightarrow> ready s' \<and> live s' = live s"
    and "mem_inv s' \<and> live s' = live s \<and> disk_live (fs_disk s') = live s" using * by auto
qed

text \<open>One statement for all operations, from the stage lemmas of each.\<close>

lemma run_op_stage:
  assumes "ready s" "op_ok op" "op_env en op s" "run_op en op s = (x, s')"
  shows "x = None \<longrightarrow> ready s' \<and> live s' = op_effect op (live s)"
    and "mem_inv s' \<and> (live s' = live s \<or> live s' = op_effect op (live s))"
    and "disk_live (fs_disk s') = live s \<or> disk_live (fs_disk s') = op_effect op (live s)"
proof -
  have "(x = None \<longrightarrow> ready s' \<and> live s' = op_effect op (live s)) \<and>
    (mem_inv s' \<and> (live s' = live s \<or> live s' = op_effect op (live s))) \<and>
    (disk_live (fs_disk s') = live s \<or> disk_live (fs_disk s') = op_effect op (live s))"
  proof (cases op)
    case (PutOp sl)
    then show ?thesis using assms Put_stage [of s sl en x s'] by simp
  next
    case (DeleteOp k)
    then show ?thesis using assms Delete_stage [of s en k x s'] by simp
  next
    case (StatOp k d)
    show ?thesis
    proof (cases "k \<in> eid ` set (live s)")
      case True
      then show ?thesis using StatOp assms UpdateStats_stage [of s en k d x s'] by simp
    next
      case False
      then have "m_get (fs_entries s) k = None" using assms(1) mem_inv_get_None by (auto simp: ready_def)
      then show ?thesis using StatOp assms by (auto simp: UpdateStats_def ready_def)
    qed
  next
    case CompactOp
    then show ?thesis using assms Compact_stage [of s en x s'] by (simp add: env_for_def)
  qed
  then show "x = None \<longrightarrow> ready s' \<and> live s' = op_effect op (live s)"
    and "mem_inv s' \<and> (live s' = live s \<or> live s' = op_effect op (live s))"
    and "disk_live (fs_disk s') = live s \<or> disk_live (fs_disk s') = op_effect op (live s)" by auto
qed

section \<open>Histories\<close>

text \<open>
  A history: the store is opened on a disk that was never written, then operations are acknowledged
  one after another, and at any point the process may stop and open the file again. Every
  operation has its own environment, so any number of failed opens may lie between two steps.
\<close>

definition fresh_disk :: "int \<Rightarrow> Disk" where
  "fresh_disk mt = \<lparr>dk_base = [], dk_bmtime = mt, dk_journal = None, dk_stash = []\<rparr>"

inductive history :: "store_op list \<Rightarrow> fileStore \<Rightarrow> bool" where
  opened: "NewFileStore en (fresh_disk mt) = (None, s) \<Longrightarrow> history [] s"
| acked: "history ops s \<Longrightarrow> op_ok op \<Longrightarrow> op_env en op s \<Longrightarrow> run_op en op s = (None, s') \<Longrightarrow>
          history (ops @ [op]) s'"
| restarted: "history ops s \<Longrightarrow> NewFileStore en (fs_disk s) = (None, s') \<Longrightarrow> history ops s'"

lemma ready_no_tail: "ready s \<Longrightarrow> dk_journal (fs_disk s) = Some f \<Longrightarrow> jf_tail f = None"
  by (auto simp: ready_def jclean_def split: if_splits)

lemma reopen_ready:
  assumes "ready s" "NewFileStore en (fs_disk s) = (None, s')"
  shows "ready s'" "live s' = live s"
  using NewFileStore_ready [OF assms(2) ready_no_tail [OF assms(1)]] NewFileStore_live [OF assms(2)] assms(1)
  by (auto simp: ready_def)

lemma history_live:
  "history ops s \<Longrightarrow> ready s \<and> live s = fold op_effect ops []"
proof (induction rule: history.induct)
  case (opened en mt s)
  have "\<And>f. dk_journal (fresh_disk mt) = Some f \<Longrightarrow> jf_tail f = None" by (simp add: fresh_disk_def)
  then show ?case using NewFileStore_ready [OF opened] NewFileStore_live(3) [OF opened]
    by (auto simp: disk_live_def base_live_def fresh_disk_def)
next
  case (acked ops s op en s')
  then show ?case using run_op_stage(1) [of s op en None s'] by simp
next
  case (restarted ops s en s')
  then show ?case using reopen_ready [of s en s'] by simp
qed

section \<open>A quiet environment for concrete runs\<close>

definition test_env :: env where
  "test_env = \<lparr>e_fails = (\<lambda>_. False), e_torn = (0, 0), e_mtime = 7, e_jlen = (\<lambda>_. 40),
     e_blen = (\<lambda>_. 30), e_hlen = (\<lambda>_. 20)\<rparr>"

definition test_slice :: "string \<Rightarrow> Slice" where
  "test_slice k = zero_slice\<lparr>sl_ID := k, sl_Content := ''body''\<rparr>"

definition test_store :: fileStore where
  "test_store = snd (NewFileStore test_env (fresh_disk 0))"

lemma test_store_opened: "NewFileStore test_env (fresh_disk 0) = (None, test_store)"
  by (simp add: test_store_def NewFileStore_def load_def loadJournal_def fresh_disk_def new_store_def)

lemma test_store_ready: "ready test_store"
  by (rule NewFileStore_ready [OF test_store_opened]) (simp add: fresh_disk_def)

lemma test_store_live: "live test_store = []"
  using NewFileStore_live(3) [OF test_store_opened] by (simp add: disk_live_def base_live_def fresh_disk_def)

lemma test_mtime: "dk_bmtime (fs_disk test_store) = 0"
  using NewFileStore_live(6) [OF test_store_opened] by (simp add: fresh_disk_def)

lemma test_put_env: "k \<noteq> [] \<Longrightarrow> op_ok (PutOp (test_slice k)) \<and> op_env (test_env\<lparr>e_fails := F, e_torn := T\<rparr>) (PutOp (test_slice k)) test_store"
  by (simp add: env_for_def compactable_def test_store_live spec_put_def test_env_def maxImportLine_def
      test_mtime put_entry_def storable_def test_slice_def zero_slice_def entry_wf_def entryFromSlice_def
      EnforceAdmission_def)

text \<open>The definitions a concrete run of the store unfolds.\<close>

lemmas store_run_simps = NewFileStore_def load_def new_store_def loadJournal_def all_lines_def
  fresh_disk_def file_size_def Put_def Delete_def UpdateStats_def ensureJournalLocked_def appendLocked_def
  flushLocked_def jw_flush_def maybeCompactLocked_def upsertLocked_def andthen_def failing_def Let_def
  torn_write_def torn_append_def load_journal_line_def apply_rec_def journalVersion_def maxImportLine_def
  syncEveryOps_def syncEveryBytes_def compactMinOps_def compactMinBytes_def
  test_env_def test_store_def test_slice_def zero_slice_def zero_stats_def EnforceAdmission_def
  entryFromSlice_def dtoFromEntry_def put_rec_def rec_ok_def dto_ok_def stats_ok_def

section \<open>The promises\<close>


definition torn_env :: env where
  "torn_env = test_env\<lparr>e_fails := (\<lambda>c. c = JFlush), e_torn := (0, 5)\<rparr>"

definition torn_store :: fileStore where
  "torn_store = snd (Put torn_env (test_slice ''a'') test_store)"


lemma test_history: "history [PutOp (test_slice ''a'')] (snd (Put test_env (test_slice ''a'') test_store))"
proof -
  have 0: "test_env\<lparr>e_fails := e_fails test_env, e_torn := e_torn test_env\<rparr> = test_env" by simp
  have "run_op test_env (PutOp (test_slice ''a'')) test_store = (None, snd (Put test_env (test_slice ''a'') test_store))"
    by (simp add: store_run_simps)
  then show ?thesis
    using history.acked [OF history.opened [OF test_store_opened], of "PutOp (test_slice ''a'')" test_env]
      test_put_env [of "''a''" "e_torn test_env" "e_fails test_env"] unfolding 0 by simp
qed



section \<open>Progress\<close>

fun op_marshals :: "store_op \<Rightarrow> storedEntry list \<Rightarrow> bool" where
  "op_marshals op L \<longleftrightarrow> list_all rec_ok (op_records op) \<and>
     list_all (\<lambda>e. dto_ok (dtoFromEntry e)) (op_effect op L)"

lemma NewFileStore_ok: "quiet en \<Longrightarrow> fst (NewFileStore en d) = None"
  by (auto simp: NewFileStore_def load_def loadJournal_eq stashJournal_def Let_def split: option.splits)

lemma quiet_test_env: "quiet test_env"
  by (simp add: quiet_def test_env_def)

lemma Compact_ok:
  "quiet en \<Longrightarrow> ready s \<Longrightarrow> \<forall>e\<in>set (live s). dto_ok (dtoFromEntry e) \<Longrightarrow> fst (Compact en s) = None"
  using compact_ok [of en s None] by (auto simp: Compact_def ready_def compact_kept_def)



section \<open>Compaction that rewrites the slices\<close>

text \<open>
  A compaction with a callback. \<open>CompactWith\<close> replaces the live slices by what the callback
  returns of them (less the slices without an ID), keeps the stored embedding of every ID that
  survives, and is atomic: after any failure memory is unchanged and the next open finds the old list
  or the new one.
\<close>

lemma CompactWith_atomic:
  assumes "ready s" "CompactWith en f s = (x, s')" "compactable en s (compact_kept (Some f) s)"
    and "NewFileStore en2 (fs_disk s') = (None, t)"
  shows "(x = None \<longrightarrow> ready s' \<and> live t = live s' \<and>
       map (sl_Embedding_update (\<lambda>_. None)) (filter (\<lambda>sl. sl_ID sl \<noteq> []) (f (ListAll s))) = ListAll t) \<and>
    (x \<noteq> None \<longrightarrow> live s' = live s \<and> (live t = live s \<or> live t = compact_kept (Some f) s)) \<and>
    (\<forall>e \<in> set (live t). \<forall>e0 \<in> set (live s). eid e = eid e0 \<longrightarrow> se_embRaw e = se_embRaw e0)"
proof -
  have c: "compactLocked en (Some f) s = (x, s')" using assms(2) by (simp add: CompactWith_def)
  note st = compact_stage [OF assms(1) c assms(3)]
  have t: "live t = disk_live (fs_disk s')" using NewFileStore_live(3) [OF assms(4)] .
  have d: "distinct (map eid (live s))" using assms(1) distinct_live [of s] by (auto simp: ready_def)
  have emb: "se_embRaw e = se_embRaw e0"
    if "e \<in> set (live s) \<or> e \<in> set (compact_kept (Some f) s)" "e0 \<in> set (live s)" "eid e = eid e0" for e e0
  proof -
    let ?m = "map (\<lambda>e. (eid e, se_embRaw e)) (live s)"
    have "map fst ?m = map eid (live s)" by (simp add: comp_def)
    then have "map_of (rev ?m) (eid e0) = Some (se_embRaw e0)"
      using that(2) d by (intro map_of_is_SomeI) (auto simp: rev_map [symmetric] comp_def)
    then show ?thesis
      using that d by (auto simp: compact_kept_def Let_def distinct_map entryFromSlice_def dest: inj_onD)
  qed
  have cl: "map cloneStored (compact_kept (Some f) s) =
      map (sl_Embedding_update (\<lambda>_. None)) (filter (\<lambda>sl. sl_ID sl \<noteq> []) (f (ListAll s)))"
    by (simp add: compact_kept_def ListAll_live cloneStored_def entryFromSlice_def comp_def Let_def)
  have ok: "ready s' \<and> live t = live s' \<and> live t = compact_kept (Some f) s" if "x = None"
    using st(1) [OF that] t ready_disk [of s'] by simp
  have "live s' = live s" if "x \<noteq> None" using st(2) [OF that] live_cong [of s' s] by simp
  moreover have cases: "live t = live s \<or> live t = compact_kept (Some f) s" using st(3) t by simp
  moreover have "ListAll t = map (sl_Embedding_update (\<lambda>_. None)) (filter (\<lambda>sl. sl_ID sl \<noteq> []) (f (ListAll s)))"
    if "x = None" using ok [OF that] cl ListAll_live [of t] by metis
  moreover have "\<forall>e \<in> set (live t). \<forall>e0 \<in> set (live s). eid e = eid e0 \<longrightarrow> se_embRaw e = se_embRaw e0"
    using emb cases by metis
  ultimately show ?thesis using ok by simp
qed

lemma CompactWith_atomic_witness:
  "let t = snd (NewFileStore test_env (fs_disk (snd (CompactWith test_env (\<lambda>_. [test_slice ''b'']) test_store))))
   in ListAll t = [test_slice ''b'']"
proof -
  let ?f = "\<lambda>_::Slice list. [test_slice ''b'']"
  have k: "compact_kept (Some ?f) test_store = [entryFromSlice (test_slice ''b'')]"
    by (simp add: compact_kept_def test_store_live test_slice_def zero_slice_def entryFromSlice_def)
  have c: "CompactWith test_env ?f test_store = (None, snd (CompactWith test_env ?f test_store))"
    using compact_ok [OF quiet_test_env test_store_ready, of "Some ?f"] unfolding k CompactWith_def
    by (simp add: prod_eq_iff store_run_simps)
  have o: "NewFileStore test_env (fs_disk (snd (CompactWith test_env ?f test_store))) =
     (None, snd (NewFileStore test_env (fs_disk (snd (CompactWith test_env ?f test_store)))))"
    using NewFileStore_ok [OF quiet_test_env] by (simp add: prod_eq_iff)
  have "compactable test_env test_store (compact_kept (Some ?f) test_store)"
    unfolding k
    by (simp add: compactable_def test_mtime test_env_def maxImportLine_def entry_wf_def entryFromSlice_def
        test_slice_def zero_slice_def)
  from CompactWith_atomic [OF test_store_ready c this o] show ?thesis
    by (simp add: test_slice_def zero_slice_def)
qed

section \<open>Failure handling inside a compaction\<close>

text \<open>
  A failed base rename does not disable writes. When the rename that would swap the compacted base
  into place fails, and the journal can be opened again, the compaction reports the error and leaves the
  store as it was: same slices, same disk contents, and every invariant the next write relies on.
\<close>

lemma rename_failure_recovers:
  assumes "ready s" "e_fails en = (\<lambda>c. c = BRename)" "\<forall>e\<in>set (compact_kept rescore s). dto_ok (dtoFromEntry e)"
  shows "fst (compactLocked en rescore s) = Some (IOErr BRename) \<and> ready (snd (compactLocked en rescore s)) \<and>
    live (snd (compactLocked en rescore s)) = live s \<and>
    fs_disk (snd (compactLocked en rescore s)) = fs_disk s"
proof -
  have c: "\<not> fs_closed s" "list_all (\<lambda>e. dto_ok (dtoFromEntry e)) (compact_kept rescore s)"
    using assms by (auto simp: ready_def list_all_iff)
  have f: "failing en [BTmpCreate, BTmpChmod, BTmpWrite, BTmpSync, BTmpClose] = None"
    by (simp add: failing_def assms(2))
  show ?thesis
  proof (cases "fs_jw s = None")
    case True
    then show ?thesis using assms c f
      by (simp add: compactLocked_def Let_def andthen_def retireJournal_def swapBase_def)
  next
    case False
    then have w: "fs_jw s = Some \<lparr>jw_buf = [], jw_err = False\<rparr>" using assms(1) by (simp add: ready_def)
    have "compactLocked en rescore s = (Some (IOErr BRename), s)"
      using w c f assms(2)
      by (simp add: compactLocked_def Let_def andthen_def retireJournal_def swapBase_def jw_flush_def
          reopenJournalLocked_def map_option.id [unfolded id_def])
    then show ?thesis using assms(1) by simp
  qed
qed

lemma rename_failure_recovers_witness:
  "fst (compactLocked (test_env\<lparr>e_fails := (\<lambda>c. c = BRename)\<rparr>) None test_store) = Some (IOErr BRename)"
  using rename_failure_recovers [OF test_store_ready, of "test_env\<lparr>e_fails := (\<lambda>c. c = BRename)\<rparr>" None]
  by (simp add: compact_kept_def test_store_live)

section \<open>Where durability breaks\<close>

lemma NewFileStore_fits:
  assumes "NewFileStore en d = (None, s)" "dk_journal d = Some f" "all_lines f = h # ls"
    "hdr_ok (file_size (dk_base d)) (dk_bmtime d) h"
  shows "fs_jw s = Some \<lparr>jw_buf = [], jw_err = False\<rparr>" and "fs_disk s = d"
proof -
  define s0 where "s0 = (fold load_base_line (dk_base d) (new_store d))
    \<lparr>fs_baseSize := file_size (dk_base d), fs_baseMtime := dk_bmtime d\<rparr>"
  have b: "mem_inv s0" "outer s0 = (False, file_size (dk_base d), dk_bmtime d, None, d)"
    using load_base_lines [OF mem_inv_new_store, of "dk_base d" d]
    by (auto simp: s0_def mem_inv_def outer_def new_store_def)
  then have o: "fs_disk s0 = d" "fs_baseSize s0 = file_size (dk_base d)" "fs_baseMtime s0 = dk_bmtime d"
    by (auto simp: outer_def)
  have "loadJournal en s0 = (None, s)"
    using assms(1) by (simp add: NewFileStore_def load_def s0_def new_store_def Let_def)
  then have s: "s = (fold load_journal_line ls s0)\<lparr>fs_jw := Some \<lparr>jw_buf = [], jw_err = False\<rparr>\<rparr>"
    using assms o by (auto simp: loadJournal_eq journal_fits_def Let_def split: if_splits)
  show "fs_jw s = Some \<lparr>jw_buf = [], jw_err = False\<rparr>" by (simp add: s)
  show "fs_disk s = d" using load_journal_lines [OF b(1), of ls] o by (simp add: s outer_def)
qed

lemma flush_quiet:
  assumes "quiet en" "fs_jw s = Some \<lparr>jw_buf = B, jw_err = False\<rparr>" "dk_journal (fs_disk s) = Some f"
  shows "\<exists>s'. flushLocked en s = (None, s') \<and> fs_disk s' = (fs_disk s)\<lparr>dk_journal := Some (append_recs f B)\<rparr> \<and>
     mem_same s s' \<and> fs_jOps s' = fs_jOps s \<and> fs_jBytes s' = fs_jBytes s"
proof (cases "fs_opsSinceSync s \<ge> syncEveryOps \<or> fs_bytesSinceSync s \<ge> syncEveryBytes")
  case True
  then show ?thesis using assms by (auto simp: flushLocked_def jw_flush_def andthen_def)
next
  case False
  then show ?thesis using assms by (auto simp: flushLocked_def jw_flush_def andthen_def)
qed

text \<open>
  C4. A torn journal tail swallows the next write. \<open>loadJournal\<close> reopens the journal for appending
  without ending the unterminated line a crash left. The first record written after that is glued to
  the fragment: the put succeeds and is served from memory, and the next open does not find it.
\<close>

theorem torn_tail_swallows_put:
  assumes "dk_journal d = Some \<lparr>jf_lines = h # ls, jf_tail = Some (Junk m)\<rparr>"
    and "hdr_ok (file_size (dk_base d)) (dk_bmtime d) h"
    and "quiet en" "NewFileStore en d = (None, s)" "rec_ok (put_rec (dtoFromEntry (put_entry sl)))"
    and "fs_jOps s + 1 < compactMinOps"
    and "fs_jBytes s + int (e_jlen en (put_rec (dtoFromEntry (put_entry sl)))) + 1 < compactMinBytes"
  shows "\<exists>s' t. Put en sl s = (None, s') \<and> live s' = spec_put (put_entry sl) (live s) \<and>
     NewFileStore en (fs_disk s') = (None, t) \<and> live t = live s"
proof -
  let ?e = "put_entry sl" and ?r = "put_rec (dtoFromEntry (put_entry sl))"
  have jw: "fs_jw s = Some \<lparr>jw_buf = [], jw_err = False\<rparr>" and dk: "fs_disk s = d"
    using NewFileStore_fits [OF assms(4,1) _ assms(2)] by (auto simp: all_lines_def)
  note lv = NewFileStore_live [OF assms(4)]
  let ?d' = "d\<lparr>dk_journal := Some \<lparr>jf_lines = h # ls @ [Junk (m + (e_jlen en ?r + 1))], jf_tail = None\<rparr>\<rparr>"
  let ?s0 = "s\<lparr>fs_jw := Some \<lparr>jw_buf = [(?r, e_jlen en ?r + 1)], jw_err = False\<rparr>, fs_jOps := fs_jOps s + 1,
     fs_jBytes := fs_jBytes s + int (e_jlen en ?r + 1), fs_opsSinceSync := fs_opsSinceSync s + 1,
     fs_bytesSinceSync := fs_bytesSinceSync s + int (e_jlen en ?r + 1)\<rparr>"
  have a: "ensureJournalLocked en s = (None, s)" "appendLocked en ?r s = (None, ?s0)"
    using lv(2) jw assms(3,5) by (simp_all add: ensureJournalLocked_def appendLocked_def)
  obtain s1 where f: "flushLocked en ?s0 = (None, s1)" and s1: "fs_disk s1 = ?d'" "fs_entries s1 = fs_entries s"
    "fs_order s1 = fs_order s" "fs_jOps s1 = fs_jOps s + 1" "fs_jBytes s1 = fs_jBytes s + int (e_jlen en ?r) + 1"
    using flush_quiet [OF assms(3), of ?s0 "[(?r, e_jlen en ?r + 1)]" "\<lparr>jf_lines = h # ls, jf_tail = Some (Junk m)\<rparr>"]
      assms(1) dk by (auto simp: add.assoc)
  have s1': "Put en sl s = maybeCompactLocked en (upsertLocked ?e s1)"
    using a f by (simp add: Put_def put_entry_def andthen_def)
  have u: "fs_jOps (upsertLocked ?e s1) = fs_jOps s1" "fs_jBytes (upsertLocked ?e s1) = fs_jBytes s1"
    by (auto simp: upsertLocked_def Let_def split: option.splits)
  have p: "Put en sl s = (None, upsertLocked ?e s1)"
    using assms(6,7) s1' s1(4,5) by (auto simp: maybeCompactLocked_def u)
  have m: "mem_inv s1" "live s1 = live s" using lv(1) s1(2,3) mem_inv_cong [of s1 s] live_cong [of s1 s] by auto
  have l: "live (upsertLocked ?e s1) = spec_put ?e (live s)"
    using live_upsertLocked [OF m(1), of ?e] m(2) by (simp add: put_entry_def)
  have "fs_disk (upsertLocked ?e s1) = ?d'"
    using outer_mem(1) [of ?e s1] s1(1) by (simp add: outer_def)
  moreover have "disk_live ?d' = disk_live d"
    using assms(1,2) by (simp add: disk_live_eq all_lines_def base_live_def)
  moreover obtain t where "NewFileStore en ?d' = (None, t)"
    using NewFileStore_ok [OF assms(3), of ?d'] by (metis prod.collapse)
  ultimately show ?thesis using p l lv(3) NewFileStore_live(3) by fastforce
qed

theorem torn_tail_swallows_put_witness:
  "let s = snd (NewFileStore test_env (fs_disk torn_store)) in
   \<exists>s' t. Put test_env (test_slice ''b'') s = (None, s') \<and> ListAll s' = [test_slice ''b''] \<and>
     NewFileStore test_env (fs_disk s') = (None, t) \<and> ListAll t = []"
proof -
  let ?d = "fs_disk torn_store" and ?sl = "test_slice ''b''"
  define s where "s = snd (NewFileStore test_env ?d)"
  have o: "NewFileStore test_env ?d = (None, s)"
    using NewFileStore_ok [OF quiet_test_env, of ?d] by (simp add: s_def prod_eq_iff)
  have l0: "live s = []" unfolding s_def
    by (simp add: torn_store_def torn_env_def store_run_simps live_def)
  have "\<exists>s' t. Put test_env ?sl s = (None, s') \<and> live s' = spec_put (put_entry ?sl) (live s) \<and>
     NewFileStore test_env (fs_disk s') = (None, t) \<and> live t = live s"
  proof (rule torn_tail_swallows_put [OF _ _ quiet_test_env o])
    show "dk_journal ?d = Some \<lparr>jf_lines = [Good (JHdr \<lparr>jh_J = 1, jh_BSize = 0, jh_BMtime = 0\<rparr>) 20],
        jf_tail = Some (Junk 5)\<rparr>"
      by (simp add: torn_store_def torn_env_def store_run_simps)
    show "hdr_ok (file_size (dk_base ?d)) (dk_bmtime ?d) (Good (JHdr \<lparr>jh_J = 1, jh_BSize = 0, jh_BMtime = 0\<rparr>) 20)"
      by (simp add: torn_store_def torn_env_def store_run_simps hdr_ok_def)
    show "rec_ok (put_rec (dtoFromEntry (put_entry ?sl)))"
      by (simp add: store_run_simps put_entry_def)
    show "fs_jOps s + 1 < compactMinOps"
      "fs_jBytes s + int (e_jlen test_env (put_rec (dtoFromEntry (put_entry ?sl)))) + 1 < compactMinBytes"
      by (simp_all add: s_def torn_store_def torn_env_def store_run_simps)
  qed
  then obtain s' t where *: "Put test_env ?sl s = (None, s')" "live s' = [put_entry ?sl]"
    "NewFileStore test_env (fs_disk s') = (None, t)" "live t = []"
    using l0 by (auto simp: spec_put_def)
  have "cloneStored (put_entry ?sl) = ?sl" by (simp add: store_run_simps put_entry_def cloneStored_def)
  then show ?thesis using * s_def by (auto simp: Let_def ListAll_live)
qed

section \<open>The admission matrix is never bypassed\<close>

lemma op_effect_admitted:
  "\<forall>e\<in>set L. admitted (se_s e) \<Longrightarrow> \<forall>e\<in>set (op_effect op L). admitted (se_s e)"
  by (cases op) (auto simp: spec_put_def put_entry_def entryFromSlice_def spec_del_def spec_stat_def admitted_def
      EnforceAdmission_def split: SliceType.splits)

lemma fold_op_admitted: "\<forall>e\<in>set L. admitted (se_s e) \<Longrightarrow> \<forall>e\<in>set (fold op_effect ops L). admitted (se_s e)"
proof (induction ops arbitrary: L)
  case (Cons op ops)
  show ?case using Cons.IH [OF op_effect_admitted [OF Cons.prems]] by simp
qed simp

text \<open>
  Scope admission. Whatever callers put, no history leaves a tool pattern or a result at user
  scope, neither in the listing nor in a scope query; and a scope query returns exactly the slices of
  that scope.
\<close>

lemma history_admitted:
  assumes "history ops s"
  shows "(\<forall>sl\<in>set (ListAll s). admitted sl) \<and>
    (\<forall>sl\<in>set (ListScope User s). sl_Type sl \<noteq> ToolPattern \<and> sl_Type sl \<noteq> Result) \<and>
    set (ListScope sc s) = {sl \<in> set (ListAll s). sl_Scope sl = sc}"
proof -
  have "\<forall>e\<in>set (live s). admitted (se_s e)"
    using history_live [OF assms] fold_op_admitted [of "[]" ops] by simp
  then have "\<forall>sl\<in>set (ListAll s). admitted sl"
    by (auto simp: ListAll_live cloneStored_def admitted_def)
  then show ?thesis by (auto simp: ListScope_live admitted_def)
qed

lemma history_admitted_witness:
  "list_all admitted (ListAll (snd (Put test_env (test_slice ''a'') test_store)))"
  using history_admitted [OF test_history] by (simp add: list_all_iff)

end
