(* ===== verification/Slice_Store.thy ===== *)
theory Slice_Store
  imports File_Store_Correct
begin

text \<open>
  The \<open>Store\<close> interface of \<open>kernel/slice/store.go\<close> as the kernel's other components use it: what a put,
  a delete and a statistics update do to the listing. The contract is a locale, interpreted here on the
  journaled file store; importing and garbage collection are proved against the contract.
\<close>

section \<open>The abstract listing\<close>

definition up_slice :: "Slice \<Rightarrow> Slice list \<Rightarrow> Slice list" where
  "up_slice sl L = filter (\<lambda>x. sl_ID x \<noteq> sl_ID sl) L @ [sl]"

definition rm_slice :: "string \<Rightarrow> Slice list \<Rightarrow> Slice list" where
  "rm_slice k L = filter (\<lambda>x. sl_ID x \<noteq> k) L"

definition stat_slice :: "string \<Rightarrow> SliceStats \<Rightarrow> Slice list \<Rightarrow> Slice list" where
  "stat_slice k d L = map (\<lambda>x. if sl_ID x = k then sl_Stats_update (\<lambda>st. mergeStats st d) x else x) L"

text \<open>What a reader sees of a slice that was put: the admitted scope and no vector.\<close>

definition stored_form :: "Slice \<Rightarrow> Slice" where
  "stored_form sl = (fst (EnforceAdmission sl))\<lparr>sl_Embedding := None\<rparr>"

lemma stored_form_ID [simp]: "sl_ID (stored_form sl) = sl_ID sl"
  by (simp add: stored_form_def)

lemma stored_form_admitted [simp]: "admitted (stored_form sl)"
  using EnforceAdmission_admitted [of sl] by (simp add: stored_form_def admitted_def)

section \<open>The contract\<close>

locale slice_store =
  fixes inv :: "'s \<Rightarrow> bool"
    and listing :: "'s \<Rightarrow> Slice list"
    and put :: "'e \<Rightarrow> Slice \<Rightarrow> 's \<Rightarrow> 'err option \<times> 's"
    and del :: "'e \<Rightarrow> string \<Rightarrow> 's \<Rightarrow> 'err option \<times> 's"
    and stat :: "'e \<Rightarrow> string \<Rightarrow> SliceStats \<Rightarrow> 's \<Rightarrow> 'err option \<times> 's"
  assumes put_inv: "inv s \<Longrightarrow> put en sl s = (x, s') \<Longrightarrow> inv s'"
    and put_ok: "inv s \<Longrightarrow> put en sl s = (None, s') \<Longrightarrow> listing s' = up_slice (stored_form sl) (listing s)"
    and put_err: "inv s \<Longrightarrow> put en sl s = (Some e, s') \<Longrightarrow>
          listing s' = listing s \<or> listing s' = up_slice (stored_form sl) (listing s)"
    and del_inv: "inv s \<Longrightarrow> del en k s = (x, s') \<Longrightarrow> inv s'"
    and del_ok: "inv s \<Longrightarrow> del en k s = (None, s') \<Longrightarrow> listing s' = rm_slice k (listing s)"
    and stat_inv: "inv s \<Longrightarrow> stat en k d s = (x, s') \<Longrightarrow> inv s'"
    and stat_ok: "inv s \<Longrightarrow> stat en k d s = (None, s') \<Longrightarrow>
          k \<in> sl_ID ` set (listing s) \<and> listing s' = stat_slice k d (listing s)"
    and distinct_ids: "inv s \<Longrightarrow> distinct (map sl_ID (listing s))"
begin

lemma put_get: "inv s \<Longrightarrow> put en sl s = (None, s') \<Longrightarrow> stored_form sl \<in> set (listing s')"
  by (simp add: put_ok up_slice_def)

lemma del_get: "inv s \<Longrightarrow> del en k s = (None, s') \<Longrightarrow> k \<notin> sl_ID ` set (listing s')"
  by (auto simp: del_ok rm_slice_def)

text \<open>A second put of the same slice leaves the same listing.\<close>

lemma put_idem:
  assumes "inv s" "put en sl s = (None, s')" "put en' sl s' = (None, s'')"
  shows "listing s'' = listing s'"
  using put_ok [OF assms(1,2)] put_ok [OF put_inv [OF assms(1,2)] assms(3)] by (simp add: up_slice_def)

end

section \<open>The file store provides it\<close>

text \<open>In memory alone the file store needs no assumption about the disk or the environment.\<close>

lemma ensure_mem: "ensureJournalLocked en s = (x, s') \<Longrightarrow> mem_same s s'"
  by (auto simp: ensureJournalLocked_def Let_def split: if_splits option.splits)

lemma torn_write_mem [simp]: "fs_entries (torn_write en w s) = fs_entries s" "fs_order (torn_write en w s) = fs_order s"
  by (simp_all add: torn_write_def Let_def)

lemma append_mem: "appendLocked en r s = (x, s') \<Longrightarrow> mem_same s s'"
  by (auto simp: appendLocked_def Let_def split: if_splits option.splits)

lemma appendAll_mem: "appendAll en rs s = (x, s') \<Longrightarrow> mem_same s s'"
  by (induction rs arbitrary: s) (auto simp: andthen_def split: prod.splits option.splits dest!: append_mem)

lemma jw_flush_mem: "jw_flush en s = (x, s') \<Longrightarrow> mem_same s s'"
  by (auto simp: jw_flush_def split: if_splits option.splits)

lemma flush_mem: "flushLocked en s = (x, s') \<Longrightarrow> mem_same s s'"
  by (auto simp: flushLocked_def andthen_def split: prod.splits option.splits if_splits dest!: jw_flush_mem)

lemma retire_mem: "retireJournal en s = (x, s') \<Longrightarrow> mem_same s s'"
  by (auto simp: retireJournal_def andthen_def broken_writer_def split: prod.splits option.splits if_splits
      dest!: jw_flush_mem)

lemma swap_mem:
  "swapBase en b kept nb s = (x, s') \<Longrightarrow>
     (x = None \<longrightarrow> fs_entries s' = index_entries 0 kept [] \<and> fs_order s' = kept) \<and> (x \<noteq> None \<longrightarrow> mem_same s s')"
  by (auto simp: swapBase_def reopenJournalLocked_def Let_def andthen_def
      split: if_splits prod.splits option.splits dest!: ensure_mem)

lemma compact_mem:
  assumes "mem_inv s" "compactLocked en rescore s = (x, s')"
    "distinct (map eid (compact_kept rescore s))" "\<forall>e\<in>set (compact_kept rescore s). \<not> se_dead e"
  shows "mem_inv s' \<and> (x = None \<longrightarrow> live s' = compact_kept rescore s) \<and> (x \<noteq> None \<longrightarrow> live s' = live s)"
proof -
  have "mem_same s s' \<and> x \<noteq> None \<or>
      x = None \<and> fs_entries s' = index_entries 0 (compact_kept rescore s) [] \<and> fs_order s' = compact_kept rescore s"
    using assms(2)
    by (auto simp: compactLocked_def Let_def andthen_def split: if_splits option.splits prod.splits
        dest!: retire_mem swap_mem)
  then show ?thesis
    using assms(1) mem_inv_indexed [OF assms(3,4), of s'] mem_inv_cong [of s' s] live_cong [of s' s] by auto
qed

lemma maybe_compact_mem:
  assumes "mem_inv s" "maybeCompactLocked en s = (x, s')"
  shows "mem_inv s' \<and> live s' = live s"
  using assms compact_mem [of s en None x s'] distinct_live [OF assms(1)] live_not_dead [of _ s]
  by (cases x) (auto simp: maybeCompactLocked_def Let_def compact_kept_def split: if_splits)

lemma journaled_mem:
  assumes "mem_inv s" "journaled en rs upd s = (x, s')"
    "\<And>t. mem_inv t \<Longrightarrow> mem_inv (upd t) \<and> live (upd t) = eff (live t)"
  shows "mem_inv s' \<and> (x = None \<longrightarrow> live s' = eff (live s)) \<and> (live s' = live s \<or> live s' = eff (live s))"
proof -
  have step: "mem_inv t \<and> live t = live s" if "mem_same s t" for t
    using that assms(1) mem_inv_cong [of t s] live_cong [of t s] by simp
  obtain x1 s1 where e1: "ensureJournalLocked en s = (x1, s1)" by fastforce
  obtain x2 s2 where e2: "appendAll en rs s1 = (x2, s2)" by fastforce
  obtain x3 s3 where e3: "flushLocked en s2 = (x3, s3)" by fastforce
  note m = ensure_mem [OF e1] appendAll_mem [OF e2] flush_mem [OF e3]
  show ?thesis
  proof (cases "x1 = None \<and> x2 = None \<and> x3 = None")
    case True
    then have "maybeCompactLocked en (upd s3) = (x, s')"
      using assms(2) e1 e2 e3 by (simp add: journaled_def andthen_def)
    then show ?thesis using maybe_compact_mem [of "upd s3" en x s'] assms(3) [of s3] step [of s3] m by simp
  next
    case False
    then have "mem_same s s' \<and> x \<noteq> None"
      using assms(2) e1 e2 e3 m by (auto simp: journaled_def andthen_def split: option.splits)
    then show ?thesis using step [of s'] by auto
  qed
qed

lemma clone_put: "cloneStored (put_entry sl) = stored_form sl"
  by (simp add: cloneStored_def put_entry_def entryFromSlice_def stored_form_def)

lemma clone_ID [simp]: "sl_ID (cloneStored e) = eid e"
  by (simp add: cloneStored_def)

lemma map_clone_spec:
  "map cloneStored (spec_put e L) = up_slice (cloneStored e) (map cloneStored L)"
  "map cloneStored (spec_del k L) = rm_slice k (map cloneStored L)"
  "map cloneStored (spec_stat k d L) = stat_slice k d (map cloneStored L)"
  by (auto simp: spec_put_def up_slice_def spec_del_def rm_slice_def spec_stat_def stat_slice_def
      filter_map comp_def cloneStored_def)

lemma Put_mem:
  assumes "mem_inv s" "Put en sl s = (x, s')"
  shows "mem_inv s'" "x = None \<Longrightarrow> live s' = spec_put (put_entry sl) (live s)"
    "live s' = live s \<or> live s' = spec_put (put_entry sl) (live s)"
proof -
  have d: "\<not> se_dead (put_entry sl)" by (simp add: put_entry_def)
  have "journaled en [put_rec (dtoFromEntry (put_entry sl))] (upsertLocked (put_entry sl)) s = (x, s')"
    using assms(2) by (simp add: Put_journaled put_entry_def Let_def)
  from journaled_mem [OF assms(1) this, of "spec_put (put_entry sl)"]
  show "mem_inv s'" "x = None \<Longrightarrow> live s' = spec_put (put_entry sl) (live s)"
    "live s' = live s \<or> live s' = spec_put (put_entry sl) (live s)"
    using mem_inv_upsert [OF _ d] live_upsertLocked [OF _ d] by blast+
qed

lemma Delete_mem:
  assumes "mem_inv s" "Delete en k s = (x, s')"
  shows "mem_inv s' \<and> (x = None \<longrightarrow> live s' = spec_del k (live s)) \<and> (live s' = live s \<or> live s' = spec_del k (live s))"
proof (cases "m_get (fs_entries s) k = None")
  case True
  then show ?thesis using assms spec_del_id [of k "live s"] mem_inv_get_None [OF assms(1)] by (simp add: Delete_def)
next
  case False
  then show ?thesis
    using assms journaled_mem [of s en "[del_rec k]" "killLocked k" x s' "spec_del k"]
    by (simp add: Delete_journaled mem_inv_kill live_killLocked)
qed

lemma UpdateStats_mem:
  assumes "mem_inv s" "UpdateStats en k d s = (x, s')"
  shows "mem_inv s' \<and> (x = None \<longrightarrow> k \<in> eid ` set (live s) \<and> live s' = spec_stat k d (live s)) \<and>
    (live s' = live s \<or> live s' = spec_stat k d (live s))"
proof (cases "m_get (fs_entries s) k = None")
  case True
  then show ?thesis using assms by (auto simp: UpdateStats_def)
next
  case False
  then show ?thesis
    using assms journaled_mem [of s en "[stat_rec k d]" "statLocked k d" x s' "spec_stat k d"]
      mem_inv_get_None [OF assms(1), of k]
    by (auto simp: UpdateStats_journaled mem_inv_stat live_statLocked)
qed

interpretation fstore: slice_store mem_inv ListAll Put Delete UpdateStats
proof
  fix s s' :: fileStore and en sl x k d
  show "mem_inv s \<Longrightarrow> distinct (map sl_ID (ListAll s))"
    using distinct_live [of s] by (simp add: ListAll_live comp_def)
  show "mem_inv s \<Longrightarrow> Put en sl s = (x, s') \<Longrightarrow> mem_inv s'" by (rule Put_mem)
  show "mem_inv s \<Longrightarrow> Put en sl s = (None, s') \<Longrightarrow> ListAll s' = up_slice (stored_form sl) (ListAll s)"
    using Put_mem(2) [of s en sl None s'] by (simp add: ListAll_live map_clone_spec clone_put)
  show "mem_inv s \<Longrightarrow> Put en sl s = (Some e, s') \<Longrightarrow>
      ListAll s' = ListAll s \<or> ListAll s' = up_slice (stored_form sl) (ListAll s)" for e
    using Put_mem(3) [of s en sl "Some e" s'] map_clone_spec(1) [of "put_entry sl" "live s"]
    by (auto simp: ListAll_live clone_put)
  show "mem_inv s \<Longrightarrow> Delete en k s = (x, s') \<Longrightarrow> mem_inv s'"
    and "mem_inv s \<Longrightarrow> Delete en k s = (None, s') \<Longrightarrow> ListAll s' = rm_slice k (ListAll s)"
    using Delete_mem [of s en k x s'] Delete_mem [of s en k None s'] by (simp_all add: ListAll_live map_clone_spec)
  show "mem_inv s \<Longrightarrow> UpdateStats en k d s = (x, s') \<Longrightarrow> mem_inv s'"
    and "mem_inv s \<Longrightarrow> UpdateStats en k d s = (None, s') \<Longrightarrow>
      k \<in> sl_ID ` set (ListAll s) \<and> ListAll s' = stat_slice k d (ListAll s)"
    using UpdateStats_mem [of s en k d x s'] UpdateStats_mem [of s en k d None s']
    by (simp_all add: ListAll_live map_clone_spec image_image)
qed

end
