(* ===== verification/Score.thy ===== *)
theory Score
  imports Slice_Types
begin

text \<open>
  The value function of \<open>kernel/slice/score.go\<close> in double precision. \<open>math.Exp\<close> is the argument
  \<open>expf\<close> of the definitions: the source relies on the platform's routine, and what the theorems need
  of it is that it maps a number at most 0 into the unit interval.
\<close>

record ScoreParams =
  sp_HalfLifeDays :: f64
  sp_GraceDays :: f64
  sp_FreqPseudo :: f64
  sp_RejectCost :: f64
  sp_FeedbackGain :: f64

definition DefaultScoreParams :: ScoreParams where
  "DefaultScoreParams = \<lparr>sp_HalfLifeDays = Fin 30, sp_GraceDays = Fin 7, sp_FreqPseudo = Fin 3,
     sp_RejectCost = Fin 2, sp_FeedbackGain = r64 (1/2)\<rparr>"

definition withDefaults :: "ScoreParams \<Rightarrow> ScoreParams" where
  "withDefaults p0 =
     (let d = DefaultScoreParams;
          p1 = (if fle (sp_HalfLifeDays p0) f0 then p0\<lparr>sp_HalfLifeDays := sp_HalfLifeDays d\<rparr> else p0);
          p2 = (if flt (sp_GraceDays p1) f0 then p1\<lparr>sp_GraceDays := f0\<rparr> else p1);
          p3 = (if fle (sp_FreqPseudo p2) f0 then p2\<lparr>sp_FreqPseudo := sp_FreqPseudo d\<rparr> else p2);
          p4 = (if fle (sp_RejectCost p3) f0 then p3\<lparr>sp_RejectCost := sp_RejectCost d\<rparr> else p3)
      in if fle (sp_FeedbackGain p4) f0 then p4\<lparr>sp_FeedbackGain := sp_FeedbackGain d\<rparr> else p4)"

definition minWeight :: f64 where "minWeight = r64 (1/1000)"
definition maxWeight :: f64 where "maxWeight = Fin 1"
definition Ln2 :: rat where "Ln2 = 693147180559945309417232121458176568 / 10 ^ 36"

text \<open>The four factors of the value, in the order the code computes them.\<close>

definition decay_of :: "(f64 \<Rightarrow> f64) \<Rightarrow> Slice \<Rightarrow> int \<Rightarrow> ScoreParams \<Rightarrow> f64" where
  "decay_of expf s now p =
     (let active = (if sl_CreatedAt s > st_LastUsed (sl_Stats s) then sl_CreatedAt s else st_LastUsed (sl_Stats s))
      in if active > 0 then
           let age0 = f_of_int (wrap64 (now - active));
               age = (if flt age0 f0 then f0 else age0)
           in expf (fdiv (fmul (r64 (- Ln2)) age) (fmul (sp_HalfLifeDays p) (Fin 86400)))
         else r64 (1/2))"

definition freq_of :: "Slice \<Rightarrow> ScoreParams \<Rightarrow> f64" where
  "freq_of s p =
     (let use = f_of_int (uint (st_Hits (sl_Stats s) + st_Injected (sl_Stats s)))
      in fdiv (fadd use (r64 (1/2))) (fadd use (sp_FreqPseudo p)))"

definition success_of :: "Slice \<Rightarrow> ScoreParams \<Rightarrow> f64" where
  "success_of s p =
     (let inj = f_of_int (uint (st_Injected (sl_Stats s)))
      in fdiv (fadd inj f1)
           (fadd (fadd inj f1) (fmul (sp_RejectCost p) (f_of_int (uint (st_Rejected (sl_Stats s)))))))"

definition feedback_of :: "f64 \<Rightarrow> ScoreParams \<Rightarrow> f64" where
  "feedback_of raw p =
     (let fbRaw = (if is_nan raw \<or> is_inf raw then f0 else raw);
          fb = fadd f1 (fmul (sp_FeedbackGain p) fbRaw);
          fb1 = (if flt fb (r64 (1/4)) then r64 (1/4) else fb)
      in if flt (Fin 2) fb1 then Fin 2 else fb1)"

definition clamp_weight :: "f64 \<Rightarrow> f64" where
  "clamp_weight w0 =
     (let w1 = (if flt w0 minWeight \<or> is_nan w0 then minWeight else w0)
      in if flt maxWeight w1 then maxWeight else w1)"

definition ComputeWeight :: "(f64 \<Rightarrow> f64) \<Rightarrow> Slice \<Rightarrow> int \<Rightarrow> ScoreParams \<Rightarrow> f64" where
  "ComputeWeight expf s now p0 =
     (let p = withDefaults p0
      in clamp_weight (fmul (fmul (fmul (decay_of expf s now p) (freq_of s p)) (success_of s p))
           (feedback_of (st_UserFeedback (sl_Stats s)) p)))"

text \<open>\<open>Rescore\<close> over slices that are all present, as the store's listing is.\<close>

fun Rescore :: "(f64 \<Rightarrow> f64) \<Rightarrow> Slice list \<Rightarrow> int \<Rightarrow> ScoreParams \<Rightarrow> Slice list \<times> nat" where
  "Rescore expf [] now p = ([], 0)"
| "Rescore expf (s # all) now p =
     (let w = ComputeWeight expf s now p; (rest, n) = Rescore expf all now p
      in if fne (sl_Weight s) w then (s\<lparr>sl_Weight := w\<rparr> # rest, n + 1) else (s # rest, n))"

section \<open>Bounds\<close>

lemma minWeight_value: "minWeight = Fin (1152921504606847 / 1152921504606846976)"
  by code_simp

lemma clamp_weight_bounds: "fle minWeight (clamp_weight w) \<and> fle (clamp_weight w) maxWeight"
  by (cases w) (auto simp: clamp_weight_def Let_def minWeight_value maxWeight_def)

lemma clamp_weight_mono:
  assumes "fle a b" shows "fle (clamp_weight a) (clamp_weight b)"
  using assms by (cases a; cases b) (auto simp: clamp_weight_def Let_def minWeight_value maxWeight_def)

section \<open>Monotonicity\<close>

definition in01 :: "f64 \<Rightarrow> bool" where
  "in01 x \<longleftrightarrow> fle f0 x \<and> fle x f1"

lemma in01_Fin: "in01 x \<longleftrightarrow> (\<exists>q. x = Fin q \<and> 0 \<le> q \<and> q \<le> 1)"
  by (cases x) (auto simp: in01_def)

lemma r64_in01: "0 \<le> x \<Longrightarrow> x \<le> 1 \<Longrightarrow> in01 (r64 x)"
  by (metis in01_Fin r64.unit_interval)

lemma in01_fmul: "in01 a \<Longrightarrow> in01 b \<Longrightarrow> in01 (fmul a b)"
  by (auto simp: in01_Fin mult_le_one intro!: r64_in01 [unfolded in01_Fin])

lemma in01_fdiv: "0 < a \<Longrightarrow> fle (Fin a) b \<Longrightarrow> in01 (fdiv (Fin a) b)"
  by (cases b) (auto simp: in01_def intro!: r64_in01 [unfolded in01_def, THEN conjunct1]
      r64_in01 [unfolded in01_def, THEN conjunct2] simp: divide_le_eq)

lemma fmul_mono:
  assumes "fle f0 a" "fle a a'" "fle f0 b" "fle b b'" "is_fin a'" "is_fin b'"
  shows "fle (fmul a b) (fmul a' b')"
proof -
  from assms obtain x x' y y' where "a = Fin x" "a' = Fin x'" "b = Fin y" "b' = Fin y'"
    by (cases a; cases a'; cases b; cases b') auto
  then show ?thesis using assms by (auto intro!: r64_mono mult_mono)
qed

lemma fle_extremes: "\<not> is_nan x \<Longrightarrow> fle x PInf" "\<not> is_nan x \<Longrightarrow> fle NInf x"
  by (cases x; simp)+

lemma fadd_mono: "fle a a' \<Longrightarrow> is_fin b \<Longrightarrow> fle (fadd b a) (fadd b a')"
  by (cases a; cases a'; cases b) (auto intro!: r64_mono fle_extremes)

lemma uint64_value: "\<exists>q. f_of_int (uint (w :: u64)) = Fin q \<and> 0 \<le> q \<and> q \<le> 2 ^ 64"
proof -
  have "uint w \<le> 2 ^ 64" using uint_lt2p [of w] by simp
  then have "fle (f_of_int (uint w)) (f_of_int (2 ^ 64))" by (rule f_of_int_mono)
  moreover have "f_of_int (2 ^ 64) = Fin (2 ^ 64)" by code_simp
  moreover have "fle (f_of_int 0) (f_of_int (uint w))" by (rule f_of_int_mono) simp
  ultimately show ?thesis by (cases "f_of_int (uint w)") (auto simp: f_of_int_def)
qed

lemma r64_half: "r64 (1/2) = Fin (1/2)" by code_simp

text \<open>A sum of a counter and a number between \<open>1/2\<close> and 1 stays finite and positive.\<close>

lemma counter_plus:
  assumes "0 \<le> q" "q \<le> 2 ^ 64" "1/2 \<le> c" "c \<le> 1"
  shows "\<exists>r. r64 (q + c) = Fin r \<and> 1/2 \<le> r"
proof -
  have "fle (r64 (1/2)) (r64 (q + c))" using assms by (intro r64_mono) linarith
  moreover have "fle (r64 (q + c)) (r64 (2 ^ 65))" using assms by (intro r64_mono) (simp; linarith)
  moreover have "r64 (2 ^ 65) = Fin (2 ^ 65)" by code_simp
  ultimately show ?thesis by (cases "r64 (q + c)") (auto simp: r64_half)
qed

definition params_ok :: "ScoreParams \<Rightarrow> bool" where
  "params_ok p \<longleftrightarrow> fle (r64 (1/2)) (sp_FreqPseudo (withDefaults p)) \<and> is_fin (sp_FreqPseudo (withDefaults p)) \<and>
     is_fin (sp_RejectCost (withDefaults p)) \<and> is_fin (sp_FeedbackGain (withDefaults p)) \<and>
     fle f1 (sp_HalfLifeDays (withDefaults p))"

lemma withDefaults_pos:
  "\<not> fle (sp_HalfLifeDays (withDefaults p)) f0" "\<not> fle (sp_FreqPseudo (withDefaults p)) f0"
  "\<not> fle (sp_RejectCost (withDefaults p)) f0" "\<not> fle (sp_FeedbackGain (withDefaults p)) f0"
  by (auto simp: withDefaults_def Let_def DefaultScoreParams_def r64_half)

lemma freq_in01:
  assumes "params_ok p" shows "in01 (freq_of s (withDefaults p))"
proof -
  obtain q where q: "f_of_int (uint (st_Hits (sl_Stats s) + st_Injected (sl_Stats s))) = Fin q" "0 \<le> q" "q \<le> 2 ^ 64"
    using uint64_value by blast
  obtain c where c: "sp_FreqPseudo (withDefaults p) = Fin c" "1/2 \<le> c"
    using assms by (auto simp: params_ok_def is_fin_iff r64_half)
  obtain r where r: "r64 (q + 1/2) = Fin r" "1/2 \<le> r" using counter_plus [OF q(2,3), of "1/2"] by auto
  have "fle (r64 (q + 1/2)) (r64 (q + c))" using c by (intro r64_mono) simp
  then show ?thesis using q c r in01_fdiv [of r] by (simp add: freq_of_def r64_half)
qed

lemma success_in01:
  assumes "params_ok p" shows "in01 (success_of s (withDefaults p))"
proof -
  obtain q where q: "f_of_int (uint (st_Injected (sl_Stats s))) = Fin q" "0 \<le> q" "q \<le> 2 ^ 64"
    using uint64_value by blast
  obtain j where j: "f_of_int (uint (st_Rejected (sl_Stats s))) = Fin j" "0 \<le> j"
    using uint64_value by blast
  obtain c where c: "sp_RejectCost (withDefaults p) = Fin c" "0 < c"
    using assms withDefaults_pos(3) [of p] by (auto simp: params_ok_def is_fin_iff)
  obtain r where r: "r64 (q + 1) = Fin r" "1/2 \<le> r" using counter_plus [OF q(2,3), of 1] by auto
  have "fle f0 (r64 (c * j))" using c j by (intro r64.nonneg) simp
  then have "fle (fadd (Fin r) f0) (fadd (Fin r) (r64 (c * j)))" by (intro fadd_mono) simp_all
  moreover have "fadd (Fin r) f0 = Fin r" using r64_idem [OF r(1)] by simp
  ultimately show ?thesis using q c r j in01_fdiv [of r] by (simp add: success_of_def)
qed

lemma success_antimono:
  assumes "params_ok p" "st_Injected (sl_Stats s) = st_Injected (sl_Stats s')"
    "st_Rejected (sl_Stats s) \<le> st_Rejected (sl_Stats s')"
  shows "fle (success_of s' (withDefaults p)) (success_of s (withDefaults p))"
proof -
  let ?p = "withDefaults p"
  obtain q where q: "f_of_int (uint (st_Injected (sl_Stats s))) = Fin q" "0 \<le> q" "q \<le> 2 ^ 64"
    using uint64_value by blast
  obtain j where j: "f_of_int (uint (st_Rejected (sl_Stats s))) = Fin j" "0 \<le> j" using uint64_value by blast
  obtain j' where j': "f_of_int (uint (st_Rejected (sl_Stats s'))) = Fin j'" "0 \<le> j'" using uint64_value by blast
  obtain c where c: "sp_RejectCost ?p = Fin c" "0 < c"
    using assms withDefaults_pos(3) [of p] by (auto simp: params_ok_def is_fin_iff)
  obtain r where r: "r64 (q + 1) = Fin r" "1/2 \<le> r" using counter_plus [OF q(2,3), of 1] by auto
  have "j \<le> j'"
    using f_of_int_mono [of "uint (st_Rejected (sl_Stats s))" "uint (st_Rejected (sl_Stats s'))"] assms(3) j j'
    by (simp add: word_le_def)
  then have le: "fle (fadd (Fin r) (r64 (c * j))) (fadd (Fin r) (r64 (c * j')))"
    using c by (intro fadd_mono r64_mono mult_left_mono) simp_all
  have pos: "fle (Fin r) (fadd (Fin r) (r64 (c * j)))"
  proof -
    have "fle f0 (r64 (c * j))" using c j by (intro r64.nonneg) simp
    then have "fle (fadd (Fin r) f0) (fadd (Fin r) (r64 (c * j)))" by (intro fadd_mono) simp_all
    then show ?thesis using r64_idem [OF r(1)] by simp
  qed
  have q': "f_of_int (uint (st_Injected (sl_Stats s'))) = Fin q" using q(1) assms(2) by simp
  have eq: "success_of s ?p = fdiv (Fin r) (fadd (Fin r) (r64 (c * j)))"
    "success_of s' ?p = fdiv (Fin r) (fadd (Fin r) (r64 (c * j')))"
    using q q' j j' c r by (simp_all add: success_of_def Let_def)
  have "fle (fdiv (Fin r) B) (fdiv (Fin r) A)" if "fle (Fin r) A" "fle A B" for A B
    using that r(2) by (cases A; cases B) (auto intro!: r64.quotient_antimono r64.nonneg)
  from this [OF pos le] show ?thesis by (simp add: eq)
qed

lemma feedback_range: "fle (r64 (1/4)) (feedback_of x p) \<or> is_nan (feedback_of x p)"
  "fle (feedback_of x p) (Fin 2) \<or> is_nan (feedback_of x p)"
proof -
  have q: "r64 (1/4) = Fin (1/4)" by code_simp
  show "fle (r64 (1/4)) (feedback_of x p) \<or> is_nan (feedback_of x p)"
    "fle (feedback_of x p) (Fin 2) \<or> is_nan (feedback_of x p)"
    by (cases "fadd f1 (fmul (sp_FeedbackGain p) (if is_nan x \<or> is_inf x then f0 else x))";
        auto simp: feedback_of_def Let_def q)+
qed

lemma feedback_mono:
  assumes "params_ok p" "is_fin x" "is_fin y" "fle x y"
  shows "fle (feedback_of x (withDefaults p)) (feedback_of y (withDefaults p))"
    and "fle f0 (feedback_of x (withDefaults p))" and "is_fin (feedback_of y (withDefaults p))"
proof -
  obtain g where g: "sp_FeedbackGain (withDefaults p) = Fin g" "0 < g"
    using assms withDefaults_pos(4) [of p] by (auto simp: params_ok_def is_fin_iff)
  obtain a b where xy: "x = Fin a" "y = Fin b" "a \<le> b" using assms by (auto simp: is_fin_iff)
  have q: "r64 (1/4) = Fin (1/4)" by code_simp
  have fl: "fle (fadd f1 (r64 (g * a))) (fadd f1 (r64 (g * b)))"
    using xy g by (intro fadd_mono r64_mono mult_left_mono) simp_all
  show "fle (feedback_of x (withDefaults p)) (feedback_of y (withDefaults p))"
    using fl xy g by (cases "fadd f1 (r64 (g * a))"; cases "fadd f1 (r64 (g * b))") (auto simp: feedback_of_def Let_def q)
  have "\<not> is_nan (fadd f1 (r64 (g * z)))" for z using r64_not_nan(1) [of "g * z"] by (cases "r64 (g * z)") auto
  then have nn: "\<not> is_nan (feedback_of (Fin z) (withDefaults p))" for z
    using g by (auto simp: feedback_of_def Let_def q)
  show "fle f0 (feedback_of x (withDefaults p))" using feedback_range(1) [of x "withDefaults p"] nn [of a] xy fle_trans [of f0 "r64 (1/4)"]
    by (auto simp: q)
  show "is_fin (feedback_of y (withDefaults p))" using feedback_range [of y "withDefaults p"] nn [of b] xy
    by (cases "feedback_of (Fin b) (withDefaults p)") (auto simp: q)
qed

text \<open>What is asked of \<open>math.Exp\<close>: an argument at most 0 gives a value in the unit interval.\<close>

definition exp_ok :: "(f64 \<Rightarrow> f64) \<Rightarrow> bool" where
  "exp_ok expf \<longleftrightarrow> (\<forall>x. fle x f0 \<longrightarrow> in01 (expf x))"

lemma age_value: "\<exists>q. f_of_int (wrap64 n) = Fin q \<and> q \<le> 2 ^ 63"
proof -
  have "fle (f_of_int (wrap64 n)) (f_of_int (2 ^ 63))" "fle (f_of_int (- (2 ^ 63))) (f_of_int (wrap64 n))"
    using in64_wrap64 [of n] by (auto intro!: f_of_int_mono simp: in64_def)
  moreover have "f_of_int (2 ^ 63) = Fin (2 ^ 63)" "f_of_int (- (2 ^ 63)) = Fin (- (2 ^ 63))" by code_simp+
  ultimately show ?thesis by (cases "f_of_int (wrap64 n)") auto
qed

lemma decay_arg:
  assumes "0 \<le> q" "q \<le> 2 ^ 63" "fle f1 h"
  shows "fle (fdiv (fmul (r64 (- Ln2)) (Fin q)) (fmul h (Fin 86400))) f0"
proof -
  obtain l where l: "r64 (- Ln2) = Fin l" "- 1 \<le> l" "l < 0"
  proof -
    have "r64 (- Ln2) = Fin (- 6243314768165359 / 9007199254740992)" by code_simp
    then show ?thesis by (rule that) simp_all
  qed
  have b: "- (2 ^ 63) \<le> l * q"
    using l assms mult_mono [of "- l" 1 q "2 ^ 63"] by simp
  have "fle (r64 (- (2 ^ 63))) (r64 (l * q))" using b by (rule r64_mono)
  moreover have "r64 (- (2 ^ 63)) = Fin (- (2 ^ 63))" by code_simp
  moreover have "fle (r64 (l * q)) f0" using l assms by (intro r64.nonpos) (simp add: mult_nonpos_nonneg)
  ultimately obtain m where m: "r64 (l * q) = Fin m" "m \<le> 0" by (cases "r64 (l * q)") auto
  have k: "fle (Fin 86400) (fmul h (Fin 86400))"
  proof (cases h)
    case (Fin x)
    then have "fle (r64 (1 * 86400)) (r64 (x * 86400))" using assms(3) by (intro r64_mono) simp
    moreover have "r64 (1 * 86400) = Fin 86400" by code_simp
    ultimately show ?thesis using Fin by simp
  qed (use assms(3) in \<open>auto simp: finf_def\<close>)
  show ?thesis using l m k by (cases "fmul h (Fin 86400)") (auto intro!: r64.nonpos divide_nonpos_pos)
qed

lemma decay_in01:
  assumes "exp_ok expf" "params_ok p" shows "in01 (decay_of expf s now (withDefaults p))"
proof (cases "(if sl_CreatedAt s > st_LastUsed (sl_Stats s) then sl_CreatedAt s else st_LastUsed (sl_Stats s)) > 0")
  case True
  define a where "a = (if sl_CreatedAt s > st_LastUsed (sl_Stats s) then sl_CreatedAt s else st_LastUsed (sl_Stats s))"
  obtain q where q: "f_of_int (wrap64 (now - a)) = Fin q" "q \<le> 2 ^ 63" using age_value by blast
  define age where "age = (if flt (f_of_int (wrap64 (now - a))) f0 then f0 else f_of_int (wrap64 (now - a)))"
  have "age = Fin (if q < 0 then 0 else q)" by (simp add: age_def q)
  then have "fle (fdiv (fmul (r64 (- Ln2)) age) (fmul (sp_HalfLifeDays (withDefaults p)) (Fin 86400))) f0"
    using decay_arg [of "if q < 0 then 0 else q"] assms(2) q(2) by (simp add: params_ok_def)
  moreover have "decay_of expf s now (withDefaults p) =
      expf (fdiv (fmul (r64 (- Ln2)) age) (fmul (sp_HalfLifeDays (withDefaults p)) (Fin 86400)))"
    using True by (simp add: decay_of_def a_def age_def Let_def)
  ultimately show ?thesis using assms(1) by (simp add: exp_ok_def)
next
  case False
  then have "decay_of expf s now (withDefaults p) = r64 (1/2)" by (simp add: decay_of_def Let_def)
  then show ?thesis by (simp add: r64_half in01_def)
qed

text \<open>
  The value function orders evidence the right way round. For slices that agree in age and use,
  a slice with fewer rejections and better feedback never gets the smaller weight, rounding included;
  and every weight lies between the floor, which keeps it apart from the sentinel 0, and 1.
\<close>

lemma weight_monotone:
  assumes "exp_ok expf" "params_ok p"
    and "sl_CreatedAt s = sl_CreatedAt s'" "st_LastUsed (sl_Stats s) = st_LastUsed (sl_Stats s')"
    and "st_Hits (sl_Stats s) = st_Hits (sl_Stats s')" "st_Injected (sl_Stats s) = st_Injected (sl_Stats s')"
    and "st_Rejected (sl_Stats s') \<le> st_Rejected (sl_Stats s)"
    and "is_fin (st_UserFeedback (sl_Stats s))" "is_fin (st_UserFeedback (sl_Stats s'))"
    and "fle (st_UserFeedback (sl_Stats s)) (st_UserFeedback (sl_Stats s'))"
  shows "fle (ComputeWeight expf s now p) (ComputeWeight expf s' now p) \<and>
    fle minWeight (ComputeWeight expf s now p) \<and> fle (ComputeWeight expf s' now p) maxWeight \<and> flt f0 minWeight"
proof -
  let ?p = "withDefaults p"
  let ?d = "decay_of expf s now ?p" and ?f = "freq_of s ?p"
  have eq: "decay_of expf s' now ?p = ?d" "freq_of s' ?p = ?f"
    using assms(3-6) by (simp_all add: decay_of_def freq_of_def)
  have b: "in01 (fmul ?d ?f)"
    using decay_in01 [OF assms(1,2)] freq_in01 [OF assms(2)] by (rule in01_fmul)
  have sc: "fle (success_of s ?p) (success_of s' ?p)"
    using success_antimono [OF assms(2), of s' s] assms(6,7) by simp
  note in1 = in01_fmul [OF b success_in01 [OF assms(2), of s]] in01_fmul [OF b success_in01 [OF assms(2), of s']]
  have fin: "is_fin x" if "in01 x" for x using that by (auto simp: in01_Fin)
  have le: "fle (fmul (fmul ?d ?f) (success_of s ?p)) (fmul (fmul ?d ?f) (success_of s' ?p))"
    by (rule fmul_mono) (use b sc success_in01 [OF assms(2), of s] success_in01 [OF assms(2), of s'] in
        \<open>auto simp: in01_Fin\<close>)
  note fm = feedback_mono [OF assms(2,8,9,10)]
  have "fle (fmul (fmul (fmul ?d ?f) (success_of s ?p)) (feedback_of (st_UserFeedback (sl_Stats s)) ?p))
      (fmul (fmul (fmul ?d ?f) (success_of s' ?p)) (feedback_of (st_UserFeedback (sl_Stats s')) ?p))"
    by (rule fmul_mono) (use le in1 fm fin in \<open>auto simp: in01_def\<close>)
  then show ?thesis
    using clamp_weight_mono clamp_weight_bounds by (simp add: ComputeWeight_def Let_def eq minWeight_value)
qed

definition zero_params :: ScoreParams where
  "zero_params = \<lparr>sp_HalfLifeDays = f0, sp_GraceDays = f0, sp_FreqPseudo = f0, sp_RejectCost = f0, sp_FeedbackGain = f0\<rparr>"

lemma weight_monotone_witness:
  "fle (ComputeWeight (\<lambda>_. r64 (1/2)) zero_slice 1000 zero_params)
       (ComputeWeight (\<lambda>_. r64 (1/2)) (zero_slice\<lparr>sl_Stats := zero_stats\<lparr>st_UserFeedback := f1\<rparr>\<rparr>) 1000 zero_params)"
proof -
  have "exp_ok (\<lambda>_. r64 (1/2))" by (simp add: exp_ok_def r64_half in01_def)
  moreover have "params_ok zero_params"
    by (simp add: params_ok_def zero_params_def withDefaults_def DefaultScoreParams_def r64_half)
  ultimately show ?thesis
    using weight_monotone [of "\<lambda>_. r64 (1/2)" zero_params zero_slice
        "zero_slice\<lparr>sl_Stats := zero_stats\<lparr>st_UserFeedback := f1\<rparr>\<rparr>" 1000]
    by (simp add: zero_slice_def zero_stats_def)
qed

end
