(* ===== verification/Maintenance.thy ===== *)
theory Maintenance
  imports Slice_Store Score
begin

text \<open>
  Library maintenance, \<open>kernel/slice/maintenance.go\<close>: export and import of backups, and the garbage
  collector with its threshold criteria, its capacity cap and its archive.

  \<open>Import\<close> and the collector's per-ID fallback run against any \<open>Store\<close>: the store's operations are
  arguments. The collector itself is modelled on the journaled store, which offers \<open>CompactWith\<close>,
  \<open>Compact\<close> and \<open>exportLines\<close>. The clock is an argument, as in \<open>GCOptions.Now\<close>.
\<close>

section \<open>Export and import\<close>

text \<open>
  The writer accepts \<open>k\<close> lines and then fails (\<open>Some k\<close>) or accepts everything (\<open>None\<close>). The result
  is the lines written, the count of corrupt store lines, and whether an error is returned.
\<close>

definition Export :: "fileStore \<Rightarrow> nat option \<Rightarrow> sliceDTO list \<times> nat \<times> bool" where
  "Export s w =
     (case exportLines s of
        None \<Rightarrow> ([], fs_baseSkipped s + fs_journalSkipped s, True)
      | Some (ls, skipped) \<Rightarrow>
          (case w of None \<Rightarrow> (ls, skipped, False)
           | Some k \<Rightarrow> if k < length ls then (take k ls, skipped, True) else (ls, skipped, False)))"

text \<open>The slice a line decodes to, before the import channel's own fields are forced.\<close>

definition import_slice :: "Origin \<Rightarrow> Slice \<Rightarrow> Slice" where
  "import_slice origin sl0 =
     (let sl = sl0\<lparr>sl_Meta := (sl_Meta sl0)\<lparr>m_Origin := origin\<rparr>\<rparr>
      in if sl_Type sl = Result then
           sl\<lparr>sl_Meta := (sl_Meta sl)\<lparr>m_ResultStatus := ResultStatusProbation, m_ResultVerifiedBy := [],
                m_ResultVerificationEvidence := []\<rparr>\<rparr>
         else sl)"

text \<open>
  The reading loop. The reader delivers the lines and then a clean end (\<open>rerr = False\<close>) or an error.
  Each put of the loop sees its own environment.
\<close>

fun Import ::
  "('e \<Rightarrow> Slice \<Rightarrow> 's \<Rightarrow> 'err option \<times> 's) \<Rightarrow> (nat \<Rightarrow> 'e) \<Rightarrow> Origin \<Rightarrow> bool \<Rightarrow> Slice fline list \<Rightarrow> 's \<Rightarrow>
     (nat \<times> nat) \<times> (bool \<times> 's)" where
  "Import put envs origin rerr [] s = ((0, 0), rerr, s)"
| "Import put envs origin rerr (l # ls) s =
     (let skip = (case Import put envs origin rerr ls s of ((i, k), r) \<Rightarrow> ((i, k + 1), r)) in
      if line_len l > maxImportLine then skip
      else case l of
        Blank _ \<Rightarrow> Import put envs origin rerr ls s
      | Junk _ \<Rightarrow> skip
      | Good sl _ \<Rightarrow>
          if sl_ID sl = [] then skip
          else (case put (envs 0) (import_slice origin sl) s of
                  (Some _, s') \<Rightarrow> ((0, 0), True, s')
                | (None, s') \<Rightarrow>
                    (case Import put (\<lambda>n. envs (Suc n)) origin rerr ls s' of
                       ((i, k), r) \<Rightarrow> ((i + 1, k), r))))"

section \<open>Garbage collection: the plan\<close>

record GCOptions =
  gc_RetentionDays :: int
  gc_MinWeight :: f64
  gc_DryRun :: bool
  gc_MaxSlices :: int
  gc_Rescore :: bool
  gc_Params :: ScoreParams
  gc_Now :: int
  gc_ArchivePath :: string

record GCResult =
  gr_Checked :: nat
  gr_Removed :: nat
  gr_Expired :: "string list"
  gr_LowScore :: "string list"
  gr_OverCap :: "string list"
  gr_EvictedByType :: "(string, int) gomap"
  gr_Capacity :: int
  gr_Archived :: nat
  gr_RescoredWeights :: nat

text \<open>
  \<open>int64(x)\<close> of a float: truncation toward zero. Outside the 64-bit range, and for NaN, the
  conversion yields the smallest integer, as the amd64 instruction does.
\<close>

definition f_to_int64 :: "f64 \<Rightarrow> int" where
  "f_to_int64 x = (case x of
     Fin q \<Rightarrow> let t = (if 0 \<le> q then \<lfloor>q\<rfloor> else - \<lfloor>- q\<rfloor>) in if in64 t then t else - (2 ^ 63)
   | _ \<Rightarrow> - (2 ^ 63))"

definition gc_now :: "int \<Rightarrow> GCOptions \<Rightarrow> int" where
  "gc_now clock opts = (if gc_Now opts = 0 then clock else gc_Now opts)"

definition gc_expired :: "int \<Rightarrow> GCOptions \<Rightarrow> Slice \<Rightarrow> bool" where
  "gc_expired now opts sl \<longleftrightarrow> gc_RetentionDays opts > 0 \<and> sl_CreatedAt sl > 0 \<and>
     sl_CreatedAt sl < wrap64 (now - wrap64 (gc_RetentionDays opts * 86400))"

definition gc_low :: "GCOptions \<Rightarrow> Slice \<Rightarrow> bool" where
  "gc_low opts sl \<longleftrightarrow> flt f0 (gc_MinWeight opts) \<and> flt f0 (sl_Weight sl) \<and> flt (sl_Weight sl) (gc_MinWeight opts)"

text \<open>The threshold loop; the keys of \<open>evict\<close> are the IDs marked so far.\<close>

definition gc_mark :: "int \<Rightarrow> GCOptions \<Rightarrow> Slice \<Rightarrow> (string, bool) gomap \<Rightarrow> (string, bool) gomap" where
  "gc_mark now opts sl evict =
     (if gc_expired now opts sl \<or> gc_low opts sl then m_set (sl_ID sl) True evict else evict)"

definition gc_thresholds :: "int \<Rightarrow> GCOptions \<Rightarrow> Slice list \<Rightarrow> (string, bool) gomap" where
  "gc_thresholds now opts all = fold (gc_mark now opts) all []"

abbreviation marked :: "(string, bool) gomap \<Rightarrow> Slice \<Rightarrow> bool" where
  "marked evict sl \<equiv> m_get_or False evict (sl_ID sl)"

definition gc_protected :: "int \<Rightarrow> int \<Rightarrow> Slice \<Rightarrow> bool" where
  "gc_protected now graceSecs sl \<longleftrightarrow>
     graceSecs > 0 \<and> sl_CreatedAt sl > 0 \<and> wrap64 (now - sl_CreatedAt sl) < graceSecs"

definition evict_before :: "int \<Rightarrow> int \<Rightarrow> Slice \<Rightarrow> Slice \<Rightarrow> bool" where
  "evict_before now graceSecs a b =
     (let pa = gc_protected now graceSecs a; pb = gc_protected now graceSecs b in
      if pa \<noteq> pb then \<not> pa
      else if EvictPriorityOf (sl_Type a) \<noteq> EvictPriorityOf (sl_Type b)
      then EvictPriorityOf (sl_Type a) < EvictPriorityOf (sl_Type b)
      else if fne (sl_Weight a) (sl_Weight b) then flt (sl_Weight a) (sl_Weight b)
      else if sl_CreatedAt a \<noteq> sl_CreatedAt b then sl_CreatedAt a < sl_CreatedAt b
      else sl_ID a < sl_ID b)"

definition gc_overcap :: "int \<Rightarrow> GCOptions \<Rightarrow> Slice list \<Rightarrow> (string, bool) gomap \<Rightarrow> Slice list" where
  "gc_overcap now opts all evict =
     (if gc_MaxSlices opts > 0 then
        let cands = filter (\<lambda>sl. \<not> marked evict sl) all;
            over = int (length cands) - gc_MaxSlices opts
        in if over > 0 then
             let graceSecs = f_to_int64 (fmul (sp_GraceDays (withDefaults (gc_Params opts))) (Fin 86400))
             in take (nat over) (go_sort (evict_before now graceSecs) cands)
           else []
      else [])"

definition bump :: "Slice \<Rightarrow> (string, int) gomap \<Rightarrow> (string, int) gomap" where
  "bump sl m = (let t = SliceType_String (sl_Type sl) in m_set t (m_get_or 0 m t + 1) m)"

text \<open>The plan: the listing with its new weights, the report, and the IDs to evict.\<close>

definition gc_plan ::
  "(f64 \<Rightarrow> f64) \<Rightarrow> int \<Rightarrow> GCOptions \<Rightarrow> Slice list \<Rightarrow> Slice list \<times> GCResult \<times> (string, bool) gomap" where
  "gc_plan expf now opts all0 =
     (let (all, changed) = (if gc_Rescore opts then Rescore expf all0 now (gc_Params opts) else (all0, 0));
          evict0 = gc_thresholds now opts all;
          over = gc_overcap now opts all evict0;
          evict = fold (\<lambda>sl. m_set (sl_ID sl) True) over evict0
      in (all,
          \<lparr>gr_Checked = length all0, gr_Removed = length evict,
           gr_Expired = map sl_ID (filter (gc_expired now opts) all),
           gr_LowScore = map sl_ID (filter (gc_low opts) all),
           gr_OverCap = map sl_ID over, gr_EvictedByType = fold bump over [],
           gr_Capacity = gc_MaxSlices opts, gr_Archived = 0, gr_RescoredWeights = changed\<rparr>,
          evict))"

section \<open>Garbage collection: archive and apply\<close>

datatype gc_err = GCStore store_err | GCExport | GCOpen | GCWrite | GCSync

record arch_env =
  ae_open :: bool
  ae_write :: "nat option"
  ae_frag :: nat
  ae_sync :: bool
  ae_len :: "sliceDTO \<Rightarrow> nat"

text \<open>
  The archive is opened for appending, the raw lines of the evicted IDs are written, then the file is
  synced. A write may fail after \<open>k\<close> lines and leave a fragment of the next one.
\<close>

definition archiveEvicted ::
  "arch_env \<Rightarrow> (string, bool) gomap \<Rightarrow> fileStore \<Rightarrow> sliceDTO fline list \<Rightarrow>
     nat \<times> gc_err option \<times> sliceDTO fline list" where
  "archiveEvicted ae evict s arch =
     (if ae_open ae then (0, Some GCOpen, arch)
      else case exportLines s of
        None \<Rightarrow> (0, Some GCExport, arch)
      | Some (ls, _) \<Rightarrow>
          let outl = filter (\<lambda>d. m_get_or False evict (d_ID d)) ls;
              n = (case ae_write ae of None \<Rightarrow> length outl | Some k \<Rightarrow> min k (length outl));
              arch' = arch @ map (\<lambda>d. Good d (ae_len ae d)) (take n outl)
          in if n < length outl
             then (n, Some GCWrite, arch' @ (if ae_frag ae > 0 then [Junk (ae_frag ae)] else []))
             else (n, (if ae_sync ae then Some GCSync else None), arch'))"

text \<open>The callback \<open>GC\<close> hands to \<open>CompactWith\<close>.\<close>

definition gc_fold :: "(string, bool) gomap \<Rightarrow> (string, f64) gomap \<Rightarrow> Slice list \<Rightarrow> Slice list" where
  "gc_fold evict weights lives =
     map (\<lambda>sl. case m_get weights (sl_ID sl) of None \<Rightarrow> sl | Some w \<Rightarrow> sl\<lparr>sl_Weight := w\<rparr>)
       (filter (\<lambda>sl. \<not> marked evict sl) lives)"

definition gc_weights :: "Slice list \<Rightarrow> (string, f64) gomap" where
  "gc_weights all = fold (\<lambda>sl. m_set (sl_ID sl) (sl_Weight sl)) all []"

definition GC ::
  "(f64 \<Rightarrow> f64) \<Rightarrow> int \<Rightarrow> env \<Rightarrow> arch_env \<Rightarrow> GCOptions \<Rightarrow> fileStore \<Rightarrow> sliceDTO fline list \<Rightarrow>
     GCResult \<times> gc_err option \<times> sliceDTO fline list \<times> fileStore" where
  "GC expf clock en ae opts s arch =
     (let (all, res, evict) = gc_plan expf (gc_now clock opts) opts (ListAll s) in
      if gc_DryRun opts then (res, None, arch, s)
      else
        let (n, aerr, arch') =
          (if gc_ArchivePath opts \<noteq> [] \<and> evict \<noteq> [] then archiveEvicted ae evict s arch else (0, None, arch))
        in if aerr \<noteq> None then (res, aerr, arch', s)
        else
          let res' = res\<lparr>gr_Archived := n\<rparr>;
              (x, s') = (if evict \<noteq> [] \<or> gr_RescoredWeights res > 0
                         then CompactWith en (gc_fold evict (gc_weights all)) s else Compact en s)
          in (res', map_option GCStore x, arch', s'))"

section \<open>Imports against the store contract\<close>

fun accepted :: "Slice fline list \<Rightarrow> Slice list" where
  "accepted [] = []"
| "accepted (Good sl n # ls) = (if n \<le> maxImportLine \<and> sl_ID sl \<noteq> [] then sl # accepted ls else accepted ls)"
| "accepted (Junk _ # ls) = accepted ls"
| "accepted (Blank _ # ls) = accepted ls"

definition counted :: "Slice fline list \<Rightarrow> Slice fline list" where
  "counted ls = filter (\<lambda>l. line_len l > maxImportLine \<or> (case l of Blank _ \<Rightarrow> False | _ \<Rightarrow> True)) ls"

definition imported_as :: "Origin \<Rightarrow> Slice \<Rightarrow> Slice" where
  "imported_as origin sl = stored_form (import_slice origin sl)"

lemma import_slice_ID [simp]: "sl_ID (import_slice origin sl) = sl_ID sl"
  by (simp add: import_slice_def Let_def)

lemma imported_ID [simp]: "sl_ID (imported_as origin sl) = sl_ID sl"
  by (simp add: imported_as_def import_slice_def Let_def)

lemma imported_fields:
  "m_Origin (sl_Meta (imported_as origin sl)) = origin"
  "sl_Type (imported_as origin sl) = sl_Type sl" "sl_Content (imported_as origin sl) = sl_Content sl"
  "sl_Type sl = Result \<Longrightarrow> EffectiveResultStatus (sl_Meta (imported_as origin sl)) = ResultStatusProbation"
  by (auto simp: imported_as_def stored_form_def import_slice_def Let_def EnforceAdmission_def
      EffectiveResultStatus_def split: SliceType.splits)

text \<open>Repeated puts, in closed form: the old listing without the new IDs, then the new slices.\<close>

lemma fold_up_members: "x \<in> set (fold up_slice xs L) \<Longrightarrow> x \<in> set xs \<or> (x \<in> set L \<and> sl_ID x \<notin> sl_ID ` set xs)"
proof (induction xs arbitrary: L)
  case (Cons a xs)
  then have "x \<in> set xs \<or> (x \<in> set (up_slice a L) \<and> sl_ID x \<notin> sl_ID ` set xs)" by simp
  then show ?case by (auto simp: up_slice_def)
qed simp

lemma fold_up_ids: "sl_ID ` set (fold up_slice xs L) \<subseteq> sl_ID ` set L \<union> sl_ID ` set xs"
  using fold_up_members by blast

lemma fold_up_append:
  "fold up_slice xs (A @ B) = filter (\<lambda>x. sl_ID x \<notin> sl_ID ` set xs) A @ fold up_slice xs B"
proof (induction xs arbitrary: A B)
  case (Cons x xs)
  have "fold up_slice (x # xs) (A @ B) =
      fold up_slice xs (filter (\<lambda>y. sl_ID y \<noteq> sl_ID x) A @ up_slice x B)"
    by (simp add: up_slice_def)
  then show ?case by (simp add: Cons.IH conj_commute)
qed simp

lemma fold_up_closed: "fold up_slice xs L = filter (\<lambda>x. sl_ID x \<notin> sl_ID ` set xs) L @ fold up_slice xs []"
  using fold_up_append [of xs L "[]"] by simp

lemma fold_up_idem: "fold up_slice xs (fold up_slice xs L) = fold up_slice xs L"
proof -
  have "filter (\<lambda>x. sl_ID x \<notin> sl_ID ` set xs) (fold up_slice xs []) = []"
    using fold_up_ids [of xs "[]"] by (auto simp: filter_empty_conv)
  then show ?thesis
    by (subst (1 3) fold_up_closed, subst fold_up_closed) simp
qed

context slice_store
begin

lemma Import_ok:
  assumes "inv s" "Import put envs origin rerr ls s = ((i, k), e, s')"
  shows "inv s' \<and> (\<not> e \<longrightarrow> listing s' = fold up_slice (map (imported_as origin) (accepted ls)) (listing s) \<and>
     i = length (accepted ls) \<and> i + k = length (counted ls))"
  using assms
proof (induction ls arbitrary: s envs i k)
  case Nil
  then show ?case by (simp add: counted_def)
next
  case (Cons l ls)
  let ?r = "Import put envs origin rerr ls s"
  show ?case
  proof (cases "line_len l > maxImportLine \<or> (\<exists>n. l = Junk n) \<or> (\<exists>sl n. l = Good sl n \<and> sl_ID sl = [])")
    case True
    then have "((i, k), e, s') = (case ?r of ((i, k), r) \<Rightarrow> ((i, k + 1), r))"
      using Cons.prems(2) by (cases l) (auto simp: Let_def split: if_splits)
    then obtain k' where "?r = ((i, k'), e, s')" "k = k' + 1" by (auto split: prod.splits)
    moreover have "accepted (l # ls) = accepted ls" "length (counted (l # ls)) = Suc (length (counted ls))"
      using True by (cases l; auto simp: counted_def)+
    ultimately show ?thesis using Cons.IH [OF Cons.prems(1), of envs i k'] by auto
  next
    case False
    show ?thesis
    proof (cases l)
      case (Blank n)
      then show ?thesis using Cons.IH [OF Cons.prems(1), of envs i k] Cons.prems(2) False
        by (auto simp: counted_def)
    next
      case (Good sl n)
      obtain x s1 where p: "put (envs 0) (import_slice origin sl) s = (x, s1)" by fastforce
      show ?thesis
      proof (cases x)
        case None
        then have "((i, k), e, s') =
            (case Import put (\<lambda>n. envs (Suc n)) origin rerr ls s1 of ((i, k), r) \<Rightarrow> ((i + 1, k), r))"
          using Cons.prems(2) p Good False by (simp add: Let_def)
        then obtain i' where r: "Import put (\<lambda>n. envs (Suc n)) origin rerr ls s1 = ((i', k), e, s')" "i = i' + 1"
          by (auto split: prod.splits)
        have "listing s1 = up_slice (imported_as origin sl) (listing s)" "inv s1"
          using put_ok [OF Cons.prems(1)] put_inv [OF Cons.prems(1)] p None by (auto simp: imported_as_def)
        then show ?thesis using Cons.IH [OF _ r(1)] r(2) Good False
          by (auto simp: counted_def)
      next
        case (Some a)
        then show ?thesis using Cons.prems p Good False put_inv [OF Cons.prems(1)] by (auto simp: Let_def)
      qed
    qed (use False in auto)
  qed
qed

text \<open>Importing the same backup again changes nothing.\<close>

lemma Import_idem:
  assumes "inv s" "Import put envs origin rerr ls s = (c, False, s')"
    "Import put envs' origin rerr' ls s' = (c', False, s'')"
  shows "listing s'' = listing s'" "c' = c"
proof -
  obtain i k i' k' where c: "c = (i, k)" "c' = (i', k')" by fastforce
  note 1 = Import_ok [OF assms(1) assms(2) [unfolded c]]
  note 2 = Import_ok [OF _ assms(3) [unfolded c], OF 1 [THEN conjunct1]]
  show "listing s'' = listing s'" "c' = c" using 1 2 fold_up_idem c by auto
qed

lemma Import_trust:
  assumes "inv s" "Import put envs origin rerr ls s = (c, False, s')" "sl \<in> set (listing s')"
    "sl_ID sl \<in> sl_ID ` set (accepted ls)"
  shows "m_Origin (sl_Meta sl) = origin"
    "sl_Type sl = Result \<Longrightarrow> EffectiveResultStatus (sl_Meta sl) = ResultStatusProbation"
proof -
  obtain i k where c: "c = (i, k)" by fastforce
  have "sl \<in> set (fold up_slice (map (imported_as origin) (accepted ls)) (listing s))"
    using Import_ok [OF assms(1) assms(2) [unfolded c]] assms(3) by simp
  then have "sl \<in> imported_as origin ` set (accepted ls)"
    using fold_up_members [of sl "map (imported_as origin) (accepted ls)" "listing s"] assms(4)
    by (auto simp: image_image)
  then show "m_Origin (sl_Meta sl) = origin"
    "sl_Type sl = Result \<Longrightarrow> EffectiveResultStatus (sl_Meta sl) = ResultStatusProbation"
    by (auto simp: imported_fields)
qed

end

section \<open>What the collector evicts\<close>

lemma feq_eq: "\<not> fne a b \<Longrightarrow> a = b"
  by (cases a; cases b) (auto simp: fne_def)

lemma Rescore_map:
  "fst (Rescore expf all now p) = map (\<lambda>s. s\<lparr>sl_Weight := ComputeWeight expf s now p\<rparr>) all"
proof (induction all)
  case (Cons s all)
  then show ?case using feq_eq [of "sl_Weight s" "ComputeWeight expf s now p"]
    by (cases "Rescore expf all now p") (auto simp: Let_def)
qed simp

lemma marked_thresholds:
  "m_get_or False (fold (gc_mark now opts) all m) k \<longleftrightarrow>
     m_get_or False m k \<or> (\<exists>sl\<in>set all. sl_ID sl = k \<and> (gc_expired now opts sl \<or> gc_low opts sl))"
  by (induction all arbitrary: m) (auto simp: gc_mark_def)

lemma marked_fold:
  "m_get_or False (fold (\<lambda>sl. m_set (sl_ID sl) True) xs m) k \<longleftrightarrow> m_get_or False m k \<or> k \<in> sl_ID ` set xs"
  by (induction xs arbitrary: m) auto

lemma marked_empty [simp]: "\<not> m_get_or False [] k"
  by (simp add: m_get_or_def)

lemma marked_nonempty: "m_get_or False m k \<Longrightarrow> m \<noteq> []"
  by auto

text \<open>The comparison is a strict weak order on slices whose weight is a number.\<close>

interpretation eviction: weak_order_on "{sl. \<not> is_nan (sl_Weight sl)}" "evict_before now g"
proof
  fix x y z :: Slice
  assume A: "x \<in> {sl. \<not> is_nan (sl_Weight sl)}" "y \<in> {sl. \<not> is_nan (sl_Weight sl)}"
  show "evict_before now g x y \<Longrightarrow> \<not> evict_before now g y x"
    using A by (cases "sl_Weight x"; cases "sl_Weight y")
      (auto simp: evict_before_def Let_def fne_def split: if_splits)
  assume B: "z \<in> {sl. \<not> is_nan (sl_Weight sl)}"
  show "\<not> evict_before now g y x \<Longrightarrow> \<not> evict_before now g z y \<Longrightarrow> \<not> evict_before now g z x"
    using A B by (cases "sl_Weight x"; cases "sl_Weight y"; cases "sl_Weight z")
      (auto simp: evict_before_def Let_def fne_def split: if_splits)
qed

text \<open>
  The plan in closed form: \<open>cands\<close> are the slices the thresholds spare, in eviction order; the cap takes
  a prefix of them.
\<close>

definition gc_over :: "GCOptions \<Rightarrow> Slice list \<Rightarrow> nat" where
  "gc_over opts cands = (if gc_MaxSlices opts > 0 then nat (int (length cands) - gc_MaxSlices opts) else 0)"

definition gc_grace :: "GCOptions \<Rightarrow> int" where
  "gc_grace opts = f_to_int64 (fmul (sp_GraceDays (withDefaults (gc_Params opts))) (Fin 86400))"

definition gc_spared :: "int \<Rightarrow> GCOptions \<Rightarrow> Slice list \<Rightarrow> Slice list" where
  "gc_spared now opts all = filter (\<lambda>sl. \<not> gc_expired now opts sl \<and> \<not> gc_low opts sl) all"

lemma marked_thresholds_iff:
  assumes "distinct (map sl_ID all)" "sl \<in> set all"
  shows "marked (gc_thresholds now opts all) sl \<longleftrightarrow> gc_expired now opts sl \<or> gc_low opts sl"
  using assms by (auto simp: gc_thresholds_def marked_thresholds distinct_map dest: inj_onD)

lemma gc_overcap_eq:
  assumes "distinct (map sl_ID all)"
  shows "gc_overcap now opts all (gc_thresholds now opts all) =
    take (gc_over opts (gc_spared now opts all)) (go_sort (evict_before now (gc_grace opts)) (gc_spared now opts all))"
proof -
  have "filter (\<lambda>sl. \<not> marked (gc_thresholds now opts all) sl) all = gc_spared now opts all"
    using marked_thresholds_iff [OF assms] by (auto simp: gc_spared_def intro: filter_cong)
  then show ?thesis by (auto simp: gc_overcap_def gc_over_def gc_grace_def Let_def)
qed

text \<open>What survives the plan is what the cap's prefix leaves of the spared slices.\<close>

lemma gc_plan_eq:
  assumes "gc_plan expf now opts all0 = (all, res, evict)"
  shows "all = (if gc_Rescore opts then map (\<lambda>s. s\<lparr>sl_Weight := ComputeWeight expf s now (gc_Params opts)\<rparr>) all0 else all0)"
    and "evict = fold (\<lambda>sl. m_set (sl_ID sl) True) (gc_overcap now opts all (gc_thresholds now opts all))
           (gc_thresholds now opts all)"
    and "gr_OverCap res = map sl_ID (gc_overcap now opts all (gc_thresholds now opts all))"
    and "gr_Expired res = map sl_ID (filter (gc_expired now opts) all)"
    and "gr_LowScore res = map sl_ID (filter (gc_low opts) all)"
  using assms Rescore_map [of expf all0 now "gc_Params opts"]
  by (auto simp: gc_plan_def Let_def split: prod.splits if_splits)

lemma gc_kept_set:
  assumes "distinct (map sl_ID all)"
    and "evict = fold (\<lambda>sl. m_set (sl_ID sl) True) (gc_overcap now opts all (gc_thresholds now opts all))
           (gc_thresholds now opts all)"
  defines "C \<equiv> go_sort (evict_before now (gc_grace opts)) (gc_spared now opts all)"
    and "n \<equiv> gc_over opts (gc_spared now opts all)"
  shows "set (filter (\<lambda>sl. \<not> marked evict sl) all) = set (drop n C)"
    and "length (filter (\<lambda>sl. \<not> marked evict sl) all) = length C - n"
    and "sl \<in> set all \<Longrightarrow> marked evict sl \<Longrightarrow> gc_expired now opts sl \<or> gc_low opts sl \<or> sl \<in> set (take n C)"
proof -
  have dC: "distinct C" using assms(1) by (simp add: C_def gc_spared_def distinct_map)
  have sC: "set C = {sl \<in> set all. \<not> gc_expired now opts sl \<and> \<not> gc_low opts sl}"
    by (simp add: C_def gc_spared_def)
  have m: "marked evict sl \<longleftrightarrow> gc_expired now opts sl \<or> gc_low opts sl \<or> sl \<in> set (take n C)"
    if "sl \<in> set all" for sl
  proof -
    have "sl_ID sl \<in> sl_ID ` set (take n C) \<longleftrightarrow> sl \<in> set (take n C)"
      using assms(1) that sC set_take_subset [of n C] by (auto simp: distinct_map dest: inj_onD)
    then show ?thesis
      by (simp add: assms(2) marked_fold marked_thresholds_iff [OF assms(1) that] gc_overcap_eq [OF assms(1)]
          C_def n_def)
  qed
  have split: "set (take n C) \<union> set (drop n C) = set C" "set (take n C) \<inter> set (drop n C) = {}"
    using dC by (metis append_take_drop_id set_append, metis append_take_drop_id distinct_append)
  then show *: "set (filter (\<lambda>sl. \<not> marked evict sl) all) = set (drop n C)"
    using m sC by auto
  have "length (filter (\<lambda>sl. \<not> marked evict sl) all) = card (set (drop n C))"
    using distinct_card [of "filter (\<lambda>sl. \<not> marked evict sl) all"] assms(1) * by (simp add: distinct_map)
  also have "\<dots> = length C - n" using distinct_card [of "drop n C"] dC by simp
  finally show "length (filter (\<lambda>sl. \<not> marked evict sl) all) = length C - n" .
  show "sl \<in> set all \<Longrightarrow> marked evict sl \<Longrightarrow> gc_expired now opts sl \<or> gc_low opts sl \<or> sl \<in> set (take n C)"
    using m by blast
qed

text \<open>What a successful pass leaves in the store, by ID: the unmarked slices of the listing.\<close>

lemma gc_fold_ids:
  "map sl_ID (gc_fold evict w L) = map sl_ID (filter (\<lambda>sl. \<not> marked evict sl) L)"
  by (simp add: gc_fold_def comp_def) (induction L; simp split: option.splits)

lemma fold_m_set_notNil: "fold (\<lambda>sl. m_set (sl_ID sl) True) xs m = [] \<longleftrightarrow> xs = [] \<and> m = []"
proof (induction xs arbitrary: m)
  case (Cons x xs)
  have "m_set k v m \<noteq> []" for k :: string and v :: bool by (cases m) (auto split: if_splits)
  then show ?case by (simp add: Cons)
qed simp

lemma GC_listing:
  assumes "mem_inv s" "GC expf clock en ae opts s arch = (res, None, arch', s')" "\<not> gc_DryRun opts"
    "gc_plan expf (gc_now clock opts) opts (ListAll s) = (all, res0, evict)"
    "\<forall>sl\<in>set (ListAll s). sl_ID sl \<noteq> []"
  shows "mem_inv s'" and "map sl_ID (ListAll s') = map sl_ID (filter (\<lambda>sl. \<not> marked evict sl) (ListAll s))"
proof -
  have d: "distinct (map sl_ID (ListAll s))" using fstore.distinct_ids [OF assms(1)] .
  let ?f = "gc_fold evict (gc_weights all)"
  have *: "mem_inv s' \<and> map sl_ID (ListAll s') = map sl_ID (filter (\<lambda>sl. \<not> marked evict sl) (ListAll s))"
  proof (cases "evict \<noteq> [] \<or> gr_RescoredWeights res0 > 0")
    case True
    then have c: "compactLocked en (Some ?f) s = (None, s')"
      using assms(2,3,4) by (auto simp: GC_def CompactWith_def Let_def split: prod.splits if_splits)
    have ids: "map eid (compact_kept (Some ?f) s) = map sl_ID (filter (\<lambda>sl. \<not> marked evict sl) (ListAll s))"
    proof -
      have "map eid (compact_kept (Some ?f) s) = map sl_ID (filter (\<lambda>sl. sl_ID sl \<noteq> []) (?f (ListAll s)))"
        by (simp add: compact_kept_def Let_def entryFromSlice_def comp_def ListAll_live)
      also have "filter (\<lambda>sl. sl_ID sl \<noteq> []) (?f (ListAll s)) = ?f (ListAll s)"
        using assms(5) by (auto simp: gc_fold_def intro!: filter_True split: option.splits)
      finally show ?thesis by (simp add: gc_fold_ids)
    qed
    have "mem_inv s' \<and> live s' = compact_kept (Some ?f) s"
      using compact_mem [OF assms(1) c] ids d
      by (auto simp: distinct_map_filter compact_kept_def Let_def)
    then show ?thesis using ids by (simp add: ListAll_live comp_def)
  next
    case False
    then have c: "Compact en s = (None, s')"
      using assms(2,3,4) by (auto simp: GC_def Let_def split: prod.splits if_splits)
    have "mem_inv s' \<and> live s' = live s"
      using c compact_mem [OF assms(1), of en None None s'] assms(1) distinct_live [OF assms(1)] live_not_dead [of _ s]
      by (auto simp: Compact_def compact_kept_def split: if_splits)
    then show ?thesis using False by (simp add: ListAll_live)
  qed
  then show "mem_inv s'" and "map sl_ID (ListAll s') = map sl_ID (filter (\<lambda>sl. \<not> marked evict sl) (ListAll s))"
    by auto
qed

end
