(* ===== verification/Maintenance_Props.thy ===== *)
theory Maintenance_Props
  imports Maintenance File_Store_Props
begin

text \<open>
  The promises of imports and of the garbage collector on the journaled store.
\<close>

lemma test_store_mem: "mem_inv test_store"
  using test_store_ready by (simp add: ready_def)

lemma test_store_all: "ListAll test_store = []"
  by (simp add: ListAll_live test_store_live)

section \<open>Import\<close>



text \<open>
  The import channel never lends trust. Whatever provenance and verification a backup claims, every
  slice an import wrote carries the origin the caller chose, and an imported result is on probation,
  so that it has to be verified locally before it can be served.
\<close>

lemma import_never_trusts_file:
  assumes "mem_inv s" "Import Put envs origin rerr ls s = (c, False, s')"
    and "sl \<in> set (ListAll s')" "sl_ID sl \<in> sl_ID ` set (accepted ls)"
  shows "m_Origin (sl_Meta sl) = origin \<and>
    (sl_Type sl = Result \<longrightarrow> EffectiveResultStatus (sl_Meta sl) = ResultStatusProbation) \<and> admitted sl"
proof -
  obtain i k where c: "c = (i, k)" by fastforce
  have "sl \<in> set (fold up_slice (map (imported_as origin) (accepted ls)) (ListAll s))"
    using fstore.Import_ok [OF assms(1) assms(2) [unfolded c]] assms(3) by simp
  then have "sl \<in> imported_as origin ` set (accepted ls)"
    using fold_up_members [of sl "map (imported_as origin) (accepted ls)" "ListAll s"] assms(4)
    by (auto simp: image_image)
  then have "admitted sl" by (auto simp: imported_as_def)
  then show ?thesis using fstore.Import_trust [OF assms] by blast
qed

lemma import_never_trusts_file_witness:
  "let (c, e, s') = Import Put (\<lambda>_. test_env) OriginImport False [Good (test_slice ''a'') 9] test_store
   in list_all (\<lambda>sl. m_Origin (sl_Meta sl) = OriginImport) (ListAll s')"
proof -
  let ?sl = "import_slice OriginImport (test_slice ''a'')"
  obtain x s1 where p: "Put test_env ?sl test_store = (x, s1)" by fastforce
  have x: "x = None"
    using p by (simp add: import_slice_def store_run_simps zero_meta_def split: if_splits)
  have r: "Import Put (\<lambda>_. test_env) OriginImport False [Good (test_slice ''a'') 9] test_store = ((1, 0), False, s1)"
    using p x by (simp add: maxImportLine_def test_slice_def)
  have a: "accepted [Good (test_slice ''a'') 9] = [test_slice ''a'']"
    by (simp add: maxImportLine_def test_slice_def)
  have l: "ListAll s1 = [stored_form ?sl]"
    using fstore.put_ok [OF test_store_mem] p x by (simp add: test_store_all up_slice_def)
  have "m_Origin (sl_Meta (stored_form ?sl)) = OriginImport"
    using import_never_trusts_file [OF test_store_mem r, of "stored_form ?sl"] l a by simp
  then show ?thesis using r l by simp
qed

section \<open>Garbage collection\<close>

abbreviation rescored :: "(f64 \<Rightarrow> f64) \<Rightarrow> int \<Rightarrow> GCOptions \<Rightarrow> fileStore \<Rightarrow> Slice list" where
  "rescored expf clock opts s \<equiv> fst (gc_plan expf (gc_now clock opts) opts (ListAll s))"

lemma rescored_ids: "map sl_ID (rescored expf clock opts s) = map sl_ID (ListAll s)"
proof -
  obtain all res ev where "gc_plan expf (gc_now clock opts) opts (ListAll s) = (all, res, ev)" by (rule prod_cases3)
  then show ?thesis using gc_plan_eq(1) [of expf "gc_now clock opts" opts "ListAll s" all res ev]
    by (simp add: comp_def)
qed

lemma filter_marked_ids:
  "map sl_ID xs = map sl_ID ys \<Longrightarrow>
     map sl_ID (filter (marked ev) xs) = map sl_ID (filter (marked ev) ys) \<and>
     map sl_ID (filter (\<lambda>sl. \<not> marked ev sl) xs) = map sl_ID (filter (\<lambda>sl. \<not> marked ev sl) ys)"
proof (induction xs arbitrary: ys)
  case (Cons x xs)
  then show ?case by (cases ys) auto
qed simp

text \<open>
  The capacity cap holds. After a pass that reports no error and is not a dry run, a library with a
  cap has at most that many slices, whatever was protected, unscored or of unknown age; nothing is
  added and the survivors keep their order.
\<close>

lemma gc_respects_cap:
  assumes "mem_inv s" "GC expf clock en ae opts s arch = (res, None, arch', s')" "\<not> gc_DryRun opts"
    and "gc_MaxSlices opts > 0" "\<forall>sl\<in>set (ListAll s). sl_ID sl \<noteq> []"
  shows "int (length (ListAll s')) \<le> gc_MaxSlices opts \<and> subseq (map sl_ID (ListAll s')) (map sl_ID (ListAll s))"
proof -
  obtain all res0 ev where pl: "gc_plan expf (gc_now clock opts) opts (ListAll s) = (all, res0, ev)" by (rule prod_cases3)
  note L = GC_listing(2) [OF assms(1-3) pl assms(5)]
  have ids: "map sl_ID all = map sl_ID (ListAll s)" using rescored_ids [of expf clock opts s] pl by simp
  then have d: "distinct (map sl_ID all)" using fstore.distinct_ids [OF assms(1)] by simp
  have "length (ListAll s') = length (filter (\<lambda>sl. \<not> marked ev sl) all)"
    using filter_marked_ids [OF ids, of ev] L by (metis length_map)
  also have "\<dots> = length (gc_spared (gc_now clock opts) opts all) - gc_over opts (gc_spared (gc_now clock opts) opts all)"
    using gc_kept_set(2) [OF d gc_plan_eq(2) [OF pl]] by simp
  finally have "int (length (ListAll s')) \<le> gc_MaxSlices opts" using assms(4) by (auto simp: gc_over_def)
  moreover have "subseq (map sl_ID (ListAll s')) (map sl_ID (ListAll s))"
    unfolding L by (rule subseq_map) simp
  ultimately show ?thesis by simp
qed

text \<open>
  The collector removes only what the criteria name, worst first. A slice that a pass removes is
  past its retention, or below the weight floor, or was taken by the cap, and then no survivor comes
  before it in the eviction order (unprotected first, then type priority, weight, age, ID). Without a cap, only
  the first two reasons remain.
\<close>

lemma gc_evicts_worst_first:
  assumes "mem_inv s" "GC expf clock en ae opts s arch = (res, None, arch', s')" "\<not> gc_DryRun opts"
    and "\<forall>sl\<in>set (ListAll s). sl_ID sl \<noteq> []" "\<forall>sl\<in>set (rescored expf clock opts s). \<not> is_nan (sl_Weight sl)"
    and "sl \<in> set (rescored expf clock opts s)" "sl_ID sl \<notin> sl_ID ` set (ListAll s')"
    and "k \<in> set (rescored expf clock opts s)" "sl_ID k \<in> sl_ID ` set (ListAll s')"
  shows "gc_expired (gc_now clock opts) opts sl \<or> gc_low opts sl \<or>
    (gc_MaxSlices opts > 0 \<and> \<not> evict_before (gc_now clock opts) (gc_grace opts) k sl)"
proof -
  obtain all res0 ev where pl: "gc_plan expf (gc_now clock opts) opts (ListAll s) = (all, res0, ev)" by (rule prod_cases3)
  then have all: "rescored expf clock opts s = all" by simp
  note L = GC_listing(2) [OF assms(1-3) pl assms(4)]
  have ids: "map sl_ID all = map sl_ID (ListAll s)" using rescored_ids [of expf clock opts s] pl by simp
  then have d: "distinct (map sl_ID all)" using fstore.distinct_ids [OF assms(1)] by simp
  have "map sl_ID (ListAll s') = map sl_ID (filter (\<lambda>sl. \<not> marked ev sl) all)"
    using filter_marked_ids [OF ids, of ev] L by simp
  then have s': "sl_ID ` set (ListAll s') = sl_ID ` {x \<in> set all. \<not> marked ev x}"
    by (metis list.set_map set_filter)
  note K = gc_kept_set [OF d gc_plan_eq(2) [OF pl]]
  let ?C = "go_sort (evict_before (gc_now clock opts) (gc_grace opts)) (gc_spared (gc_now clock opts) opts all)"
  let ?n = "gc_over opts (gc_spared (gc_now clock opts) opts all)"
  have "marked ev sl" using assms(6,7) all s' by auto
  then have "gc_expired (gc_now clock opts) opts sl \<or> gc_low opts sl \<or> sl \<in> set (take ?n ?C)"
    using K(3) assms(6) all by blast
  moreover have "k \<in> set (drop ?n ?C)"
  proof -
    have "\<not> marked ev k" using assms(8,9) all s' d by (auto simp: distinct_map dest: inj_onD)
    then show ?thesis using K(1) assms(8) all by auto
  qed
  moreover have "set (gc_spared (gc_now clock opts) opts all) \<subseteq> {sl. \<not> is_nan (sl_Weight sl)}"
    using assms(5) all by (auto simp: gc_spared_def)
  ultimately show ?thesis
    using eviction.sorted_prefix [of "gc_spared (gc_now clock opts) opts all" sl ?n] by (auto simp: gc_over_def split: if_splits)
qed


section \<open>A concrete pass\<close>

definition test_disk :: Disk where
  "test_disk = \<lparr>dk_base = [Good (dtoFromEntry (entryFromSlice (test_slice ''a''))) 30,
     Good (dtoFromEntry (entryFromSlice (test_slice ''b''))) 30], dk_bmtime = 0, dk_journal = None, dk_stash = []\<rparr>"

definition test_store2 :: fileStore where
  "test_store2 = snd (NewFileStore test_env test_disk)"

definition test_opts :: GCOptions where
  "test_opts = \<lparr>gc_RetentionDays = 0, gc_MinWeight = f0, gc_DryRun = False, gc_MaxSlices = 1, gc_Rescore = False,
     gc_Params = zero_params, gc_Now = 5, gc_ArchivePath = ''x''\<rparr>"

definition test_arch :: arch_env where
  "test_arch = \<lparr>ae_open = False, ae_write = None, ae_frag = 0, ae_sync = False, ae_len = (\<lambda>_. 30)\<rparr>"

lemma test2_opened: "NewFileStore test_env test_disk = (None, test_store2)"
  using NewFileStore_ok [OF quiet_test_env, of test_disk] by (simp add: test_store2_def prod_eq_iff)

lemma test2_ready: "ready test_store2"
  by (rule NewFileStore_ready [OF test2_opened]) (simp add: test_disk_def)

lemma test2_live: "live test_store2 = [entryFromSlice (test_slice ''a''), entryFromSlice (test_slice ''b'')]"
  using NewFileStore_live(3) [OF test2_opened]
  by (simp add: disk_live_def base_live_def test_disk_def base_effect_def maxImportLine_def spec_put_def
      entryFromDTO_def dtoFromEntry_def entryFromSlice_def test_slice_def zero_slice_def)

lemma test2_all: "ListAll test_store2 = [test_slice ''a'', test_slice ''b'']"
  by (simp add: ListAll_live test2_live cloneStored_def entryFromSlice_def test_slice_def zero_slice_def)

lemma test2_plan:
  "fst (gc_plan expf 5 test_opts [test_slice ''a'', test_slice ''b'']) = [test_slice ''a'', test_slice ''b'']"
  "snd (snd (gc_plan expf 5 test_opts [test_slice ''a'', test_slice ''b''])) = [(''a'', True)]"
  by (simp add: gc_plan_def test_opts_def Let_def, code_simp)

definition test_gc :: "GCResult \<times> gc_err option \<times> sliceDTO fline list \<times> fileStore" where
  "test_gc = GC (\<lambda>_. f0) 5 test_env test_arch test_opts test_store2 []"

lemma test_gc_ok:
  "test_gc = (fst test_gc, None, fst (snd (snd test_gc)), snd (snd (snd test_gc)))"
  "map sl_ID (ListAll (snd (snd (snd test_gc)))) = [''b'']"
proof -
  let ?f = "gc_fold [(''a'', True)] (gc_weights [test_slice ''a'', test_slice ''b''])"
  have nw: "gc_now 5 test_opts = 5" by (simp add: gc_now_def test_opts_def)
  obtain r where pl: "gc_plan (\<lambda>_. f0) (gc_now 5 test_opts) test_opts (ListAll test_store2) =
      ([test_slice ''a'', test_slice ''b''], r, [(''a'', True)])"
    using test2_plan [of "\<lambda>_. f0"] unfolding nw test2_all by (metis prod.collapse)
  have k: "compact_kept (Some ?f) test_store2 = [entryFromSlice (test_slice ''b'')]"
    by (simp add: compact_kept_def test2_live Let_def gc_fold_def gc_weights_def m_get_or_def m_get_def
        cloneStored_def entryFromSlice_def test_slice_def zero_slice_def)
  have "fst (compactLocked test_env (Some ?f) test_store2) = None"
    by (rule compact_ok [OF quiet_test_env test2_ready], unfold k)
      (simp add: dto_ok_def stats_ok_def dtoFromEntry_def entryFromSlice_def test_slice_def zero_slice_def zero_stats_def)
  moreover have "archiveEvicted test_arch [(''a'', True)] test_store2 [] =
      (1, None, [Good (dtoFromEntry (entryFromSlice (test_slice ''a''))) 30])"
    by (simp add: archiveEvicted_def test_arch_def exportLines_def test2_live Let_def m_get_or_def
        dto_ok_def stats_ok_def dtoFromEntry_def entryFromSlice_def test_slice_def zero_slice_def zero_stats_def)
  ultimately show *: "test_gc = (fst test_gc, None, fst (snd (snd test_gc)), snd (snd (snd test_gc)))"
    unfolding test_gc_def GC_def CompactWith_def pl
    by (auto simp: Let_def test_opts_def prod_eq_iff split: prod.splits)
  show "map sl_ID (ListAll (snd (snd (snd test_gc)))) = [''b'']"
    using GC_listing(2) [OF _ * [unfolded test_gc_def] _ pl] test2_ready
    by (simp add: test2_all ready_def test_gc_def test_opts_def test_slice_def zero_slice_def m_get_or_def)
qed

lemma test2_ids: "\<forall>sl\<in>set (ListAll test_store2). sl_ID sl \<noteq> []"
  by (simp add: test2_all test_slice_def zero_slice_def)

lemma test2_mem: "mem_inv test_store2"
  using test2_ready by (simp add: ready_def)

lemma gc_respects_cap_witness: "length (ListAll (snd (snd (snd test_gc)))) \<le> 1"
  using gc_respects_cap [OF test2_mem test_gc_ok(1) [unfolded test_gc_def] _ _ test2_ids]
  unfolding test_gc_def [symmetric] by (simp add: test_opts_def)

lemma gc_evicts_worst_first_witness: "\<not> evict_before 5 (gc_grace test_opts) (test_slice ''b'') (test_slice ''a'')"
proof -
  have nw: "gc_now 5 test_opts = 5" by (simp add: gc_now_def test_opts_def)
  have r: "rescored (\<lambda>_. f0) 5 test_opts test_store2 = [test_slice ''a'', test_slice ''b'']"
    by (simp add: nw test2_all test2_plan)
  have "gc_expired 5 test_opts (test_slice ''a'') \<or> gc_low test_opts (test_slice ''a'') \<or>
      (gc_MaxSlices test_opts > 0 \<and> \<not> evict_before 5 (gc_grace test_opts) (test_slice ''b'') (test_slice ''a''))"
  proof (rule gc_evicts_worst_first [OF test2_mem test_gc_ok(1) [unfolded test_gc_def] _ test2_ids, unfolded nw])
    have i: "sl_ID ` set (ListAll (snd (snd (snd test_gc)))) = {''b''}"
      using test_gc_ok(2) by (metis list.set_map list.simps(15) empty_set)
    show "sl_ID (test_slice ''a'') \<notin> sl_ID ` set (ListAll (snd (snd (snd (GC (\<lambda>_. f0) 5 test_env test_arch test_opts test_store2 [])))))"
      "sl_ID (test_slice ''b'') \<in> sl_ID ` set (ListAll (snd (snd (snd (GC (\<lambda>_. f0) 5 test_env test_arch test_opts test_store2 [])))))"
      using i by (simp_all add: test_gc_def test_slice_def)
  qed (unfold r [unfolded nw], simp_all add: test_opts_def test_slice_def zero_slice_def)
  then show ?thesis by (simp add: gc_expired_def gc_low_def test_opts_def)
qed


end
