(* ===== verification/Promote.thy ===== *)
theory Promote
  imports Slice_Types File_Store
begin

text \<open>
  The promotion layer, \<open>kernel/promote\<close>: promotion entries (\<open>promote.go\<close>, \<open>file_store.go\<close>),
  failure lessons (\<open>rejection.go\<close>) and the decision that combines them (\<open>decision.go\<close>).
  Both store interfaces are contracts (locales) met by the in-memory and by the file
  implementation. \<open>ContentVersion\<close> hashes the slice content; its users pass the hash, so here a
  version is just a string.

  A file is its lines, decoded, with their length; the scanner stops with an error at the first line
  longer than its buffer (8 MiB for entries, 1 MiB for rejections). \<open>writeAll\<close> builds a temporary file and renames it,
  so a failing write leaves the old contents.
\<close>

section \<open>Entries and the in-memory store\<close>

record Entry =
  pe_SourceSliceID :: string
  pe_ContentVersion :: string
  pe_Query :: string
  pe_PromotedAt :: int

definition same_key :: "Entry \<Rightarrow> Entry \<Rightarrow> bool" where
  "same_key a b \<longleftrightarrow> pe_ContentVersion a = pe_ContentVersion b \<and> pe_Query a = pe_Query b"

definition newest_last :: "Entry list \<Rightarrow> Entry list" where
  "newest_last = go_sort (\<lambda>a b. pe_PromotedAt a < pe_PromotedAt b)"

type_synonym MemStore = "(string, Entry list) gomap"

text \<open>The error flag of every operation is \<open>True\<close> when the source returns a non-nil error.\<close>

definition MemStore_Put :: "unit \<Rightarrow> Entry \<Rightarrow> MemStore \<Rightarrow> bool \<times> MemStore" where
  "MemStore_Put _ e m =
     (let cur = m_get_or [] m (pe_SourceSliceID e) in
      if list_ex (\<lambda>x. same_key x e) cur then (False, m)
      else (False, m_set (pe_SourceSliceID e) (cur @ [e]) m))"

definition MemStore_List :: "unit \<Rightarrow> string \<Rightarrow> MemStore \<Rightarrow> Entry list option" where
  "MemStore_List _ sid m = Some (newest_last (m_get_or [] m sid))"

text \<open>\<open>append(cur[:i], cur[i+1:]...)\<close> at the first match.\<close>

fun remove_first :: "('a \<Rightarrow> bool) \<Rightarrow> 'a list \<Rightarrow> 'a list" where
  "remove_first P [] = []"
| "remove_first P (x # xs) = (if P x then xs else x # remove_first P xs)"

definition MemStore_Delete :: "unit \<Rightarrow> string \<Rightarrow> string \<Rightarrow> string \<Rightarrow> MemStore \<Rightarrow> bool \<times> MemStore" where
  "MemStore_Delete _ sid ver q m =
     (let cur = m_get_or [] m sid; P = (\<lambda>e. pe_ContentVersion e = ver \<and> pe_Query e = q) in
      if list_ex P cur then (False, m_set sid (remove_first P cur) m) else (False, m))"

section \<open>The file store\<close>

record penv =
  pv_read :: bool
  pv_write :: bool
  pv_len :: "Entry \<Rightarrow> nat"

text \<open>\<open>None\<close> is an error of the scanner or of opening the file.\<close>

fun scan_lines :: "nat \<Rightarrow> 'a fline list \<Rightarrow> 'a list option" where
  "scan_lines cap [] = Some []"
| "scan_lines cap (l # ls) =
     (if line_len l > cap then None
      else case scan_lines cap ls of None \<Rightarrow> None
        | Some xs \<Rightarrow> Some (case l of Good x _ \<Rightarrow> x # xs | _ \<Rightarrow> xs))"

definition entryCap :: nat where "entryCap = 8 * 1024 * 1024"

definition readAll :: "penv \<Rightarrow> Entry fline list \<Rightarrow> Entry list option" where
  "readAll pv f = (if pv_read pv then None else scan_lines entryCap f)"

definition writeAll :: "penv \<Rightarrow> Entry list \<Rightarrow> Entry fline list \<Rightarrow> bool \<times> Entry fline list" where
  "writeAll pv es f = (if pv_write pv then (True, f) else (False, map (\<lambda>e. Good e (pv_len pv e + 1)) es))"

definition pfile_Put :: "penv \<Rightarrow> Entry \<Rightarrow> Entry fline list \<Rightarrow> bool \<times> Entry fline list" where
  "pfile_Put pv e f =
     (case readAll pv f of None \<Rightarrow> (True, f)
      | Some all \<Rightarrow>
          if list_ex (\<lambda>x. pe_SourceSliceID x = pe_SourceSliceID e \<and> same_key x e) all then (False, f)
          else writeAll pv (all @ [e]) f)"

definition pfile_List :: "penv \<Rightarrow> string \<Rightarrow> Entry fline list \<Rightarrow> Entry list option" where
  "pfile_List pv sid f =
     (case readAll pv f of None \<Rightarrow> None
      | Some all \<Rightarrow> Some (newest_last (filter (\<lambda>e. pe_SourceSliceID e = sid) all)))"

definition pfile_Delete ::
  "penv \<Rightarrow> string \<Rightarrow> string \<Rightarrow> string \<Rightarrow> Entry fline list \<Rightarrow> bool \<times> Entry fline list" where
  "pfile_Delete pv sid ver q f =
     (case readAll pv f of None \<Rightarrow> (True, f)
      | Some all \<Rightarrow>
          writeAll pv (filter (\<lambda>e. \<not> (pe_SourceSliceID e = sid \<and> pe_ContentVersion e = ver \<and> pe_Query e = q)) all) f)"

section \<open>Failure lessons\<close>

record Rejection =
  rj_SourceSliceID :: string
  rj_Query :: string
  rj_Reason :: string
  rj_RejectedAt :: int

definition rejectionCap :: nat where "rejectionCap = 2 ^ 20"

definition rj_expired :: "int \<Rightarrow> int \<Rightarrow> Rejection \<Rightarrow> bool" where
  "rj_expired now ttl r \<longleftrightarrow> ttl > 0 \<and> wrap64 (now - rj_RejectedAt r) > ttl"

definition MemRejection_Add :: "unit \<Rightarrow> Rejection \<Rightarrow> Rejection list \<Rightarrow> bool \<times> Rejection list" where
  "MemRejection_Add _ r m = (False, m @ [r])"

definition MemRejection_Count ::
  "unit \<Rightarrow> string \<Rightarrow> string \<Rightarrow> int \<Rightarrow> int \<Rightarrow> Rejection list \<Rightarrow> nat option \<times> Rejection list" where
  "MemRejection_Count _ sid q now ttl m =
     (Some (length (filter (\<lambda>r. rj_SourceSliceID r = sid \<and> rj_Query r = q \<and> \<not> rj_expired now ttl r) m)),
      filter (\<lambda>r. \<not> rj_expired now ttl r) m)"

record renv =
  rv_read :: bool
  rv_write :: bool
  rv_len :: "Rejection \<Rightarrow> nat"

definition rj_readAll :: "renv \<Rightarrow> Rejection fline list \<Rightarrow> Rejection list option" where
  "rj_readAll rv f = (if rv_read rv then None else scan_lines rejectionCap f)"

definition rj_writeAll :: "renv \<Rightarrow> Rejection list \<Rightarrow> Rejection fline list \<Rightarrow> bool \<times> Rejection fline list" where
  "rj_writeAll rv rs f =
     (if rv_write rv then (True, f)
      else (False, map (\<lambda>r. Good r (rv_len rv r + 1)) (go_sort (\<lambda>a b. rj_RejectedAt a < rj_RejectedAt b) rs)))"

definition rfile_Add :: "renv \<Rightarrow> Rejection \<Rightarrow> Rejection fline list \<Rightarrow> bool \<times> Rejection fline list" where
  "rfile_Add rv r f =
     (case rj_readAll rv f of None \<Rightarrow> (True, f) | Some all \<Rightarrow> rj_writeAll rv (all @ [r]) f)"

text \<open>The count is returned with the error when the rewrite fails; \<open>None\<close> stands for an error.\<close>

definition rfile_Count ::
  "renv \<Rightarrow> string \<Rightarrow> string \<Rightarrow> int \<Rightarrow> int \<Rightarrow> Rejection fline list \<Rightarrow> nat option \<times> Rejection fline list" where
  "rfile_Count rv sid q now ttl f =
     (case rj_readAll rv f of None \<Rightarrow> (None, f)
      | Some all \<Rightarrow>
          let n = length (filter (\<lambda>r. rj_SourceSliceID r = sid \<and> rj_Query r = q \<and> \<not> rj_expired now ttl r) all);
              kept = filter (\<lambda>r. \<not> rj_expired now ttl r) all
          in if length kept \<noteq> length all then
               (case rj_writeAll rv kept f of (True, f') \<Rightarrow> (None, f') | (False, f') \<Rightarrow> (Some n, f'))
             else (Some n, f))"

section \<open>The decision\<close>

text \<open>\<open>Decision\<close> holds two stores behind their interfaces: the operations and their states.\<close>

record ('s, 'e) PStore =
  ps_Put :: "'e \<Rightarrow> Entry \<Rightarrow> 's \<Rightarrow> bool \<times> 's"
  ps_List :: "'e \<Rightarrow> string \<Rightarrow> 's \<Rightarrow> Entry list option"
  ps_Delete :: "'e \<Rightarrow> string \<Rightarrow> string \<Rightarrow> string \<Rightarrow> 's \<Rightarrow> bool \<times> 's"

record ('r, 'f) RStore =
  rs_Add :: "'f \<Rightarrow> Rejection \<Rightarrow> 'r \<Rightarrow> bool \<times> 'r"
  rs_Count :: "'f \<Rightarrow> string \<Rightarrow> string \<Rightarrow> int \<Rightarrow> int \<Rightarrow> 'r \<Rightarrow> nat option \<times> 'r"

record ('s, 'r) Decision =
  dn_entries :: 's
  dn_rejections :: 'r
  dn_ttl :: int
  dn_rejectLimit :: int

definition expiredBy :: "int \<Rightarrow> int \<Rightarrow> Entry \<Rightarrow> bool" where
  "expiredBy now ttl e \<longleftrightarrow> ttl > 0 \<and> wrap64 (now - pe_PromotedAt e) > ttl"

text \<open>The deletion loop of \<open>Lookup\<close>: it stops at the first failure. The environment of each call differs.\<close>

fun delete_all ::
  "('s, 'e) PStore \<Rightarrow> (nat \<Rightarrow> 'e) \<Rightarrow> string \<Rightarrow> Entry list \<Rightarrow> 's \<Rightarrow> bool \<times> nat \<times> 's" where
  "delete_all P envs sid [] s = (False, 0, s)"
| "delete_all P envs sid (e # es) s =
     (case ps_Delete P (envs 0) sid (pe_ContentVersion e) (pe_Query e) s of
        (True, s') \<Rightarrow> (True, 0, s')
      | (False, s') \<Rightarrow> (case delete_all P (\<lambda>n. envs (Suc n)) sid es s' of (x, n, s'') \<Rightarrow> (x, n + 1, s'')))"

definition Lookup ::
  "('s, 'e) PStore \<Rightarrow> 'e \<Rightarrow> (nat \<Rightarrow> 'e) \<Rightarrow> string \<Rightarrow> string \<Rightarrow> string \<Rightarrow> int \<Rightarrow> ('s, 'r) Decision \<Rightarrow>
     bool \<times> ('s, 'r) Decision" where
  "Lookup P en envs sid query ver now d =
     (case ps_List P en sid (dn_entries d) of None \<Rightarrow> (False, d)
      | Some es \<Rightarrow>
          let hit = list_ex (\<lambda>e. \<not> expiredBy now (dn_ttl d) e \<and> pe_Query e = query \<and> pe_ContentVersion e = ver) es;
              old = filter (expiredBy now (dn_ttl d)) es
          in (hit, d\<lparr>dn_entries := snd (snd (delete_all P envs sid old (dn_entries d)))\<rparr>))"

definition Blacklisted ::
  "('r, 'f) RStore \<Rightarrow> 'f \<Rightarrow> string \<Rightarrow> string \<Rightarrow> int \<Rightarrow> ('s, 'r) Decision \<Rightarrow> bool \<times> ('s, 'r) Decision" where
  "Blacklisted R en sid query now d =
     (if dn_rejectLimit d \<le> 0 then (False, d)
      else case rs_Count R en sid query now (dn_ttl d) (dn_rejections d) of
             (None, r) \<Rightarrow> (False, d\<lparr>dn_rejections := r\<rparr>)
           | (Some n, r) \<Rightarrow> (int n \<ge> dn_rejectLimit d, d\<lparr>dn_rejections := r\<rparr>))"

datatype promote_err = ErrBlacklisted | StoreErr

definition Promote ::
  "('s, 'e) PStore \<Rightarrow> ('r, 'f) RStore \<Rightarrow> 'e \<Rightarrow> 'f \<Rightarrow> Entry \<Rightarrow> ('s, 'r) Decision \<Rightarrow>
     promote_err option \<times> ('s, 'r) Decision" where
  "Promote P R en fn e d =
     (case Blacklisted R fn (pe_SourceSliceID e) (pe_Query e) (pe_PromotedAt e) d of
        (True, d') \<Rightarrow> (Some ErrBlacklisted, d')
      | (False, d') \<Rightarrow>
          (case ps_Put P en e (dn_entries d') of (x, s) \<Rightarrow>
             ((if x then Some StoreErr else None), d'\<lparr>dn_entries := s\<rparr>)))"

definition Rejected ::
  "('r, 'f) RStore \<Rightarrow> 'f \<Rightarrow> string \<Rightarrow> string \<Rightarrow> string \<Rightarrow> int \<Rightarrow> ('s, 'r) Decision \<Rightarrow> ('s, 'r) Decision" where
  "Rejected R fn sid query reason now d =
     d\<lparr>dn_rejections := snd (rs_Add R fn
        \<lparr>rj_SourceSliceID = sid, rj_Query = query, rj_Reason = reason, rj_RejectedAt = now\<rparr> (dn_rejections d))\<rparr>"

text \<open>\<open>CascadeInvalidate\<close>: \<open>None\<close> with the count, or an error with the count so far.\<close>

definition CascadeInvalidate ::
  "('s, 'e) PStore \<Rightarrow> 'e \<Rightarrow> (nat \<Rightarrow> 'e) \<Rightarrow> string \<Rightarrow> string \<Rightarrow> 's \<Rightarrow> bool \<times> nat \<times> 's" where
  "CascadeInvalidate P en envs sid want s =
     (case ps_List P en sid s of None \<Rightarrow> (True, 0, s)
      | Some es \<Rightarrow> delete_all P envs sid (filter (\<lambda>e. pe_ContentVersion e \<noteq> want) es) s)"

definition mem_store :: "(MemStore, unit) PStore" where
  "mem_store = \<lparr>ps_Put = MemStore_Put, ps_List = MemStore_List, ps_Delete = MemStore_Delete\<rparr>"

definition file_store :: "(Entry fline list, penv) PStore" where
  "file_store = \<lparr>ps_Put = pfile_Put, ps_List = pfile_List, ps_Delete = pfile_Delete\<rparr>"

definition mem_rejections :: "(Rejection list, unit) RStore" where
  "mem_rejections = \<lparr>rs_Add = MemRejection_Add, rs_Count = MemRejection_Count\<rparr>"

definition file_rejections :: "(Rejection fline list, renv) RStore" where
  "file_rejections = \<lparr>rs_Add = rfile_Add, rs_Count = rfile_Count\<rparr>"

end
