(* ===== verification/Promote_Correct.thy ===== *)
theory Promote_Correct
  imports Promote
begin

text \<open>
  The contracts of the two promotion stores, their interpretation on both implementations, and what
  the decision guarantees on top of them.
\<close>

section \<open>The entry store contract\<close>

definition entry_key :: "Entry \<Rightarrow> string \<times> string" where
  "entry_key e = (pe_ContentVersion e, pe_Query e)"

lemma same_key_iff: "same_key a b \<longleftrightarrow> entry_key a = entry_key b"
  by (auto simp: same_key_def entry_key_def)

locale promote_store =
  fixes P :: "('s, 'e) PStore" and inv :: "'s \<Rightarrow> bool" and ents :: "'s \<Rightarrow> string \<Rightarrow> Entry list"
  assumes put_ok: "inv s \<Longrightarrow> ps_Put P en e s = (False, s') \<Longrightarrow> inv s' \<and>
        ents s' = (ents s)(pe_SourceSliceID e :=
          if \<exists>x\<in>set (ents s (pe_SourceSliceID e)). same_key x e then ents s (pe_SourceSliceID e)
          else ents s (pe_SourceSliceID e) @ [e])"
    and put_err: "inv s \<Longrightarrow> ps_Put P en e s = (True, s') \<Longrightarrow> inv s' \<and> ents s' = ents s"
    and list_ok: "inv s \<Longrightarrow> ps_List P en sid s = Some es \<Longrightarrow> es = newest_last (ents s sid)"
    and del_ok: "inv s \<Longrightarrow> ps_Delete P en sid ver q s = (False, s') \<Longrightarrow> inv s' \<and>
        ents s' = (ents s)(sid := filter (\<lambda>e. entry_key e \<noteq> (ver, q)) (ents s sid))"
    and del_err: "inv s \<Longrightarrow> ps_Delete P en sid ver q s = (True, s') \<Longrightarrow> inv s' \<and> ents s' = ents s"
    and unique: "inv s \<Longrightarrow> distinct (map entry_key (ents s sid))"
begin

lemma delete_all_ok:
  assumes "inv s" "delete_all P envs sid es s = (x, n, s')"
  shows "inv s' \<and> n \<le> length es \<and> (\<not> x \<longrightarrow> n = length es) \<and>
    ents s' = (ents s)(sid := filter (\<lambda>e. entry_key e \<notin> entry_key ` set (take n es)) (ents s sid))"
  using assms
proof (induction es arbitrary: envs s n)
  case Nil
  then show ?case by simp
next
  case (Cons e es)
  obtain y s1 where d: "ps_Delete P (envs 0) sid (pe_ContentVersion e) (pe_Query e) s = (y, s1)" by fastforce
  show ?case
  proof (cases y)
    case True
    then show ?thesis using Cons.prems d del_err [OF Cons.prems(1)] by auto
  next
    case False
    obtain n' where r: "delete_all P (\<lambda>n. envs (Suc n)) sid es s1 = (x, n', s')" "n = n' + 1"
      using Cons.prems(2) d False by (auto split: prod.splits)
    have s1: "inv s1" "ents s1 = (ents s)(sid := filter (\<lambda>a. entry_key a \<noteq> entry_key e) (ents s sid))"
      using del_ok [OF Cons.prems(1)] d False by (auto simp: entry_key_def)
    show ?thesis using Cons.IH [OF s1(1) r(1)] s1(2) r(2)
      by (auto simp: fun_eq_iff intro: filter_cong)
  qed
qed

lemma newest_last_set [simp]: "set (newest_last es) = set es"
  by (simp add: newest_last_def)

text \<open>A lookup succeeds exactly for an entry of the same query and version inside its window.\<close>

lemma Lookup_iff:
  assumes "inv (dn_entries d)" "ps_List P en sid (dn_entries d) \<noteq> None" "Lookup P en envs sid q ver now d = (b, d')"
  shows "b \<longleftrightarrow> (\<exists>e\<in>set (ents (dn_entries d) sid). \<not> expiredBy now (dn_ttl d) e \<and> pe_Query e = q \<and> pe_ContentVersion e = ver)"
proof -
  obtain es where es: "ps_List P en sid (dn_entries d) = Some es" using assms(2) by blast
  then have "set es = set (ents (dn_entries d) sid)" using list_ok [OF assms(1) es] by simp
  then show ?thesis using assms(3) es by (auto simp: Lookup_def list_ex_iff Let_def)
qed

lemma Lookup_fails: "ps_List P en sid (dn_entries d) = None \<Longrightarrow> Lookup P en envs sid q ver now d = (False, d)"
  by (simp add: Lookup_def)

text \<open>The lazy expiry removes expired entries only.\<close>

lemma Lookup_keeps:
  assumes "inv (dn_entries d)" "Lookup P en envs sid q ver now d = (b, d')"
  shows "inv (dn_entries d')" "dn_rejections d' = dn_rejections d" "dn_ttl d' = dn_ttl d"
    "filter (\<lambda>e. \<not> expiredBy now (dn_ttl d) e) (ents (dn_entries d') k) =
     filter (\<lambda>e. \<not> expiredBy now (dn_ttl d) e) (ents (dn_entries d) k)"
proof -
  have *: "inv (dn_entries d') \<and> dn_rejections d' = dn_rejections d \<and> dn_ttl d' = dn_ttl d \<and>
    filter (\<lambda>e. \<not> expiredBy now (dn_ttl d) e) (ents (dn_entries d') k) =
    filter (\<lambda>e. \<not> expiredBy now (dn_ttl d) e) (ents (dn_entries d) k)"
  proof (cases "ps_List P en sid (dn_entries d)")
    case None
    then show ?thesis using assms by (simp add: Lookup_def)
  next
    case (Some es)
    let ?old = "filter (expiredBy now (dn_ttl d)) es"
    obtain x n s' where D: "delete_all P envs sid ?old (dn_entries d) = (x, n, s')" by (rule prod_cases3)
    have d': "d' = d\<lparr>dn_entries := s'\<rparr>" using assms(2) Some D by (auto simp: Lookup_def Let_def)
    have es: "set es = set (ents (dn_entries d) sid)" using list_ok [OF assms(1) Some] by simp
    have u: "inj_on entry_key (set (ents (dn_entries d) sid))" using unique [OF assms(1)] by (simp add: distinct_map)
    have keep: "entry_key e \<notin> entry_key ` set (take n ?old)"
      if "e \<in> set (ents (dn_entries d) sid)" "\<not> expiredBy now (dn_ttl d) e" for e
    proof
      assume "entry_key e \<in> entry_key ` set (take n ?old)"
      then obtain o' where o: "o' \<in> set ?old" "entry_key e = entry_key o'" using set_take_subset by fastforce
      then have "e = o'" using u that(1) es by (auto dest: inj_onD)
      then show False using o(1) that(2) by simp
    qed
    have "filter (\<lambda>e. \<not> expiredBy now (dn_ttl d) e) (filter (\<lambda>e. entry_key e \<notin> entry_key ` set (take n ?old)) (ents (dn_entries d) sid)) =
        filter (\<lambda>e. \<not> expiredBy now (dn_ttl d) e) (ents (dn_entries d) sid)"
      unfolding filter_filter by (rule filter_cong) (use keep in auto)
    then show ?thesis using delete_all_ok [OF assms(1) D] d' by simp
  qed
  then show "inv (dn_entries d')" "dn_rejections d' = dn_rejections d" "dn_ttl d' = dn_ttl d"
    "filter (\<lambda>e. \<not> expiredBy now (dn_ttl d) e) (ents (dn_entries d') k) =
     filter (\<lambda>e. \<not> expiredBy now (dn_ttl d) e) (ents (dn_entries d) k)" by auto
qed

text \<open>After an invalidation only entries of the current version are left for the slice.\<close>

lemma Cascade_ok:
  assumes "inv s" "CascadeInvalidate P en envs sid want s = (False, n, s')"
  shows "inv s'" "ents s' = (ents s)(sid := filter (\<lambda>e. pe_ContentVersion e = want) (ents s sid))"
    "n = length (filter (\<lambda>e. pe_ContentVersion e \<noteq> want) (ents s sid))"
proof -
  obtain es where es: "ps_List P en sid s = Some es"
    using assms(2) by (auto simp: CascadeInvalidate_def split: option.splits)
  let ?old = "filter (\<lambda>e. pe_ContentVersion e \<noteq> want) es"
  have D: "delete_all P envs sid ?old s = (False, n, s')" using assms(2) es by (simp add: CascadeInvalidate_def)
  note * = delete_all_ok [OF assms(1) D]
  have l: "es = newest_last (ents s sid)" using list_ok [OF assms(1) es] .
  then have m: "mset es = mset (ents s sid)" by (simp add: newest_last_def)
  show "inv s'" using * by simp
  have "entry_key e \<notin> entry_key ` set ?old \<longleftrightarrow> pe_ContentVersion e = want" if "e \<in> set (ents s sid)" for e
    using that l by (auto simp: entry_key_def image_iff)
  then show "ents s' = (ents s)(sid := filter (\<lambda>e. pe_ContentVersion e = want) (ents s sid))"
    using * by (auto cong: filter_cong)
  have "n = size (filter_mset (\<lambda>e. pe_ContentVersion e \<noteq> want) (mset es))" using * by (metis mset_filter size_mset)
  then show "n = length (filter (\<lambda>e. pe_ContentVersion e \<noteq> want) (ents s sid))" by (metis m mset_filter size_mset)
qed

end

section \<open>Both entry stores meet it\<close>

definition pmem_inv :: "MemStore \<Rightarrow> bool" where
  "pmem_inv m \<longleftrightarrow> wf_map m \<and> (\<forall>sid. distinct (map entry_key (m_get_or [] m sid)))"

lemma remove_first_unique:
  "distinct (map f xs) \<Longrightarrow> remove_first (\<lambda>x. f x = k) xs = filter (\<lambda>x. f x \<noteq> k) xs"
proof (induction xs)
  case (Cons a xs)
  then have "f a \<notin> f ` set xs" by simp
  then have "filter (\<lambda>x. f x \<noteq> f a) xs = xs" by (intro filter_True) (metis image_eqI)
  then show ?case using Cons by auto
qed simp

lemma key_pred: "(\<lambda>e. pe_ContentVersion e = ver \<and> pe_Query e = q) = (\<lambda>e. entry_key e = (ver, q))"
  by (auto simp: entry_key_def)

interpretation memory: promote_store mem_store pmem_inv "m_get_or []"
proof
  fix s s' :: MemStore and en e sid ver q es
  assume i: "pmem_inv s"
  show "ps_Put mem_store en e s = (False, s') \<Longrightarrow> pmem_inv s' \<and> m_get_or [] s' = (m_get_or [] s)(pe_SourceSliceID e :=
      if \<exists>x\<in>set (m_get_or [] s (pe_SourceSliceID e)). same_key x e then m_get_or [] s (pe_SourceSliceID e)
      else m_get_or [] s (pe_SourceSliceID e) @ [e])"
    using i by (auto simp: mem_store_def MemStore_Put_def Let_def pmem_inv_def list_ex_iff same_key_iff fun_eq_iff
        split: if_splits) metis+
  show "ps_Put mem_store en e s = (True, s') \<Longrightarrow> pmem_inv s' \<and> m_get_or [] s' = m_get_or [] s"
    by (auto simp: mem_store_def MemStore_Put_def Let_def split: if_splits)
  show "ps_List mem_store en sid s = Some es \<Longrightarrow> es = newest_last (m_get_or [] s sid)"
    by (auto simp: mem_store_def MemStore_List_def)
  show "ps_Delete mem_store en sid ver q s = (False, s') \<Longrightarrow> pmem_inv s' \<and>
      m_get_or [] s' = (m_get_or [] s)(sid := filter (\<lambda>e. entry_key e \<noteq> (ver, q)) (m_get_or [] s sid))"
    using i by (auto simp: mem_store_def MemStore_Delete_def Let_def pmem_inv_def key_pred remove_first_unique
        list_ex_iff fun_eq_iff distinct_map_filter filter_True split: if_splits)
  show "ps_Delete mem_store en sid ver q s = (True, s') \<Longrightarrow> pmem_inv s' \<and> m_get_or [] s' = m_get_or [] s"
    by (auto simp: mem_store_def MemStore_Delete_def Let_def split: if_splits)
  show "distinct (map entry_key (m_get_or [] s sid))" using i by (simp add: pmem_inv_def)
qed

fun goods :: "'a fline list \<Rightarrow> 'a list" where
  "goods [] = []"
| "goods (Good x _ # ls) = x # goods ls"
| "goods (_ # ls) = goods ls"

lemma scan_lines_goods: "scan_lines cap f = Some xs \<Longrightarrow> xs = goods f"
  by (induction f arbitrary: xs) (auto split: if_splits option.splits fline.splits)

lemma scan_lines_ok: "\<forall>l\<in>set f. line_len l \<le> cap \<Longrightarrow> scan_lines cap f = Some (goods f)"
proof (induction f)
  case (Cons l f)
  then show ?case by (cases l) auto
qed simp

lemma goods_map [simp]: "goods (map (\<lambda>x. Good x (n x)) xs) = xs"
  by (induction xs) auto

definition file_ents :: "Entry fline list \<Rightarrow> string \<Rightarrow> Entry list" where
  "file_ents f sid = filter (\<lambda>e. pe_SourceSliceID e = sid) (goods f)"

definition file_inv :: "Entry fline list \<Rightarrow> bool" where
  "file_inv f \<longleftrightarrow> (\<forall>sid. distinct (map entry_key (file_ents f sid)))"

lemma readAll_goods: "readAll pv f = Some all \<Longrightarrow> all = goods f"
  by (auto simp: readAll_def scan_lines_goods split: if_splits)

lemma writeAll_ok: "writeAll pv es f = (False, f') \<Longrightarrow> file_ents f' sid = filter (\<lambda>e. pe_SourceSliceID e = sid) es"
  by (auto simp: writeAll_def file_ents_def split: if_splits)

lemma writeAll_err: "writeAll pv es f = (True, f') \<Longrightarrow> f' = f"
  by (auto simp: writeAll_def split: if_splits)

interpretation disk: promote_store file_store file_inv file_ents
proof
  fix s s' :: "Entry fline list" and en e sid ver q es
  assume i: "file_inv s"
  show "ps_Put file_store en e s = (True, s') \<Longrightarrow> file_inv s' \<and> file_ents s' = file_ents s"
    using i by (auto simp: file_store_def pfile_Put_def split: option.splits if_splits dest: writeAll_err)
  show "ps_Delete file_store en sid ver q s = (True, s') \<Longrightarrow> file_inv s' \<and> file_ents s' = file_ents s"
    using i by (auto simp: file_store_def pfile_Delete_def split: option.splits if_splits dest: writeAll_err)
  show "ps_List file_store en sid s = Some es \<Longrightarrow> es = newest_last (file_ents s sid)"
    by (auto simp: file_store_def pfile_List_def file_ents_def split: option.splits dest: readAll_goods)
  show "distinct (map entry_key (file_ents s sid))" using i by (simp add: file_inv_def)
  show "file_inv s' \<and> file_ents s' = (file_ents s)(sid := filter (\<lambda>e. entry_key e \<noteq> (ver, q)) (file_ents s sid))"
    if p: "ps_Delete file_store en sid ver q s = (False, s')"
  proof -
    obtain all where "readAll en s = Some all"
      and w: "writeAll en (filter (\<lambda>e. \<not> (pe_SourceSliceID e = sid \<and> pe_ContentVersion e = ver \<and> pe_Query e = q)) all) s = (False, s')"
      using p by (cases "readAll en s") (simp_all add: file_store_def pfile_Delete_def)
    then have "file_ents s' = (file_ents s)(sid := filter (\<lambda>e. entry_key e \<noteq> (ver, q)) (file_ents s sid))"
      using writeAll_ok [OF w] readAll_goods
      by (auto simp: fun_eq_iff file_ents_def entry_key_def intro!: filter_cong)
    then show ?thesis using i by (auto simp: file_inv_def distinct_map_filter)
  qed
  show "file_inv s' \<and> file_ents s' = (file_ents s)(pe_SourceSliceID e :=
      if \<exists>x\<in>set (file_ents s (pe_SourceSliceID e)). same_key x e then file_ents s (pe_SourceSliceID e)
      else file_ents s (pe_SourceSliceID e) @ [e])"
    if p: "ps_Put file_store en e s = (False, s')"
  proof -
    obtain all where all: "readAll en s = Some all" "all = goods s"
      using p readAll_goods [of en s] by (cases "readAll en s") (simp_all add: file_store_def pfile_Put_def)
    show ?thesis
    proof (cases "\<exists>x\<in>set (file_ents s (pe_SourceSliceID e)). same_key x e")
      case True
      then have "s' = s" using p all by (auto simp: file_store_def pfile_Put_def list_ex_iff file_ents_def split: if_splits)
      then show ?thesis using i True by auto
    next
      case False
      then have w: "writeAll en (all @ [e]) s = (False, s')"
        using p all by (auto simp: file_store_def pfile_Put_def list_ex_iff file_ents_def split: if_splits)
      have "file_ents s' = (file_ents s)(pe_SourceSliceID e := file_ents s (pe_SourceSliceID e) @ [e])"
        using writeAll_ok [OF w] all(2) by (auto simp: fun_eq_iff file_ents_def)
      then show ?thesis using i False by (auto simp: file_inv_def same_key_iff)
    qed
  qed
qed

section \<open>The rejection store contract\<close>

locale rejection_store =
  fixes R :: "('r, 'f) RStore" and rej :: "'r \<Rightarrow> Rejection list"
  assumes add_ok: "rs_Add R fn r s = (False, s') \<Longrightarrow> mset (rej s') = add_mset r (mset (rej s))"
    and add_err: "rs_Add R fn r s = (True, s') \<Longrightarrow> rej s' = rej s"
    and count_ok: "rs_Count R fn sid q now ttl s = (Some n, s') \<Longrightarrow>
        n = length (filter (\<lambda>r. rj_SourceSliceID r = sid \<and> rj_Query r = q \<and> \<not> rj_expired now ttl r) (rej s)) \<and>
        mset (rej s') = mset (filter (\<lambda>r. \<not> rj_expired now ttl r) (rej s))"
    and count_err: "rs_Count R fn sid q now ttl s = (None, s') \<Longrightarrow> rej s' = rej s"
begin

abbreviation lessons :: "string \<Rightarrow> string \<Rightarrow> int \<Rightarrow> int \<Rightarrow> 'r \<Rightarrow> nat" where
  "lessons sid q now ttl s \<equiv>
     length (filter (\<lambda>r. rj_SourceSliceID r = sid \<and> rj_Query r = q \<and> \<not> rj_expired now ttl r) (rej s))"

text \<open>A pair with enough lessons inside the window is refused, and the entries stay as they are.\<close>

lemma Promote_blacklisted:
  assumes "0 < dn_rejectLimit d" "dn_rejectLimit d \<le> int (lessons (pe_SourceSliceID e) (pe_Query e) (pe_PromotedAt e) (dn_ttl d) (dn_rejections d))"
    "fst (rs_Count R fn (pe_SourceSliceID e) (pe_Query e) (pe_PromotedAt e) (dn_ttl d) (dn_rejections d)) \<noteq> None"
    "Promote P R en fn e d = (x, d')"
  shows "x = Some ErrBlacklisted \<and> dn_entries d' = dn_entries d"
proof -
  obtain n r where c: "rs_Count R fn (pe_SourceSliceID e) (pe_Query e) (pe_PromotedAt e) (dn_ttl d) (dn_rejections d) = (Some n, r)"
    using assms(3) by (metis not_None_eq prod.collapse)
  then show ?thesis using assms count_ok [OF c] by (auto simp: Promote_def Blacklisted_def split: prod.splits)
qed

lemma Promote_allowed:
  assumes "int (lessons (pe_SourceSliceID e) (pe_Query e) (pe_PromotedAt e) (dn_ttl d) (dn_rejections d)) < dn_rejectLimit d \<or> dn_rejectLimit d \<le> 0"
    "Promote P R en fn e d = (x, d')"
  shows "x \<noteq> Some ErrBlacklisted \<and> dn_entries d' = snd (ps_Put P en e (dn_entries d))"
proof (cases "dn_rejectLimit d \<le> 0")
  case True
  then show ?thesis using assms(2) by (auto simp: Promote_def Blacklisted_def split: prod.splits if_splits)
next
  case False
  obtain on r where c: "rs_Count R fn (pe_SourceSliceID e) (pe_Query e) (pe_PromotedAt e) (dn_ttl d) (dn_rejections d) = (on, r)"
    by fastforce
  then show ?thesis using assms False count_ok
    by (cases on) (fastforce simp: Promote_def Blacklisted_def split: prod.splits if_splits)+
qed

end

interpretation rmemory: rejection_store mem_rejections "\<lambda>s. s"
  by unfold_locales (auto simp: mem_rejections_def MemRejection_Add_def MemRejection_Count_def)

lemma rj_readAll_goods: "rj_readAll rv f = Some all \<Longrightarrow> all = goods f"
  by (auto simp: rj_readAll_def scan_lines_goods split: if_splits)

lemma rj_writeAll_goods:
  "rj_writeAll rv rs f = (x, f') \<Longrightarrow> (if x then f' = f else mset (goods f') = mset rs)"
  by (auto simp: rj_writeAll_def split: if_splits)

interpretation rdisk: rejection_store file_rejections goods
proof
  fix s s' :: "Rejection fline list" and fn r sid q now ttl n
  show "rs_Add file_rejections fn r s = (False, s') \<Longrightarrow> mset (goods s') = add_mset r (mset (goods s))"
    and "rs_Add file_rejections fn r s = (True, s') \<Longrightarrow> goods s' = goods s"
    by (auto simp: file_rejections_def rfile_Add_def split: option.splits dest!: rj_readAll_goods rj_writeAll_goods)
  show "rs_Count file_rejections fn sid q now ttl s = (None, s') \<Longrightarrow> goods s' = goods s"
    by (auto simp: file_rejections_def rfile_Count_def Let_def split: option.splits if_splits prod.splits bool.splits
        dest!: rj_writeAll_goods)
  assume c: "rs_Count file_rejections fn sid q now ttl s = (Some n, s')"
  then obtain all where a: "rj_readAll fn s = Some all" "all = goods s"
    using rj_readAll_goods by (cases "rj_readAll fn s") (auto simp: file_rejections_def rfile_Count_def)
  let ?kept = "filter (\<lambda>r. \<not> rj_expired now ttl r) all"
  show "n = length (filter (\<lambda>r. rj_SourceSliceID r = sid \<and> rj_Query r = q \<and> \<not> rj_expired now ttl r) (goods s)) \<and>
      mset (goods s') = mset (filter (\<lambda>r. \<not> rj_expired now ttl r) (goods s))"
  proof (cases "length ?kept = length all")
    case True
    then have "?kept = all" by (metis filter_True length_filter_less less_irrefl)
    then show ?thesis using c a True by (auto simp: file_rejections_def rfile_Count_def Let_def)
  next
    case False
    obtain x f' where w: "rj_writeAll fn ?kept s = (x, f')" by fastforce
    show ?thesis using c a False w rj_writeAll_goods [OF w]
      by (cases x) (simp_all add: file_rejections_def rfile_Count_def Let_def)
  qed
qed

section \<open>What promotion promises\<close>

text \<open>
  C16. A promotion stands in for the judge only for the same question and the same content, inside its
  window. On the file store: a lookup that answers yes has an entry for exactly this query and this
  content version that has not expired; it finds every such entry when the file can be read; and its
  lazy expiry removes no entry that is still valid, for any slice.
\<close>

theorem lookup_exact:
  assumes "file_inv (dn_entries d)" "Lookup file_store en envs sid q ver now d = (b, d')"
  shows "(b \<longrightarrow> (\<exists>e\<in>set (file_ents (dn_entries d) sid). \<not> expiredBy now (dn_ttl d) e \<and> pe_Query e = q \<and> pe_ContentVersion e = ver)) \<and>
    (pfile_List en sid (dn_entries d) \<noteq> None \<and>
      (\<exists>e\<in>set (file_ents (dn_entries d) sid). \<not> expiredBy now (dn_ttl d) e \<and> pe_Query e = q \<and> pe_ContentVersion e = ver) \<longrightarrow> b) \<and>
    filter (\<lambda>e. \<not> expiredBy now (dn_ttl d) e) (file_ents (dn_entries d') k) =
      filter (\<lambda>e. \<not> expiredBy now (dn_ttl d) e) (file_ents (dn_entries d) k) \<and> file_inv (dn_entries d')"
proof (cases "pfile_List en sid (dn_entries d) = None")
  case True
  then show ?thesis using assms by (simp add: Lookup_def file_store_def)
next
  case False
  then have "ps_List file_store en sid (dn_entries d) \<noteq> None" by (simp add: file_store_def)
  from disk.Lookup_iff [OF assms(1) this assms(2)] show ?thesis using disk.Lookup_keeps(1) [OF assms] disk.Lookup_keeps(4) [OF assms, of k] by blast
qed

definition sample_entry :: Entry where
  "sample_entry = \<lparr>pe_SourceSliceID = ''s'', pe_ContentVersion = ''v1'', pe_Query = ''q'', pe_PromotedAt = 100\<rparr>"

definition sample_penv :: penv where
  "sample_penv = \<lparr>pv_read = False, pv_write = False, pv_len = (\<lambda>_. 50)\<rparr>"

definition sample_decision :: "(Entry fline list, Rejection fline list) Decision" where
  "sample_decision = \<lparr>dn_entries = [Good sample_entry 51], dn_rejections = [], dn_ttl = 60, dn_rejectLimit = 2\<rparr>"

lemma sample_inv: "file_inv (dn_entries sample_decision)"
  by (simp add: file_inv_def file_ents_def sample_decision_def)

theorem lookup_exact_witness:
  "fst (Lookup file_store sample_penv (\<lambda>_. sample_penv) ''s'' ''q'' ''v1'' 120 sample_decision) \<and>
   \<not> fst (Lookup file_store sample_penv (\<lambda>_. sample_penv) ''s'' ''q'' ''v1'' 200 sample_decision)"
proof -
  let ?L = "\<lambda>now. Lookup file_store sample_penv (\<lambda>_. sample_penv) ''s'' ''q'' ''v1'' now sample_decision"
  have l: "pfile_List sample_penv ''s'' (dn_entries sample_decision) \<noteq> None"
    by (simp add: pfile_List_def readAll_def sample_penv_def sample_decision_def entryCap_def)
  have e: "file_ents (dn_entries sample_decision) ''s'' = [sample_entry]"
    by (simp add: file_ents_def sample_decision_def sample_entry_def)
  have x: "\<not> expiredBy 120 60 sample_entry" "expiredBy 200 60 sample_entry"
    by (simp_all add: expiredBy_def sample_entry_def wrap64_def)
  have t: "dn_ttl sample_decision = 60" by (simp add: sample_decision_def)
  have k: "pe_Query sample_entry = ''q''" "pe_ContentVersion sample_entry = ''v1''" by (simp_all add: sample_entry_def)
  note L = lookup_exact [OF sample_inv prod.collapse [symmetric], of sample_penv "\<lambda>_. sample_penv" "''s''" "''q''" "''v1''"]
  show ?thesis using L [of 120] L [of 200] l e x t k by simp
qed

text \<open>
  Changing a slice retires its promotions. A completed invalidation for the current content leaves
  exactly the entries of the current version for this slice and every entry of other slices, and
  reports how many it removed.
\<close>

lemma cascade_exact:
  assumes "file_inv f" "CascadeInvalidate file_store en envs sid want f = (False, n, f')"
  shows "file_inv f' \<and> file_ents f' = (file_ents f)(sid := filter (\<lambda>e. pe_ContentVersion e = want) (file_ents f sid)) \<and>
    n = length (filter (\<lambda>e. pe_ContentVersion e \<noteq> want) (file_ents f sid))"
  using disk.Cascade_ok [OF assms] by blast

lemma cascade_exact_witness:
  "file_ents (snd (snd (CascadeInvalidate file_store sample_penv (\<lambda>_. sample_penv) ''s'' ''v2'' [Good sample_entry 51]))) ''s'' = []"
proof -
  let ?r = "CascadeInvalidate file_store sample_penv (\<lambda>_. sample_penv) ''s'' ''v2'' [Good sample_entry 51]"
  have "?r = (False, 1, snd (snd ?r))"
    by (simp add: CascadeInvalidate_def file_store_def pfile_List_def pfile_Delete_def readAll_def writeAll_def
        sample_penv_def entryCap_def newest_last_def sample_entry_def)
  from cascade_exact [OF _ this] sample_inv show ?thesis
    by (simp add: sample_decision_def file_ents_def sample_entry_def)
qed


definition sample_rejection :: "string \<Rightarrow> Rejection" where
  "sample_rejection q = \<lparr>rj_SourceSliceID = ''s'', rj_Query = q, rj_Reason = ''judge_declined'', rj_RejectedAt = 100\<rparr>"

definition sample_renv :: renv where
  "sample_renv = \<lparr>rv_read = False, rv_write = False, rv_len = (\<lambda>r. length (rj_Query r) + 60)\<rparr>"


text \<open>
  One oversized lesson switches the blacklist off. \<open>Add\<close> writes a record of any length, while reading
  stops with an error at a line over 1 MiB; from then on every count fails, a failing count means not
  blacklisted, and every further lesson is dropped. A query of a megabyte is enough.
\<close>

lemma oversized_lesson_disables_blacklist:
  assumes "rv_len fn r + 1 > rejectionCap" "\<not> rv_read fn" "\<not> rv_write fn" "rj_readAll fn f = Some all"
    and "rfile_Add fn r f = (x, f')"
  shows "x = False \<and> r \<in> set (goods f') \<and> rfile_Add fn' r' f' = (True, f') \<and>
    (dn_rejections d = f' \<longrightarrow> Blacklisted file_rejections fn' sid q now d = (False, d))"
proof -
  have f': "f' = map (\<lambda>r. Good r (rv_len fn r + 1)) (go_sort (\<lambda>a b. rj_RejectedAt a < rj_RejectedAt b) (all @ [r]))" "x = False"
    using assms by (auto simp: rfile_Add_def rj_writeAll_def)
  have "scan_lines rejectionCap (map (\<lambda>r. Good r (rv_len fn r + 1)) rs) = None" if "r \<in> set rs" for rs
    using that assms(1) by (induction rs) auto
  then have "scan_lines rejectionCap f' = None" by (simp add: f')
  then have "rj_readAll fn' f' = None" for fn' by (simp add: rj_readAll_def)
  then show ?thesis using f' by (auto simp: rfile_Add_def Blacklisted_def file_rejections_def rfile_Count_def)
qed

lemma oversized_lesson_disables_blacklist_witness:
  "rfile_Add sample_renv (sample_rejection ''q'')
     (snd (rfile_Add (sample_renv\<lparr>rv_len := (\<lambda>_. 2 ^ 20)\<rparr>) (sample_rejection ''q'') [])) =
   (True, snd (rfile_Add (sample_renv\<lparr>rv_len := (\<lambda>_. 2 ^ 20)\<rparr>) (sample_rejection ''q'') []))"
proof -
  let ?fn = "sample_renv\<lparr>rv_len := (\<lambda>_. 2 ^ 20)\<rparr>"
  obtain x f' where r: "rfile_Add ?fn (sample_rejection ''q'') [] = (x, f')" by fastforce
  have "rv_len ?fn (sample_rejection ''q'') + 1 > rejectionCap" "\<not> rv_read ?fn" "\<not> rv_write ?fn" "rj_readAll ?fn [] = Some []"
    by (simp_all add: sample_renv_def rejectionCap_def rj_readAll_def)
  from oversized_lesson_disables_blacklist [OF this r, THEN conjunct2, THEN conjunct2, THEN conjunct1] show ?thesis
    unfolding r by simp
qed

end
