(* ===== verification/Zone_Classifier.thy ===== *)
theory Zone_Classifier
  imports Slice_Types
begin

text \<open>
  The three-region classifier of \<open>kernel/zone/zone.go\<close>. The thresholds are one record; \<open>Zones\<close> adds
  the per-type overrides, which the source treats as leaf snapshots (\<open>ForType\<close> clears their own
  overrides). Scores and thresholds are IEEE doubles, so NaN and infinities take the source's branches.
\<close>

datatype Zone = ZMiss | ZGrey | ZHit

fun zone_rank :: "Zone \<Rightarrow> nat" where
  "zone_rank ZMiss = 0" | "zone_rank ZGrey = 1" | "zone_rank ZHit = 2"

instantiation Zone :: linorder
begin

definition less_eq_Zone :: "Zone \<Rightarrow> Zone \<Rightarrow> bool" where
  "less_eq_Zone a b \<longleftrightarrow> zone_rank a \<le> zone_rank b"

definition less_Zone :: "Zone \<Rightarrow> Zone \<Rightarrow> bool" where
  "less_Zone a b \<longleftrightarrow> zone_rank a < zone_rank b"

instance
proof
  fix x y z :: Zone
  show "x < y \<longleftrightarrow> x \<le> y \<and> \<not> y \<le> x" by (auto simp: less_eq_Zone_def less_Zone_def)
  show "x \<le> x" by (simp add: less_eq_Zone_def)
  show "x \<le> y \<Longrightarrow> y \<le> z \<Longrightarrow> x \<le> z" by (simp add: less_eq_Zone_def)
  show "x \<le> y \<Longrightarrow> y \<le> x \<Longrightarrow> x = y" by (cases x; cases y) (auto simp: less_eq_Zone_def)
  show "x \<le> y \<or> y \<le> x" by (auto simp: less_eq_Zone_def)
qed

end

lemmas zone_order = less_eq_Zone_def less_Zone_def

lemma ZMiss_least [simp]: "ZMiss \<le> z" by (cases z) (simp_all add: zone_order)
lemma ZHit_greatest [simp]: "z \<le> ZHit" by (cases z) (simp_all add: zone_order)

fun Zone_String :: "Zone \<Rightarrow> string" where
  "Zone_String ZHit = ''hit''" | "Zone_String ZGrey = ''grey''" | "Zone_String ZMiss = ''miss''"

record Thresholds =
  z_TauHigh :: f64
  z_TauLow :: f64
  z_AbsHigh :: f64
  z_AbsLow :: f64

record Zones = Thresholds +
  z_ByType :: "(string, Thresholds) gomap"

definition ForType :: "Zones \<Rightarrow> string \<Rightarrow> Thresholds" where
  "ForType z typeName =
     (case m_get (z_ByType z) typeName of Some o' \<Rightarrow> o' | None \<Rightarrow> Thresholds.truncate z)"

definition Default :: Zones where
  "Default = \<lparr>z_TauHigh = r64 (4/5), z_TauLow = r64 (55/100), z_AbsHigh = r64 (7/10), z_AbsLow = r64 (45/100),
     z_ByType = []\<rparr>"

text \<open>The guard the classifiers share: NaN, infinite, zero and negative inputs.\<close>

definition bad_score :: "f64 \<Rightarrow> bool" where
  "bad_score x \<longleftrightarrow> is_nan x \<or> is_inf x \<or> fle x f0"

definition Classify :: "Thresholds \<Rightarrow> f64 \<Rightarrow> f64 \<Rightarrow> Zone" where
  "Classify z score top1 =
     (if bad_score score \<or> bad_score top1 then ZMiss
      else if flt top1 (z_AbsLow z) then ZMiss
      else if fle (z_TauHigh z) (fdiv score top1) \<and> fle (z_AbsHigh z) top1 then ZHit
      else if fle (z_TauLow z) (fdiv score top1) \<and> fle (z_AbsLow z) top1 then ZGrey
      else ZMiss)"

definition ClassifyHit :: "Thresholds \<Rightarrow> Hit \<Rightarrow> f64 \<Rightarrow> Zone" where
  "ClassifyHit z hit top1 =
     (let verdict = Classify z (h_Score hit) top1; coverage = h_QueryCoverage hit in
      if \<not> h_QueryCoverageValid hit \<or> (feq (z_AbsHigh z) f0 \<and> feq (z_AbsLow z) f0) then verdict
      else if is_nan coverage \<or> is_inf coverage \<or> fle coverage f0 \<or> flt f1 coverage then ZMiss
      else if flt coverage (z_TauLow z) then ZMiss
      else if flt coverage (z_TauHigh z) \<and> verdict = ZHit then ZGrey
      else verdict)"

definition ClassifyL3 :: "Thresholds \<Rightarrow> f64 \<Rightarrow> f64 \<Rightarrow> f64 \<Rightarrow> Zone" where
  "ClassifyL3 z score resultTop1 globalTop1 =
     (if bad_score score \<or> bad_score resultTop1 \<or> bad_score globalTop1 then ZMiss
      else if flt globalTop1 (z_AbsLow z) then ZMiss
      else if fle (z_TauHigh z) (fdiv score resultTop1) \<and> fle (z_AbsLow z) (fdiv score globalTop1) \<and>
              fle (z_AbsHigh z) globalTop1 then ZHit
      else if fle (z_TauLow z) (fdiv score resultTop1) \<and> fle (z_AbsLow z) (fdiv score globalTop1) \<and>
              fle (z_AbsLow z) globalTop1 then ZGrey
      else ZMiss)"

section \<open>Monotonicity\<close>

lemma good_score: "\<not> bad_score x \<longleftrightarrow> (\<exists>q. x = Fin q \<and> 0 < q)"
  by (cases x) (auto simp: bad_score_def)

lemma ratio_mono: "\<not> bad_score s \<Longrightarrow> fle s s' \<Longrightarrow> \<not> bad_score s' \<Longrightarrow> \<not> bad_score t \<Longrightarrow> fle (fdiv s t) (fdiv s' t)"
  by (auto simp: good_score intro!: r64.quotient_mono)

lemma bad_score_mono: "\<not> bad_score s \<Longrightarrow> fle s s' \<Longrightarrow> is_fin s' \<Longrightarrow> \<not> bad_score s'"
  by (auto simp: good_score is_fin_iff)

lemma Classify_mono:
  assumes "fle s s'" "is_fin s'" "fle (z_TauLow z) (z_TauHigh z)"
  shows "Classify z s t \<le> Classify z s' t"
proof (cases "bad_score s \<or> bad_score t")
  case True
  then show ?thesis by (simp add: Classify_def)
next
  case False
  then have g: "\<not> bad_score s'" using bad_score_mono assms by blast
  have r: "fle (fdiv s t) (fdiv s' t)" using ratio_mono False g assms(1) by blast
  show ?thesis using False g fle_trans [OF _ r] by (auto simp: Classify_def zone_order)
qed

lemma ClassifyL3_mono:
  assumes "fle s s'" "is_fin s'"
  shows "ClassifyL3 z s rt gt \<le> ClassifyL3 z s' rt gt"
proof (cases "bad_score s \<or> bad_score rt \<or> bad_score gt")
  case True
  then show ?thesis by (simp add: ClassifyL3_def)
next
  case False
  then have g: "\<not> bad_score s'" using bad_score_mono assms by blast
  have r: "fle (fdiv s rt) (fdiv s' rt)" "fle (fdiv s gt) (fdiv s' gt)" using ratio_mono False g assms(1) by blast+
  show ?thesis using False g fle_trans [OF _ r(1)] fle_trans [OF _ r(2)] by (auto simp: ClassifyL3_def zone_order)
qed

text \<open>
  C21. The classifiers are monotone and fail safe. A better score never moves a candidate to a more
  conservative zone; token coverage can only make a verdict more conservative; a NaN, an infinity, a zero or a negative score
  or anchor is always a miss; and a direct hit at the reuse gate certifies prominence among the
  results, relevance to the whole batch and the absolute floor.
\<close>

theorem classifiers_monotone_and_safe:
  assumes "fle s s'" "is_fin s'" "fle (z_TauLow z) (z_TauHigh z)"
  shows "Classify z s t \<le> Classify z s' t \<and> ClassifyL3 z s rt gt \<le> ClassifyL3 z s' rt gt \<and>
    ClassifyHit z h t \<le> Classify z (h_Score h) t \<and>
    (bad_score s \<or> bad_score t \<longrightarrow> Classify z s t = ZMiss) \<and>
    (bad_score s \<or> bad_score rt \<or> bad_score gt \<longrightarrow> ClassifyL3 z s rt gt = ZMiss) \<and>
    (ClassifyL3 z s rt gt = ZHit \<longrightarrow> fle (z_TauHigh z) (fdiv s rt) \<and> fle (z_AbsLow z) (fdiv s gt) \<and> fle (z_AbsHigh z) gt)"
proof -
  have "ClassifyHit z h t \<le> Classify z (h_Score h) t"
    by (auto simp: ClassifyHit_def Let_def zone_order)
  moreover have "bad_score s \<or> bad_score t \<longrightarrow> Classify z s t = ZMiss"
    "bad_score s \<or> bad_score rt \<or> bad_score gt \<longrightarrow> ClassifyL3 z s rt gt = ZMiss"
    by (simp_all add: Classify_def ClassifyL3_def)
  moreover have "ClassifyL3 z s rt gt = ZHit \<longrightarrow> fle (z_TauHigh z) (fdiv s rt) \<and> fle (z_AbsLow z) (fdiv s gt) \<and> fle (z_AbsHigh z) gt"
    by (auto simp: ClassifyL3_def split: if_splits)
  ultimately show ?thesis using Classify_mono [OF assms] ClassifyL3_mono [OF assms(1,2)] by blast
qed

theorem classifiers_monotone_and_safe_witness:
  "ClassifyL3 (ForType Default ''result'') (Fin 5) (Fin 10) (Fin 10) = ZMiss \<and>
   ClassifyL3 (ForType Default ''result'') (Fin 6) (Fin 10) (Fin 10) = ZGrey \<and>
   ClassifyL3 (ForType Default ''result'') (Fin 5) (Fin 10) (Fin 10) \<le> ClassifyL3 (ForType Default ''result'') (Fin 6) (Fin 10) (Fin 10)"
proof -
  have v: "ClassifyL3 (ForType Default ''result'') (Fin 5) (Fin 10) (Fin 10) = ZMiss"
    "ClassifyL3 (ForType Default ''result'') (Fin 6) (Fin 10) (Fin 10) = ZGrey" by code_simp+
  have "fle (z_TauLow (ForType Default ''result'')) (z_TauHigh (ForType Default ''result''))" by code_simp
  from classifiers_monotone_and_safe [OF _ _ this, of "Fin 5" "Fin 6"] v show ?thesis by simp
qed

end
