(* ===== verification/Judge.thy ===== *)
theory Judge
  imports Zone_Classifier
begin

text \<open>
  Verification before reuse: the dependency fingerprints of \<open>kernel/fingerprint/fingerprint.go\<close>, the
  rule gate of \<open>kernel/judge/judge.go\<close> and the verdict cache of \<open>kernel/judge/cache.go\<close>.

  The file system below the dependency root is an argument, a map from relative paths to what
  \<open>Lstat\<close> and \<open>Open\<close> find there; the hash (SHA-256 in hexadecimal) is an argument too, since nothing
  here depends on which function it is. A judge is a function from candidates to a verdict, \<open>None\<close>
  when the call fails.
\<close>

section \<open>Dependency fingerprints\<close>

record fileinfo =
  fi_symlink :: bool
  fi_mtime :: int
  fi_content :: "string option"

type_synonym filesystem = "string \<Rightarrow> fileinfo option"
type_synonym hashfun = "string \<Rightarrow> string"

text \<open>
  \<open>filepath.IsLocal\<close> on a Unix path: not empty, not absolute, and no prefix climbs above the start.
\<close>

definition slash :: char where "slash = CHR ''/''"

fun split_path :: "string \<Rightarrow> string list" where
  "split_path [] = [[]]"
| "split_path (c # cs) =
     (case split_path cs of [] \<Rightarrow> [[c]] | p # ps \<Rightarrow> if c = slash then [] # p # ps else (c # p) # ps)"

fun never_above :: "nat \<Rightarrow> string list \<Rightarrow> bool" where
  "never_above d [] = True"
| "never_above d (p # ps) =
     (if p = [] \<or> p = ''.'' then never_above d ps
      else if p = ''..'' then (case d of 0 \<Rightarrow> False | Suc d' \<Rightarrow> never_above d' ps)
      else never_above (Suc d) ps)"

definition IsLocal :: "string \<Rightarrow> bool" where
  "IsLocal p \<longleftrightarrow> p \<noteq> [] \<and> hd p \<noteq> slash \<and> never_above 0 (split_path p)"

text \<open>\<open>os.Open\<close> and a full read; \<open>None\<close> when the file is missing or cannot be read.\<close>

definition read_file :: "filesystem \<Rightarrow> string \<Rightarrow> string option" where
  "read_file fs p = (case fs p of None \<Rightarrow> None | Some fi \<Rightarrow> fi_content fi)"

fun Capture_loop :: "hashfun \<Rightarrow> filesystem \<Rightarrow> string list \<Rightarrow> Deps \<Rightarrow> Deps option" where
  "Capture_loop hash fs [] out = Some out"
| "Capture_loop hash fs (p # ps) out =
     (if \<not> IsLocal p then None
      else case read_file fs p of None \<Rightarrow> None
        | Some c \<Rightarrow> Capture_loop hash fs ps (m_set p (hash c) out))"

definition Capture :: "hashfun \<Rightarrow> filesystem \<Rightarrow> string list \<Rightarrow> Deps option" where
  "Capture hash fs paths = Capture_loop hash fs paths []"

text \<open>\<open>Verify\<close> never returns an error: the list of changed paths, in iteration order.\<close>

definition dep_changed :: "hashfun \<Rightarrow> filesystem \<Rightarrow> string \<times> string \<Rightarrow> bool" where
  "dep_changed hash fs = (\<lambda>(p, want).
     if \<not> IsLocal p then True
     else case Capture hash fs [p] of None \<Rightarrow> True | Some got \<Rightarrow> m_get_or [] got p \<noteq> want)"

definition Verify :: "hashfun \<Rightarrow> filesystem \<Rightarrow> Deps \<Rightarrow> string list" where
  "Verify hash fs deps = map fst (filter (dep_changed hash fs) deps)"

section \<open>The rule gate\<close>

datatype Verdict = Reject | Confirm | NeedJudge

record Candidate =
  c_Query :: string
  c_SliceID :: string
  c_Content :: string
  c_Scope :: Scope
  c_Type :: SliceType
  c_Zone :: Zone
  c_Deps :: Deps

type_synonym judgefun = "Candidate \<Rightarrow> bool option"

record Stats =
  s_Confirmed :: int
  s_RulesReject :: int
  s_Fingerprint :: int
  s_JudgeReject :: int
  s_JudgeError :: int
  s_JudgeApproved :: int
  s_NeedJudge :: int

definition no_stats :: Stats where
  "no_stats = \<lparr>s_Confirmed = 0, s_RulesReject = 0, s_Fingerprint = 0, s_JudgeReject = 0, s_JudgeError = 0,
     s_JudgeApproved = 0, s_NeedJudge = 0\<rparr>"

text \<open>\<open>Check\<close> and \<open>Chain\<close> of a gate whose statistics are collected; \<open>None\<close> is the nil judge.\<close>

definition Check :: "judgefun option \<Rightarrow> Candidate \<Rightarrow> Stats \<Rightarrow> Verdict \<times> Stats" where
  "Check jd c st =
     (case c_Zone c of
        ZHit \<Rightarrow> (Confirm, st\<lparr>s_Confirmed := s_Confirmed st + 1\<rparr>)
      | ZMiss \<Rightarrow> (Reject, st\<lparr>s_RulesReject := s_RulesReject st + 1\<rparr>)
      | ZGrey \<Rightarrow> (if jd \<noteq> None then (NeedJudge, st\<lparr>s_NeedJudge := s_NeedJudge st + 1\<rparr>)
                  else (Reject, st\<lparr>s_RulesReject := s_RulesReject st + 1\<rparr>)))"

text \<open>The flag of the result is the returned error, which only a failing judge call gives.\<close>

definition Chain ::
  "hashfun \<Rightarrow> filesystem \<Rightarrow> judgefun option \<Rightarrow> Candidate \<Rightarrow> Stats \<Rightarrow> (Verdict \<times> bool) \<times> Stats" where
  "Chain hash fs jd c st =
     (if c_Deps c \<noteq> [] \<and> Verify hash fs (c_Deps c) \<noteq> [] then
        ((Reject, False), st\<lparr>s_Fingerprint := s_Fingerprint st + 1\<rparr>)
      else case Check jd c st of (v, st1) \<Rightarrow>
        if v \<noteq> NeedJudge then ((v, False), st1)
        else case jd of None \<Rightarrow> ((v, False), st1)
          | Some j \<Rightarrow>
              (case j c of
                 None \<Rightarrow> ((Reject, True), st1\<lparr>s_JudgeError := s_JudgeError st1 + 1\<rparr>)
               | Some True \<Rightarrow> ((Confirm, False), st1\<lparr>s_Confirmed := s_Confirmed st1 + 1,
                                                  s_JudgeApproved := s_JudgeApproved st1 + 1\<rparr>)
               | Some False \<Rightarrow> ((Reject, False), st1\<lparr>s_JudgeReject := s_JudgeReject st1 + 1\<rparr>)))"

section \<open>The verdict cache\<close>

text \<open>Times are nanoseconds since the epoch, as far as \<open>time.Time\<close> is used here.\<close>

definition verdictTTL :: int where "verdictTTL = 24 * 3600 * 10 ^ 9"
definition cacheCap :: nat where "cacheCap = 4096"

record verdictEntry =
  ve_confirm :: bool
  ve_expires :: int

type_synonym VerdictCache = "(string, verdictEntry) gomap"

definition VerdictKey :: "hashfun \<Rightarrow> string \<Rightarrow> string \<Rightarrow> string" where
  "VerdictKey hash query sliceID = take 32 (hash (query @ [CHR 0x00] @ sliceID))"

definition VC_Get :: "int \<Rightarrow> string \<Rightarrow> VerdictCache \<Rightarrow> bool option \<times> VerdictCache" where
  "VC_Get now key c =
     (case m_get c key of None \<Rightarrow> (None, c)
      | Some e \<Rightarrow> if now > ve_expires e then (None, m_del key c) else (Some (ve_confirm e), c))"

definition VC_Set :: "int \<Rightarrow> string \<Rightarrow> bool \<Rightarrow> VerdictCache \<Rightarrow> VerdictCache" where
  "VC_Set now key confirm c =
     (let c1 = (if length c \<ge> cacheCap then filter (\<lambda>(k, e). \<not> now > ve_expires e) c else c)
      in if length c1 \<ge> cacheCap then c1
         else m_set key \<lparr>ve_confirm = confirm, ve_expires = now + verdictTTL\<rparr> c1)"

record CachedJudge =
  cj_Cache :: VerdictCache
  cj_Warm :: bool
  cj_inflight :: "string list"

text \<open>
  \<open>confirm\<close> with its namespace: \<open>''p''\<close> for the primary rubric, \<open>''s''\<close> for the rephrased one. \<open>variant\<close>
  is the inner judge's second rubric when it has one. A failing call starts a background retry,
  whose bookkeeping is the \<open>inflight\<close> set.
\<close>

definition cached_confirm ::
  "hashfun \<Rightarrow> judgefun \<Rightarrow> judgefun option \<Rightarrow> int \<Rightarrow> bool \<Rightarrow> Candidate \<Rightarrow> CachedJudge \<Rightarrow> bool option \<times> CachedJudge" where
  "cached_confirm hash inner variant now secondary cand j =
     (let key = (if secondary then ''s'' else ''p'') @ VerdictKey hash (c_Query cand) (c_SliceID cand) in
      case VC_Get now key (cj_Cache j) of
        (Some b, c) \<Rightarrow> (Some b, j\<lparr>cj_Cache := c\<rparr>)
      | (None, c) \<Rightarrow>
          let ans = (if secondary then (case variant of Some v \<Rightarrow> v cand | None \<Rightarrow> inner cand) else inner cand) in
          (case ans of
             None \<Rightarrow> (None, j\<lparr>cj_Cache := c,
                 cj_inflight := (if cj_Warm j \<and> key \<notin> set (cj_inflight j) then key # cj_inflight j else cj_inflight j)\<rparr>)
           | Some b \<Rightarrow> (Some b, j\<lparr>cj_Cache := VC_Set now key b c\<rparr>)))"

text \<open>The background retry, when it ends: its answer is cached, an error is not, and the mark is taken back.\<close>

definition warm_done :: "int \<Rightarrow> string \<Rightarrow> bool option \<Rightarrow> CachedJudge \<Rightarrow> CachedJudge" where
  "warm_done now key ans j =
     (let j1 = (case ans of None \<Rightarrow> j | Some b \<Rightarrow> j\<lparr>cj_Cache := VC_Set now key b (cj_Cache j)\<rparr>)
      in j1\<lparr>cj_inflight := removeAll key (cj_inflight j1)\<rparr>)"

section \<open>Facts\<close>

lemma Capture_single: "IsLocal p \<Longrightarrow> Capture hash fs [p] = map_option (\<lambda>c. [(p, hash c)]) (read_file fs p)"
  by (simp add: Capture_def split: option.splits)

definition dep_fits :: "hashfun \<Rightarrow> filesystem \<Rightarrow> string \<times> string \<Rightarrow> bool" where
  "dep_fits hash fs d \<longleftrightarrow> IsLocal (fst d) \<and> (\<exists>c. read_file fs (fst d) = Some c \<and> hash c = snd d)"

lemma dep_unchanged: "\<not> dep_changed hash fs d \<longleftrightarrow> dep_fits hash fs d"
  by (cases d) (auto simp: dep_changed_def dep_fits_def Capture_single m_get_or_def split: option.splits)

lemma Verify_clean: "Verify hash fs deps = [] \<longleftrightarrow> (\<forall>d\<in>set deps. dep_fits hash fs d)"
  by (auto simp: Verify_def filter_empty_conv dep_unchanged)

lemma Capture_loop_get:
  assumes "Capture_loop hash fs ps out = Some deps" "\<forall>d\<in>set out. dep_fits hash fs d"
  shows "(\<forall>d\<in>set deps. dep_fits hash fs d) \<and> set ps \<union> fst ` set out = fst ` set deps"
  using assms
proof (induction ps arbitrary: out)
  case (Cons p ps)
  have set_m_set: "set (m_set k v m) \<subseteq> insert (k, v) (set m)" for k v and m :: Deps
    by (induction m) (auto split: if_splits)
  obtain c where c: "IsLocal p" "read_file fs p = Some c" "Capture_loop hash fs ps (m_set p (hash c) out) = Some deps"
    using Cons.prems(1) by (cases "read_file fs p") (auto split: if_splits)
  have "\<forall>d\<in>set (m_set p (hash c) out). dep_fits hash fs d"
    using Cons.prems(2) c set_m_set [of p "hash c" out] by (auto simp: dep_fits_def)
  from Cons.IH [OF c(3) this] show ?case by auto
qed auto

text \<open>
  Fingerprints are exact. Dependencies captured from a file system verify clean on it, cover exactly the
  requested paths, and verify clean on another file system exactly when every captured path is still a
  readable local file with the captured hash; with a collision-free hash this means the same bytes.
\<close>

lemma fingerprint_roundtrip:
  assumes "Capture hash fs paths = Some deps"
  shows "Verify hash fs deps = [] \<and> set (keys deps) = set paths \<and>
    (Verify hash fs' deps = [] \<longleftrightarrow>
       (\<forall>d\<in>set deps. IsLocal (fst d) \<and> (\<exists>c. read_file fs' (fst d) = Some c \<and> hash c = snd d))) \<and>
    (Verify hash fs' deps = [] \<and> inj hash \<longrightarrow> (\<forall>p\<in>set paths. read_file fs' p = read_file fs p))"
proof -
  have L: "\<forall>d\<in>set deps. dep_fits hash fs d" "set paths = fst ` set deps"
    using Capture_loop_get [of hash fs paths "[]" deps] assms by (auto simp: Capture_def)
  have "read_file fs' p = read_file fs p" if v: "Verify hash fs' deps = []" "inj hash" "p \<in> set paths" for p
  proof -
    obtain d where d: "d \<in> set deps" "p = fst d" using v(3) L(2) by auto
    then have "dep_fits hash fs d" "dep_fits hash fs' d" using L(1) v(1) Verify_clean by auto
    then show ?thesis using v(2) d(2) unfolding dep_fits_def inj_def by metis
  qed
  then show ?thesis using L Verify_clean [of hash fs deps] Verify_clean [of hash fs' deps]
    by (auto simp: dep_fits_def)
qed

definition one_file :: "string \<Rightarrow> string \<Rightarrow> filesystem" where
  "one_file p c = (\<lambda>x. if x = p then Some \<lparr>fi_symlink = False, fi_mtime = 7, fi_content = Some c\<rparr> else None)"

lemma fingerprint_roundtrip_witness:
  "Verify (\<lambda>c. c) (one_file ''a/b'' ''x'') [(''a/b'', ''x'')] = [] \<and>
   Verify (\<lambda>c. c) (one_file ''a/b'' ''y'') [(''a/b'', ''x'')] = [''a/b'']"
proof -
  have c: "Capture (\<lambda>c. c) (one_file ''a/b'' ''x'') [''a/b''] = Some [(''a/b'', ''x'')]" by code_simp
  have "Verify (\<lambda>c. c) (one_file ''a/b'' ''y'') [(''a/b'', ''x'')] = [''a/b'']" by code_simp
  then show ?thesis using fingerprint_roundtrip [OF c] by blast
qed

section \<open>The gate and the cache\<close>

text \<open>
  C18. The gate confirms only with evidence. A confirmation means that every dependency is unchanged and that
  the zone is a hit or the judge said yes; without a judge a grey candidate is rejected; an error is
  reported only for a failing judge call, and then the verdict is a rejection. Each call counts exactly one of
  the final outcomes.
\<close>

theorem gate_fail_closed:
  assumes "Chain hash fs jd c st = ((v, err), st')"
  shows "v \<noteq> NeedJudge \<and>
    (v = Confirm \<longrightarrow> \<not> err \<and> (\<forall>d\<in>set (c_Deps c). dep_fits hash fs d) \<and>
       (c_Zone c = ZHit \<or> (c_Zone c = ZGrey \<and> (\<exists>j. jd = Some j \<and> j c = Some True)))) \<and>
    (err \<longleftrightarrow> v = Reject \<and> Verify hash fs (c_Deps c) = [] \<and> c_Zone c = ZGrey \<and> (\<exists>j. jd = Some j \<and> j c = None)) \<and>
    s_Confirmed st' + s_RulesReject st' + s_Fingerprint st' + s_JudgeReject st' + s_JudgeError st' =
    s_Confirmed st + s_RulesReject st + s_Fingerprint st + s_JudgeReject st + s_JudgeError st + 1"
proof (cases "c_Deps c \<noteq> [] \<and> Verify hash fs (c_Deps c) \<noteq> []")
  case True
  then show ?thesis using assms by (auto simp: Chain_def)
next
  case False
  then have ok: "\<forall>d\<in>set (c_Deps c). dep_fits hash fs d" "Verify hash fs (c_Deps c) = []"
    using Verify_clean [of hash fs "c_Deps c"] by auto
  show ?thesis
  proof (cases "c_Zone c")
    case ZGrey
    show ?thesis
    proof (cases jd)
      case (Some j)
      then show ?thesis using assms False ok ZGrey
        by (cases "j c" rule: option.exhaust) (auto simp: Chain_def Check_def split: bool.splits)
    qed (use assms False ok ZGrey in \<open>auto simp: Chain_def Check_def\<close>)
  qed (use assms False ok in \<open>auto simp: Chain_def Check_def\<close>)
qed

definition sample_cand :: "Zone \<Rightarrow> Candidate" where
  "sample_cand z = \<lparr>c_Query = ''q'', c_SliceID = ''s'', c_Content = ''x'', c_Scope = Project, c_Type = Result,
     c_Zone = z, c_Deps = []\<rparr>"

theorem gate_fail_closed_witness:
  "fst (fst (Chain (\<lambda>c. c) (\<lambda>_. None) (Some (\<lambda>_. None)) (sample_cand ZGrey) no_stats)) \<noteq> NeedJudge \<and>
   fst (Chain (\<lambda>c. c) (\<lambda>_. None) (Some (\<lambda>_. None)) (sample_cand ZGrey) no_stats) = (Reject, True)"
proof -
  let ?r = "Chain (\<lambda>c. c) (\<lambda>_. None) (Some (\<lambda>_. None)) (sample_cand ZGrey) no_stats"
  have r: "?r = ((Reject, True), snd ?r)" by code_simp
  from gate_fail_closed [OF r] show ?thesis using r by (metis fst_conv)
qed

lemma m_get_filter:
  assumes "wf_map m"
  shows "m_get (filter (\<lambda>(k, v). P v) m) k = (case m_get m k of None \<Rightarrow> None | Some v \<Rightarrow> if P v then Some v else None)"
  using assms
proof (induction m)
  case (Cons a m)
  obtain k' v where a: "a = (k', v)" by fastforce
  have "m_get m k' = None" using Cons.prems a by (auto simp: wf_map_def m_get_def map_of_eq_None_iff)
  then show ?case using Cons a by (auto simp: m_get_def wf_map_def)
qed (simp add: m_get_def)

lemma VC_Set_get:
  assumes "wf_map c" "m_get (VC_Set now key b c) k = Some e"
  shows "(k = key \<and> e = \<lparr>ve_confirm = b, ve_expires = now + verdictTTL\<rparr>) \<or> m_get c k = Some e"
  using assms m_get_filter [OF assms(1), of "\<lambda>e. \<not> now > ve_expires e" k]
  by (auto simp: VC_Set_def Let_def split: if_splits option.splits)

lemma VC_Set_wf: "wf_map c \<Longrightarrow> wf_map (VC_Set now key b c)"
  by (auto simp: VC_Set_def Let_def wf_map_def distinct_map_filter simp del: wf_map_m_set
      intro!: wf_map_m_set [unfolded wf_map_def])

text \<open>
  C19. The verdict cache only repeats the judge. Whatever sequence of calls went before, an answer is either what the
  inner judge says now or an unexpired verdict stored under the key of the same rubric, query and
  slice; an error is never stored; the cache never exceeds its capacity; and a full cache of fresh verdicts
  drops the new one instead of evicting an old one.
\<close>

theorem cached_judge_sound:
  assumes "wf_map (cj_Cache j)" "length (cj_Cache j) \<le> cacheCap"
    and "cached_confirm hash inner variant now sec cand j = (ans, j')"
  defines "key \<equiv> (if sec then ''s'' else ''p'') @ VerdictKey hash (c_Query cand) (c_SliceID cand)"
    and "asked \<equiv> (if sec then (case variant of Some v \<Rightarrow> v cand | None \<Rightarrow> inner cand) else inner cand)"
  shows "(ans = asked \<or> (\<exists>e. m_get (cj_Cache j) key = Some e \<and> ans = Some (ve_confirm e) \<and> now \<le> ve_expires e)) \<and>
    (\<forall>k e. m_get (cj_Cache j') k = Some e \<longrightarrow>
       m_get (cj_Cache j) k = Some e \<or> (k = key \<and> asked = Some (ve_confirm e) \<and> ve_expires e = now + verdictTTL)) \<and>
    wf_map (cj_Cache j') \<and> length (cj_Cache j') \<le> cacheCap \<and>
    (length (cj_Cache j) = cacheCap \<and> (\<forall>e\<in>snd ` set (cj_Cache j). now \<le> ve_expires e) \<longrightarrow> cj_Cache j' = cj_Cache j)"
proof -
  let ?c = "cj_Cache j"
  have len: "length (VC_Set now key b c) \<le> cacheCap" if "length c \<le> cacheCap" for b c
  proof -
    have f: "length (filter P c) \<le> cacheCap" for P using le_trans [OF length_filter_le that] .
    show ?thesis using that f unfolding VC_Set_def Let_def length_m_set by (auto simp: not_le Suc_le_eq length_m_set intro: le_antisym)
  qed
  have full: "VC_Set now key b ?c = ?c"
    if "length ?c = cacheCap" "\<forall>e\<in>snd ` set ?c. now \<le> ve_expires e" for b
  proof -
    have "filter (\<lambda>(k, e). \<not> now > ve_expires e) ?c = ?c" using that(2) by (intro filter_True) force
    then show ?thesis using that(1) by (simp add: VC_Set_def)
  qed
  show ?thesis
  proof (cases "\<exists>e. m_get ?c key = Some e \<and> \<not> now > ve_expires e")
    case True
    then have "ans = fst (VC_Get now key ?c)" "cj_Cache j' = ?c" "fst (VC_Get now key ?c) = map_option ve_confirm (m_get ?c key)"
      using assms(3) by (auto simp: cached_confirm_def key_def VC_Get_def Let_def)
    then show ?thesis using True assms(1,2) by auto
  next
    case False
    define c1 where "c1 = snd (VC_Get now key ?c)"
    have g: "VC_Get now key ?c = (None, c1)"
      using False by (auto simp: VC_Get_def c1_def split: option.splits)
    have c1: "wf_map c1" "length c1 \<le> cacheCap" "\<And>k e. m_get c1 k = Some e \<Longrightarrow> m_get ?c k = Some e"
      using assms(1,2) length_m_del_le [of key ?c]
      by (auto simp: c1_def VC_Get_def split: option.splits if_splits)
    have fresh: "c1 = ?c" if "\<forall>e\<in>snd ` set ?c. now \<le> ve_expires e"
      using that by (force simp: c1_def VC_Get_def m_get_def split: option.splits dest!: map_of_SomeD)
    show ?thesis
    proof (cases asked)
      case None
      then have "ans = None" "cj_Cache j' = c1"
        using assms(3) g by (auto simp: cached_confirm_def key_def asked_def Let_def)
      then show ?thesis using None c1 fresh by auto
    next
      case (Some b)
      then have "ans = Some b" "cj_Cache j' = VC_Set now key b c1"
        using assms(3) g by (auto simp: cached_confirm_def key_def asked_def Let_def)
      then show ?thesis using Some c1 fresh full len [OF c1(2)] VC_Set_wf [OF c1(1)] VC_Set_get [OF c1(1)]
        by (auto dest!: VC_Set_get [OF c1(1)])
    qed
  qed
qed

theorem cached_judge_sound_witness:
  "fst (cached_confirm (\<lambda>c. c) (\<lambda>_. Some True) None 5 False (sample_cand ZGrey) \<lparr>cj_Cache = [], cj_Warm = False, cj_inflight = []\<rparr>) = Some True"
proof -
  let ?j = "\<lparr>cj_Cache = [], cj_Warm = False, cj_inflight = []\<rparr>"
  obtain a j' where r: "cached_confirm (\<lambda>c. c) (\<lambda>_. Some True) None 5 False (sample_cand ZGrey) ?j = (a, j')" by fastforce
  have "wf_map (cj_Cache ?j)" "length (cj_Cache ?j) \<le> cacheCap" by simp_all
  from cached_judge_sound [OF this r] show ?thesis unfolding r by simp
qed

end
