(* ===== verification/L3.thy ===== *)
theory L3
  imports Judge Promote_Correct
begin

text \<open>
  The reuse decision of \<open>kernel/cache/l3.go\<close>, with its query type (\<open>cache.go\<close>) and its judge observations
  (\<open>judge_observe.go\<close>). Retrieval is an argument (\<open>slice.Index\<close>), as are the file system, the hash, the judge
  and the clock; the promotion layer is an argument with a state, because looking up, promoting and
  rejecting change it. One call of \<open>DecideL3\<close> sees one file system and one reading of the clock.
\<close>

section \<open>Queries, results and counters\<close>

record Freshness =
  fr_NowUnix :: int
  fr_TTLSeconds :: int

record Query =
  q_SessionID :: string
  q_UserInput :: string
  q_Intent :: string
  q_ContextHash :: string
  q_Scope :: Scope
  q_Model :: string
  q_Freshness :: Freshness

record L3Result =
  r_SliceID :: string
  r_Response :: string
  r_CostUSD :: f64

record Obs =
  o_Candidates :: int
  o_Grey :: int
  o_RulesReject :: int
  o_FingerprintReject :: int
  o_IsolatedReject :: int
  o_JudgeReject :: int
  o_JudgeError :: int
  o_JudgeApproved :: int
  o_Reused :: int
  o_PromoteHit :: int
  o_PromoteWritten :: int
  o_PromoteRejected :: int
  o_PromoteBlacklisted :: int

definition no_obs :: Obs where
  "no_obs = \<lparr>o_Candidates = 0, o_Grey = 0, o_RulesReject = 0, o_FingerprintReject = 0, o_IsolatedReject = 0,
     o_JudgeReject = 0, o_JudgeError = 0, o_JudgeApproved = 0, o_Reused = 0, o_PromoteHit = 0,
     o_PromoteWritten = 0, o_PromoteRejected = 0, o_PromoteBlacklisted = 0\<rparr>"

definition Obs_add :: "Obs \<Rightarrow> Obs \<Rightarrow> Obs" where
  "Obs_add n o' =
     \<lparr>o_Candidates = o_Candidates n + o_Candidates o', o_Grey = o_Grey n + o_Grey o',
      o_RulesReject = o_RulesReject n + o_RulesReject o',
      o_FingerprintReject = o_FingerprintReject n + o_FingerprintReject o',
      o_IsolatedReject = o_IsolatedReject n + o_IsolatedReject o',
      o_JudgeReject = o_JudgeReject n + o_JudgeReject o', o_JudgeError = o_JudgeError n + o_JudgeError o',
      o_JudgeApproved = o_JudgeApproved n + o_JudgeApproved o', o_Reused = o_Reused n + o_Reused o',
      o_PromoteHit = o_PromoteHit n + o_PromoteHit o', o_PromoteWritten = o_PromoteWritten n + o_PromoteWritten o',
      o_PromoteRejected = o_PromoteRejected n + o_PromoteRejected o',
      o_PromoteBlacklisted = o_PromoteBlacklisted n + o_PromoteBlacklisted o'\<rparr>"

record JudgeObservation =
  jo_SliceID :: string
  jo_RelConfidence :: f64
  jo_Verdict :: string
  jo_Called :: bool
  jo_FailClosed :: bool
  jo_PromptBytes :: nat

definition relConfidence :: "f64 \<Rightarrow> f64 \<Rightarrow> f64" where
  "relConfidence score top1 = (if fle top1 f0 then f0 else fdiv score top1)"

section \<open>The decider\<close>

text \<open>The consensus provider either has a second rubric or cannot contribute one.\<close>

datatype consensus = NonVariant | Variant judgefun

record 'p PromoteOps =
  po_Lookup :: "string \<Rightarrow> string \<Rightarrow> string \<Rightarrow> int \<Rightarrow> 'p \<Rightarrow> bool \<times> 'p"
  po_Promote :: "Entry \<Rightarrow> 'p \<Rightarrow> promote_err option \<times> 'p"
  po_Rejected :: "string \<Rightarrow> string \<Rightarrow> string \<Rightarrow> int \<Rightarrow> 'p \<Rightarrow> 'p"

record 'p L3Decider =
  l_Search :: "string \<Rightarrow> int \<Rightarrow> Scope \<Rightarrow> Hit list option"
  l_Zones :: "Zones option"
  l_Judge :: "judgefun option"
  l_K :: int
  l_LexicalFloor :: "f64 option"
  l_MinOrigin :: Origin
  l_Adapt :: "(string \<Rightarrow> f64 \<Rightarrow> f64) option"
  l_Promote :: "'p PromoteOps option"
  l_Consensus :: "consensus option"
  l_hash :: hashfun
  l_fs :: filesystem
  l_now :: int

definition zones :: "'p L3Decider \<Rightarrow> Zones" where
  "zones d = (case l_Zones d of Some z \<Rightarrow> z | None \<Rightarrow> Default)"

definition k_of :: "'p L3Decider \<Rightarrow> int" where
  "k_of d = (if l_K d > 0 then l_K d else 3)"

definition minGreyWidth :: f64 where "minGreyWidth = r64 (5/100)"

definition lexicalFloor :: "'p L3Decider \<Rightarrow> f64" where
  "lexicalFloor d = (case l_LexicalFloor d of Some f \<Rightarrow> f | None \<Rightarrow> r64 (5/100))"

definition lexicalSupported :: "'p L3Decider \<Rightarrow> Hit \<Rightarrow> bool" where
  "lexicalSupported d h \<longleftrightarrow> (\<not> h_LexicalValid h \<or> fle (lexicalFloor d) (h_Lexical h))"

definition Freshness_classify :: "Freshness \<Rightarrow> int \<Rightarrow> Zone" where
  "Freshness_classify f createdAt =
     (if fr_TTLSeconds f \<le> 0 then ZHit
      else if fr_NowUnix f \<le> 0 \<or> createdAt \<le> 0 \<or> createdAt > fr_NowUnix f then ZMiss
      else let age = fr_NowUnix f - createdAt in
        if age > fr_TTLSeconds f then ZMiss
        else if age > fr_TTLSeconds f div 2 then ZGrey
        else ZHit)"

text \<open>The two-stage dependency check.\<close>

definition verified :: "hashfun \<Rightarrow> filesystem \<Rightarrow> Slice \<Rightarrow> bool" where
  "verified hash fs s =
     (let deps = m_Deps (sl_Meta s); mtimes = m_Mtimes (sl_Meta s) in
      if deps = [] then m_L3Safe (sl_Meta s)
      else if \<not> list_all (\<lambda>p. m_get deps p \<noteq> None) (keys mtimes) then False
      else if \<not> list_all (\<lambda>p. IsLocal p \<and>
                 (case fs p of None \<Rightarrow> False
                  | Some fi \<Rightarrow> \<not> fi_symlink fi \<and> (case m_get mtimes p of None \<Rightarrow> True | Some want \<Rightarrow> fi_mtime fi = want)))
               (keys deps) then False
      else Verify hash fs deps = [])"

definition effective_zones :: "'p L3Decider \<Rightarrow> Slice \<Rightarrow> Thresholds" where
  "effective_zones d s =
     (let tz = ForType (zones d) (SliceType_String (sl_Type s)) in
      case l_Adapt d of None \<Rightarrow> tz
      | Some adapt \<Rightarrow>
          let prior = z_TauLow tz;
              learned = adapt (sl_ID s) prior;
              cap0 = fsub (z_TauHigh tz) minGreyWidth;
              cap = (if flt cap0 prior then prior else cap0)
          in tz\<lparr>z_TauLow := (if flt cap learned then cap else learned)\<rparr>)"

text \<open>The state one call threads: its counters, the promotion layer, and the judge observations.\<close>

record 'p l3state =
  t_o :: Obs
  t_p :: 'p
  t_obs :: "JudgeObservation list"

abbreviation bump_o :: "(Obs \<Rightarrow> Obs) \<Rightarrow> 'p l3state \<Rightarrow> 'p l3state" where
  "bump_o f t \<equiv> t\<lparr>t_o := f (t_o t)\<rparr>"

definition cand_of :: "Query \<Rightarrow> Slice \<Rightarrow> Candidate" where
  "cand_of q s = \<lparr>c_Query = q_UserInput q, c_SliceID = sl_ID s, c_Content = sl_Content s, c_Scope = sl_Scope s,
     c_Type = sl_Type s, c_Zone = ZGrey, c_Deps = m_Deps (sl_Meta s)\<rparr>"

text \<open>What follows an approval or a decline when a promotion layer is wired.\<close>

definition record_promotion ::
  "'p L3Decider \<Rightarrow> 'p PromoteOps \<Rightarrow> Query \<Rightarrow> Slice \<Rightarrow> bool \<Rightarrow> bool \<Rightarrow> 'p l3state \<Rightarrow> 'p l3state" where
  "record_promotion d pr q s ok declined t =
     (let cand = cand_of q s in
      if ok then
        (case (case l_Consensus d of None \<Rightarrow> Some True | Some NonVariant \<Rightarrow> Some False | Some (Variant v) \<Rightarrow> v cand) of
           None \<Rightarrow> bump_o (\<lambda>o'. o'\<lparr>o_JudgeError := o_JudgeError o' + 1\<rparr>) t
         | Some False \<Rightarrow>
             (bump_o (\<lambda>o'. o'\<lparr>o_PromoteRejected := o_PromoteRejected o' + 1\<rparr>) t)
               \<lparr>t_p := po_Rejected pr (sl_ID s) (q_UserInput q) ''consensus_failed'' (l_now d) (t_p t)\<rparr>
         | Some True \<Rightarrow>
             (case po_Promote pr \<lparr>pe_SourceSliceID = sl_ID s, pe_ContentVersion = l_hash d (sl_Content s),
                    pe_Query = q_UserInput q, pe_PromotedAt = l_now d\<rparr> (t_p t) of
                (None, p) \<Rightarrow> (bump_o (\<lambda>o'. o'\<lparr>o_PromoteWritten := o_PromoteWritten o' + 1\<rparr>) t)\<lparr>t_p := p\<rparr>
              | (Some ErrBlacklisted, p) \<Rightarrow>
                  (bump_o (\<lambda>o'. o'\<lparr>o_PromoteBlacklisted := o_PromoteBlacklisted o' + 1\<rparr>) t)\<lparr>t_p := p\<rparr>
              | (Some StoreErr, p) \<Rightarrow> t\<lparr>t_p := p\<rparr>))
      else if declined then t\<lparr>t_p := po_Rejected pr (sl_ID s) (q_UserInput q) ''judge_declined'' (l_now d) (t_p t)\<rparr>
      else t)"

definition judgeGrey ::
  "'p L3Decider \<Rightarrow> Query \<Rightarrow> Slice \<Rightarrow> f64 \<Rightarrow> 'p l3state \<Rightarrow> bool \<times> 'p l3state" where
  "judgeGrey d q s rel t0 =
     (let t1 = bump_o (\<lambda>o'. o'\<lparr>o_Grey := o_Grey o' + 1\<rparr>) t0 in
      case l_Judge d of
        None \<Rightarrow> (False, bump_o (\<lambda>o'. o'\<lparr>o_RulesReject := o_RulesReject o' + 1\<rparr>) t1)
      | Some j \<Rightarrow>
          let (promoted, t2) = (case l_Promote d of None \<Rightarrow> (False, t1)
                | Some pr \<Rightarrow> (case po_Lookup pr (sl_ID s) (q_UserInput q) (l_hash d (sl_Content s)) (l_now d) (t_p t1) of
                    (b, p) \<Rightarrow> (b, t1\<lparr>t_p := p\<rparr>)))
          in if promoted then (True, bump_o (\<lambda>o'. o'\<lparr>o_PromoteHit := o_PromoteHit o' + 1\<rparr>) t2)
          else
            let cand = cand_of q s;
                ((v, err), gs) = Chain (l_hash d) (l_fs d) (Some j) cand no_stats;
                t3 = bump_o (\<lambda>o'. o'\<lparr>o_RulesReject := o_RulesReject o' + s_RulesReject gs,
                      o_FingerprintReject := o_FingerprintReject o' + s_Fingerprint gs,
                      o_JudgeReject := o_JudgeReject o' + s_JudgeReject gs,
                      o_JudgeError := o_JudgeError o' + s_JudgeError gs,
                      o_JudgeApproved := o_JudgeApproved o' + s_JudgeApproved gs\<rparr>) t2;
                ok = (\<not> err \<and> v = Confirm);
                t4 = (case l_Promote d of None \<Rightarrow> t3 | Some pr \<Rightarrow> record_promotion d pr q s ok (s_JudgeReject gs > 0) t3);
                called = (s_NeedJudge gs > 0);
                obs = \<lparr>jo_SliceID = sl_ID s, jo_RelConfidence = rel,
                  jo_Verdict = (if err then ''fail_closed'' else if \<not> called then ''skipped''
                                else if ok then ''approved'' else ''declined''),
                  jo_Called = called, jo_FailClosed = err,
                  jo_PromptBytes = length (q_UserInput q) + length (sl_Content s)\<rparr>
            in (ok, t4\<lparr>t_obs := t_obs t4 @ [obs]\<rparr>))"

text \<open>The zone verdict of one candidate and the switch on it: \<open>True\<close> goes on to the isolation gates.\<close>

definition l3_verdict :: "'p L3Decider \<Rightarrow> Query \<Rightarrow> f64 \<Rightarrow> f64 \<Rightarrow> Hit \<Rightarrow> Slice \<Rightarrow> Zone" where
  "l3_verdict d q resultTop1 globalTop1 h s =
     (let verdict = ClassifyL3 (effective_zones d s) (h_Score h) resultTop1 globalTop1;
          fresh = Freshness_classify (q_Freshness q) (sl_CreatedAt s)
      in if fresh < verdict then fresh else verdict)"

definition admit ::
  "'p L3Decider \<Rightarrow> Query \<Rightarrow> f64 \<Rightarrow> f64 \<Rightarrow> Hit \<Rightarrow> Slice \<Rightarrow> 'p l3state \<Rightarrow> bool \<times> 'p l3state" where
  "admit d q resultTop1 globalTop1 h s t =
     (let rel = relConfidence (h_Score h) resultTop1 in
      case l3_verdict d q resultTop1 globalTop1 h s of
        ZHit \<Rightarrow>
          if Origin_Level (l_MinOrigin d) > Origin_Level (m_Origin (sl_Meta s)) then judgeGrey d q s rel t
          else if \<not> lexicalSupported d h then judgeGrey d q s rel t
          else (True, t)
      | ZGrey \<Rightarrow> judgeGrey d q s rel t
      | ZMiss \<Rightarrow> (False, bump_o (\<lambda>o'. o'\<lparr>o_RulesReject := o_RulesReject o' + 1\<rparr>) t))"

fun L3_loop ::
  "'p L3Decider \<Rightarrow> Query \<Rightarrow> f64 \<Rightarrow> f64 \<Rightarrow> (Hit \<times> Slice) list \<Rightarrow> 'p l3state \<Rightarrow> L3Result option \<times> 'p l3state" where
  "L3_loop d q rt gt [] t = (None, t)"
| "L3_loop d q rt gt ((h, s) # cs) t =
     (case admit d q rt gt h s t of
        (False, t1) \<Rightarrow> L3_loop d q rt gt cs t1
      | (True, t1) \<Rightarrow>
          if q_ContextHash q \<noteq> [] \<and> m_ContextHash (sl_Meta s) \<noteq> q_ContextHash q then
            L3_loop d q rt gt cs (bump_o (\<lambda>o'. o'\<lparr>o_IsolatedReject := o_IsolatedReject o' + 1\<rparr>) t1)
          else if q_Model q \<noteq> [] \<and> m_Model (sl_Meta s) \<noteq> q_Model q then
            L3_loop d q rt gt cs (bump_o (\<lambda>o'. o'\<lparr>o_IsolatedReject := o_IsolatedReject o' + 1\<rparr>) t1)
          else if \<not> verified (l_hash d) (l_fs d) s then
            L3_loop d q rt gt cs (bump_o (\<lambda>o'. o'\<lparr>o_FingerprintReject := o_FingerprintReject o' + 1\<rparr>) t1)
          else (Some \<lparr>r_SliceID = sl_ID s, r_Response = sl_Content s, r_CostUSD = f0\<rparr>,
                bump_o (\<lambda>o'. o'\<lparr>o_Reused := o_Reused o' + 1\<rparr>) t1))"

text \<open>The Result candidates, and the two denominators.\<close>

fun result_cands :: "Hit list \<Rightarrow> (Hit \<times> Slice) list" where
  "result_cands [] = []"
| "result_cands (h # hs) =
     (case h_Slice h of Some s \<Rightarrow> if sl_Type s = Result then (h, s) # result_cands hs else result_cands hs
      | None \<Rightarrow> result_cands hs)"

definition max_score :: "f64 \<Rightarrow> Hit list \<Rightarrow> f64" where
  "max_score x hs = fold (\<lambda>h m. if flt m (h_Score h) then h_Score h else m) hs x"

definition DecideL3 ::
  "'p L3Decider \<Rightarrow> Query \<Rightarrow> 'p \<Rightarrow> bool \<times> L3Result option \<times> 'p l3state" where
  "DecideL3 d q p =
     (let t0 = \<lparr>t_o = no_obs, t_p = p, t_obs = []\<rparr> in
      case l_Search d (q_UserInput q) (k_of d) (q_Scope q) of
        None \<Rightarrow> (True, None, t0)
      | Some [] \<Rightarrow> (False, None, t0)
      | Some (h0 # hs) \<Rightarrow>
          let globalTop1 = max_score (h_Score h0) (h0 # hs);
              cands = result_cands (h0 # hs);
              resultTop1 = max_score f0 (map fst cands);
              t1 = bump_o (\<lambda>o'. o'\<lparr>o_Candidates := o_Candidates o' + int (length cands)\<rparr>) t0
          in (False, L3_loop d q resultTop1 globalTop1 cands t1))"

definition DecideL2 :: "'p L3Decider \<Rightarrow> Query \<Rightarrow> Hit list option" where
  "DecideL2 d q =
     (case l_Search d (q_UserInput q) (k_of d) (q_Scope q) of
        None \<Rightarrow> None
      | Some hits \<Rightarrow>
          let top1 = (case hits of [] \<Rightarrow> f0 | h # _ \<Rightarrow> h_Score h) in
          Some (filter (\<lambda>h. let z = (case h_Slice h of Some s \<Rightarrow> ForType (zones d) (SliceType_String (sl_Type s))
                                   | None \<Rightarrow> Thresholds.truncate (zones d))
                            in ClassifyHit z h top1 = ZHit) hits))"

text \<open>\<open>observe\<close>: the call's delta is folded into the accumulator.\<close>

definition observe :: "Obs \<Rightarrow> Obs \<Rightarrow> Obs" where
  "observe accum delta = Obs_add accum delta"

end
