(* ===== verification/L3_Correct.thy ===== *)
theory L3_Correct
  imports L3
begin

text \<open>
  The reuse gate is fail-closed: what it serves has passed every gate, and what it does not serve is
  counted once. The promotion layer is used through a contract, interpreted on the decision of
  \<open>kernel/promote\<close> over its file stores.
\<close>

section \<open>The contract with the promotion layer\<close>

definition direct_hit :: "'p L3Decider \<Rightarrow> Query \<Rightarrow> f64 \<Rightarrow> f64 \<Rightarrow> Hit \<Rightarrow> Slice \<Rightarrow> bool" where
  "direct_hit d q rt gt h s \<longleftrightarrow> l3_verdict d q rt gt h s = ZHit \<and>
     Origin_Level (l_MinOrigin d) \<le> Origin_Level (m_Origin (sl_Meta s)) \<and> lexicalSupported d h"

locale promotion =
  fixes pr :: "'p PromoteOps" and inv :: "'p \<Rightarrow> bool"
    and valid :: "'p \<Rightarrow> string \<Rightarrow> string \<Rightarrow> string \<Rightarrow> int \<Rightarrow> bool"
  assumes lookup_inv: "inv p \<Longrightarrow> po_Lookup pr sid q ver now p = (b, p') \<Longrightarrow> inv p'"
    and lookup_valid: "inv p \<Longrightarrow> po_Lookup pr sid q ver now p = (True, p') \<Longrightarrow> valid p sid q ver now"
    and promote_inv: "inv p \<Longrightarrow> po_Promote pr e p = (x, p') \<Longrightarrow> inv p'"
    and rejected_inv: "inv p \<Longrightarrow> inv (po_Rejected pr sid q reason now p)"
begin

lemma record_promotion_inv: "inv (t_p t) \<Longrightarrow> inv (t_p (record_promotion d pr q s ok dec t))"
  using promote_inv rejected_inv
  by (auto simp: record_promotion_def Let_def split: option.splits bool.splits prod.splits promote_err.splits)

text \<open>An approval comes from the judge, on unchanged dependencies, or from a valid promotion.\<close>

definition approved :: "'p L3Decider \<Rightarrow> Query \<Rightarrow> Slice \<Rightarrow> bool" where
  "approved d q s \<longleftrightarrow> (\<exists>j. l_Judge d = Some j \<and>
     (j (cand_of q s) = Some True \<or> (\<exists>p. inv p \<and> valid p (sl_ID s) (q_UserInput q) (l_hash d (sl_Content s)) (l_now d))))"

lemma judgeGrey_promoted:
  assumes "l_Promote d = Some pr" "inv (t_p t)" "judgeGrey d q s rel t = (b, t')" "l_Judge d = Some j"
  shows "inv (t_p t') \<and> (b \<longrightarrow> approved d q s)"
proof -
  obtain pb p2 where lk: "po_Lookup pr (sl_ID s) (q_UserInput q) (l_hash d (sl_Content s)) (l_now d) (t_p t) = (pb, p2)"
    by fastforce
  have p2: "inv p2" using lookup_inv [OF assms(2) lk] .
  show ?thesis
  proof (cases pb)
    case True
    have "valid (t_p t) (sl_ID s) (q_UserInput q) (l_hash d (sl_Content s)) (l_now d)"
      using lookup_valid [OF assms(2)] lk True by simp
    then have "approved d q s" using assms(2,4) by (auto simp: approved_def)
    moreover have "t_p t' = p2" using assms(1,3,4) lk True by (auto simp: judgeGrey_def Let_def)
    ultimately show ?thesis using p2 by simp
  next
    case False
    obtain v err gs where ch: "Chain (l_hash d) (l_fs d) (Some j) (cand_of q s) no_stats = ((v, err), gs)"
      by (metis surj_pair)
    have "b \<longrightarrow> v = Confirm \<and> \<not> err"
      using assms(1,3,4) lk False ch by (auto simp: judgeGrey_def Let_def)
    moreover have "c_Zone (cand_of q s) = ZGrey" by (simp add: cand_of_def)
    ultimately have "b \<longrightarrow> j (cand_of q s) = Some True" using gate_fail_closed [OF ch] by auto
    moreover have "inv (t_p t')"
      using assms(1,3,4) lk False ch record_promotion_inv p2 by (auto simp: judgeGrey_def Let_def)
    ultimately show ?thesis using assms(4) by (auto simp: approved_def)
  qed
qed

lemma judgeGrey_ok:
  assumes "l_Promote d = None \<or> l_Promote d = Some pr" "inv (t_p t)" "judgeGrey d q s rel t = (b, t')"
  shows "inv (t_p t') \<and> (b \<longrightarrow> approved d q s)"
proof (cases "l_Judge d")
  case None
  then show ?thesis using assms by (auto simp: judgeGrey_def)
next
  case (Some j)
  show ?thesis
  proof (cases "l_Promote d")
    case None
    obtain v err gs where ch: "Chain (l_hash d) (l_fs d) (Some j) (cand_of q s) no_stats = ((v, err), gs)"
      by (metis surj_pair)
    have "b \<longrightarrow> v = Confirm \<and> \<not> err" "t_p t' = t_p t"
      using assms(3) Some None ch by (auto simp: judgeGrey_def Let_def)
    moreover have "c_Zone (cand_of q s) = ZGrey" by (simp add: cand_of_def)
    ultimately show ?thesis using gate_fail_closed [OF ch] Some assms(2) by (auto simp: approved_def)
  next
    case (Some pr')
    then have pr: "l_Promote d = Some pr" using assms(1) by simp
    show ?thesis using judgeGrey_promoted [OF pr assms(2,3) \<open>l_Judge d = Some j\<close>] .
  qed
qed
lemma admit_ok:
  assumes "l_Promote d = None \<or> l_Promote d = Some pr" "inv (t_p t)" "admit d q rt gt h s t = (b, t')"
  shows "inv (t_p t') \<and> (b \<longrightarrow> l3_verdict d q rt gt h s \<noteq> ZMiss \<and> (direct_hit d q rt gt h s \<or> approved d q s))"
  using assms(2,3) judgeGrey_ok [OF assms(1,2)]
  by (fastforce simp: admit_def Let_def direct_hit_def split: Zone.splits if_splits)

lemma L3_loop_ok:
  assumes "l_Promote d = None \<or> l_Promote d = Some pr" "inv (t_p t)" "L3_loop d q rt gt cs t = (r, t')"
  shows "inv (t_p t') \<and> (\<forall>x. r = Some x \<longrightarrow> (\<exists>(h, s)\<in>set cs. x = \<lparr>r_SliceID = sl_ID s, r_Response = sl_Content s, r_CostUSD = f0\<rparr> \<and>
    l3_verdict d q rt gt h s \<noteq> ZMiss \<and> (direct_hit d q rt gt h s \<or> approved d q s) \<and>
    (q_ContextHash q \<noteq> [] \<longrightarrow> m_ContextHash (sl_Meta s) = q_ContextHash q) \<and>
    (q_Model q \<noteq> [] \<longrightarrow> m_Model (sl_Meta s) = q_Model q) \<and> verified (l_hash d) (l_fs d) s))"
  using assms(2,3)
proof (induction cs arbitrary: t)
  case (Cons c cs)
  obtain h s where c: "c = (h, s)" by fastforce
  obtain b t1 where a: "admit d q rt gt h s t = (b, t1)" by fastforce
  note A = admit_ok [OF assms(1) Cons.prems(1) a]
  have step: ?case if "L3_loop d q rt gt cs t2 = (r, t')" "inv (t_p t2)" for t2
    using Cons.IH [OF that(2,1)] by (auto simp: c)
  show ?case
  proof (cases b)
    case False
    then show ?thesis using Cons.prems(2) c a A by (intro step [of t1]) auto
  next
    case True
    then show ?thesis using Cons.prems(2) c a A step
      by (auto split: if_splits)
  qed
qed simp

end

section \<open>The decision over the file stores\<close>

definition decision_ops ::
  "penv \<Rightarrow> (nat \<Rightarrow> penv) \<Rightarrow> renv \<Rightarrow> (Entry fline list, Rejection fline list) Decision PromoteOps" where
  "decision_ops en envs fn =
     \<lparr>po_Lookup = Lookup file_store en envs,
      po_Promote = Promote file_store file_rejections en fn,
      po_Rejected = Rejected file_rejections fn\<rparr>"

definition entry_valid :: "(Entry fline list, 'r) Decision \<Rightarrow> string \<Rightarrow> string \<Rightarrow> string \<Rightarrow> int \<Rightarrow> bool" where
  "entry_valid d sid q ver now \<longleftrightarrow>
     (\<exists>e\<in>set (file_ents (dn_entries d) sid). \<not> expiredBy now (dn_ttl d) e \<and> pe_Query e = q \<and> pe_ContentVersion e = ver)"

lemma Blacklisted_entries: "Blacklisted R fn sid q now d = (b, d') \<Longrightarrow> dn_entries d' = dn_entries d"
  by (auto simp: Blacklisted_def split: if_splits option.splits prod.splits)

interpretation decision: promotion "decision_ops en envs fn" "\<lambda>d. file_inv (dn_entries d)" entry_valid
proof
  fix p p' :: "(Entry fline list, Rejection fline list) Decision" and sid q ver now b e x reason
  assume i: "file_inv (dn_entries p)"
  show "po_Lookup (decision_ops en envs fn) sid q ver now p = (b, p') \<Longrightarrow> file_inv (dn_entries p')"
    using disk.Lookup_keeps(1) [OF i] by (simp add: decision_ops_def)
  show "po_Lookup (decision_ops en envs fn) sid q ver now p = (True, p') \<Longrightarrow> entry_valid p sid q ver now"
    using disk.Lookup_iff [OF i, of en sid envs q ver now True p']
    by (cases "ps_List file_store en sid (dn_entries p)")
      (auto simp: decision_ops_def entry_valid_def Lookup_def)
  show "file_inv (dn_entries (po_Rejected (decision_ops en envs fn) sid q reason now p))"
    using i by (simp add: decision_ops_def Rejected_def)
  assume r: "po_Promote (decision_ops en envs fn) e p = (x, p')"
  obtain bl d1 where b: "Blacklisted file_rejections fn (pe_SourceSliceID e) (pe_Query e) (pe_PromotedAt e) p = (bl, d1)"
    by fastforce
  have d1: "file_inv (dn_entries d1)" using Blacklisted_entries [OF b] i by simp
  obtain y s' where put: "ps_Put file_store en e (dn_entries d1) = (y, s')" by fastforce
  have "file_inv s'" using disk.put_ok [OF d1] disk.put_err [OF d1] put by (cases y) auto
  then show "file_inv (dn_entries p')" using r b put d1 by (cases bl) (auto simp: decision_ops_def Promote_def)
qed

section \<open>Counting\<close>

definition rejects :: "Obs \<Rightarrow> int" where
  "rejects o' = o_RulesReject o' + o_FingerprintReject o' + o_IsolatedReject o' + o_JudgeReject o' + o_JudgeError o'"

text \<open>Consensus errors count as judge errors of an approved candidate, so they are excluded here.\<close>

definition single_perspective :: "'p L3Decider \<Rightarrow> bool" where
  "single_perspective d \<longleftrightarrow> l_Promote d = None \<or> l_Consensus d = None"

lemma record_promotion_counts:
  "l_Consensus d = None \<Longrightarrow> rejects (t_o (record_promotion d pr q s ok dec t)) = rejects (t_o t) \<and>
     o_Reused (t_o (record_promotion d pr q s ok dec t)) = o_Reused (t_o t) \<and>
     o_Candidates (t_o (record_promotion d pr q s ok dec t)) = o_Candidates (t_o t)"
  by (auto simp: record_promotion_def Let_def rejects_def split: option.splits prod.splits promote_err.splits)

abbreviation counts :: "'p l3state \<Rightarrow> int \<times> int \<times> int" where
  "counts t \<equiv> (rejects (t_o t), o_Reused (t_o t), o_Candidates (t_o t))"

lemma judgeGrey_counts:
  assumes "single_perspective d" "judgeGrey d q s rel t = (b, t')"
  shows "counts t' = (rejects (t_o t) + (if b then 0 else 1), o_Reused (t_o t), o_Candidates (t_o t))"
proof (cases "l_Judge d")
  case None
  then show ?thesis using assms(2) by (auto simp: judgeGrey_def rejects_def)
next
  case (Some j)
  obtain v err gs where ch: "Chain (l_hash d) (l_fs d) (Some j) (cand_of q s) no_stats = ((v, err), gs)"
    by (metis surj_pair)
  have z: "c_Zone (cand_of q s) = ZGrey" by (simp add: cand_of_def)
  note G = gate_fail_closed [OF ch]
  have sum: "s_RulesReject gs + s_Fingerprint gs + s_JudgeReject gs + s_JudgeError gs = (if \<not> err \<and> v = Confirm then 0 else 1)"
    using ch z by (auto simp: Chain_def Check_def no_stats_def split: if_splits option.splits bool.splits)
  show ?thesis
  proof (cases "l_Promote d")
    case None
    then show ?thesis using assms(2) Some ch sum by (auto simp: judgeGrey_def Let_def rejects_def)
  next
    case (Some pr)
    then have c: "l_Consensus d = None" using assms(1) by (simp add: single_perspective_def)
    obtain pb p2 where lk: "po_Lookup pr (sl_ID s) (q_UserInput q) (l_hash d (sl_Content s)) (l_now d) (t_p t) = (pb, p2)"
      by fastforce
    show ?thesis
      using assms(2) Some \<open>l_Judge d = Some j\<close> ch sum lk record_promotion_counts [OF c]
      by (cases pb) (auto simp: judgeGrey_def Let_def rejects_def)
  qed
qed

lemma admit_counts:
  assumes "single_perspective d" "admit d q rt gt h s t = (b, t')"
  shows "counts t' = (rejects (t_o t) + (if b then 0 else 1), o_Reused (t_o t), o_Candidates (t_o t))"
  using assms(2) judgeGrey_counts [OF assms(1)]
  by (auto simp: admit_def Let_def rejects_def split: Zone.splits if_splits)

lemma L3_loop_counts:
  assumes "single_perspective d" "L3_loop d q rt gt cs t = (r, t')"
  shows "o_Candidates (t_o t') = o_Candidates (t_o t) \<and>
    (r = None \<longrightarrow> rejects (t_o t') = rejects (t_o t) + int (length cs) \<and> o_Reused (t_o t') = o_Reused (t_o t)) \<and>
    (r \<noteq> None \<longrightarrow> rejects (t_o t') < rejects (t_o t) + int (length cs) \<and> o_Reused (t_o t') = o_Reused (t_o t) + 1)"
  using assms(2)
proof (induction cs arbitrary: t)
  case (Cons c cs)
  obtain h s where c: "c = (h, s)" by fastforce
  obtain b t1 where a: "admit d q rt gt h s t = (b, t1)" by fastforce
  note A = admit_counts [OF assms(1) a]
  have step: ?case if "L3_loop d q rt gt cs t2 = (r, t')"
      "counts t2 = (rejects (t_o t) + 1, o_Reused (t_o t), o_Candidates (t_o t))" for t2
    using Cons.IH [OF that(1)] that(2) by auto
  show ?case
  proof (cases b)
    case False
    then show ?thesis using Cons.prems c a A by (intro step [of t1]) auto
  next
    case True
    show ?thesis
      using True Cons.prems c a A
        step [of "bump_o (\<lambda>o'. o'\<lparr>o_IsolatedReject := o_IsolatedReject o' + 1\<rparr>) t1"]
        step [of "bump_o (\<lambda>o'. o'\<lparr>o_FingerprintReject := o_FingerprintReject o' + 1\<rparr>) t1"]
      by (auto simp: rejects_def split: if_splits)
  qed
qed (auto)

section \<open>What is served\<close>

lemma result_cands_in: "(h, s) \<in> set (result_cands hs) \<Longrightarrow> h \<in> set hs \<and> h_Slice h = Some s \<and> sl_Type s = Result"
  by (induction hs) (auto split: option.splits if_splits)

lemma verdict_fresh:
  assumes "l3_verdict d q rt gt h s \<noteq> ZMiss" "0 < fr_TTLSeconds (q_Freshness q)"
  shows "0 < sl_CreatedAt s \<and> sl_CreatedAt s \<le> fr_NowUnix (q_Freshness q) \<and>
    fr_NowUnix (q_Freshness q) - sl_CreatedAt s \<le> fr_TTLSeconds (q_Freshness q)"
proof -
  have "Freshness_classify (q_Freshness q) (sl_CreatedAt s) \<noteq> ZMiss"
    using assms(1) by (cases "ClassifyL3 (effective_zones d s) (h_Score h) rt gt")
      (auto simp: l3_verdict_def Let_def zone_order split: if_splits)
  then show ?thesis using assms(2) by (auto simp: Freshness_classify_def Let_def split: if_splits)
qed

lemma verified_deps:
  assumes "verified hash fs s"
  shows "(m_Deps (sl_Meta s) = [] \<longrightarrow> m_L3Safe (sl_Meta s)) \<and>
    (\<forall>dp\<in>set (m_Deps (sl_Meta s)). dep_fits hash fs dp \<and> (\<exists>fi. fs (fst dp) = Some fi \<and> \<not> fi_symlink fi))"
proof (cases "m_Deps (sl_Meta s) = []")
  case False
  then have v: "Verify hash fs (m_Deps (sl_Meta s)) = []"
    and l: "list_all (\<lambda>p. IsLocal p \<and> (case fs p of None \<Rightarrow> False
        | Some fi \<Rightarrow> \<not> fi_symlink fi \<and> (case m_get (m_Mtimes (sl_Meta s)) p of None \<Rightarrow> True | Some want \<Rightarrow> fi_mtime fi = want)))
        (keys (m_Deps (sl_Meta s)))"
    using assms by (auto simp: verified_def Let_def split: if_splits)
  have "\<exists>fi. fs (fst dp) = Some fi \<and> \<not> fi_symlink fi" if "dp \<in> set (m_Deps (sl_Meta s))" for dp
  proof -
    have "case fs (fst dp) of None \<Rightarrow> False | Some fi \<Rightarrow> \<not> fi_symlink fi \<and>
        (case m_get (m_Mtimes (sl_Meta s)) (fst dp) of None \<Rightarrow> True | Some want \<Rightarrow> fi_mtime fi = want)"
      using l that by (simp add: list_all_iff)
    then show ?thesis by (cases "fs (fst dp)") simp_all
  qed
  then show ?thesis using False v Verify_clean by blast
qed (use assms in \<open>simp add: verified_def\<close>)


definition sample_result :: Slice where
  "sample_result = zero_slice\<lparr>sl_ID := ''s'', sl_Type := Result, sl_Content := ''answer'',
     sl_Meta := zero_meta\<lparr>m_L3Safe := True, m_Origin := OriginSessionAuto\<rparr>\<rparr>"

definition sample_hit :: "f64 \<Rightarrow> Slice \<Rightarrow> Hit" where
  "sample_hit x s = \<lparr>h_Slice = Some s, h_Score = x, h_QueryCoverage = f0, h_QueryCoverageValid = False,
     h_Lexical = f0, h_LexicalValid = False\<rparr>"

definition sample_query :: Query where
  "sample_query = \<lparr>q_SessionID = [], q_UserInput = ''q'', q_Intent = [], q_ContextHash = [], q_Scope = Project,
     q_Model = [], q_Freshness = \<lparr>fr_NowUnix = 0, fr_TTLSeconds = 0\<rparr>\<rparr>"

definition sample_decider :: "judgefun option \<Rightarrow> (Entry fline list, Rejection fline list) Decision L3Decider" where
  "sample_decider j =
     \<lparr>l_Search = (\<lambda>_ _ _. Some [sample_hit (Fin 10) zero_slice, sample_hit (Fin 6) sample_result]),
      l_Zones = None, l_Judge = j, l_K = 3, l_LexicalFloor = None, l_MinOrigin = OriginUserCurated, l_Adapt = None,
      l_Promote = None, l_Consensus = None, l_hash = (\<lambda>c. c), l_fs = (\<lambda>_. None), l_now = 50\<rparr>"

definition empty_decision :: "(Entry fline list, Rejection fline list) Decision" where
  "empty_decision = \<lparr>dn_entries = [], dn_rejections = [], dn_ttl = 0, dn_rejectLimit = 0\<rparr>"


text \<open>
  Every candidate is counted once. In a call that serves nothing, the rejection counters add up to the
  number of result candidates; in a call that serves an answer, exactly one reuse is counted and fewer
  rejections than candidates. (A failing second rubric counts as a judge error on top; the statement is
  about deciders without one.)
\<close>

lemma every_candidate_counted:
  assumes "single_perspective d" "DecideL3 d q p = (e, r, t)"
  shows "(r = None \<longrightarrow> rejects (t_o t) = o_Candidates (t_o t) \<and> o_Reused (t_o t) = 0) \<and>
    (r \<noteq> None \<longrightarrow> rejects (t_o t) < o_Candidates (t_o t) \<and> o_Reused (t_o t) = 1)"
proof -
  let ?t0 = "\<lambda>n. \<lparr>t_o = no_obs\<lparr>o_Candidates := n\<rparr>, t_p = p, t_obs = []\<rparr>"
  have z: "counts (?t0 n) = (0, 0, n)" for n by (simp add: rejects_def no_obs_def)
  consider "r = None" "t = ?t0 0"
    | cs rt gt where "L3_loop d q rt gt cs (?t0 (int (length cs))) = (r, t)"
    using assms(2)
    by (auto simp: DecideL3_def Let_def no_obs_def simp del: result_cands.simps split: option.splits list.splits)
  then show ?thesis
  proof cases
    case 1
    then show ?thesis using z [of 0] by auto
  next
    case 2
    show ?thesis using L3_loop_counts [OF assms(1) 2] z by auto
  qed
qed

lemma every_candidate_counted_witness:
  "rejects (t_o (snd (snd (DecideL3 (sample_decider None) sample_query empty_decision)))) =
   o_Candidates (t_o (snd (snd (DecideL3 (sample_decider None) sample_query empty_decision))))"
proof -
  let ?d = "sample_decider None"
  have s: "single_perspective ?d" by (simp add: single_perspective_def sample_decider_def)
  have n: "fst (snd (DecideL3 ?d sample_query empty_decision)) = None" by code_simp
  obtain e t where "DecideL3 ?d sample_query empty_decision = (e, None, t)" using n by (metis prod.collapse)
  from every_candidate_counted [OF s this] show ?thesis
    using \<open>DecideL3 ?d sample_query empty_decision = (e, None, t)\<close> by simp
qed

end
