(* ===== verification/Sched.thy ===== *)
theory Sched
  imports Slice_Types
begin

text \<open>
  The round scheduler of \<open>kernel/sched\<close>: the rule decider (\<open>rule_decider.go\<close>), the tier learner
  (\<open>tier_learn.go\<close>) and their data (\<open>sched.go\<close>). A nil dereference panics: the operations that may
  panic return an option. Prefetch planners are arguments. Go's \<open>int\<close> counters stay far below
  the range of 64 bits and are mathematical integers here.
\<close>

section \<open>Rounds and plans\<close>

record ToolCallInfo =
  tc_CallID :: string
  tc_Name :: string
  tc_ReadOnly :: bool

record PrefetchLoadHint =
  ph_ConcurrencyUsed :: int
  ph_ConcurrencyLimit :: int
  ph_WaitWindowMS :: int
  ph_TaskEstimateMS :: int

record BudgetState =
  b_LimitUSD :: f64
  b_SpentUSD :: f64

record RoundInput =
  ri_Intent :: string
  ri_ToolCalls :: "ToolCallInfo list"
  ri_SliceHits :: "Hit list"
  ri_SuspendedTools :: "string list"
  ri_Budget :: BudgetState
  ri_PrefetchLoad :: PrefetchLoadHint

record RoundPlan =
  rp_ParallelGroups :: "string list list"
  rp_Tier :: string
  rp_TierReason :: string
  rp_InjectIDs :: "string list"
  rp_PrefetchIDs :: "string list"
  rp_PrefetchProbeIDs :: "string list"
  rp_PrefetchReason :: string
  rp_SuspendTools :: "string list"
  rp_MaxParallel :: int
  rp_BudgetAction :: string

definition BudgetActionDegradeTier :: string where "BudgetActionDegradeTier = ''degrade_tier''"
definition BudgetActionDegradeInject :: string where "BudgetActionDegradeInject = ''degrade_inject''"
definition BudgetActionHaltPrefetch :: string where "BudgetActionHaltPrefetch = ''halt_prefetch''"
definition BudgetActionHardStop :: string where "BudgetActionHardStop = ''hard_stop''"

lemmas budget_defs = BudgetActionDegradeTier_def BudgetActionDegradeInject_def BudgetActionHaltPrefetch_def
  BudgetActionHardStop_def

record Config =
  cf_MaxParallel :: int
  cf_MinSamples :: int
  cf_SuccessFloor :: f64
  cf_ComplexTools :: int
  cf_DefaultTier :: string
  cf_ProTier :: string
  cf_InjectMax :: int
  cf_TierMinSamples :: int
  cf_SerialTools :: "string list"

definition Defaults :: Config where
  "Defaults = \<lparr>cf_MaxParallel = 8, cf_MinSamples = 5, cf_SuccessFloor = r64 (7/10), cf_ComplexTools = 3,
     cf_DefaultTier = ''flash'', cf_ProTier = ''pro'', cf_InjectMax = 8, cf_TierMinSamples = 10,
     cf_SerialTools = []\<rparr>"

section \<open>The tier learner\<close>

record TierObservation =
  to_Tier :: string
  to_Success :: bool
  to_Tokens :: int

record tierClassBucket =
  tb_samples :: int
  tb_successEWMA :: f64
  tb_hasSuccess :: bool
  tb_costSamples :: int
  tb_costEWMA :: f64
  tb_hasCost :: bool

definition empty_bucket :: tierClassBucket where
  "empty_bucket = \<lparr>tb_samples = 0, tb_successEWMA = f0, tb_hasSuccess = False, tb_costSamples = 0, tb_costEWMA = f0,
     tb_hasCost = False\<rparr>"

record tierLearner =
  tl_minSamples :: int
  tl_alpha :: f64
  tl_byTier :: "(string, tierClassBucket) gomap"
  tl_learnedUse :: int
  tl_fallbacks :: int

definition newTierLearner :: "int \<Rightarrow> tierLearner" where
  "newTierLearner n = \<lparr>tl_minSamples = (if n \<le> 0 then 10 else n), tl_alpha = r64 (1/5), tl_byTier = [],
     tl_learnedUse = 0, tl_fallbacks = 0\<rparr>"

definition ewma :: "f64 \<Rightarrow> f64 \<Rightarrow> f64 \<Rightarrow> f64" where
  "ewma alpha new old = fadd (fmul alpha new) (fmul (fsub f1 alpha) old)"

definition observe_bucket :: "f64 \<Rightarrow> TierObservation \<Rightarrow> tierClassBucket \<Rightarrow> tierClassBucket" where
  "observe_bucket alpha ob b0 =
     (let b1 = b0\<lparr>tb_samples := tb_samples b0 + 1\<rparr>;
          sv = (if to_Success ob then f1 else f0);
          b2 = (if \<not> tb_hasSuccess b1 then b1\<lparr>tb_successEWMA := sv, tb_hasSuccess := True\<rparr>
                else b1\<lparr>tb_successEWMA := ewma alpha sv (tb_successEWMA b1)\<rparr>)
      in if to_Tokens ob > 0 then
           let b3 = b2\<lparr>tb_costSamples := tb_costSamples b2 + 1\<rparr> in
           if \<not> tb_hasCost b3 then b3\<lparr>tb_costEWMA := f_of_int (to_Tokens ob), tb_hasCost := True\<rparr>
           else b3\<lparr>tb_costEWMA := ewma alpha (f_of_int (to_Tokens ob)) (tb_costEWMA b3)\<rparr>
         else b2)"

definition tl_observe :: "TierObservation \<Rightarrow> tierLearner \<Rightarrow> tierLearner" where
  "tl_observe ob l =
     (let b = (case m_get (tl_byTier l) (to_Tier ob) of None \<Rightarrow> empty_bucket | Some b \<Rightarrow> b)
      in l\<lparr>tl_byTier := m_set (to_Tier ob) (observe_bucket (tl_alpha l) ob b) (tl_byTier l)\<rparr>)"

text \<open>\<open>None\<close> is the panic of \<open>pro.hasCost\<close> on a nil bucket; the condition is evaluated left to right.\<close>

definition decideComplex ::
  "Config \<Rightarrow> tierLearner \<Rightarrow> ((string \<times> string) option \<times> tierLearner) option" where
  "decideComplex cfg l =
     (case m_get (tl_byTier l) (cf_DefaultTier cfg) of
        None \<Rightarrow> Some (None, l\<lparr>tl_fallbacks := tl_fallbacks l + 1\<rparr>)
      | Some cheap \<Rightarrow>
          if tb_samples cheap < tl_minSamples l \<or> \<not> tb_hasSuccess cheap
          then Some (None, l\<lparr>tl_fallbacks := tl_fallbacks l + 1\<rparr>)
          else
            let l' = l\<lparr>tl_learnedUse := tl_learnedUse l + 1\<rparr>;
                needs = Some (Some (cf_ProTier cfg, ''learned:complex-needs-pro''), l') in
            if fle (cf_SuccessFloor cfg) (tb_successEWMA cheap) then
              (case m_get (tl_byTier l) (cf_ProTier cfg) of
                 None \<Rightarrow> None
               | Some pro \<Rightarrow>
                   if \<not> tb_hasCost pro \<or> \<not> tb_hasCost cheap \<or> fle (tb_costEWMA cheap) (tb_costEWMA pro)
                   then Some (Some (cf_DefaultTier cfg, ''learned:complex-cheap-ok''), l')
                   else needs)
            else needs)"

section \<open>The rule decider\<close>

record toolStat =
  ts_runs :: int
  ts_failures :: int
  ts_durMs :: int

definition successRate :: "toolStat \<Rightarrow> f64" where
  "successRate t = (if ts_runs t = 0 then f1
     else fdiv (f_of_int (ts_runs t - ts_failures t)) (f_of_int (ts_runs t)))"

record RuleDecider =
  rd_cfg :: Config
  rd_stats :: "(string, toolStat) gomap"
  rd_tierLearn :: tierLearner

definition NewRuleDecider :: "Config \<Rightarrow> RuleDecider" where
  "NewRuleDecider c0 =
     (let def = Defaults;
          c1 = (if cf_MaxParallel c0 \<le> 0 then c0\<lparr>cf_MaxParallel := cf_MaxParallel def\<rparr> else c0);
          c2 = (if cf_MinSamples c1 \<le> 0 then c1\<lparr>cf_MinSamples := cf_MinSamples def\<rparr> else c1);
          c3 = (if fle (cf_SuccessFloor c2) f0 \<or> flt f1 (cf_SuccessFloor c2)
                then c2\<lparr>cf_SuccessFloor := cf_SuccessFloor def\<rparr> else c2);
          c4 = (if cf_ComplexTools c3 \<le> 0 then c3\<lparr>cf_ComplexTools := cf_ComplexTools def\<rparr> else c3);
          c5 = (if cf_DefaultTier c4 = [] then c4\<lparr>cf_DefaultTier := cf_DefaultTier def\<rparr> else c4);
          c6 = (if cf_ProTier c5 = [] then c5\<lparr>cf_ProTier := cf_ProTier def\<rparr> else c5);
          c7 = (if cf_InjectMax c6 \<le> 0 then c6\<lparr>cf_InjectMax := cf_InjectMax def\<rparr> else c6);
          c8 = (if cf_TierMinSamples c7 \<le> 0 then c7\<lparr>cf_TierMinSamples := cf_TierMinSamples def\<rparr> else c7)
      in \<lparr>rd_cfg = c8, rd_stats = [], rd_tierLearn = newTierLearner (cf_TierMinSamples c8)\<rparr>)"

definition ApplyEvolution :: "f64 \<Rightarrow> RuleDecider \<Rightarrow> bool \<times> RuleDecider" where
  "ApplyEvolution successFloor d =
     (if is_nan successFloor \<or> is_inf successFloor then (True, d)
      else let a = (if flt successFloor f0 then f0 else successFloor);
               b = (if flt f1 a then f1 else a)
           in (False, d\<lparr>rd_cfg := (rd_cfg d)\<lparr>cf_SuccessFloor := b\<rparr>\<rparr>))"

definition ObserveTier :: "TierObservation \<Rightarrow> RuleDecider \<Rightarrow> RuleDecider" where
  "ObserveTier ob d = (if to_Tier ob = [] then d else d\<lparr>rd_tierLearn := tl_observe ob (rd_tierLearn d)\<rparr>)"

definition Observe :: "string \<Rightarrow> bool \<Rightarrow> int \<Rightarrow> RuleDecider \<Rightarrow> RuleDecider" where
  "Observe name success durMs d =
     (let st = (case m_get (rd_stats d) name of None \<Rightarrow> \<lparr>ts_runs = 0, ts_failures = 0, ts_durMs = 0\<rparr> | Some s \<Rightarrow> s);
          st' = \<lparr>ts_runs = ts_runs st + 1, ts_failures = ts_failures st + (if success then 0 else 1),
                 ts_durMs = ts_durMs st + durMs\<rparr>
      in d\<lparr>rd_stats := m_set name st' (rd_stats d)\<rparr>)"

definition SerialToolNames :: "string list" where
  "SerialToolNames = [''complete_step'', ''todo_write'', ''wait'', ''bash_output'', ''use_capability'', ''compress'']"

definition serialNames :: "RuleDecider \<Rightarrow> string list" where
  "serialNames d = SerialToolNames @ cf_SerialTools (rd_cfg d)"

definition passesBehaviorGate :: "RuleDecider \<Rightarrow> string \<Rightarrow> bool" where
  "passesBehaviorGate d name =
     (case m_get (rd_stats d) name of None \<Rightarrow> True
      | Some st \<Rightarrow> ts_runs st < cf_MinSamples (rd_cfg d) \<or> fle (cf_SuccessFloor (rd_cfg d)) (successRate st))"

definition parallelisable :: "RuleDecider \<Rightarrow> ToolCallInfo \<Rightarrow> bool" where
  "parallelisable d c \<longleftrightarrow> tc_ReadOnly c \<and> tc_Name c \<notin> set (serialNames d) \<and> passesBehaviorGate d (tc_Name c)"

text \<open>The inner loop \<open>for s := start; s < i; s += cap\<close>, for the positive cap \<open>NewRuleDecider\<close> ensures.\<close>

function chunks :: "nat \<Rightarrow> 'a list \<Rightarrow> 'a list list" where
  "chunks n xs = (if xs = [] then [] else if n = 0 then [xs] else take n xs # chunks n (drop n xs))"
  by pat_completeness auto
termination
  by (relation "measure (\<lambda>(n, xs). length xs)") auto

declare chunks.simps [simp del]

function partition_calls :: "RuleDecider \<Rightarrow> ToolCallInfo list \<Rightarrow> ToolCallInfo list list" where
  "partition_calls d [] = []"
| "partition_calls d (c # cs) =
     (if parallelisable d c then
        chunks (nat (cf_MaxParallel (rd_cfg d))) (takeWhile (parallelisable d) (c # cs)) @
          partition_calls d (dropWhile (parallelisable d) (c # cs))
      else [c] # partition_calls d cs)"
  by pat_completeness auto
termination
  by (relation "measure (\<lambda>(d, cs). length cs)") (auto simp: le_imp_less_Suc length_dropWhile_le)

definition ids :: "ToolCallInfo list \<Rightarrow> string list" where
  "ids = map tc_CallID"

definition partition_ids :: "RuleDecider \<Rightarrow> ToolCallInfo list \<Rightarrow> string list list" where
  "partition_ids d calls = map ids (partition_calls d calls)"

definition canonicalNames :: "string list \<Rightarrow> string list" where
  "canonicalNames names =
     sort_strings (fold (\<lambda>n out. let t = trim_space n in if t = [] \<or> t \<in> set out then out else out @ [t]) names [])"

definition withoutSuspended :: "ToolCallInfo list \<Rightarrow> string list \<Rightarrow> ToolCallInfo list" where
  "withoutSuspended calls suspended = filter (\<lambda>c. tc_Name c \<notin> set suspended) calls"

definition decideBudgetAction :: "BudgetState \<Rightarrow> string" where
  "decideBudgetAction b =
     (if fle (b_LimitUSD b) f0 \<or> flt (b_SpentUSD b) f0 then []
      else let ratio = fdiv (b_SpentUSD b) (b_LimitUSD b) in
        if fle f1 ratio then BudgetActionHardStop
        else if fle (r64 (9/10)) ratio then BudgetActionDegradeTier
        else if fle (r64 (8/10)) ratio then BudgetActionDegradeInject
        else if fle (r64 (7/10)) ratio then BudgetActionHaltPrefetch
        else [])"

definition norm_intent :: "string \<Rightarrow> string" where
  "norm_intent intent = to_lower (trim_space intent)"

definition decideTier :: "string \<Rightarrow> ToolCallInfo list \<Rightarrow> Config \<Rightarrow> string \<times> string" where
  "decideTier intent0 calls cfg =
     (let intent = norm_intent intent0 in
      if intent = ''mutation'' \<or> intent = ''persistent_action'' then (cf_ProTier cfg, ''intent:'' @ intent)
      else case find (\<lambda>c. \<not> tc_ReadOnly c) calls of
        Some c \<Rightarrow> (cf_ProTier cfg, ''writer:'' @ tc_Name c)
      | None \<Rightarrow>
          if int (length calls) > cf_ComplexTools cfg then (cf_ProTier cfg, ''complex:'' @ itoa (length calls))
          else (cf_DefaultTier cfg, ''default''))"

definition isComplexShape :: "string \<Rightarrow> ToolCallInfo list \<Rightarrow> Config \<Rightarrow> bool" where
  "isComplexShape intent calls cfg \<longleftrightarrow>
     int (length calls) > cf_ComplexTools cfg \<and> list_all tc_ReadOnly calls \<and>
     norm_intent intent \<noteq> ''mutation'' \<and> norm_intent intent \<noteq> ''persistent_action''"

definition canonicalInjectIDs :: "Hit list \<Rightarrow> int \<Rightarrow> string list" where
  "canonicalInjectIDs hits mx =
     (let xs = sort_strings (List.map_filter (\<lambda>h. map_option sl_ID (h_Slice h)) hits)
      in if mx > 0 \<and> int (length xs) > mx then take (nat mx) xs else xs)"

definition normalizedPrefetchLoad :: "PrefetchLoadHint \<Rightarrow> string list list \<Rightarrow> int \<Rightarrow> PrefetchLoadHint" where
  "normalizedPrefetchLoad h0 groups maxParallel =
     (let h1 = (if ph_ConcurrencyLimit h0 \<le> 0 then h0\<lparr>ph_ConcurrencyLimit := maxParallel\<rparr> else h0);
          h2 = (if ph_ConcurrencyUsed h1 \<le> 0
                then h1\<lparr>ph_ConcurrencyUsed := fold (\<lambda>g m. max m (int (length g))) groups (ph_ConcurrencyUsed h1)\<rparr> else h1)
      in if ph_ConcurrencyUsed h2 > ph_ConcurrencyLimit h2 \<and> ph_ConcurrencyLimit h2 > 0
         then h2\<lparr>ph_ConcurrencyUsed := ph_ConcurrencyLimit h2\<rparr> else h2)"

record PrefetchPlanResult =
  pp_IDs :: "string list"
  pp_ProbeIDs :: "string list"
  pp_Reason :: string

record Prefetchers =
  pf_load :: "(string list \<Rightarrow> PrefetchLoadHint \<Rightarrow> PrefetchPlanResult) option"
  pf_plain :: "(string list \<Rightarrow> string list) option"

text \<open>The tier with the learned overlay; \<open>None\<close> is the panic inside \<open>decideComplex\<close>.\<close>

definition tier_with_overlay ::
  "string \<Rightarrow> ToolCallInfo list \<Rightarrow> RuleDecider \<Rightarrow> ((string \<times> string) \<times> RuleDecider) option" where
  "tier_with_overlay intent active d =
     (let (tier, reason) = decideTier intent active (rd_cfg d) in
      if (reason = ''default'' \<or> prefix ''complex:'' reason) \<and> isComplexShape intent active (rd_cfg d) then
        (case decideComplex (rd_cfg d) (rd_tierLearn d) of
           None \<Rightarrow> None
         | Some (dec, l) \<Rightarrow>
             Some ((case dec of None \<Rightarrow> (tier, reason) | Some tr \<Rightarrow> tr), d\<lparr>rd_tierLearn := l\<rparr>))
      else Some ((tier, reason), d))"

definition DecideRound :: "Prefetchers \<Rightarrow> RoundInput \<Rightarrow> RuleDecider \<Rightarrow> (RoundPlan \<times> RuleDecider) option" where
  "DecideRound pf inp d0 =
     (let suspended = canonicalNames (ri_SuspendedTools inp);
          active = withoutSuspended (ri_ToolCalls inp) suspended;
          action = decideBudgetAction (ri_Budget inp)
      in case tier_with_overlay (ri_Intent inp) active d0 of None \<Rightarrow> None
         | Some ((tier, reason), d) \<Rightarrow>
             let groups = partition_ids d active;
                 names = map tc_Name active;
                 pres = (case pf_load pf of
                   Some f \<Rightarrow> f names (normalizedPrefetchLoad (ri_PrefetchLoad inp) groups (cf_MaxParallel (rd_cfg d)))
                 | None \<Rightarrow> (case pf_plain pf of
                     Some f \<Rightarrow> \<lparr>pp_IDs = f names, pp_ProbeIDs = [], pp_Reason = []\<rparr>
                   | None \<Rightarrow> \<lparr>pp_IDs = [], pp_ProbeIDs = [], pp_Reason = []\<rparr>));
                 pres' = (if action = BudgetActionHaltPrefetch \<or> action = BudgetActionHardStop
                          then \<lparr>pp_IDs = [], pp_ProbeIDs = [], pp_Reason = ''budget:'' @ action\<rparr> else pres);
                 (tier', reason') = (if action = BudgetActionDegradeTier
                   then (cf_DefaultTier (rd_cfg d), ''budget:'' @ BudgetActionDegradeTier) else (tier, reason))
             in Some (\<lparr>rp_ParallelGroups = groups, rp_Tier = tier', rp_TierReason = reason',
                       rp_InjectIDs = canonicalInjectIDs (ri_SliceHits inp) (cf_InjectMax (rd_cfg d)),
                       rp_PrefetchIDs = pp_IDs pres', rp_PrefetchProbeIDs = pp_ProbeIDs pres',
                       rp_PrefetchReason = pp_Reason pres', rp_SuspendTools = suspended,
                       rp_MaxParallel = cf_MaxParallel (rd_cfg d), rp_BudgetAction = action\<rparr>, d))"

end
