(* ===== verification/Sched_Correct.thy ===== *)
theory Sched_Correct
  imports Sched
begin

text \<open>
  What a scheduled round guarantees: parallel groups that are safe and keep the provider's order, the
  safety floor of the tier, canonical injection lists, and the bounds of the learner's averages;
  and the two places where the scheduler does not do what it means to.
\<close>

section \<open>Parallel groups\<close>

lemma concat_chunks: "concat (chunks n xs) = xs"
  by (induction n xs rule: chunks.induct) (subst chunks.simps, auto)

lemma chunks_bound: "0 < n \<Longrightarrow> g \<in> set (chunks n xs) \<Longrightarrow> g \<noteq> [] \<and> length g \<le> n \<and> set g \<subseteq> set xs"
proof (induction n xs rule: chunks.induct)
  case (1 n xs)
  show ?case
  proof (cases "xs = []")
    case True
    then show ?thesis using 1(3) by (simp add: chunks.simps)
  next
    case False
    then have "g = take n xs \<or> g \<in> set (chunks n (drop n xs))" using 1(2,3) by (subst (asm) chunks.simps) auto
    then show ?thesis
      using 1(1) [OF False _ 1(2)] 1(2) False set_take_subset [of n xs] set_drop_subset [of n xs] by auto
  qed
qed

lemma concat_partition_calls: "concat (partition_calls d cs) = cs"
  by (induction d cs rule: partition_calls.induct) (auto simp: concat_chunks)

lemma partition_calls_groups:
  assumes "0 < cf_MaxParallel (rd_cfg d)" "g \<in> set (partition_calls d cs)"
  shows "g \<noteq> [] \<and> int (length g) \<le> max 1 (cf_MaxParallel (rd_cfg d)) \<and> (length g > 1 \<longrightarrow> (\<forall>c\<in>set g. parallelisable d c))"
  using assms
proof (induction d cs rule: partition_calls.induct)
  case (2 d c cs)
  have n: "0 < nat (cf_MaxParallel (rd_cfg d))" using 2(3) by simp
  show ?case
  proof (cases "parallelisable d c")
    case True
    then consider "g \<in> set (chunks (nat (cf_MaxParallel (rd_cfg d))) (takeWhile (parallelisable d) (c # cs)))"
      | "g \<in> set (partition_calls d (dropWhile (parallelisable d) (c # cs)))" using 2(4) by auto
    then show ?thesis
    proof cases
      case 1
      have ro: "\<forall>c\<in>set g. parallelisable d c"
        using chunks_bound [OF n 1] set_takeWhileD [of _ "parallelisable d" "c # cs"] by blast
      have "g \<noteq> []" "length g \<le> nat (cf_MaxParallel (rd_cfg d))" using chunks_bound [OF n 1] by blast+
      then show ?thesis using ro by (simp add: nat_le_iff le_nat_iff)
    next
      case b: 2
      show ?thesis using 2(1) [OF True 2(3) b] .
    qed
  next
    case False
    then have "g = [c] \<or> g \<in> set (partition_calls d cs)" using 2(4) by simp
    then show ?thesis using 2(2) [OF False 2(3)] by (elim disjE) simp_all
  qed
qed simp

section \<open>The tier\<close>

lemma decideTier_floor:
  assumes "norm_intent intent = ''mutation'' \<or> norm_intent intent = ''persistent_action'' \<or> (\<exists>c\<in>set calls. \<not> tc_ReadOnly c)"
  shows "fst (decideTier intent calls cfg) = cf_ProTier cfg \<and> \<not> isComplexShape intent calls cfg"
proof -
  have "isComplexShape intent calls cfg \<Longrightarrow> False" using assms by (auto simp: isComplexShape_def list_all_iff)
  moreover have "fst (decideTier intent calls cfg) = cf_ProTier cfg"
    using assms by (auto simp: decideTier_def Let_def find_None_iff split: option.splits)
  ultimately show ?thesis by blast
qed

lemma tier_with_overlay_cfg: "tier_with_overlay intent cs d = Some (tr, d') \<Longrightarrow> rd_cfg d' = rd_cfg d \<and> rd_stats d' = rd_stats d"
  by (auto simp: tier_with_overlay_def Let_def split: prod.splits if_splits option.splits)

lemma parallelisable_cong: "rd_cfg d' = rd_cfg d \<Longrightarrow> rd_stats d' = rd_stats d \<Longrightarrow> parallelisable d' = parallelisable d"
  by (simp add: parallelisable_def [abs_def] serialNames_def passesBehaviorGate_def cong: option.case_cong)

definition activeCalls :: "RoundInput \<Rightarrow> ToolCallInfo list" where
  "activeCalls inp = withoutSuspended (ri_ToolCalls inp) (canonicalNames (ri_SuspendedTools inp))"

definition safe_group :: "RuleDecider \<Rightarrow> ToolCallInfo list \<Rightarrow> bool" where
  "safe_group d g \<longleftrightarrow> g \<noteq> [] \<and> int (length g) \<le> cf_MaxParallel (rd_cfg d) \<and>
     (length g > 1 \<longrightarrow> list_all (\<lambda>c. tc_ReadOnly c \<and> tc_Name c \<notin> set (serialNames d) \<and> passesBehaviorGate d (tc_Name c)) g)"

lemma DecideRound_parts:
  assumes "DecideRound pf inp d = Some (plan, d')"
  shows "\<exists>tier reason. tier_with_overlay (ri_Intent inp) (activeCalls inp) d = Some ((tier, reason), d') \<and>
    rp_ParallelGroups plan = partition_ids d' (activeCalls inp) \<and>
    rp_BudgetAction plan = decideBudgetAction (ri_Budget inp) \<and>
    rp_Tier plan = (if rp_BudgetAction plan = BudgetActionDegradeTier then cf_DefaultTier (rd_cfg d) else tier) \<and>
    rp_InjectIDs plan = canonicalInjectIDs (ri_SliceHits inp) (cf_InjectMax (rd_cfg d)) \<and>
    (rp_BudgetAction plan = BudgetActionHaltPrefetch \<or> rp_BudgetAction plan = BudgetActionHardStop \<longrightarrow>
       rp_PrefetchIDs plan = [] \<and> rp_PrefetchProbeIDs plan = [])"
  using assms(1) tier_with_overlay_cfg unfolding activeCalls_def
  by (fastforce simp: DecideRound_def Let_def split: option.splits prod.splits if_splits)


text \<open>
  C23. The safety floor of the tier cannot be learned away. Whatever was observed before, a round with a
  mutating intent or with a call that is not read-only is planned on the strong tier, unless the
  budget has passed 90 percent, in which case the plan says so and uses the default tier.
\<close>

theorem tier_floor_never_learned_away:
  assumes "DecideRound pf inp d = Some (plan, d')"
  assumes "norm_intent (ri_Intent inp) = ''mutation'' \<or> norm_intent (ri_Intent inp) = ''persistent_action'' \<or>
    (\<exists>c\<in>set (activeCalls inp). \<not> tc_ReadOnly c)"
  shows "rp_Tier plan = cf_ProTier (rd_cfg d) \<or>
    (rp_BudgetAction plan = BudgetActionDegradeTier \<and> rp_Tier plan = cf_DefaultTier (rd_cfg d))"
proof -
  obtain tier reason where p: "tier_with_overlay (ri_Intent inp) (activeCalls inp) d = Some ((tier, reason), d')"
    "rp_Tier plan = (if rp_BudgetAction plan = BudgetActionDegradeTier then cf_DefaultTier (rd_cfg d) else tier)"
    using DecideRound_parts [OF assms(1)] by blast
  have "tier = cf_ProTier (rd_cfg d)"
    using p(1) decideTier_floor [OF assms(2), of "rd_cfg d"] by (auto simp: tier_with_overlay_def split: prod.splits)
  then show ?thesis using p(2) by auto
qed

section \<open>Every state the scheduler can reach\<close>

inductive sched_reach :: "Config \<Rightarrow> RuleDecider \<Rightarrow> bool" for c0 where
  start: "sched_reach c0 (NewRuleDecider c0)"
| observe: "sched_reach c0 d \<Longrightarrow> sched_reach c0 (Observe name success durMs d)"
| tier: "sched_reach c0 d \<Longrightarrow> sched_reach c0 (ObserveTier ob d)"
| evolve: "sched_reach c0 d \<Longrightarrow> sched_reach c0 (snd (ApplyEvolution x d))"
| round: "sched_reach c0 d \<Longrightarrow> DecideRound pf inp d = Some (plan, d') \<Longrightarrow> sched_reach c0 d'"

definition bucket_ok :: "tierClassBucket \<Rightarrow> bool" where
  "bucket_ok b \<longleftrightarrow> fle f0 (tb_successEWMA b) \<and> fle (tb_successEWMA b) f1 \<and> 0 \<le> tb_costSamples b \<and>
     tb_costSamples b \<le> tb_samples b \<and> (tb_hasSuccess b \<longleftrightarrow> 0 < tb_samples b)"

definition sched_inv :: "RuleDecider \<Rightarrow> bool" where
  "sched_inv d \<longleftrightarrow> 0 < cf_MaxParallel (rd_cfg d) \<and> 0 < cf_MinSamples (rd_cfg d) \<and> 0 < cf_ComplexTools (rd_cfg d) \<and>
     0 < cf_InjectMax (rd_cfg d) \<and> cf_DefaultTier (rd_cfg d) \<noteq> [] \<and> cf_ProTier (rd_cfg d) \<noteq> [] \<and>
     0 < tl_minSamples (rd_tierLearn d) \<and> tl_alpha (rd_tierLearn d) = r64 (1/5) \<and>
     (\<forall>k b. m_get (tl_byTier (rd_tierLearn d)) k = Some b \<longrightarrow> bucket_ok b) \<and>
     (\<forall>k t. m_get (rd_stats d) k = Some t \<longrightarrow> 0 \<le> ts_failures t \<and> ts_failures t \<le> ts_runs t)"

lemma alpha_split: "r64 (1/5) = Fin (3602879701896397 / 18014398509481984)"
  "fsub f1 (r64 (1/5)) = Fin (3602879701896397 / 4503599627370496)"
  by code_simp+

lemma r64_unit: "0 \<le> x \<Longrightarrow> x \<le> 1 \<Longrightarrow> \<exists>q. r64 x = Fin q \<and> 0 \<le> q \<and> q \<le> 1"
  by (rule r64.unit_interval) blast+

lemma r64_le_repr: assumes "r64 b = Fin b" "x \<le> b" "0 \<le> x" "b \<le> 1" shows "\<exists>q. r64 x = Fin q \<and> 0 \<le> q \<and> q \<le> b"
proof -
  obtain q where q: "r64 x = Fin q" "0 \<le> q" using r64_unit [of x] assms by auto
  have "fle (r64 x) (r64 b)" by (rule r64_mono [OF assms(2)])
  then show ?thesis using q assms(1) by simp
qed

lemma ewma_unit:
  assumes "n = f0 \<or> n = f1" "fle f0 old" "fle old f1"
  shows "fle f0 (ewma (r64 (1/5)) n old) \<and> fle (ewma (r64 (1/5)) n old) f1"
proof -
  let ?A = "3602879701896397 / 18014398509481984 :: rat" and ?B = "3602879701896397 / 4503599627370496 :: rat"
  obtain q where q: "old = Fin q" "0 \<le> q" "q \<le> 1" using assms(2,3) by (cases old) (auto simp: fle_def)
  have A: "r64 ?A = Fin ?A" "r64 0 = Fin 0" and B: "r64 ?B = Fin ?B" by code_simp+
  have "?B * q \<le> ?B" "0 \<le> ?B * q" using q by simp_all
  then have "\<exists>y. r64 (?B * q) = Fin y \<and> 0 \<le> y \<and> y \<le> ?B" by (rule r64_le_repr [OF B]) simp
  then obtain y where y: "r64 (?B * q) = Fin y" "0 \<le> y" "y \<le> ?B" by blast
  have "fmul (Fin ?A) n = (if n = f0 then Fin 0 else Fin ?A)" using assms(1) A by (elim disjE) simp_all
  then have "fmul (Fin ?A) n = Fin (if n = f0 then 0 else ?A)" by (simp split: if_split)
  moreover have "0 \<le> (if n = f0 then 0 else ?A)" "(if n = f0 then 0 else ?A) \<le> ?A" by (simp_all split: if_split)
  ultimately have "\<exists>x. fmul (Fin ?A) n = Fin x \<and> 0 \<le> x \<and> x \<le> ?A" by blast
  then obtain x where x: "fmul (Fin ?A) n = Fin x" "0 \<le> x" "x \<le> ?A" by blast
  have "r64 (?A + ?B) = Fin 1" by code_simp
  moreover have "x + y \<le> ?A + ?B" using x y by linarith
  ultimately have "fle (r64 (x + y)) (Fin 1)" using r64_mono [of "x + y" "?A + ?B"] by simp
  moreover have "ewma (r64 (1/5)) n old = r64 (x + y)"
    unfolding ewma_def alpha_split(2) q(1) by (simp only: alpha_split(1) x(1) fmul.simps y(1) fadd.simps)
  ultimately show ?thesis using x y r64.nonneg [of "x + y"] by simp
qed

lemma observe_bucket_ok:
  assumes "bucket_ok b" shows "bucket_ok (observe_bucket (r64 (1/5)) ob b)"
proof -
  have e: "fle f0 (ewma (r64 (1/5)) (if to_Success ob then f1 else f0) (tb_successEWMA b)) \<and>
    fle (ewma (r64 (1/5)) (if to_Success ob then f1 else f0) (tb_successEWMA b)) f1"
    using assms by (intro ewma_unit) (auto simp: bucket_ok_def)
  show ?thesis using assms e by (auto simp: bucket_ok_def observe_bucket_def Let_def)
qed

lemma decideComplex_keeps:
  "decideComplex cfg l = Some (dec, l') \<Longrightarrow>
   tl_byTier l' = tl_byTier l \<and> tl_minSamples l' = tl_minSamples l \<and> tl_alpha l' = tl_alpha l"
  by (auto simp: decideComplex_def Let_def split: option.splits if_splits)

lemma DecideRound_state:
  assumes "DecideRound pf inp d = Some (plan, d')"
  shows "rd_cfg d' = rd_cfg d \<and> rd_stats d' = rd_stats d \<and> tl_byTier (rd_tierLearn d') = tl_byTier (rd_tierLearn d) \<and>
    tl_minSamples (rd_tierLearn d') = tl_minSamples (rd_tierLearn d) \<and> tl_alpha (rd_tierLearn d') = tl_alpha (rd_tierLearn d)"
proof -
  obtain tr where p: "tier_with_overlay (ri_Intent inp) (activeCalls inp) d = Some (tr, d')"
    using DecideRound_parts [OF assms] by blast
  show ?thesis using p decideComplex_keeps
    by (fastforce simp: tier_with_overlay_def Let_def split: prod.splits if_splits option.splits)
qed

lemma NewRuleDecider_inv: "sched_inv (NewRuleDecider c0)"
proof -
  define c1 where "c1 = (if cf_MaxParallel c0 \<le> 0 then c0\<lparr>cf_MaxParallel := cf_MaxParallel Defaults\<rparr> else c0)"
  define c2 where "c2 = (if cf_MinSamples c1 \<le> 0 then c1\<lparr>cf_MinSamples := cf_MinSamples Defaults\<rparr> else c1)"
  define c3 where "c3 = (if fle (cf_SuccessFloor c2) f0 \<or> flt f1 (cf_SuccessFloor c2) then c2\<lparr>cf_SuccessFloor := cf_SuccessFloor Defaults\<rparr> else c2)"
  define c4 where "c4 = (if cf_ComplexTools c3 \<le> 0 then c3\<lparr>cf_ComplexTools := cf_ComplexTools Defaults\<rparr> else c3)"
  define c5 where "c5 = (if cf_DefaultTier c4 = [] then c4\<lparr>cf_DefaultTier := cf_DefaultTier Defaults\<rparr> else c4)"
  define c6 where "c6 = (if cf_ProTier c5 = [] then c5\<lparr>cf_ProTier := cf_ProTier Defaults\<rparr> else c5)"
  define c7 where "c7 = (if cf_InjectMax c6 \<le> 0 then c6\<lparr>cf_InjectMax := cf_InjectMax Defaults\<rparr> else c6)"
  define c8 where "c8 = (if cf_TierMinSamples c7 \<le> 0 then c7\<lparr>cf_TierMinSamples := cf_TierMinSamples Defaults\<rparr> else c7)"
  have n: "NewRuleDecider c0 = \<lparr>rd_cfg = c8, rd_stats = [], rd_tierLearn = newTierLearner (cf_TierMinSamples c8)\<rparr>"
    by (simp only: NewRuleDecider_def Let_def c1_def [symmetric] c2_def [symmetric] c3_def [symmetric] c4_def [symmetric]
        c5_def [symmetric] c6_def [symmetric] c7_def [symmetric] c8_def [symmetric] cong: let_weak_cong)
  have k1: "0 < cf_MaxParallel c1"
    by (simp add: c1_def Defaults_def)
  have k2: "0 < cf_MaxParallel c2" "0 < cf_MinSamples c2"
    using k1 by (simp_all add: c2_def Defaults_def)
  have k3: "0 < cf_MaxParallel c3" "0 < cf_MinSamples c3"
    using k2 by (simp_all add: c3_def Defaults_def)
  have k4: "0 < cf_MaxParallel c4" "0 < cf_MinSamples c4" "0 < cf_ComplexTools c4"
    using k3 by (simp_all add: c4_def Defaults_def)
  have k5: "0 < cf_MaxParallel c5" "0 < cf_MinSamples c5" "0 < cf_ComplexTools c5" "cf_DefaultTier c5 \<noteq> []"
    using k4 by (simp_all add: c5_def Defaults_def)
  have k6: "0 < cf_MaxParallel c6" "0 < cf_MinSamples c6" "0 < cf_ComplexTools c6" "cf_DefaultTier c6 \<noteq> []" "cf_ProTier c6 \<noteq> []"
    using k5 by (simp_all add: c6_def Defaults_def)
  have k7: "0 < cf_MaxParallel c7" "0 < cf_MinSamples c7" "0 < cf_ComplexTools c7" "cf_DefaultTier c7 \<noteq> []" "cf_ProTier c7 \<noteq> []" "0 < cf_InjectMax c7"
    using k6 by (simp_all add: c7_def Defaults_def)
  have k8: "0 < cf_MaxParallel c8" "0 < cf_MinSamples c8" "0 < cf_ComplexTools c8" "cf_DefaultTier c8 \<noteq> []" "cf_ProTier c8 \<noteq> []" "0 < cf_InjectMax c8" "0 < cf_TierMinSamples c8"
    using k7 by (simp_all add: c8_def Defaults_def)
  show ?thesis using k8 by (simp add: n sched_inv_def newTierLearner_def)
qed

text \<open>
  C24. Everything the scheduler can learn stays in range. From any configuration and through any
  sequence of observations, evolutions and rounds, the caps the rules divide work by stay positive, the
  tiers stay named, every learned success average stays between 0 and 1 in floating point, a
  bucket has a success value exactly when it has samples, and failures never exceed runs.
\<close>

theorem scheduler_invariant:
  assumes "sched_reach c0 d"
  shows "sched_inv d"
  using assms
proof induction
  case start
  show ?case by (rule NewRuleDecider_inv)
next
  case (observe d name success durMs)
  then show ?case by (fastforce simp: sched_inv_def Observe_def Let_def m_get_set split: option.splits if_splits)
next
  case (tier d ob)
  have e: "bucket_ok empty_bucket" by (simp add: bucket_ok_def empty_bucket_def)
  have "bucket_ok (case m_get (tl_byTier (rd_tierLearn d)) (to_Tier ob) of None \<Rightarrow> empty_bucket | Some b \<Rightarrow> b)"
    using tier e by (auto simp: sched_inv_def split: option.splits)
  from observe_bucket_ok [OF this] show ?case using tier by (auto simp: sched_inv_def ObserveTier_def tl_observe_def Let_def m_get_set)
next
  case (evolve d x)
  then show ?case by (auto simp: sched_inv_def ApplyEvolution_def Let_def)
next
  case (round d pf inp plan d')
  then show ?case using DecideRound_state [OF round(2)] by (simp add: sched_inv_def)
qed

section \<open>When a round panics\<close>

definition cheap_proven :: "RuleDecider \<Rightarrow> bool" where
  "cheap_proven d = (case m_get (tl_byTier (rd_tierLearn d)) (cf_DefaultTier (rd_cfg d)) of None \<Rightarrow> False
     | Some cheap \<Rightarrow> tl_minSamples (rd_tierLearn d) \<le> tb_samples cheap \<and> tb_hasSuccess cheap \<and>
         fle (cf_SuccessFloor (rd_cfg d)) (tb_successEWMA cheap))"

lemma complex_reason:
  "isComplexShape intent calls cfg \<Longrightarrow> decideTier intent calls cfg = (cf_ProTier cfg, ''complex:'' @ itoa (length calls))"
  by (auto simp: isComplexShape_def decideTier_def Let_def find_None_iff list_all_iff split: option.splits)

lemma decideComplex_None:
  "decideComplex (rd_cfg d) (rd_tierLearn d) = None \<longleftrightarrow>
   cheap_proven d \<and> m_get (tl_byTier (rd_tierLearn d)) (cf_ProTier (rd_cfg d)) = None"
  by (auto simp: decideComplex_def cheap_proven_def Let_def not_less split: option.splits if_splits)

lemma DecideRound_None_iff:
  "DecideRound pf inp d = None \<longleftrightarrow>
   isComplexShape (ri_Intent inp) (activeCalls inp) (rd_cfg d) \<and> cheap_proven d \<and>
   m_get (tl_byTier (rd_tierLearn d)) (cf_ProTier (rd_cfg d)) = None"
proof -
  have "DecideRound pf inp d = None \<longleftrightarrow> tier_with_overlay (ri_Intent inp) (activeCalls inp) d = None"
    by (auto simp: DecideRound_def activeCalls_def Let_def split: option.splits prod.splits)
  also have "\<dots> \<longleftrightarrow> isComplexShape (ri_Intent inp) (activeCalls inp) (rd_cfg d) \<and> decideComplex (rd_cfg d) (rd_tierLearn d) = None"
    using complex_reason [of "ri_Intent inp" "activeCalls inp" "rd_cfg d"]
    by (auto simp: tier_with_overlay_def split: option.splits prod.splits)
  finally show ?thesis by (simp add: decideComplex_None)
qed

lemma ewma_one: "ewma (r64 (1/5)) f1 f1 = f1"
  by code_simp

definition flash_ok :: TierObservation where
  "flash_ok = \<lparr>to_Tier = ''flash'', to_Success = True, to_Tokens = 0\<rparr>"

lemma fresh_decider: "NewRuleDecider Defaults = \<lparr>rd_cfg = Defaults, rd_stats = [], rd_tierLearn = newTierLearner 10\<rparr>"
  by code_simp

definition flash_learner :: "tierClassBucket \<Rightarrow> RuleDecider" where
  "flash_learner b = \<lparr>rd_cfg = Defaults, rd_stats = [], rd_tierLearn = (newTierLearner 10)\<lparr>tl_byTier := [(''flash'', b)]\<rparr>\<rparr>"

lemma observe_flash:
  "ObserveTier flash_ok (NewRuleDecider Defaults) = flash_learner (observe_bucket (r64 (1/5)) flash_ok empty_bucket)"
  "ObserveTier flash_ok (flash_learner b) = flash_learner (observe_bucket (r64 (1/5)) flash_ok b)"
  by (simp_all add: fresh_decider flash_learner_def ObserveTier_def tl_observe_def newTierLearner_def m_get_def flash_ok_def)

lemma flash_history:
  "0 < n \<Longrightarrow> \<exists>b. ((ObserveTier flash_ok) ^^ n) (NewRuleDecider Defaults) = flash_learner b \<and>
     tb_samples b = int n \<and> tb_hasSuccess b \<and> tb_successEWMA b = f1"
proof (induction n)
  case (Suc n)
  show ?case
  proof (cases "n = 0")
    case True
    let ?b = "observe_bucket (r64 (1/5)) flash_ok empty_bucket"
    have "tb_samples ?b = 1" "tb_hasSuccess ?b" "tb_successEWMA ?b = f1"
      by (simp_all add: observe_bucket_def flash_ok_def empty_bucket_def)
    then show ?thesis using True by (auto simp: observe_flash(1))
  next
    case False
    then obtain b where b: "((ObserveTier flash_ok) ^^ n) (NewRuleDecider Defaults) = flash_learner b"
       "tb_samples b = int n" "tb_hasSuccess b" "tb_successEWMA b = f1" using Suc.IH by auto
    let ?b = "observe_bucket (r64 (1/5)) flash_ok b"
    have "((ObserveTier flash_ok) ^^ Suc n) (NewRuleDecider Defaults) = flash_learner ?b" by (simp add: b(1) observe_flash)
    moreover have "tb_samples ?b = int (Suc n)" "tb_hasSuccess ?b" "tb_successEWMA ?b = f1"
      using b by (simp_all add: observe_bucket_def flash_ok_def ewma_one)
    ultimately show ?thesis by blast
  qed
qed simp

text \<open>
  Exactly when planning a round fails. \<open>DecideRound\<close> returns a plan on every input except one
  kind: a complex read-only round, after the default tier has enough samples with a success average at the floor,
  while the strong tier has no observation at all. There \<open>decideComplex\<close> dereferences the missing
  bucket of the strong tier.
\<close>

lemma round_panics_iff:
  "DecideRound pf inp d = None \<longleftrightarrow>
   isComplexShape (ri_Intent inp) (activeCalls inp) (rd_cfg d) \<and> cheap_proven d \<and>
   m_get (tl_byTier (rd_tierLearn d)) (cf_ProTier (rd_cfg d)) = None"
  by (rule DecideRound_None_iff)

text \<open>
  The failing state is reached by ordinary use. A scheduler with the default configuration that has
  seen ten or more successful rounds on the default tier, and none on the strong tier, panics on the next complex
  read-only round.
\<close>

lemma learned_default_tier_panics:
  assumes "10 \<le> n" "isComplexShape (ri_Intent inp) (activeCalls inp) Defaults"
  shows "DecideRound pf inp (((ObserveTier flash_ok) ^^ n) (NewRuleDecider Defaults)) = None"
proof -
  obtain b where b: "((ObserveTier flash_ok) ^^ n) (NewRuleDecider Defaults) = flash_learner b" "tb_samples b = int n" "tb_hasSuccess b" "tb_successEWMA b = f1" using flash_history [of n] assms(1) by auto
  have "fle (r64 (7/10)) f1" by code_simp
  then show ?thesis using b assms unfolding DecideRound_None_iff
    by (simp add: cheap_proven_def flash_learner_def newTierLearner_def m_get_def Defaults_def)
qed

section \<open>Budgets\<close>

text \<open>
  What a budget action does to prefetching. The plan carries the action the thresholds give. At
  70 to 80 percent of the budget, and from 100 percent on, prefetching stops; but between 80 and 100 percent, where the action
  is to degrade the injection or the tier, the planner's prefetch list is used in full: spending more turns prefetching on again.
\<close>

lemma budget_prefetch:
  assumes "DecideRound \<lparr>pf_load = None, pf_plain = Some f\<rparr> inp d = Some (plan, d')"
  shows "rp_BudgetAction plan = decideBudgetAction (ri_Budget inp) \<and>
    rp_PrefetchIDs plan =
      (if rp_BudgetAction plan = BudgetActionHaltPrefetch \<or> rp_BudgetAction plan = BudgetActionHardStop then []
       else f (map tc_Name (activeCalls inp)))"
  using assms by (auto simp: DecideRound_def activeCalls_def Let_def split: option.splits prod.splits if_splits)

section \<open>A round of five calls\<close>

definition demo_call :: "string \<Rightarrow> string \<Rightarrow> bool \<Rightarrow> ToolCallInfo" where
  "demo_call i n r = \<lparr>tc_CallID = i, tc_Name = n, tc_ReadOnly = r\<rparr>"

definition demo_input :: "ToolCallInfo list \<Rightarrow> int \<Rightarrow> RoundInput" where
  "demo_input calls spent = \<lparr>ri_Intent = ''analysis'', ri_ToolCalls = calls, ri_SliceHits = [], ri_SuspendedTools = [''wait''],
     ri_Budget = \<lparr>b_LimitUSD = Fin 100, b_SpentUSD = f_of_int spent\<rparr>,
     ri_PrefetchLoad = \<lparr>ph_ConcurrencyUsed = 0, ph_ConcurrencyLimit = 0, ph_WaitWindowMS = 0, ph_TaskEstimateMS = 0\<rparr>\<rparr>"

definition demo_pf :: Prefetchers where
  "demo_pf = \<lparr>pf_load = None, pf_plain = Some (map (\<lambda>n. ''pre:'' @ n))\<rparr>"

definition demo_reads :: "ToolCallInfo list" where
  "demo_reads = [demo_call ''1'' ''read'' True, demo_call ''2'' ''grep'' True, demo_call ''3'' ''glob'' True, demo_call ''4'' ''ls'' True]"

definition demo_mixed :: "ToolCallInfo list" where
  "demo_mixed = [demo_call ''1'' ''read'' True, demo_call ''2'' ''grep'' True, demo_call ''3'' ''write'' False,
     demo_call ''4'' ''wait'' True, demo_call ''5'' ''read'' True]"

definition demo_some :: "ToolCallInfo list \<Rightarrow> int \<Rightarrow> RoundPlan \<times> RuleDecider" where
  "demo_some calls spent = (case DecideRound demo_pf (demo_input calls spent) (NewRuleDecider Defaults) of Some r \<Rightarrow> r)"

lemma demo_round: "DecideRound demo_pf (demo_input demo_mixed 10) (NewRuleDecider Defaults) =
    Some (fst (demo_some demo_mixed 10), snd (demo_some demo_mixed 10))"
  "rp_ParallelGroups (fst (demo_some demo_mixed 10)) = [[''1'', ''2''], [''3''], [''5'']]"
  by code_simp+


lemma demo_budget: "DecideRound demo_pf (demo_input demo_reads n) (NewRuleDecider Defaults) =
    Some (fst (demo_some demo_reads n), snd (demo_some demo_reads n))"
proof -
  have c: "\<not> cheap_proven (NewRuleDecider Defaults)" by code_simp
  then obtain r where "DecideRound demo_pf (demo_input demo_reads n) (NewRuleDecider Defaults) = Some r"
    using DecideRound_None_iff [of demo_pf "demo_input demo_reads n" "NewRuleDecider Defaults"] by (cases "DecideRound demo_pf (demo_input demo_reads n) (NewRuleDecider Defaults)") auto
  then show ?thesis by (simp add: demo_some_def)
qed


theorem tier_floor_never_learned_away_witness:
  "rp_Tier (fst (demo_some demo_mixed 10)) = ''pro'' \<or>
   (rp_BudgetAction (fst (demo_some demo_mixed 10)) = ''degrade_tier'' \<and> rp_Tier (fst (demo_some demo_mixed 10)) = ''flash'')"
proof -
  have "list_ex (\<lambda>c. \<not> tc_ReadOnly c) (activeCalls (demo_input demo_mixed 10))"
    "cf_ProTier (rd_cfg (NewRuleDecider Defaults)) = ''pro''" "cf_DefaultTier (rd_cfg (NewRuleDecider Defaults)) = ''flash''"
    by code_simp+
  then show ?thesis using tier_floor_never_learned_away [OF demo_round(1)] by (auto simp: list_ex_iff BudgetActionDegradeTier_def)
qed

theorem scheduler_invariant_witness:
  "sched_inv (ObserveTier flash_ok (snd (demo_some demo_mixed 10)))"
  by (rule scheduler_invariant, rule sched_reach.tier, rule sched_reach.round [OF sched_reach.start demo_round(1)])

lemma learned_default_tier_panics_witness:
  "DecideRound demo_pf (demo_input demo_reads 10) (((ObserveTier flash_ok) ^^ 12) (NewRuleDecider Defaults)) = None"
proof (rule learned_default_tier_panics)
  show "isComplexShape (ri_Intent (demo_input demo_reads 10)) (activeCalls (demo_input demo_reads 10)) Defaults" by code_simp
qed simp

lemma budget_prefetch_witness:
  "rp_PrefetchIDs (fst (demo_some demo_reads 75)) = [] \<and>
   rp_PrefetchIDs (fst (demo_some demo_reads 85)) = [''pre:read'', ''pre:grep'', ''pre:glob'', ''pre:ls'']"
proof -
  have "decideBudgetAction (ri_Budget (demo_input demo_reads 75)) = BudgetActionHaltPrefetch"
    "decideBudgetAction (ri_Budget (demo_input demo_reads 85)) \<noteq> BudgetActionHaltPrefetch"
    "decideBudgetAction (ri_Budget (demo_input demo_reads 85)) \<noteq> BudgetActionHardStop"
    "map tc_Name (activeCalls (demo_input demo_reads 85)) = [''read'', ''grep'', ''glob'', ''ls'']"
    by code_simp+
  then show ?thesis
    using budget_prefetch [OF demo_budget [of 75, unfolded demo_pf_def]] budget_prefetch [OF demo_budget [of 85, unfolded demo_pf_def]]
    by simp
qed

end
