(* ===== verification/Prefetch.thy ===== *)
theory Prefetch
  imports Sched Judge
begin

text \<open>
  Speculative prefetching, \<open>kernel/prefetch\<close>: the load gate (\<open>prefetch.go\<close>), the offline planner
  (\<open>planner.go\<close>), the online transition matrix with its Beta posterior, probation and escape probe
  (\<open>matrix.go\<close>), the runner (\<open>runner.go\<close>) and the adapters to the scheduler (\<open>planfunc.go\<close>). Counters of
  type \<open>int\<close> are mathematical integers, the round counter \<open>plans\<close> is a 64-bit word. The
  pseudo-random source is a parameter: the draws in their order.
\<close>

section \<open>Tasks and the load gate\<close>

definition LocalityLocal :: string where "LocalityLocal = ''local''"
definition LocalityEgress :: string where "LocalityEgress = ''egress''"

record PrefetchTask =
  pt_Kind :: string
  pt_Key :: string
  pt_Cost :: int
  pt_Probe :: bool
  pt_Locality :: string

record LoadHint =
  lh_ConcurrencyUsed :: int
  lh_ConcurrencyLimit :: int
  lh_WaitWindow :: int
  lh_TaskEstimate :: int

definition ReasonCandidate :: string where "ReasonCandidate = ''candidate''"
definition ReasonNoCandidate :: string where "ReasonNoCandidate = ''no_candidate''"
definition ReasonLoadSaturated :: string where "ReasonLoadSaturated = ''load_saturated''"
definition ReasonWindowTooShort :: string where "ReasonWindowTooShort = ''window_too_short''"
definition ReasonPlanError :: string where "ReasonPlanError = ''plan_error''"

lemmas reason_defs = ReasonCandidate_def ReasonNoCandidate_def ReasonLoadSaturated_def ReasonWindowTooShort_def
  ReasonPlanError_def

record PlanDecision =
  pd_Tasks :: "PrefetchTask list"
  pd_Reason :: string

definition DefaultMaxLoad :: f64 where "DefaultMaxLoad = r64 (8/10)"

definition EvaluateLoad :: "LoadHint \<Rightarrow> f64 \<Rightarrow> string" where
  "EvaluateLoad hint maxLoad0 =
     (let maxLoad = (if fle maxLoad0 f0 \<or> flt f1 maxLoad0 then DefaultMaxLoad else maxLoad0) in
      if lh_ConcurrencyUsed hint \<ge> 0 \<and> lh_ConcurrencyLimit hint > 0 \<and>
         fle maxLoad (fdiv (f_of_int (lh_ConcurrencyUsed hint)) (f_of_int (lh_ConcurrencyLimit hint)))
      then ReasonLoadSaturated
      else if lh_WaitWindow hint > 0 \<and> lh_TaskEstimate hint > 0 \<and> lh_WaitWindow hint < lh_TaskEstimate hint
      then ReasonWindowTooShort
      else [])"

record GateStats =
  gs_Candidates :: u64
  gs_NoCandidate :: u64
  gs_LoadSkipped :: u64
  gs_WindowSkipped :: u64

definition gate_observe :: "string \<Rightarrow> GateStats \<Rightarrow> GateStats" where
  "gate_observe reason c =
     (if reason = ReasonCandidate then c\<lparr>gs_Candidates := gs_Candidates c + 1\<rparr>
      else if reason = ReasonNoCandidate then c\<lparr>gs_NoCandidate := gs_NoCandidate c + 1\<rparr>
      else if reason = ReasonLoadSaturated then c\<lparr>gs_LoadSkipped := gs_LoadSkipped c + 1\<rparr>
      else if reason = ReasonWindowTooShort then c\<lparr>gs_WindowSkipped := gs_WindowSkipped c + 1\<rparr>
      else c)"

definition no_gate :: GateStats where
  "no_gate = \<lparr>gs_Candidates = 0, gs_NoCandidate = 0, gs_LoadSkipped = 0, gs_WindowSkipped = 0\<rparr>"

text \<open>Candidates are ordered by probability, descending, and by name.\<close>

type_synonym cand = "string \<times> f64"

definition cand_before :: "cand \<Rightarrow> cand \<Rightarrow> bool" where
  "cand_before a b = (if fne (snd a) (snd b) then flt (snd b) (snd a) else fst a < fst b)"

section \<open>The offline planner\<close>

definition DefaultBudget :: int where "DefaultBudget = 1000"
definition DefaultMaxTasks :: int where "DefaultMaxTasks = 3"
definition DefaultTaskCost :: int where "DefaultTaskCost = 200"

record transitionMatrix =
  tm_counts :: "(string, (string, int) gomap) gomap"
  tm_totals :: "(string, int) gomap"

definition newTransitionMatrix :: transitionMatrix where
  "newTransitionMatrix = \<lparr>tm_counts = [], tm_totals = []\<rparr>"

definition add_pair :: "string \<Rightarrow> string \<Rightarrow> transitionMatrix \<Rightarrow> transitionMatrix" where
  "add_pair from to m =
     (if from = [] \<or> to = [] then m
      else let row = m_get_or [] (tm_counts m) from in
        m\<lparr>tm_counts := m_set from (m_set to (m_get_or 0 row to + 1) row) (tm_counts m),
          tm_totals := m_set from (m_get_or 0 (tm_totals m) from + 1) (tm_totals m)\<rparr>)"

fun addSeq :: "string list \<Rightarrow> transitionMatrix \<Rightarrow> transitionMatrix" where
  "addSeq (from # to # seq) m = addSeq (to # seq) (add_pair from to m)"
| "addSeq _ m = m"

definition tm_prob :: "transitionMatrix \<Rightarrow> string \<Rightarrow> string \<Rightarrow> f64" where
  "tm_prob m from to =
     (let total = m_get_or 0 (tm_totals m) from in
      if total = 0 then f0
      else fdiv (f_of_int (m_get_or 0 (m_get_or [] (tm_counts m) from) to)) (f_of_int total))"

definition tm_next :: "transitionMatrix \<Rightarrow> string \<Rightarrow> cand list" where
  "tm_next m from =
     go_sort cand_before (map (\<lambda>to. (to, tm_prob m from to)) (keys (m_get_or [] (tm_counts m) from)))"

record Planner =
  pl_WhiteList :: "string list"
  pl_Budget :: int
  pl_MaxTasks :: int
  pl_MaxLoad :: f64
  pl_matrix :: "transitionMatrix option"
  pl_gate :: GateStats

text \<open>\<open>Learn\<close> gets what \<open>Store.List(Project)\<close> returned, \<open>None\<close> for its error.\<close>

definition Learn :: "Slice list option \<Rightarrow> Planner \<Rightarrow> bool \<times> Planner" where
  "Learn patterns p =
     (case patterns of None \<Rightarrow> (True, p)
      | Some ss \<Rightarrow>
          (False, p\<lparr>pl_matrix := Some (fold (\<lambda>s. addSeq (go_fields (sl_Content s)))
             (filter (\<lambda>s. sl_Type s = ToolPattern) ss) newTransitionMatrix)\<rparr>))"

definition pl_budget :: "Planner \<Rightarrow> int" where
  "pl_budget p = (if pl_Budget p \<le> 0 then DefaultBudget else pl_Budget p)"

definition pl_maxTasks :: "Planner \<Rightarrow> int" where
  "pl_maxTasks p = (if pl_MaxTasks p \<le> 0 then DefaultMaxTasks else pl_MaxTasks p)"

fun lastToolName_rev :: "string list \<Rightarrow> string" where
  "lastToolName_rev [] = []"
| "lastToolName_rev (n # ns) = (if trim_space n \<noteq> [] then trim_space n else lastToolName_rev ns)"

definition lastToolName :: "string list \<Rightarrow> string" where
  "lastToolName names = lastToolName_rev (rev names)"

definition whitelistSet :: "string list \<Rightarrow> string list" where
  "whitelistSet list = filter (\<lambda>n. n \<noteq> []) (map trim_space list)"

fun plan_loop :: "string list \<Rightarrow> int \<Rightarrow> int \<Rightarrow> cand list \<Rightarrow> int \<Rightarrow> int \<Rightarrow> PrefetchTask list" where
  "plan_loop white budget maxTasks [] spent n = []"
| "plan_loop white budget maxTasks (c # cs) spent n =
     (if fst c \<notin> set white then plan_loop white budget maxTasks cs spent n
      else if spent + DefaultTaskCost > budget then []
      else \<lparr>pt_Kind = ''slice-assembly'', pt_Key = fst c, pt_Cost = DefaultTaskCost, pt_Probe = False,
             pt_Locality = LocalityLocal\<rparr> #
        (if n + 1 \<ge> maxTasks then [] else plan_loop white budget maxTasks cs (spent + DefaultTaskCost) (n + 1)))"

definition Planner_Plan :: "string list \<Rightarrow> Planner \<Rightarrow> PrefetchTask list" where
  "Planner_Plan names p =
     (case pl_matrix p of None \<Rightarrow> []
      | Some m \<Rightarrow>
          let last = lastToolName names; white = whitelistSet (pl_WhiteList p) in
          if last = [] then [] else if white = [] then []
          else plan_loop white (pl_budget p) (pl_maxTasks p) (tm_next m last) 0 0)"

definition plan_reason :: "PrefetchTask list \<Rightarrow> string" where
  "plan_reason tasks = (if tasks \<noteq> [] then ReasonCandidate else ReasonNoCandidate)"

definition Planner_PlanWithLoad :: "string list \<Rightarrow> LoadHint \<Rightarrow> Planner \<Rightarrow> PlanDecision \<times> Planner" where
  "Planner_PlanWithLoad names hint p =
     (let maxLoad = (if fle (pl_MaxLoad p) f0 \<or> flt f1 (pl_MaxLoad p) then DefaultMaxLoad else pl_MaxLoad p);
          skip = EvaluateLoad hint maxLoad in
      if skip \<noteq> [] then (\<lparr>pd_Tasks = [], pd_Reason = skip\<rparr>, p\<lparr>pl_gate := gate_observe skip (pl_gate p)\<rparr>)
      else let tasks = Planner_Plan names p; reason = plan_reason tasks
           in (\<lparr>pd_Tasks = tasks, pd_Reason = reason\<rparr>, p\<lparr>pl_gate := gate_observe reason (pl_gate p)\<rparr>))"

section \<open>The online transition matrix\<close>

record MatrixConfig =
  mc_TopK :: int
  mc_MinConf :: f64
  mc_MaxCost :: int
  mc_BaseCost :: int
  mc_WasteHitLimit :: f64
  mc_Decay :: f64
  mc_Epsilon :: f64
  mc_MaxLoad :: f64
  mc_ProbationInterval :: int

definition MatrixDefaults :: MatrixConfig where
  "MatrixDefaults = \<lparr>mc_TopK = 3, mc_MinConf = r64 (1/2), mc_MaxCost = 2000, mc_BaseCost = 512,
     mc_WasteHitLimit = Fin 3, mc_Decay = r64 (2/10), mc_Epsilon = f0, mc_MaxLoad = DefaultMaxLoad,
     mc_ProbationInterval = 10\<rparr>"

record MatrixPrefetcher =
  mp_cfg :: MatrixConfig
  mp_bigrams :: "(string, (string, int) gomap) gomap"
  mp_counts :: "(string, int) gomap"
  mp_readOnly :: "string list"
  mp_rnd :: nat
  mp_hitW :: "(string, f64) gomap"
  mp_wasteW :: "(string, f64) gomap"
  mp_hitCount :: "(string, int) gomap"
  mp_wasteCount :: "(string, int) gomap"
  mp_totalHits :: int
  mp_totalWastes :: int
  mp_lastPrev :: string
  mp_lastProposed :: "string list"
  mp_readOnlyCalls :: int
  mp_coveredCalls :: int
  mp_gate :: GateStats
  mp_plans :: "(string, u64) gomap"

definition betaPrior :: f64 where "betaPrior = f1"

definition NewMatrixPrefetcher :: "MatrixConfig \<Rightarrow> MatrixPrefetcher" where
  "NewMatrixPrefetcher cfg =
     \<lparr>mp_cfg = \<lparr>mc_TopK = (if mc_TopK cfg \<le> 0 then mc_TopK MatrixDefaults else mc_TopK cfg),
        mc_MinConf = (if fle (mc_MinConf cfg) f0 \<or> flt f1 (mc_MinConf cfg) then mc_MinConf MatrixDefaults else mc_MinConf cfg),
        mc_MaxCost = (if mc_MaxCost cfg \<le> 0 then mc_MaxCost MatrixDefaults else mc_MaxCost cfg),
        mc_BaseCost = (if mc_BaseCost cfg \<le> 0 then mc_BaseCost MatrixDefaults else mc_BaseCost cfg),
        mc_WasteHitLimit = (if fle (mc_WasteHitLimit cfg) f0 then mc_WasteHitLimit MatrixDefaults else mc_WasteHitLimit cfg),
        mc_Decay = (if fle (mc_Decay cfg) f0 \<or> flt f1 (mc_Decay cfg) then mc_Decay MatrixDefaults else mc_Decay cfg),
        mc_Epsilon = (if flt (mc_Epsilon cfg) f0 \<or> flt f1 (mc_Epsilon cfg) then mc_Epsilon MatrixDefaults else mc_Epsilon cfg),
        mc_MaxLoad = (if fle (mc_MaxLoad cfg) f0 \<or> flt f1 (mc_MaxLoad cfg) then mc_MaxLoad MatrixDefaults else mc_MaxLoad cfg),
        mc_ProbationInterval = (if mc_ProbationInterval cfg = 0 then mc_ProbationInterval MatrixDefaults
          else if mc_ProbationInterval cfg < 0 then 0 else mc_ProbationInterval cfg)\<rparr>,
      mp_bigrams = [], mp_counts = [], mp_readOnly = [], mp_rnd = 0, mp_hitW = [], mp_wasteW = [],
      mp_hitCount = [], mp_wasteCount = [], mp_totalHits = 0, mp_totalWastes = 0, mp_lastPrev = [],
      mp_lastProposed = [], mp_readOnlyCalls = 0, mp_coveredCalls = 0, mp_gate = no_gate, mp_plans = []\<rparr>"

definition smallestNonzero :: f64 where "smallestNonzero = Fin (1 / 2 ^ 1074)"

definition Matrix_ApplyEvolution :: "f64 \<Rightarrow> MatrixPrefetcher \<Rightarrow> bool \<times> MatrixPrefetcher" where
  "Matrix_ApplyEvolution minConf m =
     (if is_nan minConf \<or> is_inf minConf then (True, m)
      else let a = (if fle minConf f0 then smallestNonzero else minConf); b = (if flt f1 a then f1 else a)
           in (False, m\<lparr>mp_cfg := (mp_cfg m)\<lparr>mc_MinConf := b\<rparr>\<rparr>))"

definition SetEpsilon :: "f64 \<Rightarrow> MatrixPrefetcher \<Rightarrow> bool \<times> MatrixPrefetcher" where
  "SetEpsilon eps m =
     (if is_nan eps \<or> is_inf eps then (True, m)
      else if flt eps f0 \<or> flt f1 eps then (True, m)
      else (False, m\<lparr>mp_cfg := (mp_cfg m)\<lparr>mc_Epsilon := eps\<rparr>\<rparr>))"

definition Matrix_Observe :: "string \<Rightarrow> string \<Rightarrow> bool \<Rightarrow> MatrixPrefetcher \<Rightarrow> MatrixPrefetcher" where
  "Matrix_Observe prev next readOnly m =
     (if prev = [] \<or> next = [] then m
      else
        let row = m_get_or [] (mp_bigrams m) prev;
            m1 = m\<lparr>mp_bigrams := m_set prev (m_set next (m_get_or 0 row next + 1) row) (mp_bigrams m),
                   mp_counts := m_set prev (m_get_or 0 (mp_counts m) prev + 1) (mp_counts m)\<rparr>
        in if readOnly then
             m1\<lparr>mp_readOnly := List.insert next (mp_readOnly m1), mp_readOnlyCalls := mp_readOnlyCalls m1 + 1,
                mp_coveredCalls := mp_coveredCalls m1 +
                  (if prev = mp_lastPrev m1 \<and> next \<in> set (mp_lastProposed m1) then 1 else 0)\<rparr>
           else m1)"

definition posteriorMean :: "f64 \<Rightarrow> f64 \<Rightarrow> f64" where
  "posteriorMean hw ww = fdiv (fadd hw betaPrior) (fadd (fadd hw ww) (fmul (Fin 2) betaPrior))"

definition demoted :: "MatrixPrefetcher \<Rightarrow> string \<Rightarrow> bool" where
  "demoted m key =
     (let hw = m_get_or f0 (mp_hitW m) key; ww = m_get_or f0 (mp_wasteW m) key in
      if feq (fadd hw ww) f0 then False
      else flt (posteriorMean hw ww) (fdiv f1 (fadd f1 (mc_WasteHitLimit (mp_cfg m)))))"

definition recordProposal :: "string \<Rightarrow> PrefetchTask list \<Rightarrow> MatrixPrefetcher \<Rightarrow> MatrixPrefetcher" where
  "recordProposal lst tasks m = m\<lparr>mp_lastPrev := lst, mp_lastProposed := map pt_Key tasks\<rparr>"

text \<open>One iteration of the loop over the transitions: the candidates, the best one excluded by \<open>MinConf\<close>, the demoted ones.\<close>

definition sort_cand ::
  "MatrixPrefetcher \<Rightarrow> int \<Rightarrow> string \<times> int \<Rightarrow> cand list \<times> cand option \<times> cand list \<Rightarrow> cand list \<times> cand option \<times> cand list" where
  "sort_cand m tot = (\<lambda>(next, cnt) (cands, probe, onProb).
     if next \<notin> set (mp_readOnly m) then (cands, probe, onProb)
     else
       let prob = fdiv (f_of_int cnt) (f_of_int tot) in
       if demoted m next then (cands, probe, onProb @ [(next, prob)])
       else if flt prob (mc_MinConf (mp_cfg m)) then
         (cands,
          (case probe of None \<Rightarrow> Some (next, prob)
           | Some (k, p) \<Rightarrow> if flt p prob \<or> (feq prob p \<and> next < k) then Some (next, prob) else probe),
          onProb)
       else (cands @ [(next, prob)], probe, onProb))"

definition pick_probation :: "MatrixConfig \<Rightarrow> u64 \<Rightarrow> cand list \<Rightarrow> cand option" where
  "pick_probation cfg plans onProb =
     (let interval = word_of_int (mc_ProbationInterval cfg) :: u64 in
      if interval > 0 \<and> onProb \<noteq> [] \<and> mc_TopK cfg > 0 \<and> plans mod interval = 0
      then Some (go_sort cand_before onProb ! unat ((plans div interval - 1) mod of_nat (length onProb)))
      else None)"

definition assembly :: "MatrixConfig \<Rightarrow> string \<Rightarrow> bool \<Rightarrow> string \<Rightarrow> PrefetchTask" where
  "assembly cfg key probe loc = \<lparr>pt_Kind = ''slice-assembly'', pt_Key = key, pt_Cost = mc_BaseCost cfg,
     pt_Probe = probe, pt_Locality = loc\<rparr>"

fun take_cands :: "MatrixConfig \<Rightarrow> int \<Rightarrow> cand list \<Rightarrow> int \<Rightarrow> int \<Rightarrow> PrefetchTask list" where
  "take_cands cfg topK [] n cost = []"
| "take_cands cfg topK (c # cs) n cost =
     (if n \<ge> topK then []
      else if cost + mc_BaseCost cfg > mc_MaxCost cfg then []
      else assembly cfg (fst c) False [] # take_cands cfg topK cs (n + 1) (cost + mc_BaseCost cfg))"

definition choose_tasks :: "MatrixConfig \<Rightarrow> u64 \<Rightarrow> cand list \<Rightarrow> cand list \<Rightarrow> PrefetchTask list" where
  "choose_tasks cfg plans cands onProb =
     (case pick_probation cfg plans onProb of
        None \<Rightarrow> take_cands cfg (mc_TopK cfg) (go_sort cand_before cands) 0 0
      | Some c \<Rightarrow>
          let tasks = take_cands cfg (mc_TopK cfg - 1) (go_sort cand_before cands) 0 0 in
          if int (length tasks) * mc_BaseCost cfg + mc_BaseCost cfg \<le> mc_MaxCost cfg
          then tasks @ [assembly cfg (fst c) True []] else tasks)"

definition escapes :: "MatrixConfig \<Rightarrow> PrefetchTask list \<Rightarrow> cand option \<Rightarrow> bool" where
  "escapes cfg tasks probe \<longleftrightarrow> tasks = [] \<and> probe \<noteq> None \<and> mc_TopK cfg > 0 \<and> flt f0 (mc_Epsilon cfg)"

definition Matrix_Plan ::
  "(nat \<Rightarrow> f64) \<Rightarrow> string list \<Rightarrow> MatrixPrefetcher \<Rightarrow> PrefetchTask list \<times> MatrixPrefetcher" where
  "Matrix_Plan draw names m0 =
     (if names = [] then ([], m0)
      else
        let lst = last names;
            transitions = m_get_or [] (mp_bigrams m0) lst;
            total = m_get_or 0 (mp_counts m0) lst
        in if total = 0 \<or> transitions = [] then ([], recordProposal lst [] m0)
        else
          let plans = m_get_or 0 (mp_plans m0) lst + 1;
              m = m0\<lparr>mp_plans := m_set lst plans (mp_plans m0)\<rparr>;
              cfg = mp_cfg m;
              (cands, probe, onProb) = fold (sort_cand m total) transitions ([], None, []);
              tasks = choose_tasks cfg plans cands onProb
          in if escapes cfg tasks probe then
               let tasks' = (if flt (draw (mp_rnd m)) (mc_Epsilon cfg) \<and> mc_BaseCost cfg \<le> mc_MaxCost cfg
                             then [assembly cfg (fst (the probe)) True LocalityLocal] else [])
               in (tasks', recordProposal lst tasks' (m\<lparr>mp_rnd := mp_rnd m + 1\<rparr>))
             else (tasks, recordProposal lst tasks m))"

definition Matrix_PlanWithLoad ::
  "(nat \<Rightarrow> f64) \<Rightarrow> string list \<Rightarrow> LoadHint \<Rightarrow> MatrixPrefetcher \<Rightarrow> PlanDecision \<times> MatrixPrefetcher" where
  "Matrix_PlanWithLoad draw names hint m =
     (let skip = EvaluateLoad hint (mc_MaxLoad (mp_cfg m)) in
      if skip \<noteq> [] then (\<lparr>pd_Tasks = [], pd_Reason = skip\<rparr>, m\<lparr>mp_gate := gate_observe skip (mp_gate m)\<rparr>)
      else let (tasks, m') = Matrix_Plan draw names m; reason = plan_reason tasks
           in (\<lparr>pd_Tasks = tasks, pd_Reason = reason\<rparr>, m'\<lparr>mp_gate := gate_observe reason (mp_gate m')\<rparr>))"

definition discount :: "MatrixPrefetcher \<Rightarrow> f64 \<Rightarrow> f64" where
  "discount m w = fmul (fsub f1 (mc_Decay (mp_cfg m))) w"

definition ObserveHit :: "string \<Rightarrow> MatrixPrefetcher \<Rightarrow> MatrixPrefetcher" where
  "ObserveHit key m =
     m\<lparr>mp_hitW := m_set key (fadd (discount m (m_get_or f0 (mp_hitW m) key)) f1) (mp_hitW m),
       mp_wasteW := m_set key (discount m (m_get_or f0 (mp_wasteW m) key)) (mp_wasteW m),
       mp_hitCount := m_set key (m_get_or 0 (mp_hitCount m) key + 1) (mp_hitCount m),
       mp_totalHits := mp_totalHits m + 1\<rparr>"

definition ObserveWaste :: "string \<Rightarrow> MatrixPrefetcher \<Rightarrow> MatrixPrefetcher" where
  "ObserveWaste key m =
     m\<lparr>mp_wasteW := m_set key (fadd (discount m (m_get_or f0 (mp_wasteW m) key)) f1) (mp_wasteW m),
       mp_hitW := m_set key (discount m (m_get_or f0 (mp_hitW m) key)) (mp_hitW m),
       mp_wasteCount := m_set key (m_get_or 0 (mp_wasteCount m) key + 1) (mp_wasteCount m),
       mp_totalWastes := mp_totalWastes m + 1\<rparr>"

section \<open>Adapters to the scheduler\<close>

definition AsPlanFunc :: "PrefetchTask list option \<Rightarrow> string list" where
  "AsPlanFunc planned = (case planned of None \<Rightarrow> [] | Some tasks \<Rightarrow> map pt_Key tasks)"

definition millis :: "int \<Rightarrow> int" where
  "millis ms = wrap64 (ms * 1000000)"

definition load_hint :: "PrefetchLoadHint \<Rightarrow> LoadHint" where
  "load_hint h = \<lparr>lh_ConcurrencyUsed = ph_ConcurrencyUsed h, lh_ConcurrencyLimit = ph_ConcurrencyLimit h,
     lh_WaitWindow = millis (ph_WaitWindowMS h), lh_TaskEstimate = millis (ph_TaskEstimateMS h)\<rparr>"

text \<open>\<open>AsLoadAwarePlanFunc\<close> of the online prefetcher, which never returns an error.\<close>

definition AsLoadAwarePlanFunc ::
  "(nat \<Rightarrow> f64) \<Rightarrow> string list \<Rightarrow> PrefetchLoadHint \<Rightarrow> MatrixPrefetcher \<Rightarrow> PrefetchPlanResult \<times> MatrixPrefetcher" where
  "AsLoadAwarePlanFunc draw names hint m =
     (let (decision, m') = Matrix_PlanWithLoad draw names (load_hint hint) m
      in (\<lparr>pp_IDs = map pt_Key (pd_Tasks decision),
           pp_ProbeIDs = map pt_Key (filter pt_Probe (pd_Tasks decision)),
           pp_Reason = pd_Reason decision\<rparr>, m'))"

section \<open>The runner\<close>

text \<open>
  The store and the executor are parameters: \<open>put\<close> returns whether it failed, \<open>exec\<close> the content or
  \<open>None\<close> for its error. \<open>rs_errs\<close> lists the failing keys that the returned error joins.
\<close>

record 's RunState =
  rs_store :: 's
  rs_ids :: "string list"
  rs_errs :: "string list"
  rs_BlockedEgress :: int

definition scope_byte :: "Scope \<Rightarrow> char" where
  "scope_byte s = (case s of Session \<Rightarrow> CHR 0x00 | Project \<Rightarrow> CHR 0x01 | User \<Rightarrow> CHR 0x02
     | OtherScope n \<Rightarrow> char_of (nat (n mod 256)))"

definition resultSliceID :: "hashfun \<Rightarrow> string \<Rightarrow> Scope \<Rightarrow> string" where
  "resultSliceID hash content scope = take 16 (hash (CHR 0x03 # scope_byte scope # content))"

definition result_slice :: "hashfun \<Rightarrow> Scope \<Rightarrow> string \<Rightarrow> PrefetchTask \<Rightarrow> Slice" where
  "result_slice hash scope content t = zero_slice\<lparr>sl_ID := resultSliceID hash content scope, sl_Type := Result, sl_Scope := scope,
     sl_Content := content, sl_Weight := f1,
     sl_Meta := zero_meta\<lparr>m_SourceSession := ''prefetch:'' @ pt_Key t, m_Origin := OriginPrefetch\<rparr>\<rparr>"

definition run_task ::
  "hashfun \<Rightarrow> (Slice \<Rightarrow> 's \<Rightarrow> bool \<times> 's) \<Rightarrow> (PrefetchTask \<Rightarrow> 's \<Rightarrow> string option) \<Rightarrow> string list \<Rightarrow> Scope \<Rightarrow>
     PrefetchTask \<Rightarrow> 's RunState \<Rightarrow> 's RunState" where
  "run_task hash put exec warm scope t r =
     (if pt_Locality t \<noteq> LocalityLocal then r\<lparr>rs_BlockedEgress := rs_BlockedEgress r + 1\<rparr>
      else case exec t (rs_store r) of
        None \<Rightarrow> r\<lparr>rs_errs := rs_errs r @ [pt_Key t]\<rparr>
      | Some content \<Rightarrow>
          if pt_Kind t \<in> set warm then r
          else
            let sl = result_slice hash scope content t; (failed, st) = put sl (rs_store r); r' = r\<lparr>rs_store := st\<rparr>
            in if failed then r'\<lparr>rs_errs := rs_errs r' @ [pt_Key t]\<rparr> else r'\<lparr>rs_ids := rs_ids r' @ [sl_ID sl]\<rparr>)"

text \<open>\<open>warm\<close> are the kinds whose entry in \<open>WarmKinds\<close> is true; \<open>None\<close> is the nil map.\<close>

definition Runner_Run ::
  "hashfun \<Rightarrow> (Slice \<Rightarrow> 's \<Rightarrow> bool \<times> 's) \<Rightarrow> (PrefetchTask \<Rightarrow> 's \<Rightarrow> string option) \<Rightarrow> string list option \<Rightarrow> Scope \<Rightarrow>
     PrefetchTask list \<Rightarrow> 's \<Rightarrow> int \<Rightarrow> 's RunState" where
  "Runner_Run hash put exec warmKinds scope0 tasks st blocked =
     (let warm = (case warmKinds of None \<Rightarrow> [''embedding'', ''file''] | Some w \<Rightarrow> w);
          scope = (if scope0 = Session then Project else scope0)
      in fold (run_task hash put exec warm scope) tasks
           \<lparr>rs_store = st, rs_ids = [], rs_errs = [], rs_BlockedEgress = blocked\<rparr>)"

text \<open>
  The built-in executor. \<open>None\<close> is the panic on a hit without a slice, \<open>Some None\<close> the error of the search.
\<close>

fun hit_slices :: "Hit list \<Rightarrow> Slice list option" where
  "hit_slices [] = Some []"
| "hit_slices (h # hs) = (case h_Slice h of None \<Rightarrow> None | Some s \<Rightarrow> map_option ((#) s) (hit_slices hs))"

definition slice_text :: "Slice \<Rightarrow> string" where
  "slice_text s = ''--- slice '' @ sl_ID s @ '' ---'' @ [CHR 0x0A] @ sl_Content s @ [CHR 0x0A]"

definition SliceAssembler_Execute ::
  "(string \<Rightarrow> int \<Rightarrow> Scope \<Rightarrow> Hit list option) \<Rightarrow> int \<Rightarrow> PrefetchTask \<Rightarrow> string option option" where
  "SliceAssembler_Execute search k0 t =
     (let k = (if k0 \<le> 0 then 3 else k0) in
      case search (pt_Key t) k Project of None \<Rightarrow> Some None
      | Some hits \<Rightarrow>
          (case hit_slices hits of None \<Rightarrow> None
           | Some ss \<Rightarrow> Some (Some (concat (map slice_text (go_sort (\<lambda>a b. sl_ID a < sl_ID b) ss))))))"

section \<open>Histories of the online prefetcher\<close>

datatype matrix_event =
    EvObserve string string bool
  | EvPlan "string list"
  | EvPlanLoad "string list" LoadHint
  | EvHit string
  | EvWaste string
  | EvEvolve f64
  | EvEpsilon f64

fun matrix_step :: "(nat \<Rightarrow> f64) \<Rightarrow> matrix_event \<Rightarrow> MatrixPrefetcher \<Rightarrow> MatrixPrefetcher" where
  "matrix_step draw (EvObserve p n r) m = Matrix_Observe p n r m"
| "matrix_step draw (EvPlan ns) m = snd (Matrix_Plan draw ns m)"
| "matrix_step draw (EvPlanLoad ns h) m = snd (Matrix_PlanWithLoad draw ns h m)"
| "matrix_step draw (EvHit k) m = ObserveHit k m"
| "matrix_step draw (EvWaste k) m = ObserveWaste k m"
| "matrix_step draw (EvEvolve x) m = snd (Matrix_ApplyEvolution x m)"
| "matrix_step draw (EvEpsilon x) m = snd (SetEpsilon x m)"

definition matrix_run :: "(nat \<Rightarrow> f64) \<Rightarrow> MatrixConfig \<Rightarrow> matrix_event list \<Rightarrow> MatrixPrefetcher" where
  "matrix_run draw cfg evs = fold (matrix_step draw) evs (NewMatrixPrefetcher cfg)"

end
