(* ===== verification/Prefetch_Correct.thy ===== *)
theory Prefetch_Correct
  imports Prefetch Sched_Correct
begin

text \<open>
  What the prefetchers guarantee. Plans are safe (only tools seen read-only, directly after the last tool,
  within the budget), do not depend on the iteration order of Go's maps, and demotion is not
  final: probation reaches every demoted candidate and one hit rehabilitates it. One theorem shows where the
  online prefetcher and the runner do not fit together.
\<close>

section \<open>Classification of the transitions\<close>

definition probs :: "MatrixPrefetcher \<Rightarrow> int \<Rightarrow> (string \<times> int) list \<Rightarrow> cand list" where
  "probs m t trs = map (\<lambda>(n, c). (n, fdiv (f_of_int c) (f_of_int t))) (filter (\<lambda>(n, c). n \<in> set (mp_readOnly m)) trs)"

definition healthy :: "MatrixPrefetcher \<Rightarrow> int \<Rightarrow> (string \<times> int) list \<Rightarrow> cand list" where
  "healthy m t trs = filter (\<lambda>c. \<not> demoted m (fst c) \<and> \<not> flt (snd c) (mc_MinConf (mp_cfg m))) (probs m t trs)"

definition below :: "MatrixPrefetcher \<Rightarrow> int \<Rightarrow> (string \<times> int) list \<Rightarrow> cand list" where
  "below m t trs = filter (\<lambda>c. \<not> demoted m (fst c) \<and> flt (snd c) (mc_MinConf (mp_cfg m))) (probs m t trs)"

definition on_probation :: "MatrixPrefetcher \<Rightarrow> int \<Rightarrow> (string \<times> int) list \<Rightarrow> cand list" where
  "on_probation m t trs = filter (\<lambda>c. demoted m (fst c)) (probs m t trs)"

definition best :: "cand \<Rightarrow> cand option \<Rightarrow> cand option" where
  "best c pr = (case pr of None \<Rightarrow> Some c | Some p \<Rightarrow> if cand_before c p then Some c else Some p)"

lemma cand_before_alt: "cand_before (n, x) (k, p) \<longleftrightarrow> flt p x \<or> (feq x p \<and> n < k)"
  by (auto simp: cand_before_def fne_def) (cases x; cases p; simp)+

lemma fold_sort_cand:
  "fold (sort_cand m t) trs (cs, pr, ob) = (cs @ healthy m t trs, fold best (below m t trs) pr, ob @ on_probation m t trs)"
  by (induction trs arbitrary: cs pr ob)
    (auto simp: sort_cand_def healthy_def below_def on_probation_def probs_def best_def Let_def cand_before_alt
      split: option.splits)

lemma f_of_int_64:
  assumes "in64 n" obtains q where "f_of_int n = Fin q" "1 \<le> n \<Longrightarrow> 1 \<le> q" "0 \<le> n \<Longrightarrow> 0 \<le> q"
proof -
  have b: "r64 (9223372036854775808) = Fin 9223372036854775808" "r64 (- 9223372036854775808) = Fin (- 9223372036854775808)"
    by code_simp+
  have "- 9223372036854775808 \<le> rat_of_int n" "rat_of_int n \<le> 9223372036854775808" using assms
    by (simp_all add: in64_def)
  then have "fle (Fin (- 9223372036854775808)) (r64 (rat_of_int n))" "fle (r64 (rat_of_int n)) (Fin 9223372036854775808)"
    using r64_mono b by metis+
  then obtain q where q: "r64 (rat_of_int n) = Fin q" by (cases "r64 (rat_of_int n)") auto
  have "1 \<le> n \<Longrightarrow> 1 \<le> q" "0 \<le> n \<Longrightarrow> 0 \<le> q"
    using q r64_mono [of 1 "rat_of_int n"] r64_mono [of 0 "rat_of_int n"] by auto
  then show thesis using that q by (simp add: f_of_int_def)
qed

definition counts_ok :: "int \<Rightarrow> (string \<times> int) list \<Rightarrow> bool" where
  "counts_ok t trs \<longleftrightarrow> 0 < t \<and> in64 t \<and> wf_map trs \<and> list_all (\<lambda>(n, c). 0 < c \<and> c \<le> t) trs"

lemma prob_not_nan: assumes "in64 c" "in64 t" "0 < t" shows "\<not> is_nan (fdiv (f_of_int c) (f_of_int t))"
proof -
  obtain x where x: "f_of_int c = Fin x" using f_of_int_64 [OF assms(1)] by metis
  obtain y where y: "f_of_int t = Fin y" "1 \<le> y" using f_of_int_64 [OF assms(2)] assms(3) by (metis int_one_le_iff_zero_less)
  show ?thesis using x y by simp
qed

lemma probs_not_nan:
  assumes "counts_ok t trs" "c \<in> set (probs m t trs)"
  shows "\<not> is_nan (snd c)"
proof -
  obtain n k where k: "(n, k) \<in> set trs" "c = (n, fdiv (f_of_int k) (f_of_int t))" using assms(2) by (auto simp: probs_def)
  have "0 < k" "k \<le> t" "in64 t" "0 < t" using assms(1) k(1) by (auto simp: counts_ok_def list_all_iff)
  then show ?thesis using k prob_not_nan [of k t] by (auto simp: in64_def)
qed

lemma probs_keys: "set (map fst (probs m t trs)) \<subseteq> set (keys trs)" "wf_map trs \<Longrightarrow> distinct (map fst (probs m t trs))"
proof -
  show "set (map fst (probs m t trs)) \<subseteq> set (keys trs)" by (force simp: probs_def)
  have e: "map fst (probs m t trs) = map fst (filter (\<lambda>(n, c). n \<in> set (mp_readOnly m)) trs)"
    by (auto simp: probs_def)
  show "wf_map trs \<Longrightarrow> distinct (map fst (probs m t trs))"
    unfolding e wf_map_def by (simp add: distinct_map_filter)
qed

interpretation ranking: weak_order_on "{c. \<not> is_nan (snd c)}" cand_before
proof
  fix x y z :: cand
  assume "x \<in> {c. \<not> is_nan (snd c)}" "y \<in> {c. \<not> is_nan (snd c)}"
  then show "cand_before x y \<Longrightarrow> \<not> cand_before y x"
    by (cases x; cases y; cases "snd x"; cases "snd y") (auto simp: cand_before_alt)
  assume "z \<in> {c. \<not> is_nan (snd c)}"
  then show "\<not> cand_before y x \<Longrightarrow> \<not> cand_before z y \<Longrightarrow> \<not> cand_before z x"
    using \<open>x \<in> _\<close> \<open>y \<in> _\<close>
    by (cases x; cases y; cases z; cases "snd x"; cases "snd y"; cases "snd z") (auto simp: cand_before_alt not_less)
qed

lemma cand_total:
  "\<not> is_nan (snd a) \<Longrightarrow> \<not> is_nan (snd b) \<Longrightarrow> \<not> cand_before a b \<Longrightarrow> \<not> cand_before b a \<Longrightarrow> a = b"
  by (cases a; cases b; cases "snd a"; cases "snd b") (auto simp: cand_before_alt not_less)

section \<open>The iteration order of a map does not matter\<close>

lemma ranked_perm:
  assumes "mset xs = mset ys" "\<And>c. c \<in> set xs \<Longrightarrow> \<not> is_nan (snd c)"
  shows "go_sort cand_before xs = go_sort cand_before ys"
proof (rule sorted_wrt_antisym_unique [where R = "\<lambda>a b. \<not> cand_before b a"])
  have s: "set ys = set xs" using assms(1) by (metis set_mset_mset)
  show "sorted_wrt (\<lambda>a b. \<not> cand_before b a) (go_sort cand_before xs)" by (rule ranking.sorted_go_sort) (use assms(2) in auto)
  show "sorted_wrt (\<lambda>a b. \<not> cand_before b a) (go_sort cand_before ys)" by (rule ranking.sorted_go_sort) (use assms(2) s in auto)
qed (use assms cand_total in \<open>auto\<close>)

lemma best_fold:
  assumes "\<And>c. c \<in> set xs \<Longrightarrow> \<not> is_nan (snd c)" "\<And>p. pr = Some p \<Longrightarrow> \<not> is_nan (snd p)"
  shows "(fold best xs pr = None \<longleftrightarrow> xs = [] \<and> pr = None) \<and>
    (\<forall>b. fold best xs pr = Some b \<longrightarrow> b \<in> set xs \<union> set_option pr \<and> (\<forall>c\<in>set xs \<union> set_option pr. \<not> cand_before c b))"
  using assms
proof (induction xs arbitrary: pr)
  case Nil
  have "\<not> cand_before p p" if "pr = Some p" for p using Nil(2) [OF that] ranking.asym_on [of p p] by auto
  then show ?case by (cases pr) simp_all
next
  case (Cons x xs)
  have "\<exists>p. best x pr = Some p \<and> (p = x \<or> Some p = pr)" by (cases x; cases pr) (auto simp: best_def)
  then obtain p where p: "best x pr = Some p" "p = x \<or> Some p = pr" by blast
  have np: "\<not> is_nan (snd p)" using p(2) Cons.prems(1) [of p] Cons.prems(2) [of p] by (elim disjE) simp_all
  have low: "\<not> cand_before c p" if "c \<in> insert x (set_option pr)" for c
  proof -
    have irr: "\<not> cand_before x x" using Cons.prems(1) ranking.asym_on [of x x] by auto
    show ?thesis
    proof (cases pr)
      case None
      then show ?thesis using that p irr by (simp add: best_def)
    next
      case (Some r)
      then have r: "\<not> is_nan (snd r)" "\<not> is_nan (snd x)" using Cons.prems by auto
      then have "\<not> cand_before r r" "cand_before x r \<Longrightarrow> \<not> cand_before r x"
        using ranking.asym_on [of r r] ranking.asym_on [of x r] by auto
      then show ?thesis using that p(1) irr Some by (auto simp: best_def split: if_splits)
    qed
  qed
  have ih: "fold best xs (best x pr) \<noteq> None"
    "\<And>b. fold best xs (best x pr) = Some b \<Longrightarrow> b \<in> set xs \<union> {p} \<and> (\<forall>c\<in>set xs \<union> {p}. \<not> cand_before c b)"
    using Cons.IH [of "Some p"] Cons.prems(1) np p(1) by auto
  show ?case
  proof (intro conjI allI impI)
    show "(fold best (x # xs) pr = None) = (x # xs = [] \<and> pr = None)" using ih(1) by simp
    fix b assume "fold best (x # xs) pr = Some b"
    then have b: "b \<in> set xs \<union> {p}" "\<forall>c\<in>set xs \<union> {p}. \<not> cand_before c b" using ih(2) [of b] by simp_all
    show "b \<in> set (x # xs) \<union> set_option pr" using b(1) p(2) by auto
    have nb: "\<not> is_nan (snd b)" using b(1) np Cons.prems(1) [of b] by (elim UnE) simp_all
    show "\<forall>c\<in>set (x # xs) \<union> set_option pr. \<not> cand_before c b"
    proof
      fix c assume c: "c \<in> set (x # xs) \<union> set_option pr"
      then have nc: "\<not> is_nan (snd c)" using Cons.prems(1) [of c] Cons.prems(2) [of c] by (cases pr) auto
      show "\<not> cand_before c b"
      proof (cases "c \<in> set xs")
        case False
        then have "\<not> cand_before c p" using c low by auto
        then show ?thesis using ranking.neg_trans_on [of b p c] b nb np nc by auto
      qed (use b in auto)
    qed
  qed
qed

lemma best_perm:
  assumes "set xs = set ys" "\<And>c. c \<in> set xs \<Longrightarrow> \<not> is_nan (snd c)"
  shows "fold best xs None = fold best ys None"
proof (cases "fold best xs None")
  case None
  then show ?thesis using best_fold [of xs None] best_fold [of ys None] assms by auto
next
  case (Some b)
  then obtain b' where b': "fold best ys None = Some b'" using best_fold [of xs None] best_fold [of ys None] assms by fastforce
  have "b \<in> set xs" "b' \<in> set xs" "\<not> cand_before b' b" "\<not> cand_before b b'"
    using best_fold [of xs None] best_fold [of ys None] assms Some b' by auto
  then show ?thesis using cand_total [of b b'] assms(2) Some b' by auto
qed

section \<open>A plan in closed form\<close>

lemma demoted_plans [simp]: "demoted (m\<lparr>mp_plans := x\<rparr>) = demoted m"
  by (simp add: demoted_def fun_eq_iff)

lemma probs_plans [simp]: "probs (m\<lparr>mp_plans := x\<rparr>) = probs m"
  by (simp add: probs_def fun_eq_iff)

lemma classes_plans [simp]: "healthy (m\<lparr>mp_plans := x\<rparr>) = healthy m" "below (m\<lparr>mp_plans := x\<rparr>) = below m"
  "on_probation (m\<lparr>mp_plans := x\<rparr>) = on_probation m"
  by (simp_all add: healthy_def below_def on_probation_def fun_eq_iff)

definition plan_no :: "MatrixPrefetcher \<Rightarrow> string \<Rightarrow> u64" where
  "plan_no m lst = m_get_or 0 (mp_plans m) lst + 1"

definition row :: "MatrixPrefetcher \<Rightarrow> string \<Rightarrow> (string \<times> int) list" where
  "row m lst = m_get_or [] (mp_bigrams m) lst"

definition tot :: "MatrixPrefetcher \<Rightarrow> string \<Rightarrow> int" where
  "tot m lst = m_get_or 0 (mp_counts m) lst"

definition ranked_tasks :: "MatrixPrefetcher \<Rightarrow> string \<Rightarrow> PrefetchTask list" where
  "ranked_tasks m lst = choose_tasks (mp_cfg m) (plan_no m lst) (healthy m (tot m lst) (row m lst)) (on_probation m (tot m lst) (row m lst))"

definition escape_tasks :: "(nat \<Rightarrow> f64) \<Rightarrow> MatrixPrefetcher \<Rightarrow> string \<Rightarrow> PrefetchTask list" where
  "escape_tasks draw m lst =
     (if flt (draw (mp_rnd m)) (mc_Epsilon (mp_cfg m)) \<and> mc_BaseCost (mp_cfg m) \<le> mc_MaxCost (mp_cfg m)
      then [assembly (mp_cfg m) (fst (the (fold best (below m (tot m lst) (row m lst)) None))) True LocalityLocal] else [])"

lemma Matrix_Plan_tasks:
  "fst (Matrix_Plan draw names m) =
     (if names = [] \<or> tot m (last names) = 0 \<or> row m (last names) = [] then []
      else if escapes (mp_cfg m) (ranked_tasks m (last names)) (fold best (below m (tot m (last names)) (row m (last names))) None)
      then escape_tasks draw m (last names) else ranked_tasks m (last names))"
  by (simp add: Matrix_Plan_def Let_def fold_sort_cand ranked_tasks_def escape_tasks_def plan_no_def row_def tot_def)

lemma Matrix_Plan_frame:
  "mp_cfg (snd (Matrix_Plan draw names m)) = mp_cfg m" "mp_bigrams (snd (Matrix_Plan draw names m)) = mp_bigrams m"
  "mp_counts (snd (Matrix_Plan draw names m)) = mp_counts m" "mp_readOnly (snd (Matrix_Plan draw names m)) = mp_readOnly m"
  "mp_hitW (snd (Matrix_Plan draw names m)) = mp_hitW m" "mp_wasteW (snd (Matrix_Plan draw names m)) = mp_wasteW m"
  by (simp_all add: Matrix_Plan_def Let_def recordProposal_def fold_sort_cand)

lemma Matrix_Plan_counter:
  "names \<noteq> [] \<Longrightarrow> tot m (last names) \<noteq> 0 \<Longrightarrow> row m (last names) \<noteq> [] \<Longrightarrow>
   mp_plans (snd (Matrix_Plan draw names m)) = m_set (last names) (plan_no m (last names)) (mp_plans m)"
  by (simp add: Matrix_Plan_def Let_def recordProposal_def fold_sort_cand plan_no_def row_def tot_def)

text \<open>
  A plan does not depend on the iteration order of the transition map. Go ranges over a map in a
  random order; the proposed tasks are the same for every order.
\<close>

lemma plan_deterministic:
  assumes "counts_ok (tot m (last names)) (row m (last names))"
    and "mset (m_get_or [] b (last names)) = mset (row m (last names))"
  shows "fst (Matrix_Plan draw names (m\<lparr>mp_bigrams := b\<rparr>)) = fst (Matrix_Plan draw names m)"
proof -
  let ?l = "last names" let ?m = "m\<lparr>mp_bigrams := b\<rparr>" let ?t = "tot m (last names)"
  have e: "tot ?m ?l = ?t" "plan_no ?m ?l = plan_no m ?l" "mp_cfg ?m = mp_cfg m" "mp_rnd ?m = mp_rnd m"
    by (simp_all add: tot_def plan_no_def)
  have d: "demoted ?m = demoted m" by (simp add: demoted_def fun_eq_iff)
  have p: "mset (probs ?m ?t (row ?m ?l)) = mset (probs m ?t (row m ?l))"
    using assms(2) by (simp add: probs_def row_def mset_filter mset_map)
  have nan: "\<not> is_nan (snd c)" if "c \<in> set (probs m ?t (row m ?l))" for c using probs_not_nan [OF assms(1) that] .
  have ps: "set (probs ?m ?t (row ?m ?l)) = set (probs m ?t (row m ?l))" using p by (metis set_mset_mset)
  have h: "mset (healthy ?m ?t (row ?m ?l)) = mset (healthy m ?t (row m ?l))"
    and o: "mset (on_probation ?m ?t (row ?m ?l)) = mset (on_probation m ?t (row m ?l))"
    and b: "set (below ?m ?t (row ?m ?l)) = set (below m ?t (row m ?l))"
    using p ps by (simp_all add: healthy_def on_probation_def below_def d)
  have "go_sort cand_before (healthy ?m ?t (row ?m ?l)) = go_sort cand_before (healthy m ?t (row m ?l))"
    by (rule ranked_perm [OF h]) (use nan ps in \<open>auto simp: healthy_def\<close>)
  moreover have "go_sort cand_before (on_probation ?m ?t (row ?m ?l)) = go_sort cand_before (on_probation m ?t (row m ?l))"
    by (rule ranked_perm [OF o]) (use nan ps in \<open>auto simp: on_probation_def\<close>)
  moreover have "length (on_probation ?m ?t (row ?m ?l)) = length (on_probation m ?t (row m ?l))" using o by (metis size_mset)
  ultimately have r: "ranked_tasks ?m ?l = ranked_tasks m ?l"
    unfolding ranked_tasks_def e choose_tasks_def pick_probation_def Let_def length_0_conv [symmetric] by simp
  have f: "fold best (below ?m ?t (row ?m ?l)) None = fold best (below m ?t (row m ?l)) None"
    by (rule best_perm [OF b]) (use nan ps in \<open>auto simp: below_def\<close>)
  have n: "row ?m ?l = [] \<longleftrightarrow> row m ?l = []"
    using arg_cong [OF assms(2), of size] unfolding size_mset by (simp add: row_def flip: length_0_conv)
  show ?thesis unfolding Matrix_Plan_tasks r escape_tasks_def e f n by simp
qed

section \<open>Plans are safe\<close>

lemma take_cands_prefix:
  assumes "0 < mc_BaseCost cfg"
  shows "\<exists>j. take_cands cfg k cs n cost = map (\<lambda>c. assembly cfg (fst c) False []) (take j cs) \<and> j \<le> length cs \<and>
    int j \<le> max 0 (k - n) \<and> (j = 0 \<or> cost + int j * mc_BaseCost cfg \<le> mc_MaxCost cfg)"
proof (induction cs arbitrary: n cost)
  case (Cons c cs)
  show ?case
  proof (cases "k \<le> n \<or> mc_MaxCost cfg < cost + mc_BaseCost cfg")
    case True
    then show ?thesis by (intro exI [of _ 0]) auto
  next
    case False
    obtain j where j: "take_cands cfg k cs (n + 1) (cost + mc_BaseCost cfg) = map (\<lambda>c. assembly cfg (fst c) False []) (take j cs)"
      "j \<le> length cs" "int j \<le> max 0 (k - (n + 1))" "j = 0 \<or> cost + mc_BaseCost cfg + int j * mc_BaseCost cfg \<le> mc_MaxCost cfg"
      using Cons.IH [of "n + 1" "cost + mc_BaseCost cfg"] by blast
    show ?thesis using False j by (intro exI [of _ "Suc j"]) (auto simp: algebra_simps)
  qed
qed simp

definition matrix_cfg_ok :: "MatrixConfig \<Rightarrow> bool" where
  "matrix_cfg_ok cfg \<longleftrightarrow> 0 < mc_TopK cfg \<and> 0 < mc_BaseCost cfg \<and> 0 < mc_MaxCost cfg \<and> 0 \<le> mc_ProbationInterval cfg"

text \<open>What every task of a plan satisfies.\<close>

definition task_ok :: "MatrixPrefetcher \<Rightarrow> string \<Rightarrow> PrefetchTask \<Rightarrow> bool" where
  "task_ok m lst t \<longleftrightarrow> pt_Kind t = ''slice-assembly'' \<and> pt_Cost t = mc_BaseCost (mp_cfg m) \<and>
     pt_Key t \<in> set (mp_readOnly m) \<and> pt_Key t \<in> set (keys (row m lst)) \<and>
     (pt_Probe t \<or> (\<not> demoted m (pt_Key t) \<and> pt_Locality t = []))"

lemma task_costs: "list_all (task_ok m l) ts \<Longrightarrow> sum_list (map pt_Cost ts) = int (length ts) * mc_BaseCost (mp_cfg m)"
  by (induction ts) (simp_all add: task_ok_def algebra_simps)

lemma in_probs: "c \<in> set (probs m t trs) \<Longrightarrow> fst c \<in> set (mp_readOnly m) \<and> fst c \<in> set (keys trs)"
  by (force simp: probs_def)

lemma class_keys:
  "c \<in> set (healthy m t trs) \<Longrightarrow> fst c \<in> set (mp_readOnly m) \<and> fst c \<in> set (keys trs) \<and> \<not> demoted m (fst c)"
  "c \<in> set (below m t trs) \<Longrightarrow> fst c \<in> set (mp_readOnly m) \<and> fst c \<in> set (keys trs)"
  "c \<in> set (on_probation m t trs) \<Longrightarrow> fst c \<in> set (mp_readOnly m) \<and> fst c \<in> set (keys trs) \<and> demoted m (fst c)"
  using in_probs by (fastforce simp: healthy_def below_def on_probation_def)+

lemma in_set_mapE: "x \<in> set (map f xs) \<Longrightarrow> (\<And>y. y \<in> set xs \<Longrightarrow> f y = x \<Longrightarrow> thesis) \<Longrightarrow> thesis"
  by auto

lemma length_on_probation: "length (on_probation m t trs) \<le> length trs"
proof -
  have "length (on_probation m t trs) \<le> length (probs m t trs)" unfolding on_probation_def by (rule length_filter_le)
  also have "\<dots> \<le> length trs" unfolding probs_def length_map by (rule length_filter_le)
  finally show ?thesis .
qed

lemma pick_probation_in:
  assumes "pick_probation cfg p ob = Some c" "length ob < 2 ^ 64"
  shows "c \<in> set ob"
proof -
  let ?i = "unat ((p div word_of_int (mc_ProbationInterval cfg) - 1) mod of_nat (length ob) :: u64)"
  have ob: "ob \<noteq> []" and c: "c = go_sort cand_before ob ! ?i"
    using assms(1) by (auto simp: pick_probation_def Let_def split: if_splits)
  have "?i < length ob" using ob assms(2) by (simp add: unat_mod unat_of_nat)
  then show ?thesis using c by (metis length_go_sort nth_mem set_go_sort)
qed

lemma ranked_tasks_safe:
  assumes "matrix_cfg_ok (mp_cfg m)" "wf_map (row m lst)" "length (row m lst) < 2 ^ 64"
  shows "list_all (task_ok m lst) (ranked_tasks m lst) \<and> distinct (map pt_Key (ranked_tasks m lst)) \<and>
    int (length (ranked_tasks m lst)) \<le> mc_TopK (mp_cfg m) \<and>
    int (length (ranked_tasks m lst)) * mc_BaseCost (mp_cfg m) \<le> mc_MaxCost (mp_cfg m) \<and>
    list_all (\<lambda>t. pt_Locality t = []) (ranked_tasks m lst)"
proof -
  let ?cfg = "mp_cfg m" let ?h = "healthy m (tot m lst) (row m lst)" let ?o = "on_probation m (tot m lst) (row m lst)"
  let ?pr = "pick_probation ?cfg (plan_no m lst) ?o"
  let ?k = "if ?pr = None then mc_TopK ?cfg else mc_TopK ?cfg - 1"
  have b: "0 < mc_BaseCost ?cfg" "0 < mc_TopK ?cfg" "0 < mc_MaxCost ?cfg" using assms(1) by (auto simp: matrix_cfg_ok_def)
  obtain j where j: "take_cands ?cfg ?k (go_sort cand_before ?h) 0 0 = map (\<lambda>c. assembly ?cfg (fst c) False []) (take j (go_sort cand_before ?h))"
      "j \<le> length ?h" "int j \<le> max 0 ?k" "j = 0 \<or> int j * mc_BaseCost ?cfg \<le> mc_MaxCost ?cfg"
    using take_cands_prefix [OF b(1), of ?k "go_sort cand_before ?h" 0 0] by auto
  let ?ts = "map (\<lambda>c. assembly ?cfg (fst c) False []) (take j (go_sort cand_before ?h))"
  have dh: "distinct (map fst (go_sort cand_before ?h))"
  proof -
    have "distinct (map fst ?h)" unfolding healthy_def by (rule distinct_map_filter) (rule probs_keys(2) [OF assms(2)])
    then show ?thesis by (metis distinct_map distinct_go_sort set_go_sort)
  qed
  have key: "map pt_Key ?ts = take j (map fst (go_sort cand_before ?h))" by (simp add: assembly_def take_map)
  have ts: "list_all (task_ok m lst) ?ts" "distinct (map pt_Key ?ts)" "list_all (\<lambda>t. pt_Locality t = []) ?ts"
    "\<And>t. t \<in> set ?ts \<Longrightarrow> \<not> demoted m (pt_Key t)"
    using class_keys(1) dh unfolding key
    by (auto simp: list_all_iff task_ok_def assembly_def dest: in_set_takeD intro: distinct_take)
  have len: "length ?ts = j" using j(2) by simp
  show ?thesis
  proof (cases ?pr)
    case None
    then show ?thesis using j ts len b by (auto simp: ranked_tasks_def choose_tasks_def)
  next
    case (Some c)
    have "length ?o < 2 ^ 64"
      using length_on_probation [of m "tot m lst" "row m lst"] assms(3) by linarith
    then have c: "c \<in> set ?o" by (rule pick_probation_in [OF Some])
    have t1: "task_ok m lst (assembly ?cfg (fst c) True [])"
      using class_keys(3) [OF c] by (simp add: task_ok_def assembly_def)
    have t2: "fst c \<notin> set (map pt_Key ?ts)"
    proof
      assume "fst c \<in> set (map pt_Key ?ts)"
      then obtain t where "t \<in> set ?ts" "pt_Key t = fst c" by (rule in_set_mapE)
      then show False using ts(4) [of t] class_keys(3) [OF c] by simp
    qed
    note t = t1 t2
    show ?thesis
    proof (cases "int j * mc_BaseCost ?cfg + mc_BaseCost ?cfg \<le> mc_MaxCost ?cfg")
      case True
      then have r: "ranked_tasks m lst = ?ts @ [assembly ?cfg (fst c) True []]"
        using Some j(1) len by (simp add: ranked_tasks_def choose_tasks_def Let_def)
      show ?thesis unfolding r using j(3) ts t len b Some True by (simp add: algebra_simps assembly_def)
    next
      case False
      then have r: "ranked_tasks m lst = ?ts" using Some j(1) len by (simp add: ranked_tasks_def choose_tasks_def Let_def)
      show ?thesis unfolding r using j ts len b Some by auto
    qed
  qed
qed

lemma escape_tasks_safe:
  assumes "matrix_cfg_ok (mp_cfg m)" "counts_ok (tot m lst) (row m lst)"
    and "fold best (below m (tot m lst) (row m lst)) None \<noteq> None"
  shows "list_all (task_ok m lst) (escape_tasks draw m lst) \<and> length (escape_tasks draw m lst) \<le> 1 \<and>
    int (length (escape_tasks draw m lst)) * mc_BaseCost (mp_cfg m) \<le> mc_MaxCost (mp_cfg m)"
proof -
  obtain c where c: "fold best (below m (tot m lst) (row m lst)) None = Some c" using assms(3) by auto
  have nan: "\<not> is_nan (snd x)" if "x \<in> set (below m (tot m lst) (row m lst))" for x
    using that probs_not_nan [OF assms(2), of x m] by (simp add: below_def)
  have "c \<in> set (below m (tot m lst) (row m lst))"
    using best_fold [of "below m (tot m lst) (row m lst)" None] nan c by simp
  then show ?thesis using class_keys(2) [of c] c assms(1)
    by (auto simp: escape_tasks_def task_ok_def assembly_def matrix_cfg_ok_def)
qed

section \<open>Histories\<close>

text \<open>What a history of events establishes: where the transition counts and the read-only marks come from.\<close>

definition row_ok :: "matrix_event list \<Rightarrow> string \<Rightarrow> (string \<times> int) list \<Rightarrow> int \<Rightarrow> bool" where
  "row_ok evs p r t \<longleftrightarrow> wf_map r \<and> length r \<le> length evs \<and> 0 \<le> t \<and> t \<le> int (length evs) \<and>
     (\<forall>n c. (n, c) \<in> set r \<longrightarrow> 0 < c \<and> c \<le> t \<and> (\<exists>ro. EvObserve p n ro \<in> set evs))"

definition learned :: "matrix_event list \<Rightarrow> MatrixPrefetcher \<Rightarrow> bool" where
  "learned evs m \<longleftrightarrow> matrix_cfg_ok (mp_cfg m) \<and>
     (\<forall>k\<in>set (mp_readOnly m). \<exists>p. EvObserve p k True \<in> set evs) \<and> (\<forall>p. row_ok evs p (row m p) (tot m p))"

lemma row_ok_snoc: "row_ok evs p r t \<Longrightarrow> row_ok (evs @ [e]) p r t"
  by (fastforce simp: row_ok_def)

lemma learned_cfg: "learned evs m \<Longrightarrow> matrix_cfg_ok (mp_cfg m)"
  by (simp add: learned_def)

lemma learned_frame:
  assumes "learned evs m" "matrix_cfg_ok (mp_cfg m')" "mp_bigrams m' = mp_bigrams m" "mp_counts m' = mp_counts m" "mp_readOnly m' = mp_readOnly m"
  shows "learned (evs @ [e]) m'"
  using assms row_ok_snoc by (fastforce simp: learned_def row_def tot_def)

lemma m_set_cases: "(a, b) \<in> set (m_set k v m) \<Longrightarrow> (a = k \<and> b = v) \<or> (a, b) \<in> set m"
  by (induction m) (auto split: if_splits)

lemma m_get_or_member: "wf_map m \<Longrightarrow> (k, v) \<in> set m \<Longrightarrow> m_get_or z m k = v"
  by (simp add: m_get_or_def wf_map_def map_of_eq_Some_iff [THEN iffD2])

lemma m_get_or_cases: "m_get_or z m k = z \<or> (k, m_get_or z m k) \<in> set m"
  by (auto simp: m_get_or_def map_of_SomeD split: option.splits)

lemma learned_new: "learned [] (NewMatrixPrefetcher cfg)"
  by (simp add: learned_def row_ok_def NewMatrixPrefetcher_def row_def tot_def m_get_or_def matrix_cfg_ok_def MatrixDefaults_def)

lemma m_set_member_of:
  assumes "wf_map m" "(a, b) \<in> set (m_set k v m)"
  shows "(a = k \<and> b = v) \<or> (a \<noteq> k \<and> (a, b) \<in> set m)"
  using m_set_cases [OF assms(2)] m_get_or_member [OF wf_map_m_set [OF assms(1)] assms(2), of v] by auto

lemma row_ok_observe:
  assumes "row_ok evs p r t"
  shows "row_ok (evs @ [EvObserve p n ro]) p (m_set n (m_get_or 0 r n + 1) r) (t + 1)"
proof -
  have w: "wf_map r" "length r \<le> length evs" "0 \<le> t" "t \<le> int (length evs)"
    "\<And>k c. (k, c) \<in> set r \<Longrightarrow> 0 < c \<and> c \<le> t \<and> (\<exists>ro. EvObserve p k ro \<in> set evs)"
    using assms unfolding row_ok_def by blast+
  have old: "0 \<le> m_get_or 0 r n" "m_get_or 0 r n \<le> t" using m_get_or_cases [of 0 r n] w(3) w(5) [of n "m_get_or 0 r n"] by auto
  have "0 < c \<and> c \<le> t + 1 \<and> (\<exists>ro'. EvObserve p k ro' \<in> set (evs @ [EvObserve p n ro]))"
    if "(k, c) \<in> set (m_set n (m_get_or 0 r n + 1) r)" for k c
    using m_set_member_of [OF w(1) that] old w(5) [of k c] by auto
  then show ?thesis using w by (auto simp: row_ok_def length_m_set)
qed

lemma learned_observe:
  assumes "learned evs m"
  shows "learned (evs @ [EvObserve p n r]) (Matrix_Observe p n r m)"
proof (cases "p = [] \<or> n = []")
  case True
  then show ?thesis using learned_frame [OF assms learned_cfg [OF assms]] by (simp add: Matrix_Observe_def)
next
  case False
  let ?m = "Matrix_Observe p n r m"
  have rw: "row ?m q = (if q = p then m_set n (m_get_or 0 (row m p) n + 1) (row m p) else row m q)"
    and t: "tot ?m q = (if q = p then tot m p + 1 else tot m q)" and c: "mp_cfg ?m = mp_cfg m"
    and ro: "set (mp_readOnly ?m) = (if r then insert n (set (mp_readOnly m)) else set (mp_readOnly m))" for q
    using False by (simp_all add: Matrix_Observe_def row_def tot_def Let_def)
  have "row_ok (evs @ [EvObserve p n r]) q (row ?m q) (tot ?m q)" for q
    using assms row_ok_observe [of evs p "row m p" "tot m p"] row_ok_snoc by (simp add: learned_def rw t)
  then show ?thesis using assms c unfolding learned_def ro by (auto split: if_splits)
qed

lemma Matrix_PlanWithLoad_frame:
  "mp_cfg (snd (Matrix_PlanWithLoad draw ns h m)) = mp_cfg m" "mp_bigrams (snd (Matrix_PlanWithLoad draw ns h m)) = mp_bigrams m"
  "mp_counts (snd (Matrix_PlanWithLoad draw ns h m)) = mp_counts m" "mp_readOnly (snd (Matrix_PlanWithLoad draw ns h m)) = mp_readOnly m"
  "mp_hitW (snd (Matrix_PlanWithLoad draw ns h m)) = mp_hitW m" "mp_wasteW (snd (Matrix_PlanWithLoad draw ns h m)) = mp_wasteW m"
  using Matrix_Plan_frame [of draw ns m] by (simp_all add: Matrix_PlanWithLoad_def Let_def split_beta)

lemma learned_step:
  assumes "learned evs m"
  shows "learned (evs @ [e]) (matrix_step draw e m)"
proof (cases e)
  case (EvObserve p n r)
  then show ?thesis using learned_observe [OF assms] by simp
qed (use learned_cfg [OF assms] in \<open>simp_all add: learned_frame [OF assms] Matrix_Plan_frame Matrix_PlanWithLoad_frame ObserveHit_def
    ObserveWaste_def Matrix_ApplyEvolution_def SetEpsilon_def matrix_cfg_ok_def Let_def\<close>)

lemma matrix_run_snoc: "matrix_run draw cfg (evs @ [e]) = matrix_step draw e (matrix_run draw cfg evs)"
  by (simp add: matrix_run_def)

lemma learned_run: "learned evs (matrix_run draw cfg evs)"
proof (induction evs rule: rev_induct)
  case Nil
  then show ?case by (simp add: matrix_run_def learned_new)
next
  case (snoc e evs)
  then show ?case by (simp add: matrix_run_snoc learned_step)
qed


section \<open>Demotion is not final\<close>

definition plan_again :: "(nat \<Rightarrow> f64) \<Rightarrow> string list \<Rightarrow> nat \<Rightarrow> MatrixPrefetcher \<Rightarrow> MatrixPrefetcher" where
  "plan_again draw names j m = (matrix_step draw (EvPlan names) ^^ j) m"

lemma plan_again_frame:
  "mp_cfg (plan_again draw names j m) = mp_cfg m" "mp_bigrams (plan_again draw names j m) = mp_bigrams m"
  "mp_counts (plan_again draw names j m) = mp_counts m" "mp_readOnly (plan_again draw names j m) = mp_readOnly m"
  "mp_hitW (plan_again draw names j m) = mp_hitW m" "mp_wasteW (plan_again draw names j m) = mp_wasteW m"
  by (induction j) (simp_all add: plan_again_def Matrix_Plan_frame)

lemma plan_again_row: "row (plan_again draw names j m) = row m" "tot (plan_again draw names j m) = tot m"
  by (simp_all add: row_def tot_def plan_again_frame fun_eq_iff)

lemma plan_again_probation: "on_probation (plan_again draw names j m) = on_probation m"
  by (simp add: on_probation_def probs_def demoted_def plan_again_frame fun_eq_iff)

lemma plan_again_no:
  assumes "names \<noteq> []" "tot m (last names) \<noteq> 0" "row m (last names) \<noteq> []"
  shows "plan_no (plan_again draw names j m) (last names) = m_get_or 0 (mp_plans m) (last names) + of_nat (Suc j)"
proof (induction j)
  case 0
  then show ?case by (simp add: plan_again_def plan_no_def)
next
  case (Suc j)
  let ?m = "plan_again draw names j m"
  have "plan_again draw names (Suc j) m = snd (Matrix_Plan draw names ?m)" by (simp add: plan_again_def)
  moreover have "mp_plans (snd (Matrix_Plan draw names ?m)) = m_set (last names) (plan_no ?m (last names)) (mp_plans ?m)"
    using Matrix_Plan_counter [of names ?m draw] assms by (simp add: plan_again_row)
  ultimately show ?case using Suc by (simp add: plan_no_def add.assoc)
qed

lemma probe_is_planned:
  assumes "matrix_cfg_ok (mp_cfg m)" "mc_TopK (mp_cfg m) * mc_BaseCost (mp_cfg m) \<le> mc_MaxCost (mp_cfg m)"
    and "names \<noteq> []" "tot m (last names) \<noteq> 0" "row m (last names) \<noteq> []"
    and "pick_probation (mp_cfg m) (plan_no m (last names)) (on_probation m (tot m (last names)) (row m (last names))) = Some c"
  shows "assembly (mp_cfg m) (fst c) True [] \<in> set (fst (Matrix_Plan draw names m))"
proof -
  let ?cfg = "mp_cfg m" let ?h = "go_sort cand_before (healthy m (tot m (last names)) (row m (last names)))"
  have b: "0 < mc_BaseCost ?cfg" "0 < mc_TopK ?cfg" using assms(1) by (auto simp: matrix_cfg_ok_def)
  obtain j where j: "take_cands ?cfg (mc_TopK ?cfg - 1) ?h 0 0 = map (\<lambda>c. assembly ?cfg (fst c) False []) (take j ?h)"
    "int j \<le> max 0 (mc_TopK ?cfg - 1)"
    using take_cands_prefix [OF b(1), of "mc_TopK ?cfg - 1" ?h 0 0] by auto
  have "int (length (take j ?h)) \<le> mc_TopK ?cfg - 1" using j(2) b by auto
  then have "int (length (take j ?h)) * mc_BaseCost ?cfg \<le> (mc_TopK ?cfg - 1) * mc_BaseCost ?cfg" using b by (simp add: mult_right_mono)
  then have "int (length (take j ?h)) * mc_BaseCost ?cfg + mc_BaseCost ?cfg \<le> mc_MaxCost ?cfg"
    using assms(2) by (simp add: algebra_simps)
  then have in_r: "assembly ?cfg (fst c) True [] \<in> set (ranked_tasks m (last names))"
    using assms(6) j(1) by (simp add: ranked_tasks_def choose_tasks_def Let_def)
  then have "\<not> escapes ?cfg (ranked_tasks m (last names)) x" for x by (auto simp: escapes_def)
  then show ?thesis using in_r assms(3,4,5) by (simp add: Matrix_Plan_tasks)
qed

text \<open>The next round number that is due for the candidate at a given position.\<close>

lemma next_turn:
  fixes I n i p :: nat
  assumes "0 < I" "i < n"
  shows "\<exists>t. p < I * (i + 1 + n * t) \<and> I * (i + 1 + n * t) \<le> p + I * n"
proof (cases "p < I * (i + 1)")
  case True
  have "I * (i + 1) \<le> I * n" using assms by (intro mult_le_mono2) simp
  then show ?thesis using True by (intro exI [of _ 0]) simp
next
  case False
  let ?d = "p - I * (i + 1)" let ?t = "?d div (I * n) + 1"
  have pos: "0 < I * n" using assms by auto
  have e: "I * (i + 1 + n * ?t) = I * (i + 1) + (I * n) * (?d div (I * n)) + I * n" by (simp add: algebra_simps)
  have m: "(I * n) * (?d div (I * n)) + ?d mod (I * n) = ?d" by (rule mult_div_mod_eq)
  have "?d mod (I * n) < I * n" using pos by simp
  then show ?thesis using e m False by (intro exI [of _ ?t]) linarith
qed

text \<open>
  Probation reaches every demoted candidate. While nothing else happens, each demoted read-only
  successor of a tool is proposed as a probe within as many further plans for that tool as the probation
  interval times the number of demoted successors, whenever the budget admits \<open>TopK\<close> tasks.
\<close>

lemma probation_reaches_everyone:
  assumes "matrix_cfg_ok (mp_cfg m)" "mc_TopK (mp_cfg m) * mc_BaseCost (mp_cfg m) \<le> mc_MaxCost (mp_cfg m)"
    and "names \<noteq> []" "tot m (last names) \<noteq> 0" "counts_ok (tot m (last names)) (row m (last names))"
    and "ob = on_probation m (tot m (last names)) (row m (last names))" "c \<in> set ob"
    and "I = nat (mc_ProbationInterval (mp_cfg m))" "0 < I"
    and "unat (m_get_or 0 (mp_plans m) (last names)) + I * length ob < 2 ^ 64"
  shows "\<exists>j < I * length ob. assembly (mp_cfg m) (fst c) True [] \<in> set (fst (Matrix_Plan draw names (plan_again draw names j m)))"
proof -
  let ?p = "unat (m_get_or 0 (mp_plans m) (last names))" and ?n = "length ob"
  have r: "row m (last names) \<noteq> []" using assms(6,7) by (auto simp: on_probation_def probs_def)
  obtain i where i: "i < ?n" "go_sort cand_before ob ! i = c"
    using assms(7) by (metis in_set_conv_nth length_go_sort set_go_sort)
  obtain t where t: "?p < I * (i + 1 + ?n * t)" "I * (i + 1 + ?n * t) \<le> ?p + I * ?n" using next_turn [OF assms(9) i(1)] by blast
  define N where "N = I * (i + 1 + ?n * t)"
  define j where "j = N - Suc ?p"
  have N: "N < 2 ^ 64" "?p + Suc j = N" "j < I * ?n" using t assms(10) by (auto simp: N_def j_def)
  let ?m = "plan_again draw names j m"
  have I: "word_of_int (mc_ProbationInterval (mp_cfg m)) = (of_nat I :: u64)" using assms(8,9) by simp
  have I64: "I < 2 ^ 64" "?n < 2 ^ 64"
  proof -
    have "I \<le> I * ?n" "?n \<le> I * ?n" using assms(9) i(1) by auto
    then show "I < 2 ^ 64" "?n < 2 ^ 64" using assms(10) by linarith+
  qed
  have pn: "plan_no ?m (last names) = of_nat N"
  proof -
    have "plan_no ?m (last names) = of_nat ?p + of_nat (Suc j)" using plan_again_no [OF assms(3,4) r] by simp
    also have "\<dots> = of_nat N" using N(2) by (metis of_nat_add)
    finally show ?thesis .
  qed
  have un: "unat (of_nat N :: u64) = N" "unat (of_nat I :: u64) = I" "unat (of_nat ?n :: u64) = ?n"
    using N(1) I64 by (simp_all add: unat_of_nat)
  have d: "N div I = i + 1 + ?n * t" "N mod I = 0" using assms(9) by (simp_all add: N_def)
  have w1: "(of_nat N :: u64) mod of_nat I = 0" using un d(2) by (simp add: unat_mod flip: unat_eq_0)
  have q: "unat ((of_nat N :: u64) div of_nat I) = i + 1 + ?n * t" using un d(1) by (simp add: unat_div)
  have q1: "unat ((of_nat N :: u64) div of_nat I - 1) = i + ?n * t"
  proof -
    have "(1::u64) \<le> of_nat N div of_nat I" using q by (simp add: word_le_nat_alt)
    then show ?thesis using q by (simp add: unat_sub)
  qed
  have w2: "unat (((of_nat N :: u64) div of_nat I - 1) mod of_nat ?n) = i" using q1 un(3) i(1) by (simp add: unat_mod)
  have "pick_probation (mp_cfg ?m) (plan_no ?m (last names)) (on_probation ?m (tot ?m (last names)) (row ?m (last names))) = Some c"
    unfolding pn plan_again_frame plan_again_row plan_again_probation assms(6) [symmetric] pick_probation_def Let_def I w1 w2
    using i assms(1,9) I64(1) by (auto simp: matrix_cfg_ok_def word_less_nat_alt un)
  from probe_is_planned [OF _ _ assms(3) _ _ this, of draw] show ?thesis
    using assms(1,2,4) r N(3) by (auto simp: plan_again_frame plan_again_row)
qed

text \<open>The discounted weights of the default configuration never exceed five.\<close>

definition weight_ok :: "f64 \<Rightarrow> bool" where
  "weight_ok w \<longleftrightarrow> fle f0 w \<and> fle w (Fin 5)"

definition weights_ok :: "MatrixPrefetcher \<Rightarrow> bool" where
  "weights_ok m \<longleftrightarrow> mc_Decay (mp_cfg m) = r64 (1/5) \<and> mc_WasteHitLimit (mp_cfg m) = Fin 3 \<and>
     (\<forall>k. weight_ok (m_get_or f0 (mp_hitW m) k) \<and> weight_ok (m_get_or f0 (mp_wasteW m) k))"

lemma weight_okE: assumes "weight_ok w" obtains x where "w = Fin x" "0 \<le> x" "x \<le> 5"
  using assms by (cases w) (auto simp: weight_ok_def)

lemma discount_bounds:
  assumes "mc_Decay (mp_cfg m) = r64 (1/5)" "weight_ok w"
  obtains x where "discount m w = Fin x" "0 \<le> x" "x \<le> 4"
proof -
  let ?B = "3602879701896397 / 4503599627370496 :: rat"
  obtain x where x: "w = Fin x" "0 \<le> x" "x \<le> 5" using weight_okE [OF assms(2)] .
  have five: "r64 (?B * 5) = Fin 4" by code_simp
  have e: "discount m w = r64 (?B * x)" unfolding discount_def assms(1) alpha_split(2) x(1) by simp
  have "fle (r64 (?B * x)) (r64 (?B * 5))" using x(3) by (intro r64_mono) simp
  moreover have "fle (Fin 0) (r64 (?B * x))" using x(2) by (intro r64.nonneg) simp
  ultimately have "\<exists>y. discount m w = Fin y \<and> 0 \<le> y \<and> y \<le> 4" unfolding e five by (cases "r64 (?B * x)") auto
  then show thesis using that by blast
qed

lemma discount_ok:
  assumes "mc_Decay (mp_cfg m) = r64 (1/5)" "weight_ok w"
  shows "weight_ok (discount m w)" "weight_ok (fadd (discount m w) f1)" "fle f1 (fadd (discount m w) f1)" "fle (discount m w) (Fin 4)"
proof -
  obtain x where x: "discount m w = Fin x" "0 \<le> x" "x \<le> 4" using discount_bounds [OF assms] .
  have "r64 5 = Fin 5" by code_simp
  then have "fle (Fin 1) (r64 (x + 1))" "fle (r64 (x + 1)) (Fin 5)"
    using r64_mono [of 1 "x + 1"] r64_mono [of "x + 1" 5] x by simp_all
  then show "weight_ok (discount m w)" "weight_ok (fadd (discount m w) f1)" "fle f1 (fadd (discount m w) f1)" "fle (discount m w) (Fin 4)"
    using x fle_trans [of f0 f1 "r64 (x + 1)"] by (simp_all add: weight_ok_def)
qed

lemma weights_step: "weights_ok m \<Longrightarrow> weights_ok (matrix_step draw e m)"
  by (cases e) (auto simp: weights_ok_def Matrix_Observe_def Let_def Matrix_Plan_frame Matrix_PlanWithLoad_frame ObserveHit_def
      ObserveWaste_def Matrix_ApplyEvolution_def SetEpsilon_def discount_ok)

lemma weights_run: "weights_ok (matrix_run draw MatrixDefaults evs)"
proof (induction evs rule: rev_induct)
  case Nil
  have "fle (r64 (1/5)) f0 = False" "flt f1 (r64 (1/5)) = False" by code_simp+
  then show ?case by (simp add: matrix_run_def weights_ok_def weight_ok_def NewMatrixPrefetcher_def m_get_or_def MatrixDefaults_def)
next
  case (snoc e evs)
  then show ?case by (simp add: matrix_run_snoc weights_step)
qed

lemma r64_int_bounds:
  assumes "of_int a \<le> x" "x \<le> of_int b" "\<bar>a\<bar> < 2 ^ 53" "\<bar>b\<bar> < 2 ^ 53"
  obtains q where "r64 x = Fin q" "of_int a \<le> q" "q \<le> of_int b"
proof -
  have "fle (Fin (of_int a)) (r64 x)" "fle (r64 x) (Fin (of_int b))"
    using r64_mono [OF assms(1)] r64_mono [OF assms(2)] r64_of_int [OF assms(3)] r64_of_int [OF assms(4)] by simp_all
  then show thesis using that by (cases "r64 x") auto
qed

lemma mean_above_quarter:
  assumes "1 \<le> x" "x \<le> 5" "0 \<le> y" "y \<le> 4"
  shows "\<not> flt (posteriorMean (Fin x) (Fin y)) (fdiv f1 (fadd f1 (Fin 3)))"
proof -
  have quarter: "fdiv f1 (fadd f1 (Fin 3)) = Fin (1/4)" "r64 (1/4) = Fin (1/4)" "fmul (Fin 2) betaPrior = Fin 2" by code_simp+
  define lo where "lo = (if x \<le> 2 then 2 else 3 :: int)"
  define hi where "hi = (if x \<le> 2 then 6 else 9 :: int)"
  obtain n where n: "r64 (x + 1) = Fin n" "of_int lo \<le> n" "n \<le> of_int 6"
    by (rule r64_int_bounds [of lo "x + 1" 6]) (use assms in \<open>auto simp: lo_def\<close>)
  obtain s where s: "r64 (x + y) = Fin s" "of_int 1 \<le> s" "s \<le> of_int hi"
    by (rule r64_int_bounds [of 1 "x + y" hi]) (use assms in \<open>auto simp: hi_def\<close>)
  obtain d where d: "r64 (s + 2) = Fin d" "of_int 3 \<le> d" "d \<le> of_int (hi + 2)"
    by (rule r64_int_bounds [of 3 "s + 2" "hi + 2"]) (use s in \<open>auto simp: hi_def\<close>)
  have le: "d \<le> 4 * n" "0 < d" using n(2) d(2,3) by (auto simp: lo_def hi_def split: if_splits)
  then have "1/4 \<le> n / d" by (simp add: field_simps)
  then have "fle (Fin (1/4)) (r64 (n / d))" using r64_mono [of "1/4" "n / d"] quarter(2) by simp
  moreover have "posteriorMean (Fin x) (Fin y) = r64 (n / d)"
    using n(1) s(1) d(1) le(2) quarter(3) by (simp add: posteriorMean_def betaPrior_def)
  ultimately show ?thesis unfolding quarter(1) using flt_not_fle by metis
qed

text \<open>
  One hit rehabilitates. With the default configuration, however many wastes went before, a tool
  is no longer demoted after a single useful prefetch; together with probation, demotion is never final.
\<close>

lemma one_hit_rehabilitates:
  assumes "m = matrix_run draw MatrixDefaults evs"
  shows "\<not> demoted (ObserveHit k m) k"
proof -
  have w: "weights_ok m" using weights_run assms by simp
  let ?h = "fadd (discount m (m_get_or f0 (mp_hitW m) k)) f1" and ?w = "discount m (m_get_or f0 (mp_wasteW m) k)"
  have h: "weight_ok ?h" "fle f1 ?h" and ww: "weight_ok ?w" "fle ?w (Fin 4)"
    using w discount_ok by (simp_all add: weights_ok_def)
  obtain x where x: "?h = Fin x" "1 \<le> x" "x \<le> 5" using weight_okE [OF h(1)] h(2) by (metis fle_Fin)
  obtain y where y: "?w = Fin y" "0 \<le> y" "y \<le> 4" using weight_okE [OF ww(1)] ww(2) by (metis fle_Fin)
  have mean: "\<not> flt (posteriorMean (Fin x) (Fin y)) (fdiv f1 (fadd f1 (Fin 3)))" by (rule mean_above_quarter) (use x y in auto)
  have "mc_WasteHitLimit (mp_cfg (ObserveHit k m)) = Fin 3" using w by (simp add: weights_ok_def ObserveHit_def)
  then show ?thesis using mean x(1) y(1) by (simp add: demoted_def ObserveHit_def)
qed

section \<open>The offline planner\<close>

definition adjacent :: "'a \<Rightarrow> 'a \<Rightarrow> 'a list \<Rightarrow> bool" where
  "adjacent a b xs \<longleftrightarrow> (\<exists>us vs. xs = us @ a # b # vs)"

lemma adjacent_Cons: "adjacent a b xs \<Longrightarrow> adjacent a b (x # xs)"
  unfolding adjacent_def by (metis append_Cons)

lemma adjacent_here: "adjacent a b (a # b # xs)"
  unfolding adjacent_def by (metis append_Nil)

definition follows :: "transitionMatrix \<Rightarrow> string \<Rightarrow> string \<Rightarrow> bool" where
  "follows m a b \<longleftrightarrow> b \<in> set (keys (m_get_or [] (tm_counts m) a))"

lemma follows_add_pair: "follows (add_pair f t m) a b \<Longrightarrow> follows m a b \<or> (a = f \<and> b = t)"
  by (auto simp: follows_def add_pair_def Let_def split: if_splits)

lemma follows_addSeq: "follows (addSeq seq m) a b \<Longrightarrow> follows m a b \<or> adjacent a b seq"
proof (induction seq m rule: addSeq.induct)
  case (1 f t seq m)
  then have "follows (add_pair f t m) a b \<or> adjacent a b (t # seq)" by simp
  then show ?case using follows_add_pair adjacent_Cons adjacent_here by metis
qed simp_all

lemma follows_learned:
  "follows (fold (\<lambda>s. addSeq (go_fields (sl_Content s))) ss m) a b \<Longrightarrow>
   follows m a b \<or> (\<exists>s\<in>set ss. adjacent a b (go_fields (sl_Content s)))"
proof (induction ss arbitrary: m)
  case (Cons s ss)
  then show ?case using follows_addSeq by fastforce
qed simp

lemma plan_loop_safe:
  assumes "0 \<le> spent" "spent \<le> budget" "n < maxTasks"
  shows "list_all (\<lambda>t. pt_Key t \<in> set white \<and> pt_Key t \<in> fst ` set cs \<and> pt_Locality t = LocalityLocal) (plan_loop white budget maxTasks cs spent n) \<and>
    spent + sum_list (map pt_Cost (plan_loop white budget maxTasks cs spent n)) \<le> budget \<and>
    n + int (length (plan_loop white budget maxTasks cs spent n)) \<le> maxTasks"
  using assms
proof (induction white budget maxTasks cs spent n rule: plan_loop.induct)
  case (2 white budget maxTasks c cs spent n)
  consider "fst c \<notin> set white" | "fst c \<in> set white" "budget < spent + DefaultTaskCost"
    | "fst c \<in> set white" "spent + DefaultTaskCost \<le> budget" "maxTasks \<le> n + 1"
    | "fst c \<in> set white" "spent + DefaultTaskCost \<le> budget" "n + 1 < maxTasks" by fastforce
  then show ?case
  proof cases
    case 4
    then have "list_all (\<lambda>t. pt_Key t \<in> set white \<and> pt_Key t \<in> fst ` set cs \<and> pt_Locality t = LocalityLocal)
        (plan_loop white budget maxTasks cs (spent + DefaultTaskCost) (n + 1)) \<and>
      spent + DefaultTaskCost + sum_list (map pt_Cost (plan_loop white budget maxTasks cs (spent + DefaultTaskCost) (n + 1))) \<le> budget \<and>
      n + 1 + int (length (plan_loop white budget maxTasks cs (spent + DefaultTaskCost) (n + 1))) \<le> maxTasks"
      using 2 by (simp add: DefaultTaskCost_def)
    then show ?thesis using 4 by (auto simp: list_all_iff)
  qed (use 2 in \<open>auto simp: list_all_iff\<close>)
qed simp

text \<open>
  The offline planner is fail-closed. A planned task is on the whitelist, follows the last tool
  in some learned tool pattern, and is declared local; the plan respects the token budget and the task cap.
  Without learning, without a last tool or with an empty whitelist nothing is planned.
\<close>

lemma planner_fail_closed:
  assumes "Learn (Some ss) p0 = (err, p)" "Planner_Plan names p = tasks"
  shows "sum_list (map pt_Cost tasks) \<le> pl_budget p0 \<and> int (length tasks) \<le> pl_maxTasks p0 \<and>
    (\<forall>t\<in>set tasks. pt_Locality t = LocalityLocal \<and> pt_Key t \<in> set (whitelistSet (pl_WhiteList p0)) \<and>
       (\<exists>s\<in>set ss. sl_Type s = ToolPattern \<and> adjacent (lastToolName names) (pt_Key t) (go_fields (sl_Content s)))) \<and>
    (whitelistSet (pl_WhiteList p0) = [] \<or> lastToolName names = [] \<longrightarrow> tasks = [])"
proof -
  let ?m = "fold (\<lambda>s. addSeq (go_fields (sl_Content s))) (filter (\<lambda>s. sl_Type s = ToolPattern) ss) newTransitionMatrix"
  let ?l = "lastToolName names" and ?w = "whitelistSet (pl_WhiteList p0)"
  have p: "p = p0\<lparr>pl_matrix := Some ?m\<rparr>" using assms(1) by (simp add: Learn_def)
  have t: "tasks = (if ?l = [] \<or> ?w = [] then [] else plan_loop ?w (pl_budget p0) (pl_maxTasks p0) (tm_next ?m ?l) 0 0)"
    using assms(2) by (auto simp add: p Planner_Plan_def pl_budget_def pl_maxTasks_def Let_def)
  have pos: "0 \<le> pl_budget p0" "0 < pl_maxTasks p0" by (simp_all add: pl_budget_def pl_maxTasks_def DefaultBudget_def DefaultMaxTasks_def)
  have base: "\<not> follows newTransitionMatrix a b" for a b by (simp add: follows_def newTransitionMatrix_def m_get_or_def)
  have src: "\<exists>s\<in>set ss. sl_Type s = ToolPattern \<and> adjacent ?l k (go_fields (sl_Content s))" if "k \<in> fst ` set (tm_next ?m ?l)" for k
  proof -
    have "follows ?m ?l k" using that by (simp add: tm_next_def follows_def image_image)
    then show ?thesis using follows_learned base by fastforce
  qed
  show ?thesis using plan_loop_safe [of 0 "pl_budget p0" 0 "pl_maxTasks p0" ?w "tm_next ?m ?l"] pos src unfolding t by (auto simp: list_all_iff)
qed

section \<open>The runner\<close>

lemma run_blocked:
  assumes "list_all (\<lambda>t. pt_Locality t \<noteq> LocalityLocal) tasks"
  shows "fold (run_task hash put exec warm scope) tasks r = r\<lparr>rs_BlockedEgress := rs_BlockedEgress r + int (length tasks)\<rparr>"
  using assms by (induction tasks arbitrary: r) (simp_all add: run_task_def)

lemma run_local:
  assumes "list_all (\<lambda>t. pt_Locality t = LocalityLocal) tasks"
  shows "rs_BlockedEgress (fold (run_task hash put exec warm scope) tasks r) = rs_BlockedEgress r \<and>
    length (rs_ids (fold (run_task hash put exec warm scope) tasks r)) + length (rs_errs (fold (run_task hash put exec warm scope) tasks r))
      \<le> length (rs_ids r) + length (rs_errs r) + length tasks \<and>
    (list_all (\<lambda>t. pt_Kind t \<notin> set warm) tasks \<longrightarrow>
      length (rs_ids (fold (run_task hash put exec warm scope) tasks r)) + length (rs_errs (fold (run_task hash put exec warm scope) tasks r))
      = length (rs_ids r) + length (rs_errs r) + length tasks)"
  using assms
proof (induction tasks arbitrary: r)
  case (Cons t tasks)
  let ?r = "run_task hash put exec warm scope t r"
  have "rs_BlockedEgress ?r = rs_BlockedEgress r \<and> length (rs_ids ?r) + length (rs_errs ?r) \<le> length (rs_ids r) + length (rs_errs r) + 1 \<and>
    (pt_Kind t \<notin> set warm \<longrightarrow> length (rs_ids ?r) + length (rs_errs ?r) = length (rs_ids r) + length (rs_errs r) + 1)"
    using Cons.prems by (auto simp: run_task_def Let_def split: option.splits prod.splits)
  then show ?case using Cons.IH [of ?r] Cons.prems by auto
qed simp

text \<open>
  Which plans the runner executes. Every task of an offline plan is executed and ends as a stored
  result or as a reported error. Every task of an online plan, except the escape probe, is
  counted as blocked egress: the online prefetcher leaves the locality of its tasks undeclared, so nothing
  is executed and nothing is stored.
\<close>

lemma runner_blocks_online_plans:
  assumes "mc_Epsilon (mp_cfg m) = f0" "matrix_cfg_ok (mp_cfg m)" "wf_map (row m (last names))" "length (row m (last names)) < 2 ^ 64"
  shows "Runner_Run hash put exec wk sc (fst (Matrix_Plan draw names m)) st b =
      \<lparr>rs_store = st, rs_ids = [], rs_errs = [], rs_BlockedEgress = b + int (length (fst (Matrix_Plan draw names m)))\<rparr> \<and>
    rs_BlockedEgress (Runner_Run hash put exec None sc (Planner_Plan ns p) st b) = b \<and>
    length (rs_ids (Runner_Run hash put exec None sc (Planner_Plan ns p) st b)) +
      length (rs_errs (Runner_Run hash put exec None sc (Planner_Plan ns p) st b)) = length (Planner_Plan ns p)"
proof -
  have off: "\<not> escapes (mp_cfg m) ts pr" for ts pr using assms(1) by (simp add: escapes_def)
  have "list_all (\<lambda>t. pt_Locality t \<noteq> LocalityLocal) (fst (Matrix_Plan draw names m))"
    using ranked_tasks_safe [OF assms(2-4)] off by (auto simp: Matrix_Plan_tasks list_all_iff LocalityLocal_def)
  note a = run_blocked [OF this]
  have kinds: "list_all (\<lambda>t. pt_Locality t = LocalityLocal \<and> pt_Kind t = ''slice-assembly'') (plan_loop w bu mx cs s n)" for w bu mx cs s n
    by (induction w bu mx cs s n rule: plan_loop.induct) auto
  have "list_all (\<lambda>t. pt_Locality t = LocalityLocal) (Planner_Plan ns p)"
    "list_all (\<lambda>t. pt_Kind t \<notin> set [''embedding'', ''file'']) (Planner_Plan ns p)"
    using kinds by (auto simp: Planner_Plan_def list_all_iff Let_def split: option.splits)
  note c = run_local [OF this(1), of hash put exec "[''embedding'', ''file'']"] this(2)
  show ?thesis using c by (simp add: Runner_Run_def a Let_def)
qed

section \<open>A small history\<close>

text \<open>The tool \<open>read\<close> is followed by \<open>grep\<close> three times and by \<open>edit\<close> and \<open>glob\<close> once each; \<open>glob\<close> is wasteful.\<close>

definition no_draw :: "nat \<Rightarrow> f64" where
  "no_draw n = f1"

definition demo_events :: "matrix_event list" where
  "demo_events = [EvObserve ''read'' ''grep'' True, EvObserve ''read'' ''grep'' True, EvObserve ''read'' ''edit'' False,
     EvObserve ''read'' ''glob'' True, EvObserve ''read'' ''grep'' True, EvWaste ''glob'', EvWaste ''glob'', EvWaste ''glob'']"

definition demo_matrix :: MatrixPrefetcher where
  "demo_matrix = \<lparr>mp_cfg = MatrixDefaults,
     mp_bigrams = [(''read'', [(''grep'', 3), (''edit'', 1), (''glob'', 1)])], mp_counts = [(''read'', 5)],
     mp_readOnly = [''glob'', ''grep''], mp_rnd = 0, mp_hitW = [(''glob'', f0)],
     mp_wasteW = [(''glob'', Fin (2747195772696003 / 1125899906842624))], mp_hitCount = [], mp_wasteCount = [(''glob'', 3)],
     mp_totalHits = 0, mp_totalWastes = 3, mp_lastPrev = [], mp_lastProposed = [], mp_readOnlyCalls = 4, mp_coveredCalls = 0,
     mp_gate = no_gate, mp_plans = []\<rparr>"

lemma demo_run: "demo_matrix = matrix_run no_draw MatrixDefaults demo_events"
  by code_simp

lemma demo_facts:
  "counts_ok (tot demo_matrix ''read'') (row demo_matrix ''read'')" "tot demo_matrix ''read'' \<noteq> 0"
  "row demo_matrix ''read'' = [(''grep'', 3), (''edit'', 1), (''glob'', 1)]"
  "map pt_Key (fst (Matrix_Plan no_draw [''read''] demo_matrix)) = [''grep'']"
  "matrix_cfg_ok (mp_cfg demo_matrix)"
  "map fst (on_probation demo_matrix (tot demo_matrix ''read'') (row demo_matrix ''read'')) = [''glob'']"
  "nat (mc_ProbationInterval (mp_cfg demo_matrix)) = 10" "mc_TopK (mp_cfg demo_matrix) * mc_BaseCost (mp_cfg demo_matrix) \<le> mc_MaxCost (mp_cfg demo_matrix)"
  "unat (m_get_or 0 (mp_plans demo_matrix) ''read'') = 0" "mc_Epsilon (mp_cfg demo_matrix) = f0"
  by code_simp+

lemma plan_deterministic_witness:
  "fst (Matrix_Plan no_draw [''read''] (demo_matrix\<lparr>mp_bigrams := [(''read'', [(''glob'', 1), (''grep'', 3), (''edit'', 1)])]\<rparr>)) =
   fst (Matrix_Plan no_draw [''read''] demo_matrix)"
proof (rule plan_deterministic)
  show "counts_ok (tot demo_matrix (last [''read''])) (row demo_matrix (last [''read'']))" using demo_facts(1) by simp
qed (simp add: demo_facts(3) m_get_or_def)


lemma probation_reaches_everyone_witness:
  "\<exists>j < 10. assembly (mp_cfg demo_matrix) ''glob'' True [] \<in> set (fst (Matrix_Plan no_draw [''read''] (plan_again no_draw [''read''] j demo_matrix)))"
proof -
  obtain c where c: "on_probation demo_matrix (tot demo_matrix ''read'') (row demo_matrix ''read'') = [c]" "fst c = ''glob''"
    using demo_facts(6) by auto
  show ?thesis
    using probation_reaches_everyone [OF demo_facts(5,8), of "[''read'']" _ c 10 no_draw] demo_facts c by simp
qed

lemma one_hit_rehabilitates_witness:
  "demoted demo_matrix ''glob'' \<and> \<not> demoted (ObserveHit ''glob'' demo_matrix) ''glob''"
proof
  show "demoted demo_matrix ''glob''" by code_simp
  show "\<not> demoted (ObserveHit ''glob'' demo_matrix) ''glob''" by (rule one_hit_rehabilitates [OF demo_run])
qed

definition demo_planner :: Planner where
  "demo_planner = \<lparr>pl_WhiteList = [''grep''], pl_Budget = 0, pl_MaxTasks = 0, pl_MaxLoad = f0, pl_matrix = None, pl_gate = no_gate\<rparr>"

definition demo_patterns :: "Slice list" where
  "demo_patterns = [zero_slice\<lparr>sl_Type := ToolPattern, sl_Content := ''read grep edit''\<rparr>]"

lemma demo_plan: "map pt_Key (Planner_Plan [''read''] (snd (Learn (Some demo_patterns) demo_planner))) = [''grep'']"
  "whitelistSet (pl_WhiteList demo_planner) = [''grep'']" "pl_budget demo_planner = 1000"
  by code_simp+

lemma planner_fail_closed_witness:
  "map pt_Key (Planner_Plan [''read''] (snd (Learn (Some demo_patterns) demo_planner))) = [''grep''] \<and>
   sum_list (map pt_Cost (Planner_Plan [''read''] (snd (Learn (Some demo_patterns) demo_planner)))) \<le> 1000"
  using planner_fail_closed [of demo_patterns demo_planner False "snd (Learn (Some demo_patterns) demo_planner)" "[''read'']"] demo_plan
  by (simp add: Learn_def)

lemma runner_blocks_online_plans_witness:
  "rs_BlockedEgress (Runner_Run (\<lambda>x. x) (\<lambda>s st. (False, st)) (\<lambda>t st. Some ''x'') None Session (fst (Matrix_Plan no_draw [''read''] demo_matrix)) () 0) = 1 \<and>
   rs_BlockedEgress (Runner_Run (\<lambda>x. x) (\<lambda>s st. (False, st)) (\<lambda>t st. Some ''x'') None Session
     (Planner_Plan [''read''] (snd (Learn (Some demo_patterns) demo_planner))) () 0) = 0"
proof -
  have l: "length (fst (Matrix_Plan no_draw [''read''] demo_matrix)) = 1" using arg_cong [OF demo_facts(4), of length] by simp
  have w: "wf_map (row demo_matrix ''read'')" "length (row demo_matrix ''read'') < 2 ^ 64" by (simp_all add: demo_facts(3) wf_map_def)
  show ?thesis
    using runner_blocks_online_plans [OF demo_facts(10,5), of "[''read'']" "\<lambda>x. x" "\<lambda>s st. (False, st)" "\<lambda>t st. Some ''x''"
        None Session no_draw "()" 0 "[''read'']" "snd (Learn (Some demo_patterns) demo_planner)"] w l by simp
qed

end
