(* ===== verification/BM25.thy ===== *)
theory BM25
  imports Slice_Types
begin

text \<open>
  The lexical index of \<open>kernel/bm25\<close>: the tokenizer (\<open>tokenizer.go\<close>) and the inverted index with its
  per-scope statistics (\<open>bm25.go\<close>). Texts are tokenized rune by rune: the classification of
  runes (the Unicode tables of the Go library) and the decoding of a byte string into runes are parameters,
  and the index takes the resulting function from texts to tokens as an argument. \<open>math.Log\<close> is an
  argument, too. A Go set \<open>map[K]struct{}\<close> is a map to \<^typ>\<open>unit\<close>. Counters are
  mathematical integers.
\<close>

section \<open>The tokenizer\<close>

record 'r runes =
  rc_isCJK :: "'r \<Rightarrow> bool"
  rc_isWord :: "'r \<Rightarrow> bool"
  rc_lower :: "'r \<Rightarrow> 'r"

fun Tokenize_from :: "'r runes \<Rightarrow> 'r list \<Rightarrow> 'r list \<Rightarrow> 'r list list" where
  "Tokenize_from rc word [] = (if word = [] then [] else [word])"
| "Tokenize_from rc word (r # rs) =
     (if rc_isCJK rc r then (if word = [] then [] else [word]) @ [r] # Tokenize_from rc [] rs
      else if rc_isWord rc r then Tokenize_from rc (word @ [rc_lower rc r]) rs
      else (if word = [] then [] else [word]) @ Tokenize_from rc [] rs)"

definition Tokenize :: "'r runes \<Rightarrow> 'r list \<Rightarrow> 'r list list" where
  "Tokenize rc text = Tokenize_from rc [] text"

definition countTerms :: "'t list \<Rightarrow> ('t, int) gomap" where
  "countTerms terms = fold (\<lambda>t m. m_set t (m_get_or 0 m t + 1) m) terms []"

definition uniqueTerms :: "'t list \<Rightarrow> 't list" where
  "uniqueTerms terms = fold (\<lambda>t out. if t \<in> set out then out else out @ [t]) terms []"

definition QueryCoverage :: "('s \<Rightarrow> 't list) \<Rightarrow> 's \<Rightarrow> 's \<Rightarrow> f64" where
  "QueryCoverage tok query content =
     (let qt = uniqueTerms (tok query) in
      if qt = [] then f0
      else let ct = countTerms (tok content)
           in fdiv (f_of_int (int (length (filter (\<lambda>q. m_get ct q \<noteq> None) qt)))) (f_of_int (int (length qt))))"

section \<open>The index\<close>

type_synonym terms = "(string, int) gomap"

record document =
  d_value :: Slice
  d_terms :: terms
  d_length :: int

record Index =
  ix_k1 :: f64
  ix_b :: f64
  ix_docs :: "(string, document) gomap"
  ix_postings :: "(string, (string, int) gomap) gomap"
  ix_scopeDocs :: "(Scope, (string, unit) gomap) gomap"
  ix_scopeDF :: "(Scope, (string, int) gomap) gomap"
  ix_scopeTotalLength :: "(Scope, int) gomap"

definition defaultK1 :: f64 where "defaultK1 = r64 (12/10)"
definition defaultB :: f64 where "defaultB = r64 (3/4)"

definition New :: Index where
  "New = \<lparr>ix_k1 = defaultK1, ix_b = defaultB, ix_docs = [], ix_postings = [], ix_scopeDocs = [], ix_scopeDF = [],
     ix_scopeTotalLength = []\<rparr>"

definition cloneSlice :: "Slice \<Rightarrow> Slice" where
  "cloneSlice s = s"

definition post_add :: "string \<Rightarrow> string \<times> int \<Rightarrow> (string, (string, int) gomap) gomap \<Rightarrow> (string, (string, int) gomap) gomap" where
  "post_add sid tf p = m_set (fst tf) (m_set sid (snd tf) (m_get_or [] p (fst tf))) p"

definition post_del :: "string \<Rightarrow> string \<Rightarrow> (string, (string, int) gomap) gomap \<Rightarrow> (string, (string, int) gomap) gomap" where
  "post_del sid term p =
     (case m_get p term of None \<Rightarrow> p
      | Some row \<Rightarrow> if m_del sid row = [] then m_del term p else m_set term (m_del sid row) p)"

definition df_inc :: "string \<Rightarrow> terms \<Rightarrow> terms" where
  "df_inc term m = m_set term (m_get_or 0 m term + 1) m"

definition df_dec :: "string \<Rightarrow> terms \<Rightarrow> terms" where
  "df_dec term m =
     (let n = m_get_or 0 m term - 1 in if n = 0 then m_del term m else m_set term n m)"

text \<open>
  Both loops range over the terms of the document. In \<open>removeLocked\<close> the scope has statistics, since
  the document was inserted into it.
\<close>

definition removeLocked :: "string \<Rightarrow> document \<Rightarrow> Index \<Rightarrow> Index" where
  "removeLocked sid doc ix =
     (let scope = sl_Scope (d_value doc);
          sdocs = m_set scope (m_del sid (m_get_or [] (ix_scopeDocs ix) scope)) (ix_scopeDocs ix);
          tl = m_set scope (m_get_or 0 (ix_scopeTotalLength ix) scope - d_length doc) (ix_scopeTotalLength ix);
          post = fold (post_del sid) (keys (d_terms doc)) (ix_postings ix);
          df = m_set scope (fold df_dec (keys (d_terms doc)) (m_get_or [] (ix_scopeDF ix) scope)) (ix_scopeDF ix);
          ix' = ix\<lparr>ix_docs := m_del sid (ix_docs ix), ix_scopeDocs := sdocs, ix_scopeTotalLength := tl,
                   ix_postings := post, ix_scopeDF := df\<rparr>
      in if m_get_or [] sdocs scope = []
         then ix'\<lparr>ix_scopeDocs := m_del scope sdocs, ix_scopeDF := m_del scope df, ix_scopeTotalLength := m_del scope tl\<rparr>
         else ix')"

datatype bm_err = EmptyID | NoTerms

definition Remove :: "string \<Rightarrow> Index \<Rightarrow> bm_err option \<times> Index" where
  "Remove sid ix =
     (if sid = [] then (Some EmptyID, ix)
      else case m_get (ix_docs ix) sid of None \<Rightarrow> (None, ix) | Some doc \<Rightarrow> (None, removeLocked sid doc ix))"

definition addLocked :: "string \<Rightarrow> document \<Rightarrow> Index \<Rightarrow> Index" where
  "addLocked sid doc ix =
     (let scope = sl_Scope (d_value doc) in
      ix\<lparr>ix_docs := m_set sid doc (ix_docs ix),
         ix_scopeDocs := m_set scope (m_set sid () (m_get_or [] (ix_scopeDocs ix) scope)) (ix_scopeDocs ix),
         ix_scopeTotalLength := m_set scope (m_get_or 0 (ix_scopeTotalLength ix) scope + d_length doc) (ix_scopeTotalLength ix),
         ix_postings := fold (post_add sid) (d_terms doc) (ix_postings ix),
         ix_scopeDF := m_set scope (fold df_inc (keys (d_terms doc)) (m_get_or [] (ix_scopeDF ix) scope)) (ix_scopeDF ix)\<rparr>)"

definition Insert :: "(string \<Rightarrow> string list) \<Rightarrow> Slice \<Rightarrow> Index \<Rightarrow> bm_err option \<times> Index" where
  "Insert tok s ix =
     (if sl_ID s = [] then (Some EmptyID, ix)
      else
        let terms = tok (sl_Content s) in
        if terms = [] then Remove (sl_ID s) ix
        else
          let doc = \<lparr>d_value = cloneSlice s, d_terms = countTerms terms, d_length = int (length terms)\<rparr>;
              ix' = (case m_get (ix_docs ix) (sl_ID s) of None \<Rightarrow> ix | Some old \<Rightarrow> removeLocked (sl_ID s) old ix)
          in (None, addLocked (sl_ID s) doc ix'))"

definition term_score :: "(f64 \<Rightarrow> f64) \<Rightarrow> f64 \<Rightarrow> f64 \<Rightarrow> int \<Rightarrow> f64 \<Rightarrow> f64 \<Rightarrow> int \<Rightarrow> int \<Rightarrow> f64" where
  "term_score logf k1 b totalDocs avgLength docLength tf df =
     (let idf = logf (fadd f1 (fdiv (fadd (fsub (f_of_int totalDocs) (f_of_int df)) (Fin (1/2))) (fadd (f_of_int df) (Fin (1/2)))));
          frequency = f_of_int tf;
          numerator = fmul frequency (fadd k1 f1);
          denominator = fadd frequency (fmul k1 (fadd (fsub f1 b) (fdiv (fmul b docLength) avgLength)))
      in fdiv (fmul idf numerator) denominator)"

definition score_terms ::
  "(f64 \<Rightarrow> f64) \<Rightarrow> f64 \<Rightarrow> f64 \<Rightarrow> (string \<Rightarrow> int) \<Rightarrow> int \<Rightarrow> f64 \<Rightarrow> document \<Rightarrow> string list \<Rightarrow> f64" where
  "score_terms logf k1 b df totalDocs avgLength doc queryTerms =
     (if d_length doc = 0 then f0
      else fold (\<lambda>term score.
             let tf = m_get_or 0 (d_terms doc) term in
             if tf = 0 \<or> df term = 0 then score
             else fadd score (term_score logf k1 b totalDocs avgLength (f_of_int (d_length doc)) tf (df term)))
           queryTerms f0)"

definition score :: "(f64 \<Rightarrow> f64) \<Rightarrow> Index \<Rightarrow> document option \<Rightarrow> string list \<Rightarrow> Scope \<Rightarrow> int \<Rightarrow> f64 \<Rightarrow> f64" where
  "score logf ix od queryTerms scope totalDocs avgLength =
     (case od of None \<Rightarrow> f0
      | Some doc \<Rightarrow> score_terms logf (ix_k1 ix) (ix_b ix) (\<lambda>term. m_get_or 0 (m_get_or [] (ix_scopeDF ix) scope) term)
          totalDocs avgLength doc queryTerms)"

definition hit_of :: "document \<Rightarrow> f64 \<Rightarrow> string list \<Rightarrow> Hit" where
  "hit_of doc sc queryTerms = \<lparr>h_Slice = Some (cloneSlice (d_value doc)), h_Score = sc,
     h_QueryCoverage = fdiv (f_of_int (int (length (filter (\<lambda>t. m_get_or 0 (d_terms doc) t > 0) queryTerms))))
       (f_of_int (int (length queryTerms))),
     h_QueryCoverageValid = True, h_Lexical = f1, h_LexicalValid = True\<rparr>"

definition hit_id :: "Hit \<Rightarrow> string" where
  "hit_id h = (case h_Slice h of None \<Rightarrow> [] | Some s \<Rightarrow> sl_ID s)"

definition hit_before :: "Hit \<Rightarrow> Hit \<Rightarrow> bool" where
  "hit_before x y = (if feq (h_Score x) (h_Score y) then hit_id x < hit_id y else flt (h_Score y) (h_Score x))"

definition candidates :: "Index \<Rightarrow> (string, unit) gomap \<Rightarrow> string list \<Rightarrow> (string, unit) gomap" where
  "candidates ix docIDs queryTerms =
     fold (\<lambda>term c. fold (\<lambda>sid c. if m_get docIDs sid \<noteq> None then m_set sid () c else c)
       (keys (m_get_or [] (ix_postings ix) term)) c) queryTerms []"

definition Search ::
  "(string \<Rightarrow> string list) \<Rightarrow> (f64 \<Rightarrow> f64) \<Rightarrow> Index \<Rightarrow> string \<Rightarrow> int \<Rightarrow> Scope \<Rightarrow> bm_err + Hit list" where
  "Search tok logf ix query k scope =
     (if k \<le> 0 then Inr []
      else
        let queryTerms = uniqueTerms (tok query) in
        if queryTerms = [] then Inl NoTerms
        else
          let docIDs = m_get_or [] (ix_scopeDocs ix) scope; totalDocs = int (length docIDs) in
          if totalDocs = 0 then Inr []
          else
            let avgLength = fdiv (f_of_int (m_get_or 0 (ix_scopeTotalLength ix) scope)) (f_of_int totalDocs) in
            if fle avgLength f0 then Inr []
            else
              let hits = List.map_filter (\<lambda>sid.
                    let od = m_get (ix_docs ix) sid; sc = score logf ix od queryTerms scope totalDocs avgLength
                    in if fle sc f0 then None else map_option (\<lambda>doc. hit_of doc sc queryTerms) od)
                  (keys (candidates ix docIDs queryTerms))
              in Inr (take (nat k) (go_sort hit_before hits)))"

section \<open>Histories\<close>

datatype bm_op = InsertOp Slice | RemoveOp string

fun bm_step :: "(string \<Rightarrow> string list) \<Rightarrow> bm_op \<Rightarrow> Index \<Rightarrow> Index" where
  "bm_step tok (InsertOp s) ix = snd (Insert tok s ix)"
| "bm_step tok (RemoveOp sid) ix = snd (Remove sid ix)"

definition bm_run :: "(string \<Rightarrow> string list) \<Rightarrow> bm_op list \<Rightarrow> Index" where
  "bm_run tok ops = fold (bm_step tok) ops New"

section \<open>The reference: a library searched without an index\<close>

text \<open>The library a history leaves: the latest version of every slice that has tokens.\<close>

fun lib_step :: "(string \<Rightarrow> string list) \<Rightarrow> bm_op \<Rightarrow> (string, Slice) gomap \<Rightarrow> (string, Slice) gomap" where
  "lib_step tok (InsertOp s) L =
     (if sl_ID s = [] then L else if tok (sl_Content s) = [] then m_del (sl_ID s) L else m_set (sl_ID s) s (m_del (sl_ID s) L))"
| "lib_step tok (RemoveOp sid) L = (if sid = [] then L else m_del sid L)"

definition lib_run :: "(string \<Rightarrow> string list) \<Rightarrow> bm_op list \<Rightarrow> (string, Slice) gomap" where
  "lib_run tok ops = fold (lib_step tok) ops []"

definition doc_of :: "(string \<Rightarrow> string list) \<Rightarrow> Slice \<Rightarrow> document" where
  "doc_of tok s = \<lparr>d_value = s, d_terms = countTerms (tok (sl_Content s)), d_length = int (length (tok (sl_Content s)))\<rparr>"

definition has_term :: "(string \<Rightarrow> string list) \<Rightarrow> string \<Rightarrow> Slice \<Rightarrow> bool" where
  "has_term tok t s \<longleftrightarrow> t \<in> set (tok (sl_Content s))"

definition ref_search ::
  "(string \<Rightarrow> string list) \<Rightarrow> (f64 \<Rightarrow> f64) \<Rightarrow> Slice list \<Rightarrow> string \<Rightarrow> int \<Rightarrow> Scope \<Rightarrow> bm_err + Hit list" where
  "ref_search tok logf slices query k scope =
     (let qt = uniqueTerms (tok query); own = filter (\<lambda>s. sl_Scope s = scope) slices;
          n = int (length own); total = sum_list (map (\<lambda>s. int (length (tok (sl_Content s)))) own);
          df = (\<lambda>t. int (length (filter (has_term tok t) own)));
          sc = (\<lambda>s. score_terms logf defaultK1 defaultB df n (fdiv (f_of_int total) (f_of_int n)) (doc_of tok s) qt);
          found = filter (\<lambda>s. list_ex (\<lambda>t. has_term tok t s) qt \<and> \<not> fle (sc s) f0) own
      in if k \<le> 0 then Inr [] else if qt = [] then Inl NoTerms
         else Inr (take (nat k) (go_sort hit_before (map (\<lambda>s. hit_of (doc_of tok s) (sc s) qt) found))))"

end
