(* ===== verification/BM25_Correct.thy ===== *)
theory BM25_Correct
  imports BM25
begin

text \<open>
  The incremental index is correct: after any history of insertions, replacements and removals its
  postings and per-scope statistics are those of the library the history leaves, and a search through
  the postings returns what scoring every slice of that library from scratch would return.
\<close>

section \<open>Counting terms\<close>

lemma countTerms_fold:
  "wf_map m \<Longrightarrow> wf_map (fold (\<lambda>t m. m_set t (m_get_or 0 m t + 1) m) ts m) \<and>
   set (keys (fold (\<lambda>t m. m_set t (m_get_or 0 m t + 1) m) ts m)) = set (keys m) \<union> set ts \<and>
   (\<forall>t. m_get_or 0 (fold (\<lambda>t m. m_set t (m_get_or 0 m t + 1) m) ts m) t = m_get_or 0 m t + int (count_list ts t))"
  by (induction ts arbitrary: m) auto

lemma countTerms [simp]:
  "wf_map (countTerms ts)" "set (keys (countTerms ts)) = set ts" "m_get_or 0 (countTerms ts) t = int (count_list ts t)"
  using countTerms_fold [of "[]" ts] by (simp_all add: countTerms_def m_get_or_def)

lemma uniqueTerms_fold:
  "distinct out \<Longrightarrow> distinct (fold (\<lambda>t out. if t \<in> set out then out else out @ [t]) ts out) \<and>
   set (fold (\<lambda>t out. if t \<in> set out then out else out @ [t]) ts out) = set out \<union> set ts"
  by (induction ts arbitrary: out) (auto simp: insert_absorb)

lemma uniqueTerms [simp]: "distinct (uniqueTerms ts)" "set (uniqueTerms ts) = set ts"
  using uniqueTerms_fold [of "[]" ts] by (simp_all add: uniqueTerms_def)

section \<open>Updates of the derived maps\<close>

abbreviation post_ids :: "(string, (string, int) gomap) gomap \<Rightarrow> string \<Rightarrow> string set" where
  "post_ids p t \<equiv> set (keys (m_get_or [] p t))"

lemma post_add_ids: "post_ids (post_add i tf p) t = post_ids p t \<union> (if t = fst tf then {i} else {})"
  by (simp add: post_add_def)

lemma fold_post_add: "post_ids (fold (post_add i) tfs p) t = post_ids p t \<union> (if t \<in> fst ` set tfs then {i} else {})"
proof (induction tfs arbitrary: p)
  case (Cons u ts)
  then show ?case unfolding fold_simps comp_apply Cons post_add_ids by auto
qed simp

lemma post_del_ids: "post_ids (post_del i u p) t = post_ids p t - (if t = u then {i} else {})"
proof (cases "m_get p u")
  case None
  then show ?thesis by (simp add: post_del_def m_get_or_get)
next
  case (Some row)
  have e: "fst ` set (m_del i row) = fst ` set row - {i}" by simp
  show ?thesis
  proof (cases "m_del i row = []")
    case True
    then have "fst ` set row - {i} = {}" using e by simp
    then show ?thesis using Some True by (simp add: post_del_def m_get_or_get)
  next
    case False
    then show ?thesis using Some e by (simp add: post_del_def m_get_or_get)
  qed
qed

lemma fold_post_del: "post_ids (fold (post_del i) ts p) t = post_ids p t - (if t \<in> set ts then {i} else {})"
proof (induction ts arbitrary: p)
  case (Cons u ts)
  then show ?case unfolding fold_simps comp_apply Cons post_del_ids by auto
qed simp

lemma df_inc_get: "m_get_or 0 (df_inc u m) t = m_get_or 0 m t + (if t = u then 1 else 0)"
  by (simp add: df_inc_def)

lemma df_dec_get: "m_get_or 0 (df_dec u m) t = m_get_or 0 m t - (if t = u then 1 else 0)"
  by (simp add: df_dec_def Let_def m_get_or_get)

lemma fold_df_inc: "distinct ts \<Longrightarrow> m_get_or 0 (fold df_inc ts m) t = m_get_or 0 m t + (if t \<in> set ts then 1 else 0)"
  by (induction ts arbitrary: m) (auto simp: df_inc_get)

lemma fold_df_dec: "distinct ts \<Longrightarrow> m_get_or 0 (fold df_dec ts m) t = m_get_or 0 m t - (if t \<in> set ts then 1 else 0)"
  by (induction ts arbitrary: m) (auto simp: df_dec_get)

lemma m_set_new: "k \<notin> set (keys m) \<Longrightarrow> m_set k v m = m @ [(k, v)]"
  by (induction m) auto

lemma m_del_split:
  assumes "wf_map L" "m_get L i = Some s"
  obtains xs ys where "L = xs @ (i, s) # ys" "m_del i L = xs @ ys" "i \<notin> set (keys (xs @ ys))"
proof -
  obtain xs ys where L: "L = xs @ (i, s) # ys" using assms(2) by (metis m_get_def map_of_SomeD split_list)
  then have n: "i \<notin> set (keys xs)" "i \<notin> set (keys ys)" using assms(1) by (auto simp: wf_map_def)
  have "filter (\<lambda>(k, _). k \<noteq> i) xs = xs" "filter (\<lambda>(k, _). k \<noteq> i) ys = ys"
    using n by (intro filter_True; force)+
  then show thesis using that [OF L] L n by (simp add: m_del_def)
qed

lemma m_del_map: "m_del i (map (\<lambda>(i, s). (i, f s)) L) = map (\<lambda>(i, s). (i, f s)) (m_del i L)"
  by (induction L) (auto simp: m_del_def)

lemma m_get_map: "m_get (map (\<lambda>(i, s). (i, f s)) L) i = map_option f (m_get L i)"
  by (induction L) (auto simp: m_get_def)

section \<open>The index describes its library\<close>

definition own :: "Scope \<Rightarrow> (string, Slice) gomap \<Rightarrow> Slice list" where
  "own sc L = filter (\<lambda>s. sl_Scope s = sc) (map snd L)"

definition lib_ok :: "(string \<Rightarrow> string list) \<Rightarrow> (string, Slice) gomap \<Rightarrow> bool" where
  "lib_ok tok L \<longleftrightarrow> wf_map L \<and> (\<forall>(i, s)\<in>set L. sl_ID s = i \<and> tok (sl_Content s) \<noteq> [])"

definition doc_freq :: "(string \<Rightarrow> string list) \<Rightarrow> (string, Slice) gomap \<Rightarrow> Scope \<Rightarrow> string \<Rightarrow> int" where
  "doc_freq tok L sc t = int (length (filter (has_term tok t) (own sc L)))"

definition total_length :: "(string \<Rightarrow> string list) \<Rightarrow> (string, Slice) gomap \<Rightarrow> Scope \<Rightarrow> int" where
  "total_length tok L sc = sum_list (map (\<lambda>s. int (length (tok (sl_Content s)))) (own sc L))"

definition indexes :: "(string \<Rightarrow> string list) \<Rightarrow> (string, Slice) gomap \<Rightarrow> Index \<Rightarrow> bool" where
  "indexes tok L ix \<longleftrightarrow> lib_ok tok L \<and> ix_k1 ix = defaultK1 \<and> ix_b ix = defaultB \<and>
     ix_docs ix = map (\<lambda>(i, s). (i, doc_of tok s)) L \<and>
     (\<forall>t. post_ids (ix_postings ix) t = {i. \<exists>s. (i, s) \<in> set L \<and> has_term tok t s}) \<and>
     (\<forall>sc. wf_map (m_get_or [] (ix_scopeDocs ix) sc) \<and>
       set (keys (m_get_or [] (ix_scopeDocs ix) sc)) = {i. \<exists>s. (i, s) \<in> set L \<and> sl_Scope s = sc}) \<and>
     (\<forall>sc t. m_get_or 0 (m_get_or [] (ix_scopeDF ix) sc) t = doc_freq tok L sc t) \<and>
     (\<forall>sc. m_get_or 0 (ix_scopeTotalLength ix) sc = total_length tok L sc)"

lemma indexesD:
  assumes "indexes tok L ix"
  shows "wf_map L" "lib_ok tok L" "ix_k1 ix = defaultK1" "ix_b ix = defaultB" "ix_docs ix = map (\<lambda>(i, s). (i, doc_of tok s)) L"
    "post_ids (ix_postings ix) t = {i. \<exists>s. (i, s) \<in> set L \<and> has_term tok t s}"
    "wf_map (m_get_or [] (ix_scopeDocs ix) sc)"
    "set (keys (m_get_or [] (ix_scopeDocs ix) sc)) = {i. \<exists>s. (i, s) \<in> set L \<and> sl_Scope s = sc}"
    "m_get_or 0 (m_get_or [] (ix_scopeDF ix) sc) t = doc_freq tok L sc t"
    "m_get_or 0 (ix_scopeTotalLength ix) sc = total_length tok L sc"
  using assms unfolding indexes_def lib_ok_def by blast+

lemma own_append [simp]: "own sc (xs @ ys) = own sc xs @ own sc ys"
  by (simp add: own_def)

lemma own_single: "own sc [] = []" "own sc ((i, s) # ys) = (if sl_Scope s = sc then s # own sc ys else own sc ys)"
  by (simp_all add: own_def)

lemma doc_of_simps [simp]: "d_value (doc_of tok s) = s" "d_terms (doc_of tok s) = countTerms (tok (sl_Content s))"
  "d_length (doc_of tok s) = int (length (tok (sl_Content s)))"
  by (simp_all add: doc_of_def)

lemma indexes_New: "indexes tok [] New"
  by (simp add: indexes_def New_def lib_ok_def m_get_or_def doc_freq_def total_length_def own_def)

lemma indexes_add:
  assumes "indexes tok L ix" "i \<notin> set (keys L)" "sl_ID s = i" "tok (sl_Content s) \<noteq> []"
  shows "indexes tok (L @ [(i, s)]) (addLocked i (doc_of tok s) ix)"
proof -
  note D = indexesD [OF assms(1)]
  let ?ix = "addLocked i (doc_of tok s) ix" and ?sc = "sl_Scope s"
  have d: "i \<notin> set (keys (ix_docs ix))" using assms(2) unfolding D(5) by force
  have "distinct (keys (countTerms (tok (sl_Content s))))" using countTerms(1) by (metis wf_map_def)
  note df = fold_df_inc [OF this]
  have wf: "wf_map (L @ [(i, s)])" using D(1) assms(2) by (auto simp: wf_map_def)
  have sd: "m_get_or [] (ix_scopeDocs ?ix) sc = (if sc = ?sc then m_set i () (m_get_or [] (ix_scopeDocs ix) ?sc) else m_get_or [] (ix_scopeDocs ix) sc)"
    for sc by (simp add: addLocked_def Let_def)
  have dfx: "m_get_or [] (ix_scopeDF ?ix) sc = (if sc = ?sc then fold df_inc (keys (countTerms (tok (sl_Content s)))) (m_get_or [] (ix_scopeDF ix) ?sc)
      else m_get_or [] (ix_scopeDF ix) sc)" for sc by (simp add: addLocked_def Let_def)
  show ?thesis unfolding indexes_def
  proof (intro conjI allI)
    show "lib_ok tok (L @ [(i, s)])" using D(2) assms wf by (auto simp: lib_ok_def)
    show "ix_docs ?ix = map (\<lambda>(i, s). (i, doc_of tok s)) (L @ [(i, s)])"
      using m_set_new [OF d] D(5) by (simp add: addLocked_def Let_def)
    show "post_ids (ix_postings ?ix) t = {j. \<exists>u. (j, u) \<in> set (L @ [(i, s)]) \<and> has_term tok t u}" for t
    proof -
      have "post_ids (ix_postings ?ix) t = post_ids (ix_postings ix) t \<union> (if t \<in> set (tok (sl_Content s)) then {i} else {})"
        using fold_post_add [of i "countTerms (tok (sl_Content s))" "ix_postings ix" t] countTerms(2) [of "tok (sl_Content s)"]
        by (simp add: addLocked_def Let_def)
      then show ?thesis unfolding D(6) by (auto simp: has_term_def)
    qed
    show "wf_map (m_get_or [] (ix_scopeDocs ?ix) sc)" for sc using D(7) by (simp add: sd)
    show "set (keys (m_get_or [] (ix_scopeDocs ?ix) sc)) = {j. \<exists>u. (j, u) \<in> set (L @ [(i, s)]) \<and> sl_Scope u = sc}" for sc
      using D(8) [of sc] D(8) [of ?sc] by (auto simp: sd)
    show "m_get_or 0 (m_get_or [] (ix_scopeDF ?ix) sc) t = doc_freq tok (L @ [(i, s)]) sc t" for sc t
      using D(9) [of sc t] D(9) [of ?sc t] countTerms(2) [of "tok (sl_Content s)"] by (simp add: dfx df doc_freq_def own_single has_term_def)
    show "m_get_or 0 (ix_scopeTotalLength ?ix) sc = total_length tok (L @ [(i, s)]) sc" for sc
      using D(10) by (simp add: addLocked_def Let_def total_length_def own_single)
  qed (simp_all add: addLocked_def Let_def D(3,4))
qed

lemma indexes_remove:
  assumes "indexes tok L ix" "m_get L i = Some s"
  shows "indexes tok (m_del i L) (removeLocked i (doc_of tok s) ix)"
proof -
  note D = indexesD [OF assms(1)]
  obtain xs ys where L: "L = xs @ (i, s) # ys" "m_del i L = xs @ ys" "i \<notin> set (keys (xs @ ys))" using m_del_split [OF D(1) assms(2)] .
  have ni: "(i, u) \<notin> set xs" "(i, u) \<notin> set ys" for u using L(3) by force+
  let ?ix = "removeLocked i (doc_of tok s) ix" and ?sc = "sl_Scope s"
  have "distinct (keys (countTerms (tok (sl_Content s))))" using countTerms(1) by (metis wf_map_def)
  note df = fold_df_dec [OF this]
  define left where "left = m_del i (m_get_or [] (ix_scopeDocs ix) ?sc)"
  have left: "wf_map left" "set (keys left) = {j. \<exists>u. (j, u) \<in> set (xs @ ys) \<and> sl_Scope u = ?sc}"
    using D(7,8) [of ?sc] L(1) ni by (auto simp: left_def)
  have empty: "left = [] \<longleftrightarrow> own ?sc (xs @ ys) = []"
  proof -
    have "left = [] \<longleftrightarrow> set (keys left) = {}" by simp
    also have "\<dots> \<longleftrightarrow> own ?sc (xs @ ys) = []" unfolding left(2) own_def filter_empty_conv by force
    finally show ?thesis .
  qed
  have sd: "m_get_or [] (ix_scopeDocs ?ix) sc = (if sc = ?sc then left else m_get_or [] (ix_scopeDocs ix) sc)" for sc
    by (simp add: removeLocked_def Let_def left_def m_get_or_get)
  have dfx: "m_get_or [] (ix_scopeDF ?ix) sc = (if sc = ?sc then (if left = [] then [] else
      fold df_dec (keys (countTerms (tok (sl_Content s)))) (m_get_or [] (ix_scopeDF ix) ?sc)) else m_get_or [] (ix_scopeDF ix) sc)" for sc
    by (simp add: removeLocked_def Let_def left_def m_get_or_get)
  have tl: "m_get_or 0 (ix_scopeTotalLength ?ix) sc = (if sc = ?sc then (if left = [] then 0 else
      m_get_or 0 (ix_scopeTotalLength ix) ?sc - int (length (tok (sl_Content s)))) else m_get_or 0 (ix_scopeTotalLength ix) sc)" for sc
    by (simp add: removeLocked_def Let_def left_def m_get_or_get)
  have z: "m_get_or 0 ([] :: (string, int) gomap) t = 0" for t by (simp add: m_get_or_def)
  show ?thesis unfolding indexes_def L(2)
  proof (intro conjI allI)
    show "lib_ok tok (xs @ ys)" using D(2) unfolding lib_ok_def L(1) by (auto simp: wf_map_def)
    show "ix_docs ?ix = map (\<lambda>(i, s). (i, doc_of tok s)) (xs @ ys)"
    proof -
      have "ix_docs ?ix = m_del i (map (\<lambda>(i, s). (i, doc_of tok s)) L)" by (simp add: removeLocked_def Let_def D(5))
      also have "\<dots> = map (\<lambda>(i, s). (i, doc_of tok s)) (m_del i L)" by (rule m_del_map)
      finally show ?thesis using L(2) by simp
    qed
    show "post_ids (ix_postings ?ix) t = {j. \<exists>u. (j, u) \<in> set (xs @ ys) \<and> has_term tok t u}" for t
    proof -
      have "post_ids (ix_postings ?ix) t = post_ids (ix_postings ix) t - (if t \<in> set (tok (sl_Content s)) then {i} else {})"
        using fold_post_del [of i "keys (countTerms (tok (sl_Content s)))" "ix_postings ix" t] countTerms(2) [of "tok (sl_Content s)"]
        by (simp add: removeLocked_def Let_def)
      then show ?thesis unfolding D(6) L(1) using ni by (auto simp: has_term_def)
    qed
    show "wf_map (m_get_or [] (ix_scopeDocs ?ix) sc)" for sc using D(7) left(1) by (simp add: sd)
    show "set (keys (m_get_or [] (ix_scopeDocs ?ix) sc)) = {j. \<exists>u. (j, u) \<in> set (xs @ ys) \<and> sl_Scope u = sc}" for sc
      using D(8) [of sc] left(2) L(1) by (auto simp: sd)
    show "m_get_or 0 (m_get_or [] (ix_scopeDF ?ix) sc) t = doc_freq tok (xs @ ys) sc t" for sc t
      using D(9) [of sc t] empty countTerms(2) [of "tok (sl_Content s)"] unfolding dfx L(1)
      by (simp add: z df doc_freq_def own_single has_term_def split: if_splits)
    show "m_get_or 0 (ix_scopeTotalLength ?ix) sc = total_length tok (xs @ ys) sc" for sc
      using D(10) [of sc] empty unfolding tl L(1) by (simp add: total_length_def own_single split: if_splits)
  qed (simp_all add: removeLocked_def Let_def D(3,4))
qed

lemma indexes_Remove:
  assumes "indexes tok L ix"
  shows "indexes tok (if i = [] then L else m_del i L) (snd (Remove i ix))"
proof (cases "m_get L i")
  case None
  then have "m_del i L = L" by (force simp: m_get_None_iff m_del_def intro!: filter_True)
  then show ?thesis using assms None by (simp add: Remove_def indexesD(5) m_get_map)
next
  case (Some s)
  then show ?thesis using indexes_remove [OF assms Some] assms by (simp add: Remove_def indexesD(5) m_get_map)
qed

lemma indexes_Insert:
  assumes "indexes tok L ix"
  shows "indexes tok (lib_step tok (InsertOp s) L) (snd (Insert tok s ix))"
proof (cases "sl_ID s = [] \<or> tok (sl_Content s) = []")
  case True
  then show ?thesis using assms indexes_Remove [OF assms, of "sl_ID s"] by (auto simp: Insert_def)
next
  case False
  let ?ix = "case m_get (ix_docs ix) (sl_ID s) of None \<Rightarrow> ix | Some old \<Rightarrow> removeLocked (sl_ID s) old ix"
  have "indexes tok (m_del (sl_ID s) L) ?ix"
    using indexes_Remove [OF assms, of "sl_ID s"] False by (simp add: Remove_def split: option.splits)
  moreover have n: "sl_ID s \<notin> set (keys (m_del (sl_ID s) L))" by simp
  ultimately have "indexes tok (m_del (sl_ID s) L @ [(sl_ID s, s)]) (addLocked (sl_ID s) (doc_of tok s) ?ix)"
    using False by (intro indexes_add) auto
  then show ?thesis using False m_set_new [OF n, of s] by (simp add: Insert_def Let_def doc_of_def cloneSlice_def)
qed

lemma indexes_run: "indexes tok (lib_run tok ops) (bm_run tok ops)"
proof (induction ops rule: rev_induct)
  case Nil
  then show ?case by (simp add: lib_run_def bm_run_def indexes_New)
next
  case (snoc op ops)
  then show ?case using indexes_Insert indexes_Remove by (cases op) (force simp: lib_run_def bm_run_def)+
qed

section \<open>Searching\<close>

lemma candidates_fold:
  assumes "wf_map c"
  shows "wf_map (fold (\<lambda>term c. fold (\<lambda>i c. if m_get D i \<noteq> None then m_set i () c else c) (R term) c) ts c) \<and>
    set (keys (fold (\<lambda>term c. fold (\<lambda>i c. if m_get D i \<noteq> None then m_set i () c else c) (R term) c) ts c)) =
      set (keys c) \<union> {i. i \<in> set (keys D) \<and> (\<exists>t\<in>set ts. i \<in> set (R t))}"
  using assms
proof (induction ts arbitrary: c)
  case (Cons t ts)
  have inner: "wf_map c \<Longrightarrow> wf_map (fold (\<lambda>i c. if m_get D i \<noteq> None then m_set i () c else c) is c) \<and>
    set (keys (fold (\<lambda>i c. if m_get D i \<noteq> None then m_set i () c else c) is c)) = set (keys c) \<union> (set is \<inter> set (keys D))" for "is" c
    by (induction "is" arbitrary: c) (auto simp: m_get_None_iff image_iff)
  show ?case using Cons.IH [OF conjunct1 [OF inner [OF Cons.prems]]] inner [OF Cons.prems, of "R t"] by auto
qed simp

lemma candidates_ids:
  assumes "indexes tok L ix"
  shows "wf_map (candidates ix (m_get_or [] (ix_scopeDocs ix) sc) ts)"
    "set (keys (candidates ix (m_get_or [] (ix_scopeDocs ix) sc) ts)) = {i. \<exists>s. (i, s) \<in> set L \<and> sl_Scope s = sc \<and> (\<exists>t\<in>set ts. has_term tok t s)}"
proof -
  note D = indexesD [OF assms]
  let ?C = "candidates ix (m_get_or [] (ix_scopeDocs ix) sc) ts"
  have c: "wf_map ?C \<and> set (keys ?C) = {i. i \<in> set (keys (m_get_or [] (ix_scopeDocs ix) sc)) \<and> (\<exists>t\<in>set ts. i \<in> post_ids (ix_postings ix) t)}"
    using candidates_fold [of "[]" "m_get_or [] (ix_scopeDocs ix) sc" "\<lambda>t. keys (m_get_or [] (ix_postings ix) t)" ts]
    by (simp add: candidates_def)
  then show "wf_map ?C" by blast
  have u: "(i, s) \<in> set L \<Longrightarrow> (i, s') \<in> set L \<Longrightarrow> s = s'" for i s s' using D(1) by (metis eq_key_imp_eq_value wf_map_def)
  show "set (keys ?C) = {i. \<exists>s. (i, s) \<in> set L \<and> sl_Scope s = sc \<and> (\<exists>t\<in>set ts. has_term tok t s)}"
    using conjunct2 [OF c] unfolding D(6,8) by (auto dest: u)
qed

lemma own_length:
  assumes "indexes tok L ix"
  shows "length (m_get_or [] (ix_scopeDocs ix) sc) = length (own sc L)"
proof -
  note D = indexesD [OF assms]
  let ?F = "filter (\<lambda>(i, s). sl_Scope s = sc) L"
  have "distinct (keys ?F)" using D(1) by (simp add: wf_map_def distinct_map_filter)
  moreover have "set (keys ?F) = set (keys (m_get_or [] (ix_scopeDocs ix) sc))" unfolding D(8) by force
  ultimately have "length (keys ?F) = length (keys (m_get_or [] (ix_scopeDocs ix) sc))"
    using D(7) [of sc] by (metis distinct_card wf_map_def)
  moreover have "length ?F = length (own sc L)" by (induction L) (auto simp: own_def)
  ultimately show ?thesis by simp
qed

section \<open>Scores are numbers\<close>

definition bnd :: "rat \<Rightarrow> rat \<Rightarrow> f64 \<Rightarrow> bool" where
  "bnd a b x \<longleftrightarrow> (\<exists>q. x = Fin q \<and> a \<le> q \<and> q \<le> b)"

lemma bnd_Fin [simp]: "bnd a b (Fin q) \<longleftrightarrow> a \<le> q \<and> q \<le> b"
  by (simp add: bnd_def)

lemma bnd_r64: "a \<le> x \<Longrightarrow> x \<le> b \<Longrightarrow> r64 a = Fin a \<Longrightarrow> r64 b = Fin b \<Longrightarrow> bnd a b (r64 x)"
  using r64_mono [of a x] r64_mono [of x b] by (cases "r64 x") (auto simp: bnd_def)

lemma pow_repr: "r64 (2 ^ 63) = Fin (2 ^ 63)" "r64 (2 ^ 64) = Fin (2 ^ 64)" "r64 (2 ^ 65) = Fin (2 ^ 65)"
  "r64 (2 ^ 66) = Fin (2 ^ 66)" "r64 (2 ^ 76) = Fin (2 ^ 76)" "r64 (1/4) = Fin (1/4)" "r64 (2 ^ 68) = Fin (2 ^ 68)"
  by code_simp+

lemma bnd_int: assumes "1 \<le> n" "in64 n" shows "bnd 1 (2 ^ 63) (f_of_int n)"
proof -
  have "rat_of_int n \<le> 2 ^ 63" using assms(2) unfolding in64_def
    by (metis less_le of_int_le_numeral_power_cancel_iff)
  then show ?thesis unfolding f_of_int_def using assms(1) pow_repr(1) by (intro bnd_r64) auto
qed

definition log_ok :: "(f64 \<Rightarrow> f64) \<Rightarrow> bool" where
  "log_ok logf \<longleftrightarrow> (\<forall>q. 1 \<le> q \<longrightarrow> bnd 0 1024 (logf (Fin q)))"

lemma constants: "bnd 1 2 defaultK1" "bnd 2 3 (fadd defaultK1 f1)" "bnd 0 1 defaultB" "fsub f1 defaultB = Fin (1/4)"
proof -
  have e: "defaultK1 = Fin (5404319552844595 / 4503599627370496)" "fadd defaultK1 f1 = Fin (2476979795053773 / 1125899906842624)"
    "defaultB = Fin (3/4)" by code_simp+
  show "bnd 1 2 defaultK1" "bnd 2 3 (fadd defaultK1 f1)" "bnd 0 1 defaultB"
    by (subst e(1), simp) (subst e(2), simp, subst e(3), simp)
  show "fsub f1 defaultB = Fin (1/4)" by code_simp
qed

lemma idf_bnd:
  assumes "log_ok logf" "1 \<le> df" "df \<le> n" "in64 n"
  shows "bnd 0 1024 (logf (fadd f1 (fdiv (fadd (fsub (f_of_int n) (f_of_int df)) (Fin (1/2))) (fadd (f_of_int df) (Fin (1/2))))))"
proof -
  have "in64 df" using assms by (auto simp: in64_def)
  then obtain x where x: "f_of_int df = Fin x" "1 \<le> x" "x \<le> 2 ^ 63" using bnd_int [of df] assms(2) by (auto simp: bnd_def)
  obtain y where y: "f_of_int n = Fin y" "1 \<le> y" "y \<le> 2 ^ 63" using bnd_int [of n] assms by (auto simp: bnd_def)
  have xy: "x \<le> y" using f_of_int_mono [OF assms(3)] x(1) y(1) by simp
  have "bnd 0 (2 ^ 63) (r64 (y - x))" using xy y x pow_repr by (intro bnd_r64) auto
  then obtain d where d: "r64 (y - x) = Fin d" "0 \<le> d" "d \<le> 2 ^ 63" by (auto simp: bnd_def)
  have "bnd 0 (2 ^ 64) (r64 (d + 1/2))" using d pow_repr by (intro bnd_r64) auto
  then obtain e where e: "r64 (d + 1/2) = Fin e" "0 \<le> e" "e \<le> 2 ^ 64" by (auto simp: bnd_def)
  have "bnd 1 (2 ^ 64) (r64 (x + 1/2))" using x pow_repr by (intro bnd_r64) auto
  then obtain f where f: "r64 (x + 1/2) = Fin f" "1 \<le> f" by (auto simp: bnd_def)
  have "e / f \<le> e / 1" using e(2) f(2) by (intro divide_left_mono) auto
  then have "e / f \<le> 2 ^ 64" "0 \<le> e / f" using e f by auto
  then have "bnd 0 (2 ^ 64) (r64 (e / f))" using pow_repr by (intro bnd_r64) auto
  then obtain g where g: "r64 (e / f) = Fin g" "0 \<le> g" "g \<le> 2 ^ 64" by (auto simp: bnd_def)
  have "bnd 1 (2 ^ 65) (r64 (1 + g))" using g pow_repr by (intro bnd_r64) auto
  then obtain h where h: "r64 (1 + g) = Fin h" "1 \<le> h" by (auto simp: bnd_def)
  have "fadd f1 (fdiv (fadd (fsub (Fin y) (Fin x)) (Fin (1/2))) (fadd (Fin x) (Fin (1/2)))) = Fin h"
    using d(1) e(1) f g(1) h(1) by (simp add: fsub_def)
  then show ?thesis using assms(1) h(2) unfolding x(1) y(1) by (simp add: log_ok_def)
qed

lemma bnd_mul:
  assumes "bnd a b x" "bnd c d y" "0 \<le> a" "0 \<le> c" "b * d \<le> e" "r64 e = Fin e"
  shows "bnd 0 e (fmul x y)"
proof -
  obtain p q where pq: "x = Fin p" "a \<le> p" "p \<le> b" "y = Fin q" "c \<le> q" "q \<le> d" using assms(1,2) by (auto simp: bnd_def)
  have "p * q \<le> b * d" using pq assms(3,4) by (intro mult_mono) auto
  then have "bnd 0 e (r64 (p * q))" using pq assms by (intro bnd_r64) auto
  then show ?thesis using pq by simp
qed

lemma term_score_nonneg:
  assumes "log_ok logf" "1 \<le> df" "df \<le> n" "in64 n" "1 \<le> tf" "in64 tf" "1 \<le> dl" "in64 dl" "bnd 1 B avg"
  shows "bnd 0 (2 ^ 76) (term_score logf defaultK1 defaultB n avg (f_of_int dl) tf df)"
proof -
  let ?idf = "logf (fadd f1 (fdiv (fadd (fsub (f_of_int n) (f_of_int df)) (Fin (1/2))) (fadd (f_of_int df) (Fin (1/2)))))"
  have f: "bnd 1 (2 ^ 63) (f_of_int tf)" by (rule bnd_int [OF assms(5,6)])
  have num: "bnd 0 (2 ^ 65) (fmul (f_of_int tf) (fadd defaultK1 f1))" using pow_repr by (intro bnd_mul [OF f constants(2)]) auto
  have top: "bnd 0 (2 ^ 76) (fmul ?idf (fmul (f_of_int tf) (fadd defaultK1 f1)))"
    using pow_repr by (intro bnd_mul [OF idf_bnd [OF assms(1-4)] num]) auto
  have "bnd 0 (2 ^ 63) (fmul defaultB (f_of_int dl))" using pow_repr by (intro bnd_mul [OF constants(3) bnd_int [OF assms(7,8)]]) auto
  then obtain p where p: "fmul defaultB (f_of_int dl) = Fin p" "0 \<le> p" "p \<le> 2 ^ 63" by (auto simp: bnd_def)
  obtain a where a: "avg = Fin a" "1 \<le> a" using assms(9) by (auto simp: bnd_def)
  have "p / a \<le> p / 1" using p(2) a(2) by (intro divide_left_mono) auto
  then have "bnd 0 (2 ^ 63) (r64 (p / a))" using p a pow_repr by (intro bnd_r64) auto
  then obtain q where q: "r64 (p / a) = Fin q" "0 \<le> q" "q \<le> 2 ^ 63" by (auto simp: bnd_def)
  have "bnd (1/4) (2 ^ 64) (r64 (1/4 + q))" using q pow_repr by (intro bnd_r64) auto
  then have s: "bnd (1/4) (2 ^ 64) (fadd (fsub f1 defaultB) (fdiv (fmul defaultB (f_of_int dl)) avg))"
    using p(1) a q(1) constants(4) by simp
  have "bnd 0 (2 ^ 65) (fmul defaultK1 (fadd (fsub f1 defaultB) (fdiv (fmul defaultB (f_of_int dl)) avg)))"
    using pow_repr by (intro bnd_mul [OF constants(1) s]) auto
  then obtain u where u: "fmul defaultK1 (fadd (fsub f1 defaultB) (fdiv (fmul defaultB (f_of_int dl)) avg)) = Fin u" "0 \<le> u" "u \<le> 2 ^ 65"
    by (auto simp: bnd_def)
  obtain v where v: "f_of_int tf = Fin v" "1 \<le> v" "v \<le> 2 ^ 63" using f by (auto simp: bnd_def)
  have "bnd 1 (2 ^ 66) (r64 (v + u))" using u v pow_repr by (intro bnd_r64) auto
  then obtain w where w: "r64 (v + u) = Fin w" "1 \<le> w" by (auto simp: bnd_def)
  obtain x where x: "fmul ?idf (fmul (f_of_int tf) (fadd defaultK1 f1)) = Fin x" "0 \<le> x" "x \<le> 2 ^ 76" using top by (auto simp: bnd_def)
  have "x / w \<le> x / 1" using x(2) w(2) by (intro divide_left_mono) auto
  then have "bnd 0 (2 ^ 76) (r64 (x / w))" using x w pow_repr by (intro bnd_r64) auto
  moreover have "term_score logf defaultK1 defaultB n avg (f_of_int dl) tf df = r64 (x / w)"
    unfolding term_score_def Let_def x(1) u(1) using v(1) w by simp
  ultimately show ?thesis by simp
qed

lemma fadd_nonneg: "fle f0 x \<Longrightarrow> bnd 0 b y \<Longrightarrow> fle f0 (fadd x y)"
  using r64.nonneg by (cases x) (auto simp: bnd_def)

lemma score_nonneg:
  assumes "log_ok logf" "\<And>t. 0 \<le> df t \<and> df t \<le> n" "in64 n" "bnd 1 B avg"
    and "d_length doc = int (length ts)" "d_terms doc = countTerms ts" "in64 (d_length doc)"
  shows "fle f0 (score_terms logf defaultK1 defaultB df n avg doc qt)"
proof (cases "ts = []")
  case False
  have len: "1 \<le> d_length doc" using False assms(5) by (simp add: Suc_leI int_one_le_iff_zero_less)
  have step: "fle f0 (fold (\<lambda>term score. let tf = m_get_or 0 (d_terms doc) term in
             if tf = 0 \<or> df term = 0 then score
             else fadd score (term_score logf defaultK1 defaultB n avg (f_of_int (d_length doc)) tf (df term))) qt x)" if "fle f0 x" for x
    using that
  proof (induction qt arbitrary: x)
    case (Cons t qt)
    let ?tf = "m_get_or 0 (d_terms doc) t"
    have "bnd 0 (2 ^ 76) (term_score logf defaultK1 defaultB n avg (f_of_int (d_length doc)) ?tf (df t))" if "?tf \<noteq> 0" "df t \<noteq> 0"
    proof (rule term_score_nonneg [OF assms(1) _ _ assms(3) _ _ len assms(7,4)])
      have "int (count_list ts t) \<le> d_length doc" using count_le_length [of ts t] assms(5) by simp
      then show "in64 ?tf" using assms(6,7) by (auto simp: in64_def)
      show "1 \<le> ?tf" using that assms(6) by simp
      show "1 \<le> df t" "df t \<le> n" using that assms(2) [of t] by auto
    qed
    then have "fle f0 (if ?tf = 0 \<or> df t = 0 then x
        else fadd x (term_score logf defaultK1 defaultB n avg (f_of_int (d_length doc)) ?tf (df t)))"
      using fadd_nonneg [OF Cons.prems] Cons.prems by (simp del: power_numeral) metis
    then show ?case using Cons.IH by (simp only: fold_simps Let_def o_apply)
  qed simp
  show ?thesis using step [of f0] len by (simp add: score_terms_def)
qed (simp add: score_terms_def assms(5))

definition ranked :: "Hit \<Rightarrow> bool" where
  "ranked h \<longleftrightarrow> \<not> is_nan (h_Score h)"

interpretation hits: weak_order_on "{h. ranked h}" hit_before
proof
  fix x y z :: Hit
  assume xy: "x \<in> {h. ranked h}" "y \<in> {h. ranked h}"
  then show "hit_before x y \<Longrightarrow> \<not> hit_before y x"
    by (cases "h_Score x"; cases "h_Score y") (auto simp: hit_before_def ranked_def split: if_splits)
  assume "z \<in> {h. ranked h}"
  then show "\<not> hit_before y x \<Longrightarrow> \<not> hit_before z y \<Longrightarrow> \<not> hit_before z x"
    using xy by (cases "h_Score x"; cases "h_Score y"; cases "h_Score z") (auto simp: hit_before_def ranked_def split: if_splits)
qed

lemma hits_sort_perm:
  assumes "mset xs = mset ys" "\<And>h. h \<in> set xs \<Longrightarrow> ranked h" "inj_on hit_id (set xs)"
  shows "go_sort hit_before xs = go_sort hit_before ys"
proof (rule sorted_wrt_antisym_unique [where R = "\<lambda>a b. \<not> hit_before b a"])
  have s: "set ys = set xs" using assms(1) by (metis set_mset_mset)
  show "sorted_wrt (\<lambda>a b. \<not> hit_before b a) (go_sort hit_before xs)" by (rule hits.sorted_go_sort) (use assms(2) in auto)
  show "sorted_wrt (\<lambda>a b. \<not> hit_before b a) (go_sort hit_before ys)" by (rule hits.sorted_go_sort) (use assms(2) s in auto)
  fix a b
  assume "a \<in> set (go_sort hit_before xs)" "b \<in> set (go_sort hit_before xs)" "\<not> hit_before b a" "\<not> hit_before a b"
  then have ab: "a \<in> set xs" "b \<in> set xs" "\<not> hit_before b a" "\<not> hit_before a b" "ranked a" "ranked b" using assms(2) by auto
  then have "hit_id a = hit_id b"
    by (cases "h_Score a"; cases "h_Score b") (auto simp: hit_before_def ranked_def split: if_splits)
  then show "a = b" using assms(3) ab(1,2) by (simp add: inj_on_def)
qed (use assms(1) in simp)

lemma total_bounds:
  assumes "lib_ok tok L"
  shows "int (length (own sc L)) \<le> total_length tok L sc" "s \<in> set (own sc L) \<Longrightarrow> int (length (tok (sl_Content s))) \<le> total_length tok L sc"
proof -
  have pos: "\<And>s. s \<in> set (own sc L) \<Longrightarrow> 1 \<le> int (length (tok (sl_Content s)))"
    using assms by (force simp: lib_ok_def own_def Suc_leI)
  then have "sum_list (map (\<lambda>s. 1) (own sc L)) \<le> total_length tok L sc" unfolding total_length_def by (intro sum_list_mono) auto
  then show "int (length (own sc L)) \<le> total_length tok L sc" by (simp add: sum_list_triv)
  show "s \<in> set (own sc L) \<Longrightarrow> int (length (tok (sl_Content s))) \<le> total_length tok L sc"
    unfolding total_length_def by (intro member_le_sum_list) (auto simp: image_iff)
qed

text \<open>The score the reference gives a slice of the library, and that it is what the index computes.\<close>

definition lib_score ::
  "(string \<Rightarrow> string list) \<Rightarrow> (f64 \<Rightarrow> f64) \<Rightarrow> (string, Slice) gomap \<Rightarrow> Scope \<Rightarrow> string list \<Rightarrow> Slice \<Rightarrow> f64" where
  "lib_score tok logf L sc qt s = score_terms logf defaultK1 defaultB (doc_freq tok L sc) (int (length (own sc L)))
     (fdiv (f_of_int (total_length tok L sc)) (f_of_int (int (length (own sc L))))) (doc_of tok s) qt"

lemma avg_bnd:
  assumes "lib_ok tok L" "own sc L \<noteq> []" "in64 (total_length tok L sc)"
  shows "bnd 1 (2 ^ 63) (fdiv (f_of_int (total_length tok L sc)) (f_of_int (int (length (own sc L)))))"
proof -
  have n: "1 \<le> int (length (own sc L))" using assms(2) by (simp add: Suc_leI)
  note le = total_bounds(1) [OF assms(1), of sc]
  have "bnd 1 (2 ^ 63) (f_of_int (total_length tok L sc))" by (rule bnd_int) (use n le assms(3) in auto)
  then obtain t where t: "f_of_int (total_length tok L sc) = Fin t" "1 \<le> t" "t \<le> 2 ^ 63" by (auto simp: bnd_def)
  have "bnd 1 (2 ^ 63) (f_of_int (int (length (own sc L))))" by (rule bnd_int) (use n le assms(3) in \<open>auto simp: in64_def\<close>)
  then obtain m where m: "f_of_int (int (length (own sc L))) = Fin m" "1 \<le> m" by (auto simp: bnd_def)
  have mt: "m \<le> t" using f_of_int_mono [OF le] t(1) m(1) by simp
  have "t / m \<le> t / 1" using t(2) m(2) by (intro divide_left_mono) auto
  moreover have "1 \<le> t / m" using mt m(2) by (simp add: field_simps)
  ultimately have "bnd 1 (2 ^ 63) (r64 (t / m))" using t(3) pow_repr(1) by (intro bnd_r64) auto
  then show ?thesis using t m by simp
qed

lemma lib_score_nonneg:
  assumes "log_ok logf" "lib_ok tok L" "in64 (total_length tok L sc)" "s \<in> set (own sc L)"
  shows "fle f0 (lib_score tok logf L sc qt s)"
proof -
  have ne: "own sc L \<noteq> []" using assms(4) by auto
  note b = total_bounds [OF assms(2), where sc = sc]
  have "0 \<le> int (length (own sc L))" by simp
  then have n: "in64 (int (length (own sc L)))" using b(1) assms(3) by (auto simp: in64_def)
  have df: "0 \<le> doc_freq tok L sc t \<and> doc_freq tok L sc t \<le> int (length (own sc L))" for t by (simp add: doc_freq_def)
  show ?thesis unfolding lib_score_def
    by (rule score_nonneg [OF assms(1) df n avg_bnd [OF assms(2) ne assms(3)]]) (use b(2) [OF assms(4)] assms(3) in \<open>auto simp: in64_def\<close>)
qed

lemma mem_map_filter: "h \<in> set (List.map_filter F xs) \<longleftrightarrow> (\<exists>x\<in>set xs. F x = Some h)"
  by (induction xs) (auto simp: List.map_filter_def split: option.split)

lemma distinct_map_filter_ids:
  assumes "distinct ids" "\<And>i h. i \<in> set ids \<Longrightarrow> F i = Some h \<Longrightarrow> g h = i"
  shows "distinct (map g (List.map_filter F ids))"
  using assms
proof (induction ids)
  case (Cons i ids)
  have "g h \<noteq> i" if h: "h \<in> set (List.map_filter F ids)" for h
  proof -
    obtain j where "j \<in> set ids" "F j = Some h" using h unfolding mem_map_filter by blast
    then show ?thesis using Cons.prems by (metis distinct.simps(2) list.set_intros(2))
  qed
  then have "i \<notin> g ` set (List.map_filter F ids)" by blast
  moreover have "distinct (map g (List.map_filter F ids))" using Cons.prems by (intro Cons.IH) auto
  moreover have "g h = i" if "F i = Some h" for h using Cons.prems(2) that by simp
  ultimately show ?case by (cases "F i") (auto simp: map_filter_simps)
qed (simp add: List.map_filter_def)

lemma own_distinct: "lib_ok tok L \<Longrightarrow> distinct (map sl_ID (own sc L))"
proof -
  assume "lib_ok tok L"
  then have "distinct (map sl_ID (map snd L))" "\<And>i s. (i, s) \<in> set L \<Longrightarrow> sl_ID s = i"
    by (auto simp: lib_ok_def wf_map_def o_def case_prod_beta cong: map_cong)
  then show ?thesis by (simp add: own_def distinct_map_filter)
qed

lemma lib_get:
  assumes "lib_ok tok L" shows "(i, s) \<in> set L \<longleftrightarrow> m_get L i = Some s"
  using assms by (auto simp: lib_ok_def wf_map_def m_get_def map_of_eq_Some_iff)

lemma index_hits:
  fixes qt :: "string list"
  assumes "indexes tok L ix" "log_ok logf" "in64 (total_length tok L sc)"
  defines "n \<equiv> int (length (m_get_or [] (ix_scopeDocs ix) sc))"
  defines "avg \<equiv> fdiv (f_of_int (m_get_or 0 (ix_scopeTotalLength ix) sc)) (f_of_int n)"
  defines "F \<equiv> \<lambda>sid. let od = m_get (ix_docs ix) sid; x = score logf ix od qt sc n avg
     in if fle x f0 then None else map_option (\<lambda>doc. hit_of doc x qt) od"
  shows "go_sort hit_before (List.map_filter F (keys (candidates ix (m_get_or [] (ix_scopeDocs ix) sc) qt))) =
    go_sort hit_before (map (\<lambda>s. hit_of (doc_of tok s) (lib_score tok logf L sc qt s) qt)
      (filter (\<lambda>s. list_ex (\<lambda>t. has_term tok t s) qt \<and> \<not> fle (lib_score tok logf L sc qt s) f0) (own sc L)))"
proof -
  note D = indexesD [OF assms(1)] and C = candidates_ids [OF assms(1), of sc qt]
  let ?ids = "keys (candidates ix (m_get_or [] (ix_scopeDocs ix) sc) qt)"
  let ?P = "\<lambda>s. list_ex (\<lambda>t. has_term tok t s) qt \<and> \<not> fle (lib_score tok logf L sc qt s) f0"
  let ?H = "\<lambda>s. hit_of (doc_of tok s) (lib_score tok logf L sc qt s) qt"
  have F: "F i = (if fle (lib_score tok logf L sc qt s) f0 then None else Some (?H s))" if "m_get L i = Some s" for i s
    using that unfolding F_def Let_def score_def lib_score_def D(3,4,5,9) n_def avg_def own_length [OF assms(1)] D(10)
    by (simp add: m_get_map)
  have id: "hit_id (?H s) = sl_ID s" for s by (simp add: hit_id_def hit_of_def cloneSlice_def)
  have lib_id: "sl_ID s = i" if "m_get L i = Some s" for i s
    using that D(2) lib_get [OF D(2), of i s] by (auto simp: lib_ok_def)
  have ownL: "s \<in> set (own sc L) \<longleftrightarrow> m_get L (sl_ID s) = Some s \<and> sl_Scope s = sc" for s
  proof -
    have "s \<in> set (own sc L) \<longleftrightarrow> (\<exists>i. (i, s) \<in> set L) \<and> sl_Scope s = sc" by (simp add: own_def snd_eq_Range Range_iff)
    then show ?thesis using lib_get [OF D(2)] lib_id by metis
  qed
  have hitF: "m_get L i = Some s \<and> sl_Scope s = sc \<and> (\<exists>t\<in>set qt. has_term tok t s) \<and> F i = Some h \<longleftrightarrow>
      m_get L i = Some s \<and> sl_Scope s = sc \<and> ?P s \<and> h = ?H s" for i s h
  proof (cases "m_get L i = Some s")
    case True
    then show ?thesis unfolding F [OF True] list_ex_iff by (simp split: if_split) blast
  qed simp
  have memF: "h \<in> set (List.map_filter F ?ids) \<longleftrightarrow> (\<exists>s. s \<in> set (own sc L) \<and> ?P s \<and> h = ?H s)" for h
  proof -
    have "h \<in> set (List.map_filter F ?ids) \<longleftrightarrow> (\<exists>i\<in>set ?ids. F i = Some h)" by (rule mem_map_filter)
    also have "\<dots> \<longleftrightarrow> (\<exists>i s. m_get L i = Some s \<and> sl_Scope s = sc \<and> (\<exists>t\<in>set qt. has_term tok t s) \<and> F i = Some h)"
      unfolding C(2) using lib_get [OF D(2)] by blast
    also have "\<dots> \<longleftrightarrow> (\<exists>i s. m_get L i = Some s \<and> sl_Scope s = sc \<and> ?P s \<and> h = ?H s)"
      by (simp only: hitF)
    also have "\<dots> \<longleftrightarrow> (\<exists>s. s \<in> set (own sc L) \<and> ?P s \<and> h = ?H s)"
    proof
      assume "\<exists>i s. m_get L i = Some s \<and> sl_Scope s = sc \<and> ?P s \<and> h = ?H s"
      then obtain i s where s: "m_get L i = Some s" "sl_Scope s = sc" "?P s" "h = ?H s" by fast
      then have "s \<in> set (own sc L)" unfolding ownL using lib_id [OF s(1)] by simp
      then show "\<exists>s. s \<in> set (own sc L) \<and> ?P s \<and> h = ?H s" using s(3,4) by (intro exI conjI) auto
    next
      assume "\<exists>s. s \<in> set (own sc L) \<and> ?P s \<and> h = ?H s"
      then obtain s where s: "s \<in> set (own sc L)" "?P s" "h = ?H s" by fast
      then show "\<exists>i s. m_get L i = Some s \<and> sl_Scope s = sc \<and> ?P s \<and> h = ?H s" unfolding ownL by (intro exI conjI) auto
    qed
    finally show ?thesis .
  qed
  have inj: "inj_on hit_id (set (List.map_filter F ?ids))"
  proof (rule inj_onI)
    fix x y assume "x \<in> set (List.map_filter F ?ids)" "y \<in> set (List.map_filter F ?ids)" and eq: "hit_id x = hit_id y"
    then obtain s u where s: "s \<in> set (own sc L)" "x = ?H s" "u \<in> set (own sc L)" "y = ?H u" unfolding memF by fast
    then have "sl_ID s = sl_ID u" using eq id by simp
    moreover have "m_get L (sl_ID s) = Some s" "m_get L (sl_ID u) = Some u" using s(1,3) ownL by blast+
    ultimately have "Some s = Some u" by metis
    then show "x = y" using s by simp
  qed
  have dF: "distinct (map hit_id (List.map_filter F ?ids))"
  proof (rule distinct_map_filter_ids)
    show "distinct ?ids" using C(1) by (simp add: wf_map_def)
    show "hit_id h = i" if h: "i \<in> set ?ids" "F i = Some h" for i h
    proof -
      obtain s where s: "m_get L i = Some s" using h(1) lib_get [OF D(2)] unfolding C(2) by blast
      then show ?thesis using F [OF s] h(2) id lib_id [OF s] by (simp split: if_splits)
    qed
  qed
  have dO: "distinct (map hit_id (map ?H (filter ?P (own sc L))))"
  proof -
    have "distinct (map sl_ID (own sc L))" by (rule own_distinct [OF D(2)])
    then show ?thesis by (simp add: id o_def distinct_map_filter)
  qed
  have "set (List.map_filter F ?ids) = set (map ?H (filter ?P (own sc L)))"
    unfolding set_map set_filter image_Collect using memF by (intro set_eqI) (simp only: mem_Collect_eq, fast)
  moreover have "distinct (List.map_filter F ?ids)" "distinct (map ?H (filter ?P (own sc L)))"
    using dF dO unfolding distinct_map by blast+
  ultimately have "mset (List.map_filter F ?ids) = mset (map ?H (filter ?P (own sc L)))"
    using set_eq_iff_mset_eq_distinct by fast
  then show ?thesis
  proof (rule hits_sort_perm [OF _ _ inj])
    fix h assume "h \<in> set (List.map_filter F ?ids)"
    then obtain s where "s \<in> set (own sc L)" "h = ?H s" using memF by blast
    then show "ranked h" using lib_score_nonneg [OF assms(2) D(2) assms(3), of s qt]
      by (cases "lib_score tok logf L sc qt s") (auto simp: ranked_def hit_of_def)
  qed
qed

lemma indexed_search:
  assumes "indexes tok L ix" "log_ok logf" "in64 (total_length tok L sc)"
  shows "Search tok logf ix query k sc = ref_search tok logf (map snd L) query k sc"
proof (cases "own sc L = []")
  case True
  then show ?thesis using own_length [OF assms(1), of sc] by (auto simp: Search_def ref_search_def Let_def own_def)
next
  case False
  have "\<not> fle (fdiv (f_of_int (total_length tok L sc)) (f_of_int (int (length (own sc L))))) f0"
    using avg_bnd [OF indexesD(2) [OF assms(1)] False assms(3)] by (auto simp: bnd_def)
  moreover have "m_get_or [] (ix_scopeDocs ix) sc \<noteq> []" using own_length [OF assms(1), of sc] False by auto
  ultimately show ?thesis
    using index_hits [OF assms, of "uniqueTerms (tok query)"] own_length [OF assms(1), of sc] False indexesD(10) [OF assms(1), of sc]
    by (simp add: Search_def ref_search_def Let_def own_def [symmetric] lib_score_def doc_freq_def [abs_def] total_length_def)
qed

text \<open>
  C13. The index answers like a scan of the library. After any history of insertions, replacements and removals,
  a search through the postings and the incrementally maintained statistics returns
  exactly the hits, scores and order that scoring every slice of the resulting library from scratch
  would give; in particular no document is missed and no removed version is found.
\<close>

theorem search_is_reference:
  assumes "log_ok logf" "in64 (total_length tok (lib_run tok ops) sc)"
  shows "Search tok logf (bm_run tok ops) query k sc = ref_search tok logf (map snd (lib_run tok ops)) query k sc"
  by (rule indexed_search [OF indexes_run assms])

definition ascii_runes :: "char runes" where
  "ascii_runes = \<lparr>rc_isCJK = (\<lambda>_. False), rc_isWord = (\<lambda>c. c \<noteq> CHR '' ''), rc_lower = (\<lambda>c. c)\<rparr>"

definition sample_history :: "bm_op list" where
  "sample_history = [InsertOp (zero_slice\<lparr>sl_ID := ''a'', sl_Content := ''bug''\<rparr>),
     InsertOp (zero_slice\<lparr>sl_ID := ''b'', sl_Content := ''bug report''\<rparr>),
     InsertOp (zero_slice\<lparr>sl_ID := ''a'', sl_Content := ''fix''\<rparr>), RemoveOp ''c'']"

theorem search_is_reference_witness:
  "Search (Tokenize ascii_runes) (\<lambda>_. f1) (bm_run (Tokenize ascii_runes) sample_history) ''bug'' 5 Session =
     ref_search (Tokenize ascii_runes) (\<lambda>_. f1) (map snd (lib_run (Tokenize ascii_runes) sample_history)) ''bug'' 5 Session
   \<and> keys (candidates (bm_run (Tokenize ascii_runes) sample_history) [(''a'', ()), (''b'', ())] [''bug'']) = [''b'']"
proof
  have l: "log_ok (\<lambda>_. f1)" by (simp add: log_ok_def bnd_def)
  have t: "total_length (Tokenize ascii_runes) (lib_run (Tokenize ascii_runes) sample_history) Session = 3" by code_simp
  show "Search (Tokenize ascii_runes) (\<lambda>_. f1) (bm_run (Tokenize ascii_runes) sample_history) ''bug'' 5 Session =
     ref_search (Tokenize ascii_runes) (\<lambda>_. f1) (map snd (lib_run (Tokenize ascii_runes) sample_history)) ''bug'' 5 Session"
    by (rule search_is_reference [OF l]) (simp add: t in64_def)
  show "keys (candidates (bm_run (Tokenize ascii_runes) sample_history) [(''a'', ()), (''b'', ())] [''bug'']) = [''b'']"
    by code_simp
qed

end
