(* ===== verification/Levenshtein.thy ===== *)
theory Levenshtein
  imports Go_Float
begin

text \<open>
  The similarity measure of the gateway's retry detection (\<open>gateway/levenshtein.go\<close>): the
  dynamic program with two rolling rows, and the ratio it feeds. The rune sequences of the
  two texts are arguments. The reference is the least number of single-rune insertions, deletions and
  substitutions that turn one sequence into the other.
\<close>

section \<open>The program\<close>

definition lev_cell :: "'r list \<Rightarrow> 'r \<Rightarrow> int list \<Rightarrow> nat \<Rightarrow> int list \<Rightarrow> int list" where
  "lev_cell b ai prev j cur =
     (let cost = (if ai = b ! (j - 1) then 0 else 1);
          del = prev ! j + 1; ins = cur ! (j - 1) + 1; sub = prev ! (j - 1) + cost;
          m = del; m = (if ins < m then ins else m); m = (if sub < m then sub else m)
      in cur[j := m])"

definition lev_row :: "'r list \<Rightarrow> 'r \<Rightarrow> nat \<Rightarrow> int list \<Rightarrow> int list \<Rightarrow> int list" where
  "lev_row b ai i prev cur = fold (lev_cell b ai prev) [1..<Suc (length b)] (cur[0 := int i])"

definition levenshteinRunes :: "'r list \<Rightarrow> 'r list \<Rightarrow> int" where
  "levenshteinRunes a b =
     (if a = [] then int (length b) else if b = [] then int (length a)
      else fst (fold (\<lambda>i (prev, cur). (lev_row b (a ! (i - 1)) i prev cur, prev)) [1..<Suc (length a)]
             (map int [0..<Suc (length b)], replicate (Suc (length b)) 0)) ! length b)"

definition maxEditLen :: nat where "maxEditLen = 2048"

definition normalizedEditRatio :: "'r list \<Rightarrow> 'r list \<Rightarrow> f64" where
  "normalizedEditRatio ar br =
     (if length ar = 0 \<and> length br = 0 then f1
      else let maxLen = (if length br > length ar then length br else length ar) in
        if maxLen = 0 then f1
        else if maxLen > maxEditLen then f0
        else fsub f1 (fdiv (f_of_int (levenshteinRunes ar br)) (f_of_int (int maxLen))))"

section \<open>The reference: edit scripts\<close>

inductive edit1 :: "'r list \<Rightarrow> 'r list \<Rightarrow> bool" where
  ins: "edit1 (xs @ ys) (xs @ c # ys)"
| del: "edit1 (xs @ c # ys) (xs @ ys)"
| sub: "edit1 (xs @ c # ys) (xs @ d # ys)"

fun edits :: "nat \<Rightarrow> 'r list \<Rightarrow> 'r list \<Rightarrow> bool" where
  "edits 0 a b \<longleftrightarrow> a = b"
| "edits (Suc n) a b \<longleftrightarrow> (\<exists>c. edits n a c \<and> edit1 c b)"

text \<open>An alignment reads both sequences from the left and charges one for each difference.\<close>

inductive align :: "nat \<Rightarrow> 'r list \<Rightarrow> 'r list \<Rightarrow> bool" where
  a_nil: "align 0 [] []"
| a_eq: "align n a b \<Longrightarrow> align n (x # a) (x # b)"
| a_sub: "align n a b \<Longrightarrow> align (Suc n) (x # a) (y # b)"
| a_del: "align n a b \<Longrightarrow> align (Suc n) (x # a) b"
| a_ins: "align n a b \<Longrightarrow> align (Suc n) a (y # b)"

fun ed :: "'r list \<Rightarrow> 'r list \<Rightarrow> nat" where
  "ed [] ys = length ys"
| "ed xs [] = length xs"
| "ed (x # xs) (y # ys) = min (ed xs (y # ys) + 1) (min (ed (x # xs) ys + 1) (ed xs ys + (if x = y then 0 else 1)))"

lemma align_refl: "align 0 a a"
  by (induction a) (auto intro: align.intros)

lemma align_Nil_left: "align (length b) [] b"
  by (induction b) (auto intro: align.intros)

lemma align_Nil_right: "align (length a) a []"
  by (induction a) (auto intro: align.intros)

lemma align_ed: "align (ed a b) a b"
proof (induction a b rule: ed.induct)
  case (3 x xs y ys)
  consider "ed (x # xs) (y # ys) = ed xs (y # ys) + 1" | "ed (x # xs) (y # ys) = ed (x # xs) ys + 1"
    | "ed (x # xs) (y # ys) = ed xs ys + (if x = y then 0 else 1)" unfolding ed.simps min_def by metis
  then show ?case using 3 by cases (auto intro: align.intros)
next
  case (2 v va)
  then show ?case using align_Nil_right [of "v # va"] by simp
qed (simp add: align_Nil_left)

lemma ed_le_align: "align n a b \<Longrightarrow> ed a b \<le> n"
proof (induction rule: align.induct)
  case (a_del n a b x)
  then show ?case by (cases a; cases b) (auto simp: min_def)
next
  case (a_ins n a b y)
  then show ?case by (cases a; cases b) (auto simp: min_def)
qed auto

lemma align_append: "align n a b \<Longrightarrow> align m c d \<Longrightarrow> align (n + m) (a @ c) (b @ d)"
  by (induction rule: align.induct) (auto intro: align.intros)

lemma align_rev: "align n a b \<Longrightarrow> align n (rev a) (rev b)"
proof (induction rule: align.induct)
  case (a_eq n a b x)
  then show ?case using align_append [OF _ align_refl [of "[x]"]] by force
next
  case (a_sub n a b x y)
  have "align 1 [x] [y]" by (metis One_nat_def align.intros)
  then show ?case using align_append [OF a_sub.IH] by force
next
  case (a_del n a b x)
  have "align 1 [x] []" by (metis One_nat_def align.intros)
  then show ?case using align_append [OF a_del.IH] by force
next
  case (a_ins n a b y)
  have "align 1 [] [y]" by (metis One_nat_def align.intros)
  then show ?case using align_append [OF a_ins.IH] by force
qed (auto intro: align.intros)

lemma ed_rev: "ed (rev a) (rev b) = ed a b"
  using ed_le_align [OF align_rev [OF align_ed [of a b]]] ed_le_align [OF align_rev [OF align_ed [of "rev a" "rev b"]]] by simp

lemma edit1_ConsD:
  assumes "edit1 (y # b) c"
  shows "(\<exists>d. c = d # y # b) \<or> c = b \<or> (\<exists>d. c = d # b) \<or> (\<exists>c'. c = y # c' \<and> edit1 b c')"
  using assms by (cases rule: edit1.cases) (auto simp: Cons_eq_append_conv intro: edit1.intros)

lemma edit1_Nil [simp]: "edit1 [] c \<longleftrightarrow> (\<exists>d. c = [d])"
  using edit1.ins [of "[]" "[]"] by (auto elim: edit1.cases)

lemma edit1_front: "edit1 b (d # b)" "edit1 (x # b) b" "edit1 (x # b) (d # b)"
  using edit1.intros [of "[]"] by auto

lemma edit1_Cons: "edit1 a b \<Longrightarrow> edit1 (x # a) (x # b)"
  by (cases rule: edit1.cases, assumption) (metis append_Cons edit1.intros)+

text \<open>One more edit costs at most one more in an alignment.\<close>

lemma align_edit: "align n a b \<Longrightarrow> edit1 b c \<Longrightarrow> \<exists>m\<le>Suc n. align m a c"
proof (induction arbitrary: c rule: align.induct)
  case a_nil
  then show ?case by (auto intro: align.intros)
next
  case (a_eq n a b x)
  then show ?case using edit1_ConsD [OF a_eq.prems]
    by (elim disjE exE conjE) (use a_eq.hyps a_eq.IH in \<open>blast intro: align.intros\<close>)+
next
  case (a_sub n a b x y)
  then show ?case using edit1_ConsD [OF a_sub.prems]
    by (elim disjE exE conjE) (use a_sub.hyps a_sub.IH in \<open>blast intro: align.intros le_SucI Suc_le_mono [THEN iffD2]\<close>)+
next
  case (a_del n a b x)
  then show ?case by (blast intro: align.intros Suc_le_mono [THEN iffD2])
next
  case (a_ins n a b y)
  then show ?case using edit1_ConsD [OF a_ins.prems]
    by (elim disjE exE conjE) (use a_ins.hyps a_ins.IH in \<open>blast intro: align.intros le_SucI Suc_le_mono [THEN iffD2]\<close>)+
qed

lemma align_of_edits: "edits n a b \<Longrightarrow> \<exists>m\<le>n. align m a b"
proof (induction n arbitrary: b)
  case 0
  then show ?case using align_refl by auto
next
  case (Suc n)
  then obtain c m where "edit1 c b" "m \<le> n" "align m a c" by (metis edits.simps(2))
  then show ?case using align_edit by (meson Suc_le_mono order_trans)
qed

lemma edits_Cons: "edits n a b \<Longrightarrow> edits n (x # a) (x # b)"
  by (induction n arbitrary: b) (auto intro: edit1_Cons)

lemma edits_of_align: "align n a b \<Longrightarrow> edits n a b"
proof (induction rule: align.induct)
  case (a_sub n a b x y)
  then show ?case using edits_Cons edit1_front(3) by fastforce
next
  case (a_del n a b x)
  then show ?case using edits_Cons edit1_front(2) by fastforce
next
  case (a_ins n a b y)
  then show ?case using edit1_front(1) by fastforce
qed (auto intro: edits_Cons)

lemma ed_least_edits: "edits (ed a b) a b" "edits m a b \<Longrightarrow> ed a b \<le> m" "(LEAST n. edits n a b) = ed a b"
proof -
  show e: "edits (ed a b) a b" by (rule edits_of_align [OF align_ed])
  show le: "edits m a b \<Longrightarrow> ed a b \<le> m" for m using align_of_edits ed_le_align order_trans by blast
  show "(LEAST n. edits n a b) = ed a b" by (rule Least_equality [where P = "\<lambda>n. edits n a b", OF e le])
qed

section \<open>The dynamic program\<close>

lemma ed_snoc: "ed (xs @ [x]) (ys @ [y]) =
    min (ed xs (ys @ [y]) + 1) (min (ed (xs @ [x]) ys + 1) (ed xs ys + (if x = y then 0 else 1)))"
proof -
  have "ed (xs @ [x]) (ys @ [y]) = ed (x # rev xs) (y # rev ys)" using ed_rev [of "xs @ [x]" "ys @ [y]"] by simp
  also have "\<dots> = min (ed (rev xs) (y # rev ys) + 1) (min (ed (x # rev xs) (rev ys) + 1) (ed (rev xs) (rev ys) + (if x = y then 0 else 1)))"
    by simp
  finally show ?thesis using ed_rev [of xs "ys @ [y]"] ed_rev [of "xs @ [x]" ys] ed_rev [of xs ys] by simp
qed

lemma int_ed_snoc: "int (ed (xs @ [x]) (ys @ [y])) =
    min (int (ed xs (ys @ [y])) + 1) (min (int (ed (xs @ [x]) ys) + 1) (int (ed xs ys) + (if x = y then 0 else 1)))"
  unfolding ed_snoc by (auto simp: min_def)

lemma ed_Nil [simp]: "ed a [] = length a"
  by (cases a) auto

text \<open>A row of the table: the distances of a prefix of the first text to all prefixes of the second.\<close>

definition dp_row :: "'r list \<Rightarrow> 'r list \<Rightarrow> int list" where
  "dp_row xs b = map (\<lambda>j. int (ed xs (take j b))) [0..<Suc (length b)]"

lemma dp_row_nth: "j \<le> length b \<Longrightarrow> dp_row xs b ! j = int (ed xs (take j b))"
  by (simp add: dp_row_def del: upt_Suc)

lemma lev_cell_min: "lev_cell b x prev (Suc k) c =
    c[Suc k := min (prev ! Suc k + 1) (min (c ! k + 1) (prev ! k + (if x = b ! k then 0 else 1)))]"
  by (simp add: lev_cell_def Let_def min_def)

lemma lev_row_correct:
  assumes "length cur = Suc (length b)"
  shows "lev_row b x (Suc (length xs)) (dp_row xs b) cur = dp_row (xs @ [x]) b"
proof -
  have inner: "length (fold (lev_cell b x (dp_row xs b)) [1..<Suc k] (cur[0 := int (Suc (length xs))])) = Suc (length b) \<and>
      (\<forall>j\<le>k. fold (lev_cell b x (dp_row xs b)) [1..<Suc k] (cur[0 := int (Suc (length xs))]) ! j = int (ed (xs @ [x]) (take j b)))"
    if "k \<le> length b" for k using that
  proof (induction k)
    case (Suc k)
    let ?c = "fold (lev_cell b x (dp_row xs b)) [1..<Suc k] (cur[0 := int (Suc (length xs))])"
    have t: "take (Suc k) b = take k b @ [b ! k]" using Suc.prems by (simp add: take_Suc_conv_app_nth)
    have c: "length ?c = Suc (length b)" "\<forall>j\<le>k. ?c ! j = int (ed (xs @ [x]) (take j b))" using Suc by auto
    have "lev_cell b x (dp_row xs b) (Suc k) ?c = ?c[Suc k := int (ed (xs @ [x]) (take (Suc k) b))]"
      using c(2) Suc.prems unfolding lev_cell_min by (simp add: dp_row_nth t int_ed_snoc del: upt_Suc)
    then have "fold (lev_cell b x (dp_row xs b)) [1..<Suc (Suc k)] (cur[0 := int (Suc (length xs))]) =
        ?c[Suc k := int (ed (xs @ [x]) (take (Suc k) b))]" by simp
    then show ?case using c Suc.prems by (auto simp: nth_list_update le_Suc_eq simp del: upt_Suc)
  qed (simp add: assms)
  show ?thesis unfolding lev_row_def
  proof (rule nth_equalityI)
    show "length (fold (lev_cell b x (dp_row xs b)) [1..<Suc (length b)] (cur[0 := int (Suc (length xs))])) = length (dp_row (xs @ [x]) b)"
      using inner [of "length b"] by (simp add: dp_row_def del: upt_Suc)
    fix j assume "j < length (fold (lev_cell b x (dp_row xs b)) [1..<Suc (length b)] (cur[0 := int (Suc (length xs))]))"
    then show "fold (lev_cell b x (dp_row xs b)) [1..<Suc (length b)] (cur[0 := int (Suc (length xs))]) ! j = dp_row (xs @ [x]) b ! j"
      using inner [of "length b"] by (simp add: dp_row_nth del: upt_Suc)
  qed
qed

lemma rows_correct:
  assumes "k \<le> length a"
  shows "\<exists>cur. length cur = Suc (length b) \<and>
    fold (\<lambda>i (prev, cur). (lev_row b (a ! (i - 1)) i prev cur, prev)) [1..<Suc k]
      (map int [0..<Suc (length b)], replicate (Suc (length b)) 0) = (dp_row (take k a) b, cur)"
  using assms
proof (induction k)
  case 0
  have "map int [0..<Suc (length b)] = dp_row [] b" by (simp add: dp_row_def del: upt_Suc cong: map_cong)
  then show ?case by (simp del: upt_Suc)
next
  case (Suc k)
  then obtain cur where cur: "length cur = Suc (length b)"
    "fold (\<lambda>i (prev, cur). (lev_row b (a ! (i - 1)) i prev cur, prev)) [1..<Suc k]
      (map int [0..<Suc (length b)], replicate (Suc (length b)) 0) = (dp_row (take k a) b, cur)" by auto
  have "lev_row b (a ! k) (Suc k) (dp_row (take k a) b) cur = dp_row (take (Suc k) a) b"
    using lev_row_correct [OF cur(1), of "a ! k" "take k a"] Suc.prems by (simp add: take_Suc_conv_app_nth)
  moreover have "length (dp_row (take k a) b) = Suc (length b)" by (simp add: dp_row_def)
  ultimately show ?case using cur(2) by (simp add: upt_Suc_append del: upt_Suc)
qed

lemma levenshtein_ed: "levenshteinRunes a b = int (ed a b)"
proof (cases "a = [] \<or> b = []")
  case False
  then show ?thesis using rows_correct [of "length a" a b]
    by (auto simp: levenshteinRunes_def dp_row_nth simp del: upt_Suc)
qed (auto simp: levenshteinRunes_def)

section \<open>Properties\<close>

lemma ed_le: "ed a b \<le> max (length a) (length b)"
  by (induction a b rule: ed.induct) (auto simp: min_def max_def)

lemma ed_zero: "ed a b = 0 \<longleftrightarrow> a = b"
  using ed_least_edits(1) [of a b] ed_least_edits(2) [of 0 a b] by (cases "ed a b") auto

lemma align_sym: "align n a b \<Longrightarrow> align n b a"
  by (induction rule: align.induct) (auto intro: align.intros)

lemma ed_sym: "ed a b = ed b a"
  using ed_le_align [OF align_sym [OF align_ed [of a b]]] ed_le_align [OF align_sym [OF align_ed [of b a]]] by simp

lemma small_r64: "r64 (1 / 2048) = Fin (1 / 2048)" "r64 (2047 / 2048) = Fin (2047 / 2048)"
  by code_simp+

lemma ratio_unfold:
  assumes "max (length a) (length b) = n" "0 < n" "n \<le> maxEditLen"
  shows "normalizedEditRatio a b = fsub f1 (r64 (of_nat (ed a b) / of_nat n))"
proof -
  have n: "n \<le> 2048" using assms(3) by (simp add: maxEditLen_def)
  have d: "ed a b \<le> n" using ed_le assms(1) by metis
  have f: "f_of_int (int n) = Fin (of_nat n)" "f_of_int (int (ed a b)) = Fin (of_nat (ed a b))"
    using n d by (simp_all add: f_of_int_small)
  have "normalizedEditRatio a b = fsub f1 (fdiv (f_of_int (int (ed a b))) (f_of_int (int n)))"
    using assms by (auto simp: normalizedEditRatio_def Let_def levenshtein_ed max_def split: if_splits)
  then show ?thesis using assms(2) by (simp add: f)
qed

lemma ratio_small:
  assumes "max (length a) (length b) \<le> maxEditLen"
  obtains q where "normalizedEditRatio a b = Fin q" "0 \<le> q" "q \<le> 1" "q = 1 \<longleftrightarrow> a = b"
proof (cases "a = b")
  case True
  have "ed b b = 0" by (simp add: ed_zero)
  then have "normalizedEditRatio a b = f1" using ratio_unfold [OF refl _ assms] True
    by (cases "b = []") (simp_all add: normalizedEditRatio_def fsub_def)
  then show ?thesis using True that [of 1] by simp
next
  case False
  define n where "n = max (length a) (length b)"
  have n: "0 < n" "n \<le> 2048" using False assms by (auto simp: n_def maxEditLen_def max_def)
  have d: "ed a b \<le> n" "1 \<le> ed a b" using ed_le n_def ed_zero [of a b] False by (metis, simp)
  have "1 / 2048 \<le> (1 :: rat) / of_nat n" using n by (simp add: field_simps)
  also have "\<dots> \<le> of_nat (ed a b) / of_nat n" using d n by (simp add: divide_right_mono)
  finally have l: "1 / 2048 \<le> rat_of_nat (ed a b) / of_nat n" .
  obtain q where q: "r64 (of_nat (ed a b) / of_nat n) = Fin q" "0 \<le> q" "q \<le> 1"
    by (rule r64.unit_interval [of "of_nat (ed a b) / of_nat n"]) (use n d in auto)
  have "1 / 2048 \<le> q" using r64_mono [OF l] q(1) by (simp add: small_r64)
  then have "fle (r64 (1 - q)) (r64 (2047 / 2048))" by (intro r64_mono) simp
  moreover obtain p where p: "r64 (1 - q) = Fin p" "0 \<le> p" "p \<le> 1" by (rule r64.unit_interval [of "1 - q"]) (use q in auto)
  ultimately have "p \<noteq> 1" by (auto simp: small_r64)
  moreover have "normalizedEditRatio a b = Fin p"
    using ratio_unfold [OF n_def [symmetric] n(1)] assms n_def q(1) p(1) by (simp add: fsub_def)
  ultimately show ?thesis using p(2,3) False that by blast
qed

lemma ratio_long: "maxEditLen < max (length a) (length b) \<Longrightarrow> normalizedEditRatio a b = f0"
  by (auto simp: normalizedEditRatio_def Let_def max_def maxEditLen_def split: if_splits)

text \<open>
  The edit ratio of two texts is a number of the unit interval in double precision; it is one exactly
  when the texts are the same and within the length bound, zero beyond the bound, and symmetric.
\<close>

lemma edit_ratio_spec:
  "(\<exists>q. normalizedEditRatio a b = Fin q \<and> 0 \<le> q \<and> q \<le> 1 \<and> (q = 1 \<longleftrightarrow> a = b \<and> length a \<le> maxEditLen)) \<and>
   normalizedEditRatio b a = normalizedEditRatio a b"
proof
  show "\<exists>q. normalizedEditRatio a b = Fin q \<and> 0 \<le> q \<and> q \<le> 1 \<and> (q = 1 \<longleftrightarrow> a = b \<and> length a \<le> maxEditLen)"
  proof (cases "max (length a) (length b) \<le> maxEditLen")
    case True
    then obtain q where "normalizedEditRatio a b = Fin q" "0 \<le> q" "q \<le> 1" "q = 1 \<longleftrightarrow> a = b" by (rule ratio_small)
    then show ?thesis using True by auto
  next
    case False
    then show ?thesis by (auto simp: ratio_long)
  qed
  show "normalizedEditRatio b a = normalizedEditRatio a b"
    by (auto simp: normalizedEditRatio_def Let_def levenshtein_ed ed_sym [of b a])
qed

text \<open>
  The two-row dynamic program computes the edit distance: its result is the least number of single-rune
  insertions, deletions and substitutions that turn the first text into the second, for texts
  of every length, the empty ones included.
\<close>

lemma levenshtein_least:
  "levenshteinRunes a b = int (LEAST n. edits n a b) \<and> edits (nat (levenshteinRunes a b)) a b"
  unfolding levenshtein_ed ed_least_edits(3) using ed_least_edits(1) by simp

end
