(* ===== verification/Adapt.thy ===== *)
theory Adapt
  imports Go_Float "HOL-Library.Word"
begin

text \<open>
  The per-entry adaptive thresholds of the reuse path (\<open>kernel/adapt/adapt.go\<close>). Counters are 64-bit
  words, rates and thresholds doubles. The state file is a value: absent, unreadable, corrupt, or
  a decoded state; what a write leaves there depends on the outcomes of \<open>os.WriteFile\<close> and
  \<open>os.Rename\<close>, which are arguments. JSON renders a double so that it is read back exactly, and
  refuses NaN and the infinities.
\<close>

section \<open>State\<close>

record AdaptConfig =
  ac_ErrorBound :: f64
  ac_Step :: f64
  ac_MinSamples :: u64
  ac_MinHits :: u64
  ac_FreezeEpochs :: u64
  ac_Alpha :: f64
  ac_MinTau :: f64
  ac_MaxTau :: f64

definition AdaptDefaults :: AdaptConfig where
  "AdaptDefaults = \<lparr>ac_ErrorBound = r64 (5/100), ac_Step = r64 (5/100), ac_MinSamples = 20, ac_MinHits = 5,
     ac_FreezeEpochs = 60, ac_Alpha = r64 (1/10), ac_MinTau = r64 (3/10), ac_MaxTau = r64 (8/10)\<rparr>"

record AdaptEntry =
  ae_SliceID :: string
  ae_TauLow :: f64
  ae_Relaxed :: bool
  ae_Pos :: u64
  ae_Neg :: u64
  ae_NegEWMA :: f64
  ae_Frozen :: u64
  ae_UpdatedAt :: int

record Engine =
  en_cfg :: AdaptConfig
  en_path :: string
  en_enabled :: bool
  en_epoch :: u64
  en_adjustments :: u64
  en_entries :: "(string, AdaptEntry) gomap"

record persisted =
  ps_Entries :: "AdaptEntry list"
  ps_Epoch :: u64
  ps_Adjustments :: u64

datatype adapt_file = NoState | Unreadable | Corrupt | Saved persisted

definition persistInterval :: u64 where "persistInterval = 64"

section \<open>Construction\<close>

definition resolve_config :: "AdaptConfig \<Rightarrow> AdaptConfig" where
  "resolve_config cfg =
     (let d = AdaptDefaults;
          c = \<lparr>ac_ErrorBound = (if flt f0 (ac_ErrorBound cfg) then ac_ErrorBound cfg else ac_ErrorBound d),
               ac_Step = (if flt f0 (ac_Step cfg) then ac_Step cfg else ac_Step d),
               ac_MinSamples = (if ac_MinSamples cfg > 0 then ac_MinSamples cfg else ac_MinSamples d),
               ac_MinHits = (if ac_MinHits cfg > 0 then ac_MinHits cfg else ac_MinHits d),
               ac_FreezeEpochs = (if ac_FreezeEpochs cfg > 0 then ac_FreezeEpochs cfg else ac_FreezeEpochs d),
               ac_Alpha = (if flt f0 (ac_Alpha cfg) \<and> \<not> is_nan (ac_Alpha cfg) \<and> \<not> is_inf (ac_Alpha cfg)
                           then ac_Alpha cfg else ac_Alpha d),
               ac_MinTau = (if flt f0 (ac_MinTau cfg) then ac_MinTau cfg else ac_MinTau d),
               ac_MaxTau = (if flt f0 (ac_MaxTau cfg) then ac_MaxTau cfg else ac_MaxTau d)\<rparr>
      in if fle (ac_MaxTau c) (ac_MinTau c) then c\<lparr>ac_MaxTau := fadd (ac_MinTau c) (r64 (5/100))\<rparr> else c)"

definition load_entry :: "AdaptEntry \<Rightarrow> (string, AdaptEntry) gomap \<Rightarrow> (string, AdaptEntry) gomap" where
  "load_entry ent m =
     (if ae_SliceID ent = [] then m
      else m_set (ae_SliceID ent)
             (if is_nan (ae_NegEWMA ent) \<or> is_inf (ae_NegEWMA ent) then ent\<lparr>ae_NegEWMA := f0\<rparr> else ent) m)"

definition adapt_load :: "adapt_file \<Rightarrow> Engine \<Rightarrow> Engine" where
  "adapt_load file e =
     (if en_path e = [] then e
      else case file of
             Saved p \<Rightarrow> e\<lparr>en_entries := fold load_entry (ps_Entries p) (en_entries e), en_epoch := ps_Epoch p,
                          en_adjustments := ps_Adjustments p\<rparr>
           | _ \<Rightarrow> e)"

definition Adapt_New :: "AdaptConfig \<Rightarrow> string \<Rightarrow> adapt_file \<Rightarrow> Engine" where
  "Adapt_New cfg path file =
     (let e = \<lparr>en_cfg = AdaptDefaults, en_path = path, en_enabled = True, en_epoch = 0, en_adjustments = 0, en_entries = []\<rparr> in
      if flt (ac_ErrorBound cfg) f0 then e\<lparr>en_enabled := False\<rparr>
      else adapt_load file (e\<lparr>en_cfg := resolve_config cfg\<rparr>))"

section \<open>Persistence\<close>

definition snapshot :: "Engine \<Rightarrow> AdaptEntry list" where
  "snapshot e = go_sort (\<lambda>a b. ae_SliceID a < ae_SliceID b) (map snd (en_entries e))"

definition persistLocked :: "bool \<Rightarrow> bool \<Rightarrow> Engine \<Rightarrow> adapt_file \<Rightarrow> adapt_file" where
  "persistLocked writeOK renameOK e file =
     (if en_path e = [] then file
      else let es = snapshot e in
        if list_ex (\<lambda>a. \<not> is_fin (ae_TauLow a) \<or> \<not> is_fin (ae_NegEWMA a)) es then file
        else if \<not> writeOK then file
        else if \<not> renameOK then file
        else Saved \<lparr>ps_Entries = es, ps_Epoch = en_epoch e, ps_Adjustments = en_adjustments e\<rparr>)"

section \<open>Observations\<close>

definition new_entry :: "string \<Rightarrow> AdaptEntry" where
  "new_entry sid = \<lparr>ae_SliceID = sid, ae_TauLow = f0, ae_Relaxed = False, ae_Pos = 0, ae_Neg = 0, ae_NegEWMA = f0,
     ae_Frozen = 0, ae_UpdatedAt = 0\<rparr>"

definition fold_evidence :: "AdaptConfig \<Rightarrow> bool \<Rightarrow> AdaptEntry \<Rightarrow> AdaptEntry" where
  "fold_evidence c negative ent =
     (if negative
      then ent\<lparr>ae_Neg := ae_Neg ent + 1,
               ae_NegEWMA := fadd (fmul (ac_Alpha c) f1) (fmul (fsub f1 (ac_Alpha c)) (ae_NegEWMA ent))\<rparr>
      else ent\<lparr>ae_Pos := ae_Pos ent + 1, ae_NegEWMA := fmul (fsub f1 (ac_Alpha c)) (ae_NegEWMA ent)\<rparr>)"

definition clamp_tau :: "AdaptConfig \<Rightarrow> f64 \<Rightarrow> f64" where
  "clamp_tau c b0 =
     (let b1 = (if flt b0 (ac_MinTau c) then ac_MinTau c else b0)
      in if flt (ac_MaxTau c) b1 then ac_MaxTau c else b1)"

definition adjust :: "AdaptConfig \<Rightarrow> f64 \<Rightarrow> AdaptEntry \<Rightarrow> AdaptEntry \<times> bool" where
  "adjust c curTau ent =
     (if ae_Pos ent + ae_Neg ent \<ge> ac_MinSamples c
      then let b0 = ae_TauLow ent;
               b1 = (if fle b0 f0 then curTau else b0);
               old = (if fle b1 f0 then ac_MinTau c else b1);
               tighter = flt (ac_ErrorBound c) (ae_NegEWMA ent);
               b2 = (if tighter then fadd old (ac_Step c)
                     else if flt (ae_NegEWMA ent) (fdiv (ac_ErrorBound c) (Fin 2)) \<and> ae_Pos ent \<ge> ac_MinSamples c
                     then fsub old (ac_Step c) else old);
               tau = clamp_tau c b2
           in if fne tau old
              then (ent\<lparr>ae_TauLow := tau, ae_Relaxed := \<not> tighter, ae_Frozen := ac_FreezeEpochs c\<rparr>, True)
              else (ent, False)
      else (ent, False))"

definition Adapt_Observe ::
  "bool \<Rightarrow> bool \<Rightarrow> string \<Rightarrow> bool \<Rightarrow> f64 \<Rightarrow> Engine \<times> adapt_file \<Rightarrow> Engine \<times> adapt_file" where
  "Adapt_Observe writeOK renameOK sliceID negative curTau st =
     (let (e, file) = st in
      if sliceID = [] then st
      else if \<not> en_enabled e then st
      else
        let e = e\<lparr>en_epoch := en_epoch e + 1\<rparr>;
            ent = fold_evidence (en_cfg e) negative
                    (case m_get (en_entries e) sliceID of None \<Rightarrow> new_entry sliceID | Some ent \<Rightarrow> ent)
        in if ae_Frozen ent > 0
           then let e = e\<lparr>en_entries := m_set sliceID (ent\<lparr>ae_Frozen := ae_Frozen ent - 1\<rparr>) (en_entries e)\<rparr>
                in (e, if en_epoch e mod persistInterval = 0 then persistLocked writeOK renameOK e file else file)
           else let (ent, changed) = adjust (en_cfg e) curTau ent;
                    e = e\<lparr>en_entries := m_set sliceID ent (en_entries e),
                          en_adjustments := (if changed then en_adjustments e + 1 else en_adjustments e)\<rparr>
                in (e, if changed \<or> en_epoch e mod persistInterval = 0 then persistLocked writeOK renameOK e file else file))"

section \<open>Decisions\<close>

definition Adapt_TauLow :: "Engine \<Rightarrow> string \<Rightarrow> f64 \<Rightarrow> f64" where
  "Adapt_TauLow e sliceID global =
     (if sliceID = [] then global
      else if \<not> en_enabled e then global
      else case m_get (en_entries e) sliceID of
             None \<Rightarrow> global
           | Some ent \<Rightarrow>
               if fle (ae_TauLow ent) f0 then global
               else if ae_Relaxed ent \<and> ae_Pos ent < ac_MinHits (en_cfg e) then global
               else ae_TauLow ent)"

end
