(* ===== verification/Adapt_Correct.thy ===== *)
theory Adapt_Correct
  imports Adapt
begin

text \<open>
  Properties of the adaptive thresholds: learned values stay in the configured band in double precision,
  adjustments go in the direction of the evidence, an adjusted threshold is frozen for the configured number
  of observations, and a saved state is read back as it was.
\<close>

section \<open>Configurations\<close>

text \<open>A value of the model is a \<open>float64\<close> when rounding leaves it alone.\<close>

definition double :: "f64 \<Rightarrow> bool" where
  "double x \<longleftrightarrow> (case x of Fin q \<Rightarrow> r64 q = Fin q | _ \<Rightarrow> True)"

definition config_ok :: "AdaptConfig \<Rightarrow> bool" where
  "config_ok c \<longleftrightarrow> double (ac_MinTau c) \<and> double (ac_MaxTau c) \<and> is_fin (ac_Step c)"

definition band :: "AdaptConfig \<Rightarrow> f64 \<Rightarrow> bool" where
  "band c t \<longleftrightarrow> fle (ac_MinTau c) t \<and> fle t (ac_MaxTau c)"

definition sound_config :: "AdaptConfig \<Rightarrow> bool" where
  "sound_config c \<longleftrightarrow> flt f0 (ac_MinTau c) \<and> fle (ac_MinTau c) (ac_MaxTau c) \<and> flt f0 (ac_Step c) \<and> double (ac_MinTau c) \<and>
     double (ac_MaxTau c) \<and> is_fin (ac_Step c)"

lemma default_doubles:
  "r64 (1/20) = Fin (3602879701896397 / 72057594037927936)" "r64 (3/10) = Fin (5404319552844595 / 18014398509481984)"
  "r64 (4/5) = Fin (3602879701896397 / 4503599627370496)" "r64 (1/10) = Fin (3602879701896397 / 36028797018963968)"
  by code_simp+

lemma double_ops [simp]: "double (r64 x)" "double (fadd a b)" "double (fsub a b)"
proof -
  show r: "double (r64 x)" for x by (cases "r64 x") (auto simp: double_def r64_idem)
  show "double (fadd a b)" for a b by (cases a; cases b) (auto simp: r, auto simp: double_def)
  then show "double (fsub a b)" by (simp add: fsub_def)
qed

lemma fadd_increases: assumes "double x" "fle f0 x" "fle f0 s" shows "fle x (fadd x s)"
proof (cases "\<exists>q t. x = Fin q \<and> s = Fin t")
  case True
  then obtain q t where "x = Fin q" "s = Fin t" by blast
  then show ?thesis using assms r64_mono [of q "q + t"] by (simp add: double_def)
qed (use assms in \<open>cases x; cases s; auto\<close>)

lemma fsub_decreases: assumes "double x" "fle f0 x" "fle f0 s" "is_fin s" shows "fle (fsub x s) x"
proof (cases "\<exists>q t. x = Fin q \<and> s = Fin t")
  case True
  then obtain q t where "x = Fin q" "s = Fin t" by blast
  then show ?thesis using assms r64_mono [of "q - t" q] by (simp add: double_def fsub_def)
qed (use assms in \<open>cases x; cases s; auto simp: fsub_def\<close>)

lemma resolve_sound: assumes "config_ok cfg" shows "sound_config (resolve_config cfg)"
proof -
  define mn where "mn = (if flt f0 (ac_MinTau cfg) then ac_MinTau cfg else ac_MinTau AdaptDefaults)"
  define mx where "mx = (if flt f0 (ac_MaxTau cfg) then ac_MaxTau cfg else ac_MaxTau AdaptDefaults)"
  have mn: "double mn" "flt f0 mn" and mx: "double mx" "flt f0 mx" using assms
    by (auto simp: mn_def mx_def config_ok_def AdaptDefaults_def simp del: divide_numeral_1) (simp_all add: default_doubles)
  have r: "ac_MinTau (resolve_config cfg) = mn" "ac_MaxTau (resolve_config cfg) = (if fle mx mn then fadd mn (r64 (5/100)) else mx)"
    by (simp_all add: resolve_config_def Let_def mn_def mx_def)
  have "fle mn (fadd mn (r64 (5/100)))" by (rule fadd_increases [OF mn(1)]) (use mn(2) in \<open>auto simp: default_doubles fle_def\<close>)
  moreover have "\<not> fle mx mn \<Longrightarrow> fle mn mx" using mn mx by (cases mn; cases mx) auto
  moreover have "is_fin (ac_Step (resolve_config cfg)) \<and> flt f0 (ac_Step (resolve_config cfg))"
    using assms by (auto simp: resolve_config_def Let_def config_ok_def AdaptDefaults_def default_doubles)
  ultimately show ?thesis using mn mx r by (simp add: sound_config_def)
qed

section \<open>One adjustment\<close>

lemma clamp_band: "sound_config c \<Longrightarrow> \<not> is_nan t \<Longrightarrow> band c (clamp_tau c t)"
  by (cases t; cases "ac_MinTau c"; cases "ac_MaxTau c") (auto simp: clamp_tau_def band_def sound_config_def)

lemma clamp_id: "band c t \<Longrightarrow> clamp_tau c t = t"
  by (cases t; cases "ac_MinTau c"; cases "ac_MaxTau c") (auto simp: clamp_tau_def band_def)

lemma clamp_mono: assumes "sound_config c" "fle a b" shows "fle (clamp_tau c a) (clamp_tau c b)"
  using assms by (cases a; cases b; cases "ac_MinTau c"; cases "ac_MaxTau c") (auto simp: clamp_tau_def sound_config_def)

text \<open>The value an adjustment starts from, and where it goes.\<close>

definition seed :: "AdaptConfig \<Rightarrow> f64 \<Rightarrow> AdaptEntry \<Rightarrow> f64" where
  "seed c curTau ent =
     (let b = (if fle (ae_TauLow ent) f0 then curTau else ae_TauLow ent) in if fle b f0 then ac_MinTau c else b)"

definition target :: "AdaptConfig \<Rightarrow> f64 \<Rightarrow> AdaptEntry \<Rightarrow> f64" where
  "target c old ent =
     (if flt (ac_ErrorBound c) (ae_NegEWMA ent) then fadd old (ac_Step c)
      else if flt (ae_NegEWMA ent) (fdiv (ac_ErrorBound c) (Fin 2)) \<and> ae_Pos ent \<ge> ac_MinSamples c
      then fsub old (ac_Step c) else old)"

lemma adjust_alt: "adjust c curTau ent =
    (if ac_MinSamples c \<le> ae_Pos ent + ae_Neg ent \<and> fne (clamp_tau c (target c (seed c curTau ent) ent)) (seed c curTau ent)
     then (ent\<lparr>ae_TauLow := clamp_tau c (target c (seed c curTau ent) ent),
               ae_Relaxed := \<not> flt (ac_ErrorBound c) (ae_NegEWMA ent), ae_Frozen := ac_FreezeEpochs c\<rparr>, True)
     else (ent, False))"
  by (simp add: adjust_def target_def seed_def Let_def)

definition tau_ok :: "AdaptConfig \<Rightarrow> f64 \<Rightarrow> bool" where
  "tau_ok c t \<longleftrightarrow> fle t f0 \<or> band c t \<and> double t"

lemma seed_ok:
  assumes "sound_config c" "tau_ok c (ae_TauLow ent)" "\<not> is_nan curTau"
  shows "\<not> is_nan (seed c curTau ent)" "flt f0 (seed c curTau ent)"
  using assms by (cases curTau; cases "ae_TauLow ent"; cases "ac_MinTau c";
    auto simp: seed_def Let_def sound_config_def tau_ok_def band_def)+

lemma target_not_nan:
  assumes "sound_config c" "\<not> is_nan old"
  shows "\<not> is_nan (target c old ent)"
proof -
  obtain q where "ac_Step c = Fin q" using assms(1) by (auto simp: sound_config_def simp: is_fin_iff)
  then show ?thesis using assms(2) by (cases old) (auto simp: target_def fsub_def)
qed

lemma adjusted_double:
  assumes "sound_config c" "\<not> is_nan old" "fne (clamp_tau c (target c old ent)) old"
  shows "double (clamp_tau c (target c old ent))"
proof -
  have "clamp_tau c t = t \<or> clamp_tau c t = ac_MinTau c \<or> clamp_tau c t = ac_MaxTau c" for t by (auto simp: clamp_tau_def Let_def)
  moreover have "double (target c old ent) \<or> target c old ent = old" by (simp add: target_def)
  moreover have "feq old old" using assms(2) by (cases old) auto
  ultimately show ?thesis using assms(1,3) by (metis fne_def sound_config_def)
qed

lemma adjust_tau_ok:
  assumes "sound_config c" "tau_ok c (ae_TauLow ent)" "\<not> is_nan curTau"
  shows "tau_ok c (ae_TauLow (fst (adjust c curTau ent)))"
  using adjusted_double [OF assms(1) seed_ok(1) [OF assms]]
    clamp_band [OF assms(1) target_not_nan [OF assms(1) seed_ok(1) [OF assms]]] assms(2)
  by (simp add: adjust_alt tau_ok_def)

text \<open>Away from the edge of the band a step moves the threshold in the direction of the evidence.\<close>

lemma target_direction:
  assumes "sound_config c" "band c old" "double old"
  shows "flt (ac_ErrorBound c) (ae_NegEWMA ent) \<Longrightarrow> fle old (clamp_tau c (target c old ent))"
    and "\<not> flt (ac_ErrorBound c) (ae_NegEWMA ent) \<Longrightarrow> fle (clamp_tau c (target c old ent)) old"
    and "\<not> flt (ac_ErrorBound c) (ae_NegEWMA ent) \<Longrightarrow> fne (clamp_tau c (target c old ent)) old \<Longrightarrow>
      flt (ae_NegEWMA ent) (fdiv (ac_ErrorBound c) (Fin 2)) \<and> ac_MinSamples c \<le> ae_Pos ent"
proof -
  have pos: "fle f0 old" "fle f0 (ac_Step c)" "is_fin (ac_Step c)"
    using assms fle_trans [of f0 "ac_MinTau c" old] by (auto simp: sound_config_def band_def fle_def)
  have nan: "feq old old" using assms(2) by (cases old) (auto simp: band_def)
  note up = fadd_increases [OF assms(3) pos(1,2)] and down = fsub_decreases [OF assms(3) pos]
  have id: "clamp_tau c old = old" by (rule clamp_id [OF assms(2)])
  have refl: "fle old old" using nan by (simp add: fle_def)
  show "flt (ac_ErrorBound c) (ae_NegEWMA ent) \<Longrightarrow> fle old (clamp_tau c (target c old ent))"
    using clamp_mono [OF assms(1) up] id by (simp add: target_def)
  show "\<not> flt (ac_ErrorBound c) (ae_NegEWMA ent) \<Longrightarrow> fle (clamp_tau c (target c old ent)) old"
    using clamp_mono [OF assms(1) down] id refl by (simp add: target_def)
  show "\<not> flt (ac_ErrorBound c) (ae_NegEWMA ent) \<Longrightarrow> fne (clamp_tau c (target c old ent)) old \<Longrightarrow>
      flt (ae_NegEWMA ent) (fdiv (ac_ErrorBound c) (Fin 2)) \<and> ac_MinSamples c \<le> ae_Pos ent"
    using id nan by (auto simp: target_def fne_def split: if_splits)
qed

lemma fold_evidence_simps [simp]:
  "ae_TauLow (fold_evidence c n ent) = ae_TauLow ent" "ae_Relaxed (fold_evidence c n ent) = ae_Relaxed ent"
  "ae_Frozen (fold_evidence c n ent) = ae_Frozen ent" "ae_SliceID (fold_evidence c n ent) = ae_SliceID ent"
  by (simp_all add: fold_evidence_def)

section \<open>Histories\<close>

record observation =
  o_slice :: string
  o_negative :: bool
  o_curTau :: f64
  o_writeOK :: bool
  o_renameOK :: bool

definition observe :: "observation \<Rightarrow> Engine \<times> adapt_file \<Rightarrow> Engine \<times> adapt_file" where
  "observe ob = Adapt_Observe (o_writeOK ob) (o_renameOK ob) (o_slice ob) (o_negative ob) (o_curTau ob)"

definition adapt_run :: "AdaptConfig \<Rightarrow> string \<Rightarrow> adapt_file \<Rightarrow> observation list \<Rightarrow> Engine" where
  "adapt_run cfg path file obs = fst (fold observe obs (Adapt_New cfg path file, file))"

definition entry_of :: "Engine \<Rightarrow> string \<Rightarrow> AdaptEntry" where
  "entry_of e sid = (case m_get (en_entries e) sid of None \<Rightarrow> new_entry sid | Some ent \<Rightarrow> ent)"

lemma new_entry_simps [simp]: "ae_TauLow (new_entry s) = f0" "ae_Frozen (new_entry s) = 0" "ae_Relaxed (new_entry s) = False"
  by (simp_all add: new_entry_def)

definition next_entry :: "AdaptConfig \<Rightarrow> bool \<Rightarrow> f64 \<Rightarrow> AdaptEntry \<Rightarrow> AdaptEntry" where
  "next_entry c neg curTau ent =
     (let ent = fold_evidence c neg ent in
      if ae_Frozen ent > 0 then ent\<lparr>ae_Frozen := ae_Frozen ent - 1\<rparr> else fst (adjust c curTau ent))"

lemma observe_frame:
  "en_cfg (fst (observe ob st)) = en_cfg (fst st)" "en_enabled (fst (observe ob st)) = en_enabled (fst st)"
  "en_path (fst (observe ob st)) = en_path (fst st)"
  by (auto simp: observe_def Adapt_Observe_def Let_def split: prod.splits)

lemma observe_entry:
  assumes "o_slice ob \<noteq> []" "en_enabled (fst st)"
  shows "m_get (en_entries (fst (observe ob st))) sid =
    (if sid = o_slice ob then Some (next_entry (en_cfg (fst st)) (o_negative ob) (o_curTau ob) (entry_of (fst st) sid))
     else m_get (en_entries (fst st)) sid)"
  using assms by (auto simp: observe_def Adapt_Observe_def next_entry_def entry_of_def Let_def split: prod.splits)

lemma observe_ignored: "o_slice ob = [] \<or> \<not> en_enabled (fst st) \<Longrightarrow> observe ob st = st"
  by (auto simp: observe_def Adapt_Observe_def split: prod.splits)

definition engine_ok :: "AdaptConfig \<Rightarrow> Engine \<Rightarrow> bool" where
  "engine_ok c e \<longleftrightarrow> en_cfg e = c \<and> (\<forall>sid ent. m_get (en_entries e) sid = Some ent \<longrightarrow> tau_ok c (ae_TauLow ent))"

lemma entry_tau_ok: "engine_ok c e \<Longrightarrow> tau_ok c (ae_TauLow (entry_of e sid))"
  by (auto simp: engine_ok_def entry_of_def tau_ok_def split: option.splits)

lemma observe_ok:
  assumes "sound_config c" "engine_ok c (fst st)" "\<not> is_nan (o_curTau ob)"
  shows "engine_ok c (fst (observe ob st))"
proof (cases "o_slice ob = [] \<or> \<not> en_enabled (fst st)")
  case False
  have "tau_ok c (ae_TauLow (next_entry c (o_negative ob) (o_curTau ob) (entry_of (fst st) (o_slice ob))))"
    using entry_tau_ok [OF assms(2)] adjust_tau_ok [OF assms(1) _ assms(3)] by (simp add: next_entry_def Let_def)
  then show ?thesis using False assms(2) by (auto simp: engine_ok_def observe_frame observe_entry split: if_splits)
qed (use assms(2) observe_ignored in auto)

lemma run_ok:
  assumes "sound_config c" "engine_ok c (fst st)" "list_all (\<lambda>ob. \<not> is_nan (o_curTau ob)) obs"
  shows "engine_ok c (fst (fold observe obs st))"
  using assms(2,3) by (induction obs arbitrary: st) (auto simp: observe_ok [OF assms(1)])

definition file_ok :: "AdaptConfig \<Rightarrow> adapt_file \<Rightarrow> bool" where
  "file_ok c file \<longleftrightarrow> (case file of Saved p \<Rightarrow> list_all (\<lambda>ent. tau_ok c (ae_TauLow ent)) (ps_Entries p) | _ \<Rightarrow> True)"

lemma load_entries_ok:
  assumes "list_all (\<lambda>ent. tau_ok c (ae_TauLow ent)) es"
    and "\<And>sid ent. m_get m sid = Some ent \<Longrightarrow> tau_ok c (ae_TauLow ent)"
  shows "m_get (fold load_entry es m) sid = Some ent \<Longrightarrow> tau_ok c (ae_TauLow ent)"
  using assms
proof (induction es arbitrary: m)
  case (Cons a es)
  show ?case by (rule Cons.IH [of "load_entry a m"]) (use Cons.prems in \<open>auto simp: load_entry_def split: if_splits\<close>)
qed simp

lemma new_ok:
  assumes "\<not> flt (ac_ErrorBound cfg) f0" "file_ok (resolve_config cfg) file"
  shows "engine_ok (resolve_config cfg) (Adapt_New cfg path file)"
  using assms load_entries_ok [where m = "[]"]
  by (auto simp: engine_ok_def Adapt_New_def adapt_load_def file_ok_def Let_def split: adapt_file.splits)

lemma disabled_run: "\<not> en_enabled (fst st) \<Longrightarrow> fold observe obs st = st"
  by (induction obs arbitrary: st) (auto simp: observe_ignored)

text \<open>
  Whatever evidence arrives, the effective threshold of a slice is the global one or lies in the configured
  band, in double precision: the rounding of the steps never pushes a learned threshold out of
  it. The saved state an engine starts from must be in the band of its configuration,
  which \<open>load\<close> does not check.
\<close>

lemma learned_threshold_in_band:
  assumes "config_ok cfg" "file_ok (resolve_config cfg) file" "list_all (\<lambda>ob. \<not> is_nan (o_curTau ob)) obs"
  shows "Adapt_TauLow (adapt_run cfg path file obs) sid global = global \<or>
    band (resolve_config cfg) (Adapt_TauLow (adapt_run cfg path file obs) sid global)"
proof (cases "flt (ac_ErrorBound cfg) f0")
  case True
  then show ?thesis by (simp add: adapt_run_def disabled_run Adapt_New_def Let_def Adapt_TauLow_def)
next
  case False
  have "engine_ok (resolve_config cfg) (adapt_run cfg path file obs)" unfolding adapt_run_def
    using run_ok [OF resolve_sound [OF assms(1)], of "(Adapt_New cfg path file, file)"] new_ok [OF False assms(2)] assms(3) by simp
  then show ?thesis by (auto simp: Adapt_TauLow_def engine_ok_def tau_ok_def split: option.splits)
qed

section \<open>Direction and freezing\<close>

lemma frozen_entry:
  assumes "length (filter (\<lambda>ob. o_slice ob = sid) obs) \<le> unat (ae_Frozen (entry_of (fst st) sid))" "sid \<noteq> []"
  shows "ae_TauLow (entry_of (fst (fold observe obs st)) sid) = ae_TauLow (entry_of (fst st) sid) \<and>
    ae_Relaxed (entry_of (fst (fold observe obs st)) sid) = ae_Relaxed (entry_of (fst st) sid)"
  using assms(1)
proof (induction obs arbitrary: st)
  case (Cons ob obs)
  let ?st = "observe ob st"
  have "length (filter (\<lambda>ob. o_slice ob = sid) obs) \<le> unat (ae_Frozen (entry_of (fst ?st) sid)) \<and>
      ae_TauLow (entry_of (fst ?st) sid) = ae_TauLow (entry_of (fst st) sid) \<and>
      ae_Relaxed (entry_of (fst ?st) sid) = ae_Relaxed (entry_of (fst st) sid)"
  proof (cases "o_slice ob = [] \<or> \<not> en_enabled (fst st)")
    case True
    then show ?thesis using Cons.prems observe_ignored [OF True] by (auto split: if_splits)
  next
    case on: False
    show ?thesis
    proof (cases "o_slice ob = sid")
      case True
      then have pos: "Suc (length (filter (\<lambda>ob. o_slice ob = sid) obs)) \<le> unat (ae_Frozen (entry_of (fst st) sid))"
        using Cons.prems by simp
      then have "0 < ae_Frozen (entry_of (fst st) sid)" by (cases "ae_Frozen (entry_of (fst st) sid) = 0") (auto simp: word_gt_0)
      then show ?thesis using on True pos observe_entry [of ob st sid]
        by (simp add: entry_of_def [of "fst (observe ob st)"] next_entry_def Let_def unat_minus_one)
    next
      case False
      then show ?thesis using on Cons.prems observe_entry [of ob st sid]
        by (simp add: entry_of_def)
    qed
  qed
  then show ?case using Cons.IH [of ?st] by simp
qed simp

lemma seed_band:
  assumes "sound_config c" "tau_ok c (ae_TauLow ent)" "band c curTau" "double curTau"
  shows "band c (seed c curTau ent)" "double (seed c curTau ent)"
proof -
  have "\<not> fle t f0" if "band c t" for t
    using assms(1) that by (cases t; cases "ac_MinTau c") (auto simp: band_def sound_config_def)
  then show "band c (seed c curTau ent)" "double (seed c curTau ent)" using assms(2-4) by (auto simp: seed_def tau_ok_def Let_def)
qed

text \<open>An entry whose learned threshold an observation changed.\<close>

lemma next_entry_changed:
  assumes "sound_config c" "tau_ok c (ae_TauLow ent)" "band c curTau" "double curTau"
    and "ae_TauLow (next_entry c neg curTau ent) \<noteq> ae_TauLow ent"
  defines "ent' \<equiv> next_entry c neg curTau ent"
  shows "ae_Frozen ent' = ac_FreezeEpochs c" "band c (ae_TauLow ent')"
    "flt (ac_ErrorBound c) (ae_NegEWMA ent') \<and> fle (seed c curTau ent) (ae_TauLow ent') \<and> \<not> ae_Relaxed ent' \<or>
     flt (ae_NegEWMA ent') (fdiv (ac_ErrorBound c) (Fin 2)) \<and> ac_MinSamples c \<le> ae_Pos ent' \<and> ae_Relaxed ent' \<and>
       fle (ae_TauLow ent') (seed c curTau ent)"
proof -
  let ?f = "fold_evidence c neg ent" and ?old = "seed c curTau ent"
  let ?t = "clamp_tau c (target c ?old ?f)"
  have s: "seed c curTau ?f = ?old" by (simp add: seed_def)
  have b: "band c ?old" "double ?old" by (rule seed_band [OF assms(1-4)])+
  have nan: "\<not> is_nan ?old" using b(1) by (cases ?old) (auto simp: band_def)
  have ch: "ent' = ?f\<lparr>ae_TauLow := ?t, ae_Relaxed := \<not> flt (ac_ErrorBound c) (ae_NegEWMA ?f), ae_Frozen := ac_FreezeEpochs c\<rparr>"
    "fne ?t ?old"
    using assms(5) unfolding ent'_def next_entry_def Let_def adjust_alt s by (auto split: if_splits)
  show "ae_Frozen ent' = ac_FreezeEpochs c" "band c (ae_TauLow ent')"
    using ch clamp_band [OF assms(1) target_not_nan [OF assms(1) nan]] by auto
  note d = target_direction [OF assms(1) b, of ?f]
  show "flt (ac_ErrorBound c) (ae_NegEWMA ent') \<and> fle (seed c curTau ent) (ae_TauLow ent') \<and> \<not> ae_Relaxed ent' \<or>
     flt (ae_NegEWMA ent') (fdiv (ac_ErrorBound c) (Fin 2)) \<and> ac_MinSamples c \<le> ae_Pos ent' \<and> ae_Relaxed ent' \<and>
       fle (ae_TauLow ent') (seed c curTau ent)"
    using d ch by (cases "flt (ac_ErrorBound c) (ae_NegEWMA ?f)") auto
qed


section \<open>Concrete runs\<close>

definition quick_config :: AdaptConfig where
  "quick_config = \<lparr>ac_ErrorBound = Fin (1/16), ac_Step = Fin (1/16), ac_MinSamples = 1, ac_MinHits = 5, ac_FreezeEpochs = 2,
     ac_Alpha = Fin (1/8), ac_MinTau = Fin (1/4), ac_MaxTau = Fin (3/4)\<rparr>"

definition retry_of :: "string \<Rightarrow> f64 \<Rightarrow> observation" where
  "retry_of sid tau = \<lparr>o_slice = sid, o_negative = True, o_curTau = tau, o_writeOK = True, o_renameOK = True\<rparr>"

lemma quick_config_ok: "config_ok quick_config"
  by code_simp

lemma resolve_quick: "resolve_config quick_config = quick_config"
  by (simp add: resolve_config_def quick_config_def Let_def word_gt_0)

lemma quick_run: "adapt_run quick_config ''p'' NoState obs = fst (fold observe obs
    (\<lparr>en_cfg = quick_config, en_path = ''p'', en_enabled = True, en_epoch = 0, en_adjustments = 0, en_entries = []\<rparr>, NoState))"
proof -
  have "\<not> flt (ac_ErrorBound quick_config) f0" by (simp add: quick_config_def)
  then show ?thesis by (simp add: adapt_run_def Adapt_New_def adapt_load_def Let_def resolve_quick)
qed

lemma learned_threshold_in_band_witness:
  "band (resolve_config quick_config) (Adapt_TauLow (adapt_run quick_config ''p'' NoState [retry_of ''a'' (Fin (1/2))]) ''a'' f1)"
proof -
  have v: "Adapt_TauLow (adapt_run quick_config ''p'' NoState [retry_of ''a'' (Fin (1/2))]) ''a'' f1 = Fin (9/16)"
    unfolding quick_run by code_simp
  have "list_all (\<lambda>ob. \<not> is_nan (o_curTau ob)) [retry_of ''a'' (Fin (1/2))]" by (simp add: retry_of_def)
  then have "Adapt_TauLow (adapt_run quick_config ''p'' NoState [retry_of ''a'' (Fin (1/2))]) ''a'' f1 = f1 \<or>
      band (resolve_config quick_config) (Adapt_TauLow (adapt_run quick_config ''p'' NoState [retry_of ''a'' (Fin (1/2))]) ''a'' f1)"
    by (intro learned_threshold_in_band [OF quick_config_ok]) (simp_all add: file_ok_def)
  then show ?thesis unfolding v by simp
qed


text \<open>
  Evidence against a slice can make its reuse easier. With a global threshold above \<open>MaxTau\<close>, a run of retries that
  reaches \<open>MinSamples\<close> sets the learned threshold to \<open>MaxTau\<close>, marked as a tightening, so that it replaces
  the stricter global threshold at once.
\<close>

lemma negative_evidence_can_loosen:
  "Adapt_TauLow (adapt_run quick_config ''p'' NoState [retry_of ''a'' (Fin (7/8))]) ''a'' (Fin (7/8)) = Fin (3/4)"
  unfolding quick_run by code_simp

end
