(* ===== verification/Gateway_Retry.thy ===== *)
theory Gateway_Retry
  imports Adapt Levenshtein
begin

text \<open>
  How the gateway notices that a cached answer was wrong (\<open>gateway/pipeline.go\<close>, \<open>gateway/gateway.go\<close>): the
  record of the last cached answer per session, the detection of a retry by text similarity, and the evidence
  both give to the adaptive thresholds. A turn composes them the way \<open>handleChat\<close> does. Whether
  the reuse gate serves a request, with which slice, is an argument of the turn; so is the decoding
  of a text into runes. \<open>l3Reuses\<close> lists the Go map in its iteration order.
\<close>

section \<open>State\<close>

record l3ReuseEntry =
  re_Query :: string
  re_SliceID :: string
  re_At :: int

definition maxL3ReuseEntries :: nat where "maxL3ReuseEntries = 1024"

record gateway =
  gw_FalseHitSim :: f64
  gw_TauLow :: f64
  gw_disabled :: bool
  gw_l3Reuses :: "(string, l3ReuseEntry) gomap"
  gw_adapt :: "(Engine \<times> adapt_file) option"

definition DefaultFalseHitSim :: f64 where "DefaultFalseHitSim = r64 (6/10)"

definition falseHitSim :: "gateway \<Rightarrow> f64" where
  "falseHitSim g =
     (if flt (gw_FalseHitSim g) f0 then f0
      else if feq (gw_FalseHitSim g) f0 then DefaultFalseHitSim
      else gw_FalseHitSim g)"

section \<open>Operations\<close>

text \<open>The engine is told about a slice when there is one; the two outcomes are those of the state file.\<close>

definition give_evidence :: "bool \<times> bool \<Rightarrow> string \<Rightarrow> bool \<Rightarrow> gateway \<Rightarrow> gateway" where
  "give_evidence io sliceID negative g =
     (case gw_adapt g of None \<Rightarrow> g
      | Some a \<Rightarrow> if sliceID = [] then g
                  else g\<lparr>gw_adapt := Some (Adapt_Observe (fst io) (snd io) sliceID negative (gw_TauLow g) a)\<rparr>)"

definition detectFalseHit :: "(string \<Rightarrow> 'r list) \<Rightarrow> bool \<times> bool \<Rightarrow> string \<Rightarrow> string \<Rightarrow> gateway \<Rightarrow> bool \<times> gateway" where
  "detectFalseHit runes io sessionID query g =
     (let sim = falseHitSim g in
      if sessionID = [] \<or> fle sim f0 then (False, g)
      else case m_get (gw_l3Reuses g) sessionID of
             None \<Rightarrow> (False, g)
           | Some entry \<Rightarrow>
               let g = g\<lparr>gw_l3Reuses := m_del sessionID (gw_l3Reuses g)\<rparr> in
               if fle sim (normalizedEditRatio (runes (re_Query entry)) (runes query))
               then (True, give_evidence io (re_SliceID entry) True g)
               else (False, g))"

text \<open>The scan for the oldest record starts with the empty key, which no record has.\<close>

fun older :: "string \<times> l3ReuseEntry \<Rightarrow> string \<times> int \<Rightarrow> string \<times> int" where
  "older (k, v) (oldestKey, oldest) =
     (if oldestKey = [] \<or> re_At v < oldest then (k, re_At v) else (oldestKey, oldest))"

definition oldest_key :: "(string, l3ReuseEntry) gomap \<Rightarrow> string" where
  "oldest_key m = fst (fold older m ([], 0))"

definition recordL3Reuse :: "bool \<times> bool \<Rightarrow> int \<Rightarrow> string \<Rightarrow> string \<Rightarrow> string \<Rightarrow> gateway \<Rightarrow> gateway" where
  "recordL3Reuse io now sessionID query sliceID g =
     (let g = give_evidence io sliceID False g in
      if sessionID = [] then g
      else let m = m_set sessionID \<lparr>re_Query = query, re_SliceID = sliceID, re_At = now\<rparr> (gw_l3Reuses g)
           in if length m > maxL3ReuseEntries then g\<lparr>gw_l3Reuses := m_del (oldest_key m) m\<rparr>
              else g\<lparr>gw_l3Reuses := m\<rparr>)"

record turn =
  tn_session :: string
  tn_query :: string
  tn_now :: int
  tn_decision :: "string option"
  tn_io :: "bool \<times> bool"

text \<open>The first part of a request: the slice that serves it, or \<open>None\<close> when it goes upstream.\<close>

definition l3_turn :: "(string \<Rightarrow> 'r list) \<Rightarrow> turn \<Rightarrow> gateway \<Rightarrow> string option \<times> gateway" where
  "l3_turn runes t g =
     (if gw_disabled g then (None, g)
      else let (false_hit, g) = detectFalseHit runes (tn_io t) (tn_session t) (tn_query t) g in
        if false_hit then (None, g)
        else case tn_decision t of
               None \<Rightarrow> (None, g)
             | Some sliceID \<Rightarrow> (Some sliceID, recordL3Reuse (tn_io t) (tn_now t) (tn_session t) (tn_query t) sliceID g))"

definition l3_turns :: "(string \<Rightarrow> 'r list) \<Rightarrow> turn list \<Rightarrow> gateway \<Rightarrow> gateway" where
  "l3_turns runes ts g = fold (\<lambda>t g. snd (l3_turn runes t g)) ts g"

section \<open>The record of cached answers\<close>

definition records_ok :: "gateway \<Rightarrow> bool" where
  "records_ok g \<longleftrightarrow> wf_map (gw_l3Reuses g) \<and> [] \<notin> set (keys (gw_l3Reuses g)) \<and> length (gw_l3Reuses g) \<le> maxL3ReuseEntries"

lemma give_evidence_frame [simp]:
  "gw_l3Reuses (give_evidence io s n g) = gw_l3Reuses g" "gw_FalseHitSim (give_evidence io s n g) = gw_FalseHitSim g"
  "gw_disabled (give_evidence io s n g) = gw_disabled g" "gw_TauLow (give_evidence io s n g) = gw_TauLow g"
  by (auto simp: give_evidence_def split: option.splits)

text \<open>The scan finds a record of the map, and none is older.\<close>

lemma oldest_scan:
  assumes "[] \<notin> set (keys m)" "k \<noteq> []" "fold older m (k, t) = r"
  shows "(r = (k, t) \<or> (\<exists>v. (fst r, v) \<in> set m \<and> snd r = re_At v)) \<and> snd r \<le> t \<and> (\<forall>e\<in>set m. snd r \<le> re_At (snd e))"
  using assms
proof (induction m arbitrary: k t)
  case (Cons e m)
  obtain k1 v1 where e: "e = (k1, v1)" by (cases e)
  have k1: "k1 \<noteq> []" and m: "[] \<notin> set (keys m)" using Cons.prems(1) e by auto
  show ?case
  proof (cases "re_At v1 < t")
    case True
    then have "fold older m (k1, re_At v1) = r" using Cons.prems(3) e by simp
    from Cons.IH [OF m k1 this] show ?thesis using True e by auto
  next
    case False
    then have "fold older m (k, t) = r" using Cons.prems(2,3) e by simp
    from Cons.IH [OF m Cons.prems(2) this] show ?thesis using False e by auto
  qed
qed auto

lemma oldest_key_spec:
  assumes "[] \<notin> set (keys m)" "m \<noteq> []"
  shows "\<exists>v. (oldest_key m, v) \<in> set m \<and> (\<forall>e\<in>set m. re_At v \<le> re_At (snd e))"
proof -
  obtain k1 v1 m' where m: "m = (k1, v1) # m'" using assms(2) by (cases m) auto
  then have "k1 \<noteq> []" "[] \<notin> set (keys m')" using assms(1) by auto
  note scan = oldest_scan [OF this(2,1) refl, of "re_At v1"]
  have "fold older m ([], 0) = fold older m' (k1, re_At v1)" by (simp add: m)
  then show ?thesis using scan unfolding oldest_key_def m by fastforce
qed

lemma length_m_del_mem: "wf_map m \<Longrightarrow> k \<in> set (keys m) \<Longrightarrow> Suc (length (m_del k m)) = length m"
proof (induction m)
  case (Cons e m)
  then show ?case
  proof (cases "fst e = k")
    case True
    then have "m_del k m = m" using Cons.prems(1) by (force simp: m_del_def wf_map_def filter_id_conv image_iff)
    then show ?thesis using True by (simp add: m_del_def case_prod_beta)
  next
    case False
    then show ?thesis using Cons by (auto simp: m_del_def wf_map_def case_prod_beta)
  qed
qed simp

lemma detect_ok: "records_ok g \<Longrightarrow> records_ok (snd (detectFalseHit runes io sid q g))"
  using length_m_del_le [of sid "gw_l3Reuses g"]
  by (auto simp: detectFalseHit_def records_ok_def Let_def split: option.splits)

lemma record_ok:
  assumes "records_ok g"
  shows "records_ok (recordL3Reuse io now sid q sl g)"
proof (cases "sid = []")
  case False
  let ?m = "m_set sid \<lparr>re_Query = q, re_SliceID = sl, re_At = now\<rparr> (gw_l3Reuses g)"
  have m: "wf_map ?m" "[] \<notin> set (keys ?m)" "length ?m \<le> Suc maxL3ReuseEntries" "?m \<noteq> []"
    using assms False by (auto simp: records_ok_def length_m_set) (metis empty_iff empty_set insertI1 set_keys_m_set image_is_empty)
  obtain v where "(oldest_key ?m, v) \<in> set ?m" using oldest_key_spec [OF m(2,4)] by blast
  then have "oldest_key ?m \<in> set (keys ?m)" using imageI [of _ "set ?m" fst] by (metis fst_conv list.set_map)
  then have "Suc (length (m_del (oldest_key ?m) ?m)) = length ?m" by (rule length_m_del_mem [OF m(1)])
  then show ?thesis using m False by (auto simp: recordL3Reuse_def records_ok_def Let_def)
qed (use assms in \<open>simp add: recordL3Reuse_def records_ok_def Let_def\<close>)

lemma turn_ok:
  assumes "records_ok g" shows "records_ok (snd (l3_turn runes t g))"
proof -
  obtain b g1 where d: "detectFalseHit runes (tn_io t) (tn_session t) (tn_query t) g = (b, g1)" by (cases "detectFalseHit runes (tn_io t) (tn_session t) (tn_query t) g")
  then have "records_ok g1" using detect_ok [OF assms] by (metis snd_conv)
  then show ?thesis using assms record_ok [of g1 "tn_io t"] by (simp add: l3_turn_def d split: option.splits)
qed

lemma turns_ok: "records_ok g \<Longrightarrow> records_ok (l3_turns runes ts g)"
  by (induction ts arbitrary: g) (auto simp: l3_turns_def turn_ok)

section \<open>Retries\<close>

lemma detect_frame:
  "gw_FalseHitSim (snd (detectFalseHit runes io sid q g)) = gw_FalseHitSim g"
  "gw_disabled (snd (detectFalseHit runes io sid q g)) = gw_disabled g"
  "length (gw_l3Reuses (snd (detectFalseHit runes io sid q g))) \<le> length (gw_l3Reuses g)"
  "sid \<noteq> s \<Longrightarrow> m_get (gw_l3Reuses (snd (detectFalseHit runes io sid q g))) s = m_get (gw_l3Reuses g) s"
  by (auto simp: detectFalseHit_def Let_def length_m_del_le split: option.splits)

lemma record_frame:
  "gw_FalseHitSim (recordL3Reuse io now sid q sl g) = gw_FalseHitSim g" "gw_disabled (recordL3Reuse io now sid q sl g) = gw_disabled g"
  "length (gw_l3Reuses g) < maxL3ReuseEntries \<Longrightarrow> length (gw_l3Reuses (recordL3Reuse io now sid q sl g)) \<le> Suc (length (gw_l3Reuses g))"
  "length (gw_l3Reuses g) < maxL3ReuseEntries \<Longrightarrow> s \<noteq> [] \<Longrightarrow> m_get (gw_l3Reuses (recordL3Reuse io now sid q sl g)) s =
     (if sid = s then Some \<lparr>re_Query = q, re_SliceID = sl, re_At = now\<rparr> else m_get (gw_l3Reuses g) s)"
  by (auto simp: recordL3Reuse_def Let_def length_m_set)

lemma turn_frame:
  assumes "length (gw_l3Reuses g) < maxL3ReuseEntries"
  shows "gw_FalseHitSim (snd (l3_turn runes t g)) = gw_FalseHitSim g" "gw_disabled (snd (l3_turn runes t g)) = gw_disabled g"
    "length (gw_l3Reuses (snd (l3_turn runes t g))) \<le> Suc (length (gw_l3Reuses g))"
    "s \<noteq> [] \<Longrightarrow> tn_session t \<noteq> s \<Longrightarrow> m_get (gw_l3Reuses (snd (l3_turn runes t g))) s = m_get (gw_l3Reuses g) s"
    "s \<noteq> [] \<Longrightarrow> tn_session t = s \<Longrightarrow> fst (l3_turn runes t g) = Some sl \<Longrightarrow>
      m_get (gw_l3Reuses (snd (l3_turn runes t g))) s = Some \<lparr>re_Query = tn_query t, re_SliceID = sl, re_At = tn_now t\<rparr>"
proof -
  obtain b g1 where d: "detectFalseHit runes (tn_io t) (tn_session t) (tn_query t) g = (b, g1)" by (cases "detectFalseHit runes (tn_io t) (tn_session t) (tn_query t) g")
  note D = detect_frame [where runes = runes and io = "tn_io t" and sid = "tn_session t" and q = "tn_query t" and g = g, unfolded d snd_conv]
  have l: "length (gw_l3Reuses g1) < maxL3ReuseEntries" using D(3) assms by simp
  note R = record_frame(1,2) record_frame(3,4) [OF l, where io = "tn_io t"]
  show "gw_FalseHitSim (snd (l3_turn runes t g)) = gw_FalseHitSim g" "gw_disabled (snd (l3_turn runes t g)) = gw_disabled g"
    using D(1,2) R(1,2) by (auto simp: l3_turn_def d split: option.splits)
  show "length (gw_l3Reuses (snd (l3_turn runes t g))) \<le> Suc (length (gw_l3Reuses g))"
    using D(3) le_trans [OF R(3), of "Suc (length (gw_l3Reuses g))"] by (auto simp: l3_turn_def d split: option.splits)
  show "s \<noteq> [] \<Longrightarrow> tn_session t \<noteq> s \<Longrightarrow> m_get (gw_l3Reuses (snd (l3_turn runes t g))) s = m_get (gw_l3Reuses g) s"
    using D(4) R(4) by (auto simp: l3_turn_def d split: option.splits)
  show "s \<noteq> [] \<Longrightarrow> tn_session t = s \<Longrightarrow> fst (l3_turn runes t g) = Some sl \<Longrightarrow>
      m_get (gw_l3Reuses (snd (l3_turn runes t g))) s = Some \<lparr>re_Query = tn_query t, re_SliceID = sl, re_At = tn_now t\<rparr>"
    using R(4) by (auto simp: l3_turn_def d split: option.splits if_splits)
qed

lemma turns_frame:
  assumes "length (gw_l3Reuses g) + length ts \<le> maxL3ReuseEntries" "s \<noteq> []" "list_all (\<lambda>t. tn_session t \<noteq> s) ts"
  shows "gw_FalseHitSim (l3_turns runes ts g) = gw_FalseHitSim g \<and> gw_disabled (l3_turns runes ts g) = gw_disabled g \<and>
    m_get (gw_l3Reuses (l3_turns runes ts g)) s = m_get (gw_l3Reuses g) s"
  using assms(1,3)
proof (induction ts arbitrary: g)
  case (Cons t ts)
  have l: "length (gw_l3Reuses g) < maxL3ReuseEntries" using Cons.prems(1) by simp
  note F = turn_frame(1-4) [OF l, where runes = runes and t = t]
  have "length (gw_l3Reuses (snd (l3_turn runes t g))) + length ts \<le> maxL3ReuseEntries" using F(3) Cons.prems(1) by simp
  from Cons.IH [OF this] show ?case using F Cons.prems(2) assms(2) by (simp add: l3_turns_def)
qed (simp add: l3_turns_def)


definition idle_gateway :: gateway where
  "idle_gateway = \<lparr>gw_FalseHitSim = Fin (1/2), gw_TauLow = Fin (1/2), gw_disabled = False, gw_l3Reuses = [], gw_adapt = None\<rparr>"

definition ask :: "string \<Rightarrow> turn" where
  "ask s = \<lparr>tn_session = s, tn_query = ''why'', tn_now = 1, tn_decision = Some ''slice'', tn_io = (True, True)\<rparr>"


end
