(* ===== verification/Quota.thy ===== *)
theory Quota
  imports Prelude
begin

text \<open>
  The free-tier gate of the gateway (\<open>gateway/quota.go\<close>, metered by \<open>recordUsage\<close> in
  \<open>gateway/pipeline.go\<close>): the durable token counter, the cached wallet probe and the admission
  verdict. Times are nanoseconds; the zero \<open>time.Time\<close> is \<open>None\<close>. The outcome of each
  system call and of the remote balance probe is an argument. Token counts are 64-bit integers with the
  wrap-around written out.
\<close>

section \<open>State\<close>

record BillingConfig =
  bc_FreeTokens :: int
  bc_RechargeURL :: string
  bc_BalanceURL :: string
  bc_BalanceCacheSeconds :: int

record quotaState =
  qs_Version :: int
  qs_UsedTokens :: int
  qs_UpdatedAt :: int

datatype quota_file = QAbsent | QUnreadable | QCorrupt | QState quotaState

datatype quota_mode = ModeFree | ModePaid | ModeBlocked

record quotaStatus =
  st_FreeTokens :: int
  st_UsedTokens :: int
  st_RemainingTokens :: int
  st_Exhausted :: bool
  st_Mode :: quota_mode
  st_RechargeURL :: string

record quotaEngine =
  qe_cfg :: BillingConfig
  qe_used :: int
  qe_paidOK :: bool
  qe_paidChecked :: "int option"
  qe_probeErrAt :: "int option"

datatype quota_err = ReadError | ParseError | NegativeUsed | MkdirError | WriteError | RenameError

definition second :: int where "second = 1000000000"
definition balanceErrorBackoff :: int where "balanceErrorBackoff = 5 * second"
definition quotaStateVersion :: int where "quotaStateVersion = 1"

section \<open>Start and metering\<close>

definition newQuotaEngine :: "BillingConfig \<Rightarrow> quota_file \<Rightarrow> quota_err + quotaEngine" where
  "newQuotaEngine cfg file =
     (let q = \<lparr>qe_cfg = cfg, qe_used = 0, qe_paidOK = False, qe_paidChecked = None, qe_probeErrAt = None\<rparr> in
      case file of
        QAbsent \<Rightarrow> Inr q
      | QUnreadable \<Rightarrow> Inl ReadError
      | QCorrupt \<Rightarrow> Inl ParseError
      | QState st \<Rightarrow> if qs_UsedTokens st < 0 then Inl NegativeUsed else Inr (q\<lparr>qe_used := qs_UsedTokens st\<rparr>))"

text \<open>A persist either completes or stops at one of its system calls; only the rename changes the state file.\<close>

definition persist_quota :: "quota_err option \<Rightarrow> int \<Rightarrow> quotaEngine \<Rightarrow> quota_file \<Rightarrow> quota_err option \<times> quota_file" where
  "persist_quota fault now q file =
     (case fault of
        Some e \<Rightarrow> (Some e, file)
      | None \<Rightarrow> (None, QState \<lparr>qs_Version = quotaStateVersion, qs_UsedTokens = qe_used q, qs_UpdatedAt = now div second\<rparr>))"

definition Consume ::
  "quota_err option \<Rightarrow> int \<Rightarrow> int \<Rightarrow> quotaEngine \<times> quota_file \<Rightarrow> quota_err option \<times> quotaEngine \<times> quota_file" where
  "Consume fault now n s =
     (let (q, file) = s in
      if n \<le> 0 then (None, s)
      else let q = q\<lparr>qe_used := wrap64 (qe_used q + n)\<rparr>; (err, file) = persist_quota fault now q file
           in (err, q, file))"

record usage_event =
  ue_TokensIn :: int
  ue_TokensOut :: int
  ue_L3Reuse :: bool

definition recordUsage ::
  "quota_err option \<Rightarrow> int \<Rightarrow> usage_event \<Rightarrow> quotaEngine \<times> quota_file \<Rightarrow> quotaEngine \<times> quota_file" where
  "recordUsage fault now e s =
     (if ue_L3Reuse e then s else snd (Consume fault now (wrap64 (ue_TokensIn e + ue_TokensOut e)) s))"

section \<open>Admission\<close>

text \<open>What the balance endpoint answers: an error, no balance, or the availability of the wallet.\<close>

datatype probe_result = ProbeError | ProbeBalance "bool option"

definition balanceActive :: "int \<Rightarrow> int \<Rightarrow> probe_result \<Rightarrow> quotaEngine \<Rightarrow> bool \<times> bool \<times> quotaEngine" where
  "balanceActive now later probe q =
     (if bc_BalanceURL (qe_cfg q) = [] then (False, False, q)
      else let ttl = wrap64 (bc_BalanceCacheSeconds (qe_cfg q) * second) in
        if (case qe_paidChecked q of None \<Rightarrow> False | Some t \<Rightarrow> now - t < ttl) then (qe_paidOK q, False, q)
        else if (case qe_probeErrAt q of None \<Rightarrow> False | Some t \<Rightarrow> now - t < balanceErrorBackoff) then (qe_paidOK q, False, q)
        else case probe of
               ProbeError \<Rightarrow> (qe_paidOK q, True, q\<lparr>qe_probeErrAt := Some later\<rparr>)
             | ProbeBalance b \<Rightarrow>
                 let ok = (b = Some True)
                 in (ok, True, q\<lparr>qe_paidOK := ok, qe_paidChecked := Some later, qe_probeErrAt := None\<rparr>))"

text \<open>The middle component of a verdict tells whether the remote endpoint was asked.\<close>

definition Status :: "int \<Rightarrow> int \<Rightarrow> probe_result \<Rightarrow> quotaEngine \<Rightarrow> quotaStatus \<times> bool \<times> quotaEngine" where
  "Status now later probe q =
     (let rem = wrap64 (bc_FreeTokens (qe_cfg q) - qe_used q);
          st = \<lparr>st_FreeTokens = bc_FreeTokens (qe_cfg q), st_UsedTokens = qe_used q, st_RemainingTokens = rem,
                st_Exhausted = False, st_Mode = ModeFree, st_RechargeURL = bc_RechargeURL (qe_cfg q)\<rparr> in
      if rem > 0 then (st, False, q)
      else let (ok, probed, q) = balanceActive now later probe q
           in (st\<lparr>st_RemainingTokens := 0, st_Exhausted := True, st_Mode := (if ok then ModePaid else ModeBlocked)\<rparr>, probed, q))"

definition admitQuota :: "int \<Rightarrow> int \<Rightarrow> probe_result \<Rightarrow> quotaEngine option \<Rightarrow> bool \<times> quotaEngine option" where
  "admitQuota now later probe oq =
     (case oq of None \<Rightarrow> (True, None)
      | Some q \<Rightarrow> let (st, _, q) = Status now later probe q in (st_Mode st \<noteq> ModeBlocked, Some q))"

section \<open>Histories\<close>

datatype quota_event =
    Usage "quota_err option" int usage_event
  | Admit int int probe_result
  | Restart

text \<open>A gateway whose state file is refused does not start; the engine is then absent.\<close>

fun quota_step :: "quota_event \<Rightarrow> quotaEngine option \<times> quota_file \<Rightarrow> quotaEngine option \<times> quota_file" where
  "quota_step _ (None, file) = (None, file)"
| "quota_step (Usage fault now e) (Some q, file) = (let (q', file') = recordUsage fault now e (q, file) in (Some q', file'))"
| "quota_step (Admit now later probe) (Some q, file) = (snd (admitQuota now later probe (Some q)), file)"
| "quota_step Restart (Some q, file) =
     ((case newQuotaEngine (qe_cfg q) file of Inl _ \<Rightarrow> None | Inr q' \<Rightarrow> Some q'), file)"

definition quota_start :: "BillingConfig \<Rightarrow> quotaEngine option \<times> quota_file" where
  "quota_start cfg = ((case newQuotaEngine cfg QAbsent of Inl _ \<Rightarrow> None | Inr q \<Rightarrow> Some q), QAbsent)"

definition quota_run :: "BillingConfig \<Rightarrow> quota_event list \<Rightarrow> quotaEngine option \<times> quota_file" where
  "quota_run cfg evs = fold quota_step evs (quota_start cfg)"

section \<open>The abstract meter\<close>

text \<open>
  The meter keeps the tokens counted in this process, the tokens on disk, and the last answer of the
  wallet in this process.
\<close>

definition billable :: "usage_event \<Rightarrow> int" where
  "billable e = (if ue_L3Reuse e then 0 else max 0 (ue_TokensIn e + ue_TokensOut e))"

record meter =
  mt_used :: int
  mt_saved :: int

fun meter_step :: "quota_event \<Rightarrow> meter \<Rightarrow> meter" where
  "meter_step (Usage fault now e) m =
     (if billable e = 0 then m
      else if fault = None then \<lparr>mt_used = mt_used m + billable e, mt_saved = mt_used m + billable e\<rparr>
      else m\<lparr>mt_used := mt_used m + billable e\<rparr>)"
| "meter_step (Admit _ _ _) m = m"
| "meter_step Restart m = m\<lparr>mt_used := mt_saved m\<rparr>"

definition meter_run :: "quota_event list \<Rightarrow> meter" where
  "meter_run evs = fold meter_step evs \<lparr>mt_used = 0, mt_saved = 0\<rparr>"

fun billed :: "quota_event \<Rightarrow> int" where
  "billed (Usage _ _ e) = billable e" | "billed _ = 0"

fun small_event :: "quota_event \<Rightarrow> bool" where
  "small_event (Usage _ _ e) \<longleftrightarrow> in64 (ue_TokensIn e + ue_TokensOut e)" | "small_event _ \<longleftrightarrow> True"

fun saved_ok :: "quota_event \<Rightarrow> bool" where
  "saved_ok (Usage fault _ _) \<longleftrightarrow> fault = None" | "saved_ok _ \<longleftrightarrow> True"

definition file_used :: "quota_file \<Rightarrow> int" where
  "file_used file = (case file of QState st \<Rightarrow> qs_UsedTokens st | _ \<Rightarrow> 0)"

definition refines :: "BillingConfig \<Rightarrow> quotaEngine option \<times> quota_file \<Rightarrow> meter \<Rightarrow> bool" where
  "refines cfg s m \<longleftrightarrow>
     (case s of (Some q, file) \<Rightarrow> qe_cfg q = cfg \<and> qe_used q = mt_used m \<and> file_used file = mt_saved m \<and>
        file \<noteq> QUnreadable \<and> file \<noteq> QCorrupt \<and> 0 \<le> mt_saved m \<and> mt_saved m \<le> mt_used m
      | _ \<Rightarrow> False)"

end
