(* ===== verification/Quota_Correct.thy ===== *)
theory Quota_Correct
  imports Quota
begin

text \<open>
  The free-tier gate meters exactly: the engine and its state file refine the abstract meter over histories with
  failing writes and restarts; the verdict follows the meter, and a failing wallet endpoint changes no verdict.
\<close>

section \<open>Metering\<close>

lemma billed_nonneg: "0 \<le> billed ev"
  by (cases ev) (auto simp: billable_def)

lemma recordUsage_meter:
  assumes "in64 (ue_TokensIn e + ue_TokensOut e)" "in64 (qe_used q + billable e)"
  shows "recordUsage fault now e (q, disk) =
    (if billable e = 0 then (q, disk)
     else (q\<lparr>qe_used := qe_used q + billable e\<rparr>,
           case fault of None \<Rightarrow> QState \<lparr>qs_Version = quotaStateVersion, qs_UsedTokens = qe_used q + billable e, qs_UpdatedAt = now div second\<rparr>
           | Some _ \<Rightarrow> disk))"
  using assms by (auto simp: recordUsage_def Consume_def persist_quota_def billable_def Let_def max_def split: option.splits)

lemma admitQuota_frame:
  "\<exists>q'. snd (admitQuota now later probe (Some q)) = Some q' \<and> qe_cfg q' = qe_cfg q \<and> qe_used q' = qe_used q"
  by (auto simp: admitQuota_def Status_def balanceActive_def Let_def split: option.splits probe_result.splits)

lemma restart_meter:
  assumes "refines cfg (Some q, disk) m"
  shows "\<exists>q'. newQuotaEngine cfg disk = Inr q' \<and> qe_cfg q' = cfg \<and> qe_used q' = mt_saved m"
  using assms by (cases disk) (auto simp: refines_def newQuotaEngine_def file_used_def Let_def)

lemma step_refines:
  assumes "refines cfg s m" "small_event ev" "in64 (mt_used m + billed ev)"
  shows "refines cfg (quota_step ev s) (meter_step ev m)"
proof -
  obtain q disk where s: "s = (Some q, disk)" using assms(1) by (auto simp: refines_def split: option.splits prod.splits)
  note R = assms(1) [unfolded s]
  show ?thesis
  proof (cases ev)
    case (Usage fault now e)
    have u: "qe_used q = mt_used m" using R by (simp add: refines_def)
    have "0 \<le> billable e" by (simp add: billable_def)
    then show ?thesis using R assms(2,3) recordUsage_meter [of e q fault now disk] u
      by (cases fault) (auto simp: s Usage refines_def file_used_def Let_def)
  next
    case (Admit now later probe)
    then show ?thesis using R admitQuota_frame [of now later probe q] by (auto simp: s refines_def)
  next
    case Restart
    have "qe_cfg q = cfg" using R by (simp add: refines_def)
    then show ?thesis using restart_meter [OF R] R by (auto simp: s Restart refines_def)
  qed
qed

lemma meter_bounds:
  "0 \<le> mt_saved m \<Longrightarrow> mt_saved m \<le> mt_used m \<Longrightarrow>
    0 \<le> mt_saved (meter_step ev m) \<and> mt_saved (meter_step ev m) \<le> mt_used (meter_step ev m) \<and>
    mt_used (meter_step ev m) \<le> mt_used m + billed ev"
  using billed_nonneg [of ev] by (cases ev) auto

lemma run_refines:
  assumes "refines cfg s m" "list_all small_event evs" "in64 (mt_used m + sum_list (map billed evs))"
  shows "refines cfg (fold quota_step evs s) (fold meter_step evs m) \<and>
    mt_used (fold meter_step evs m) \<le> mt_used m + sum_list (map billed evs)"
  using assms
proof (induction evs arbitrary: s m)
  case (Cons ev evs)
  have nn: "0 \<le> sum_list (map billed evs)" by (rule sum_list_nonneg) (auto simp: billed_nonneg)
  have b: "0 \<le> mt_saved m" "mt_saved m \<le> mt_used m" using Cons.prems(1) by (auto simp: refines_def split: prod.splits option.splits)
  have b': "mt_used (meter_step ev m) \<le> mt_used m + billed ev" "0 \<le> mt_used (meter_step ev m)" using meter_bounds [OF b, of ev] by auto
  have i: "in64 (mt_used m + billed ev)" "in64 (mt_used (meter_step ev m) + sum_list (map billed evs))"
    using Cons.prems(3) nn b b' billed_nonneg [of ev] by (auto simp: in64_def)
  have "refines cfg (quota_step ev s) (meter_step ev m)" by (rule step_refines) (use Cons.prems i in auto)
  then have "refines cfg (fold quota_step evs (quota_step ev s)) (fold meter_step evs (meter_step ev m)) \<and>
      mt_used (fold meter_step evs (meter_step ev m)) \<le> mt_used (meter_step ev m) + sum_list (map billed evs)"
    by (rule Cons.IH) (use Cons.prems(2) i(2) in auto)
  then show ?case using b'(1) by simp
qed simp

lemma saved_meter:
  assumes "list_all saved_ok evs" "mt_saved m = mt_used m"
  shows "mt_used (fold meter_step evs m) = mt_used m + sum_list (map billed evs) \<and>
    mt_saved (fold meter_step evs m) = mt_used (fold meter_step evs m)"
  using assms
proof (induction evs arbitrary: m)
  case (Cons ev evs)
  have "mt_saved (meter_step ev m) = mt_used (meter_step ev m) \<and> mt_used (meter_step ev m) = mt_used m + billed ev"
    using Cons.prems by (cases ev) auto
  then show ?case using Cons.IH [of "meter_step ev m"] Cons.prems(1) by simp
qed simp

lemma start_refines: "refines cfg (quota_start cfg) \<lparr>mt_used = 0, mt_saved = 0\<rparr>"
  by (simp add: refines_def quota_start_def newQuotaEngine_def Let_def file_used_def)

lemma status_free: "in64 (bc_FreeTokens (qe_cfg q) - qe_used q) \<Longrightarrow>
    st_Mode (fst (Status now later probe q)) = ModeFree \<longleftrightarrow> qe_used q < bc_FreeTokens (qe_cfg q)"
  by (auto simp: Status_def Let_def split: prod.splits)

text \<open>
  C14. The free tier is metered exactly. After any history of metered replies, admission checks and restarts, with
  writes of the counter failing at will, the gateway is running, its counter and its state file hold what the
  abstract meter says, and the counter never exceeds the tokens that were billed. When every write succeeded the
  counter is the number of tokens billed over all restarts, and a request is in the free tier exactly
  while that number is below the allowance: restarting never grants the tier again, and
  replies served from the cache are free.
\<close>

theorem free_tier_metered:
  assumes "list_all small_event evs" "in64 (sum_list (map billed evs))" "0 \<le> bc_FreeTokens cfg" "in64 (bc_FreeTokens cfg)"
  shows "refines cfg (quota_run cfg evs) (meter_run evs) \<and> mt_used (meter_run evs) \<le> sum_list (map billed evs) \<and>
    (list_all saved_ok evs \<longrightarrow>
      (\<exists>q disk. quota_run cfg evs = (Some q, disk) \<and> qe_used q = sum_list (map billed evs) \<and>
        (st_Mode (fst (Status now later probe q)) = ModeFree \<longleftrightarrow> sum_list (map billed evs) < bc_FreeTokens cfg)))"
proof -
  have run: "refines cfg (quota_run cfg evs) (meter_run evs)" "mt_used (meter_run evs) \<le> sum_list (map billed evs)"
    using run_refines [OF start_refines [of cfg] assms(1)] assms(2) by (auto simp: quota_run_def meter_run_def)
  have "\<exists>q disk. quota_run cfg evs = (Some q, disk) \<and> qe_used q = sum_list (map billed evs) \<and>
        (st_Mode (fst (Status now later probe q)) = ModeFree \<longleftrightarrow> sum_list (map billed evs) < bc_FreeTokens cfg)" if s: "list_all saved_ok evs"
  proof -
    obtain q disk where q: "quota_run cfg evs = (Some q, disk)" "qe_cfg q = cfg" "qe_used q = mt_used (meter_run evs)"
      using run(1) by (cases "quota_run cfg evs") (auto simp: refines_def split: option.splits)
    have u: "mt_used (meter_run evs) = sum_list (map billed evs)"
      using saved_meter [OF s, of "\<lparr>mt_used = 0, mt_saved = 0\<rparr>"] by (simp add: meter_run_def)
    have "0 \<le> sum_list (map billed evs)" by (rule sum_list_nonneg) (auto simp: billed_nonneg)
    then have "in64 (bc_FreeTokens (qe_cfg q) - qe_used q)" using assms(2-4) q u by (intro in64_diff_nonneg) auto
    then show ?thesis using q u status_free by auto
  qed
  then show ?thesis using run by blast
qed

section \<open>The wallet verdict\<close>

fun probe_fails :: "quota_event \<Rightarrow> bool" where
  "probe_fails (Admit _ _ p) \<longleftrightarrow> p = ProbeError" | "probe_fails (Usage _ _ _) \<longleftrightarrow> True" | "probe_fails Restart \<longleftrightarrow> False"

lemma probe_error_keeps:
  "fst (balanceActive now later ProbeError q) = (bc_BalanceURL (qe_cfg q) \<noteq> [] \<and> qe_paidOK q)"
  "qe_paidOK (snd (snd (balanceActive now later ProbeError q))) = qe_paidOK q"
  "qe_cfg (snd (snd (balanceActive now later ProbeError q))) = qe_cfg q"
  by (auto simp: balanceActive_def Let_def)

lemma failing_probe_step:
  assumes "probe_fails ev" "s = (Some q, disk)"
  shows "\<exists>q' disk'. quota_step ev s = (Some q', disk') \<and> qe_paidOK q' = qe_paidOK q \<and> qe_cfg q' = qe_cfg q"
proof (cases ev)
  case (Usage fault now e)
  then show ?thesis using assms
    by (auto simp: recordUsage_def Consume_def persist_quota_def Let_def split: prod.splits option.splits)
next
  case (Admit now later p)
  then show ?thesis using assms probe_error_keeps(2,3) [of now later q]
    by (auto simp: admitQuota_def Status_def Let_def split: prod.splits)
qed (use assms in simp)

lemma failing_probes_run:
  "list_all probe_fails evs \<Longrightarrow>
    \<exists>q' disk'. fold quota_step evs (Some q, disk) = (Some q', disk') \<and> qe_paidOK q' = qe_paidOK q \<and> qe_cfg q' = qe_cfg q"
proof (induction evs arbitrary: q disk)
  case (Cons ev evs)
  then obtain q1 f1 where 1: "quota_step ev (Some q, disk) = (Some q1, f1)" "qe_paidOK q1 = qe_paidOK q" "qe_cfg q1 = qe_cfg q"
    using failing_probe_step [of ev _ q disk] by auto
  then show ?case using Cons.IH [of q1 f1] Cons.prems by auto
qed simp

text \<open>
  A failing wallet endpoint decides nothing. While a gateway runs and every probe fails, whatever
  is metered in between, an exhausted tier admits requests exactly when the last successful probe of the process
  found the wallet available: a paying customer is not locked out and nobody is let in. Requests inside the
  free tier are admitted without asking the endpoint.
\<close>

lemma wallet_outage_keeps_verdict:
  assumes "list_all probe_fails evs" "bc_BalanceURL (qe_cfg q) \<noteq> []" "fold quota_step evs (Some q, disk) = (Some q', disk')"
  shows "(fst (admitQuota now later ProbeError (Some q')) \<longleftrightarrow> 0 < wrap64 (bc_FreeTokens (qe_cfg q) - qe_used q') \<or> qe_paidOK q) \<and>
    (0 < wrap64 (bc_FreeTokens (qe_cfg q) - qe_used q') \<longrightarrow> Status now later probe q' = (fst (Status now later probe q'), False, q'))"
proof -
  have q': "qe_paidOK q' = qe_paidOK q" "qe_cfg q' = qe_cfg q" using failing_probes_run [OF assms(1), of q disk] assms(3) by auto
  have "fst (admitQuota now later ProbeError (Some q')) \<longleftrightarrow> 0 < wrap64 (bc_FreeTokens (qe_cfg q) - qe_used q') \<or> qe_paidOK q"
    using probe_error_keeps(1) [of now later q'] q' assms(2) by (auto simp: admitQuota_def Status_def Let_def split: prod.splits)
  then show ?thesis using q'(2) by (simp add: Status_def Let_def)
qed

section \<open>Concrete histories\<close>

definition tiny_tier :: BillingConfig where
  "tiny_tier = \<lparr>bc_FreeTokens = 10, bc_RechargeURL = ''r'', bc_BalanceURL = ''b'', bc_BalanceCacheSeconds = 300\<rparr>"

definition reply :: "int \<Rightarrow> bool \<Rightarrow> usage_event" where
  "reply n cached = \<lparr>ue_TokensIn = n, ue_TokensOut = 0, ue_L3Reuse = cached\<rparr>"

definition sample_day :: "quota_event list" where
  "sample_day = [Usage None 1 (reply 7 False), Usage None 2 (reply 90 True), Restart, Usage None 3 (reply 3 False)]"

theorem free_tier_metered_witness:
  "mt_used (meter_run sample_day) \<le> 10 \<and>
   (\<exists>q disk. quota_run tiny_tier sample_day = (Some q, disk) \<and> qe_used q = 10 \<and>
     st_Mode (fst (Status 0 0 ProbeError q)) \<noteq> ModeFree)"
proof -
  have s: "sum_list (map billed sample_day) = 10" "list_all small_event sample_day" "list_all saved_ok sample_day" by code_simp+
  have "in64 10" "0 \<le> bc_FreeTokens tiny_tier" "in64 (bc_FreeTokens tiny_tier)" "bc_FreeTokens tiny_tier = 10"
    by (simp_all add: in64_def tiny_tier_def)
  then show ?thesis
    using free_tier_metered [OF s(2), of tiny_tier 0 0 ProbeError] s by auto
qed

definition paid_engine :: quotaEngine where
  "paid_engine = \<lparr>qe_cfg = tiny_tier, qe_used = 12, qe_paidOK = True, qe_paidChecked = Some 0, qe_probeErrAt = None\<rparr>"

definition outage :: "quota_event list" where
  "outage = [Admit (400 * second) (401 * second) ProbeError, Usage None (402 * second) (reply 5 False),
     Admit (500 * second) (501 * second) ProbeError]"

definition engine_after :: quotaEngine where
  "engine_after = paid_engine\<lparr>qe_used := 17, qe_probeErrAt := Some (501 * second)\<rparr>"

lemma wallet_outage_keeps_verdict_witness:
  "fst (admitQuota (600 * second) (600 * second) ProbeError (Some engine_after))"
proof -
  have r: "fold quota_step outage (Some paid_engine, QAbsent) =
      (Some engine_after, QState \<lparr>qs_Version = 1, qs_UsedTokens = 17, qs_UpdatedAt = 402\<rparr>)" by code_simp
  have "list_all probe_fails outage" by code_simp
  then show ?thesis using wallet_outage_keeps_verdict [OF _ _ r, of "600 * second" "600 * second" ProbeError]
    by (simp add: paid_engine_def tiny_tier_def)
qed

end
