(* ===== verification/TaskType.thy ===== *)
theory TaskType
  imports Prelude
begin

text \<open>
  The rule-driven task classifier of \<open>kernel/slice/task_type.go\<close>. Texts and keywords are byte strings, the
  Chinese keywords in UTF-8. The search for a keyword is the loop of the source over
  \<open>strings.Index\<close>; \<open>None\<close> is the panic that indexing an empty keyword would raise.
\<close>

section \<open>The program\<close>

definition TaskTestUpdate :: string where "TaskTestUpdate = ''test-update''"
definition TaskBugfix :: string where "TaskBugfix = ''bugfix''"
definition TaskRefactor :: string where "TaskRefactor = ''refactor''"
definition TaskDocs :: string where "TaskDocs = ''docs''"
definition TaskFeature :: string where "TaskFeature = ''feature''"
definition TaskInvestigate :: string where "TaskInvestigate = ''investigate''"
definition TaskGeneral :: string where "TaskGeneral = ''general''"

definition taskRules :: "(string \<times> string list) list" where
  "taskRules =
     [(TaskTestUpdate,
        [''test fail'', ''failing test'', ''broken test'', ''update test'', ''fix test'', ''assertionerror'',
         [CHR 0xE6, CHR 0xB5, CHR 0x8B, CHR 0xE8, CHR 0xAF, CHR 0x95, CHR 0xE5, CHR 0xA4, CHR 0xB1, CHR 0xE8, CHR 0xB4, CHR 0xA5],
         [CHR 0xE4, CHR 0xBF, CHR 0xAE, CHR 0xE6, CHR 0xB5, CHR 0x8B, CHR 0xE8, CHR 0xAF, CHR 0x95],
         [CHR 0xE6, CHR 0x96, CHR 0xAD, CHR 0xE8, CHR 0xA8, CHR 0x80, CHR 0xE5, CHR 0xA4, CHR 0xB1, CHR 0xE8, CHR 0xB4, CHR 0xA5]]),
      (TaskBugfix,
        [''fix'', ''bug'', ''error'', ''crash'', ''regression'', ''incorrect'', ''wrong'', ''exception'',
         ''traceback'', ''unexpected'', ''fails'', ''broken'',
         [CHR 0xE4, CHR 0xBF, CHR 0xAE, CHR 0xE5, CHR 0xA4, CHR 0x8D],
         [CHR 0xE6, CHR 0x8A, CHR 0xA5, CHR 0xE9, CHR 0x94, CHR 0x99],
         [CHR 0xE5, CHR 0xB4, CHR 0xA9, CHR 0xE6, CHR 0xBA, CHR 0x83],
         [CHR 0xE5, CHR 0xBC, CHR 0x82, CHR 0xE5, CHR 0xB8, CHR 0xB8],
         [CHR 0xE9, CHR 0x94, CHR 0x99, CHR 0xE8, CHR 0xAF, CHR 0xAF],
         [CHR 0xE4, CHR 0xB8, CHR 0x8D, CHR 0xE6, CHR 0xAD, CHR 0xA3, CHR 0xE7, CHR 0xA1, CHR 0xAE]]),
      (TaskRefactor,
        [''refactor'', ''rename'', ''clean up'', ''cleanup'', ''restructure'', ''simplify'', ''deduplicate'',
         [CHR 0xE9, CHR 0x87, CHR 0x8D, CHR 0xE6, CHR 0x9E, CHR 0x84],
         [CHR 0xE9, CHR 0x87, CHR 0x8D, CHR 0xE5, CHR 0x91, CHR 0xBD, CHR 0xE5, CHR 0x90, CHR 0x8D],
         [CHR 0xE6, CHR 0x95, CHR 0xB4, CHR 0xE7, CHR 0x90, CHR 0x86, CHR 0xE4, CHR 0xBB, CHR 0xA3, CHR 0xE7, CHR 0xA0, CHR 0x81]]),
      (TaskDocs,
        [''document'', ''docs'', ''readme'', ''docstring'', ''changelog'',
         [CHR 0xE6, CHR 0x96, CHR 0x87, CHR 0xE6, CHR 0xA1, CHR 0xA3],
         [CHR 0xE6, CHR 0xB3, CHR 0xA8, CHR 0xE9, CHR 0x87, CHR 0x8A, CHR 0xE8, CHR 0xA1, CHR 0xA5, CHR 0xE5, CHR 0x85, CHR 0xA8]]),
      (TaskFeature,
        [''add '', ''support'', ''implement'', ''introduce'', ''new feature'', ''enable'', ''allow '',
         [CHR 0xE6, CHR 0x96, CHR 0xB0, CHR 0xE5, CHR 0xA2, CHR 0x9E],
         [CHR 0xE6, CHR 0x94, CHR 0xAF, CHR 0xE6, CHR 0x8C, CHR 0x81],
         [CHR 0xE5, CHR 0xAE, CHR 0x9E, CHR 0xE7, CHR 0x8E, CHR 0xB0],
         [CHR 0xE5, CHR 0xA2, CHR 0x9E, CHR 0xE5, CHR 0x8A, CHR 0xA0]]),
      (TaskInvestigate,
        [''why '', ''investigate'', ''diagnose'', ''figure out'', ''root cause'', ''what happens'',
         [CHR 0xE4, CHR 0xB8, CHR 0xBA, CHR 0xE4, CHR 0xBB, CHR 0x80, CHR 0xE4, CHR 0xB9, CHR 0x88],
         [CHR 0xE6, CHR 0x8E, CHR 0x92, CHR 0xE6, CHR 0x9F, CHR 0xA5],
         [CHR 0xE8, CHR 0xAF, CHR 0x8A, CHR 0xE6, CHR 0x96, CHR 0xAD],
         [CHR 0xE5, CHR 0xAE, CHR 0x9A, CHR 0xE4, CHR 0xBD, CHR 0x8D, CHR 0xE5, CHR 0x8E, CHR 0x9F, CHR 0xE5, CHR 0x9B, CHR 0xA0]])]"

definition asciiTaskWord :: "char \<Rightarrow> bool" where
  "asciiTaskWord b \<longleftrightarrow> (let n = of_char b :: nat in 97 \<le> n \<and> n \<le> 122 \<or> 48 \<le> n \<and> n \<le> 57 \<or> b = CHR ''_'')"

text \<open>\<open>strings.Index\<close>: where the first occurrence starts.\<close>

fun go_index :: "string \<Rightarrow> string \<Rightarrow> nat option" where
  "go_index [] key = (if key = [] then Some 0 else None)"
| "go_index (a # s) key = (if prefix key (a # s) then Some 0 else map_option Suc (go_index s key))"

definition before_ok :: "string \<Rightarrow> string \<Rightarrow> nat \<Rightarrow> bool" where
  "before_ok text key i \<longleftrightarrow> \<not> asciiTaskWord (key ! 0) \<or> i = 0 \<or> \<not> asciiTaskWord (text ! (i - 1))"

definition after_ok :: "string \<Rightarrow> string \<Rightarrow> nat \<Rightarrow> bool" where
  "after_ok text key i \<longleftrightarrow> (let end' = i + length key in
     \<not> asciiTaskWord (key ! (length key - 1)) \<or> end' = length text \<or> \<not> asciiTaskWord (text ! end'))"

function contains_from :: "string \<Rightarrow> string \<Rightarrow> nat \<Rightarrow> bool option" where
  "contains_from text key offset =
     (if int offset \<le> int (length text) - int (length key)
      then case go_index (drop offset text) key of
             None \<Rightarrow> Some False
           | Some i \<Rightarrow>
               if key = [] then None
               else if before_ok text key (i + offset) \<and> after_ok text key (i + offset) then Some True
               else contains_from text key (i + offset + 1)
      else Some False)"
  by pat_completeness auto
termination by (relation "measure (\<lambda>(text, _, offset). Suc (length text) - offset)") auto

declare contains_from.simps [simp del]

definition containsTaskKey :: "string \<Rightarrow> string \<Rightarrow> bool option" where
  "containsTaskKey text key = contains_from text key 0"

fun any_key :: "string \<Rightarrow> string list \<Rightarrow> bool option" where
  "any_key t [] = Some False"
| "any_key t (key # ks) =
     (case containsTaskKey t key of None \<Rightarrow> None | Some True \<Rightarrow> Some True | Some False \<Rightarrow> any_key t ks)"

fun first_rule :: "string \<Rightarrow> (string \<times> string list) list \<Rightarrow> string option" where
  "first_rule t [] = Some TaskGeneral"
| "first_rule t (r # rules) =
     (case any_key t (snd r) of None \<Rightarrow> None | Some True \<Rightarrow> Some (fst r) | Some False \<Rightarrow> first_rule t rules)"

definition ClassifyTask :: "string \<Rightarrow> string option" where
  "ClassifyTask text =
     (let t = to_lower text in if trim_space t = [] then Some TaskGeneral else first_rule t taskRules)"

section \<open>Keyword search\<close>

text \<open>A keyword occurs as a word: no ASCII word character touches an edge of it that is one itself.\<close>

definition word_at :: "string \<Rightarrow> string \<Rightarrow> nat \<Rightarrow> bool" where
  "word_at text key i \<longleftrightarrow> prefix key (drop i text) \<and> before_ok text key i \<and> after_ok text key i"

definition mentions :: "string \<Rightarrow> string \<Rightarrow> bool" where
  "mentions text key \<longleftrightarrow> list_ex (word_at text key) [0..<length text]"

lemma go_index_None: "go_index s key = None \<Longrightarrow> key \<noteq> [] \<Longrightarrow> \<not> prefix key (drop j s)"
proof (induction s arbitrary: j)
  case (Cons a s)
  then show ?case by (cases j) (auto split: if_splits)
qed simp

lemma go_index_Some: "go_index s key = Some i \<Longrightarrow> prefix key (drop i s) \<and> (\<forall>j<i. \<not> prefix key (drop j s))"
proof (induction s arbitrary: i)
  case (Cons a s)
  show ?case
  proof (cases "prefix key (a # s)")
    case False
    then obtain i' where "go_index s key = Some i'" "i = Suc i'" using Cons.prems by auto
    then show ?thesis using Cons.IH [of i'] False by (auto simp: less_Suc_eq_0_disj)
  qed (use Cons.prems in auto)
qed (auto split: if_splits)

lemma prefix_drop_le: "prefix key (drop j s) \<Longrightarrow> key \<noteq> [] \<Longrightarrow> j + length key \<le> length s"
  using prefix_length_le [of key "drop j s"] by (cases "j \<le> length s") auto

lemma contains_from_correct:
  assumes "key \<noteq> []"
  shows "contains_from msg key offset = Some (\<exists>i\<ge>offset. word_at msg key i)"
  using assms
proof (induction msg key offset rule: contains_from.induct)
  case (1 msg key offset)
  show ?case
  proof (cases "int offset \<le> int (length msg) - int (length key)")
    case False
    have "\<not> word_at msg key i" if "offset \<le> i" for i
      using prefix_drop_le [of key i msg] 1(2) that False by (force simp: word_at_def)
    then show ?thesis using False by (subst contains_from.simps) auto
  next
    case inside: True
    show ?thesis
    proof (cases "go_index (drop offset msg) key")
      case None
      have "\<not> word_at msg key i" if "offset \<le> i" for i
        using go_index_None [OF None 1(2), of "i - offset"] that by (simp add: word_at_def)
      then show ?thesis using inside None by (subst contains_from.simps) auto
    next
      case (Some i)
      have occ: "prefix key (drop (i + offset) msg)" "\<And>j. offset \<le> j \<Longrightarrow> j < i + offset \<Longrightarrow> \<not> prefix key (drop j msg)"
      proof -
        show "prefix key (drop (i + offset) msg)" using go_index_Some [OF Some] by (simp add: add.commute)
        fix j assume "offset \<le> j" "j < i + offset"
        then show "\<not> prefix key (drop j msg)" using go_index_Some [OF Some] by (auto dest: spec [of _ "j - offset"])
      qed
      show ?thesis
      proof (cases "before_ok msg key (i + offset) \<and> after_ok msg key (i + offset)")
        case True
        then have "word_at msg key (i + offset)" using occ(1) by (simp add: word_at_def)
        then show ?thesis using inside Some True 1(2) by (subst contains_from.simps) (auto intro: exI [of _ "i + offset"])
      next
        case False
        have "(\<exists>j\<ge>offset. word_at msg key j) \<longleftrightarrow> (\<exists>j\<ge>i + offset + 1. word_at msg key j)"
        proof
          assume "\<exists>j\<ge>offset. word_at msg key j"
          then obtain j where j: "offset \<le> j" "word_at msg key j" by blast
          then have "\<not> j < i + offset" "j \<noteq> i + offset" using occ(2) [of j] False by (auto simp: word_at_def)
          then show "\<exists>j\<ge>i + offset + 1. word_at msg key j" using j(2) by (intro exI [of _ j]) auto
        next
          assume "\<exists>j\<ge>i + offset + 1. word_at msg key j"
          then show "\<exists>j\<ge>offset. word_at msg key j" by (meson add_leD1 add_leD2)
        qed
        then show ?thesis using inside Some False 1(2) 1(1) [OF inside Some 1(2) False] by (subst contains_from.simps) auto
      qed
    qed
  qed
qed

lemma search_mentions:
  assumes "key \<noteq> []" shows "containsTaskKey msg key = Some (mentions msg key)"
proof -
  have "i < length msg" if "word_at msg key i" for i using prefix_drop_le [OF _ assms, of i msg] that assms
    by (cases "length key") (auto simp: word_at_def)
  then show ?thesis using contains_from_correct [OF assms, of msg 0] by (auto simp: containsTaskKey_def mentions_def list_ex_iff)
qed

text \<open>
  The keyword search ends on every text: it answers whether some occurrence of the keyword stands at word
  boundaries, also when earlier occurrences do not and when occurrences overlap, and it panics exactly for the
  empty keyword.
\<close>

lemma task_key_search_total:
  "(case containsTaskKey msg key of None \<Rightarrow> key = [] | Some found \<Rightarrow> key \<noteq> [] \<and> (found \<longleftrightarrow> (\<exists>i. word_at msg key i)))"
proof (cases "key = []")
  case True
  have "go_index msg [] = Some 0" by (cases msg) auto
  then show ?thesis using True by (simp add: containsTaskKey_def contains_from.simps)
next
  case False
  then show ?thesis using contains_from_correct [OF False, of msg 0] by (simp add: containsTaskKey_def)
qed

section \<open>Classification\<close>

lemma any_key_mentions: "[] \<notin> set ks \<Longrightarrow> any_key msg ks = Some (list_ex (mentions msg) ks)"
  by (induction ks) (auto simp: search_mentions split: bool.splits)

lemma first_rule_find:
  "[] \<notin> \<Union> (set ` snd ` set rules) \<Longrightarrow> first_rule msg rules =
    Some (case find (\<lambda>r. list_ex (mentions msg) (snd r)) rules of None \<Rightarrow> TaskGeneral | Some r \<Rightarrow> fst r)"
  by (induction rules) (auto simp: any_key_mentions split: bool.splits)

lemma rules_nonempty: "[] \<notin> \<Union> (set ` snd ` set taskRules)"
  by code_simp

text \<open>The classifier never panics; the first rule one of whose keywords is mentioned decides.\<close>

lemma classify_first_match:
  "ClassifyTask msg = Some (if trim_space (to_lower msg) = [] then TaskGeneral
     else case find (\<lambda>r. list_ex (mentions (to_lower msg)) (snd r)) taskRules of None \<Rightarrow> TaskGeneral | Some r \<Rightarrow> fst r)"
  by (simp add: ClassifyTask_def Let_def first_rule_find [OF rules_nonempty])

lemma classify_examples:
  "ClassifyTask ''Add a prefix option'' = Some TaskFeature" "ClassifyTask ''fix the prefix'' = Some TaskBugfix"
  "ClassifyTask ''  '' = Some TaskGeneral"
  by code_simp+

end
