(* ===== verification/Utf8.thy ===== *)
theory Utf8
  imports Prelude
begin

text \<open>
  Go strings as byte strings and as runes: the decoding \<open>[]rune(s)\<close>, in which every byte that does not start a
  valid encoding becomes U+FFFD, and \<open>WriteRune\<close>. A rune is the number of its code point. The fact
  the components use is that an encoded text contains an ASCII pattern exactly where its runes do.
\<close>

type_synonym rune = nat

definition cont :: "nat \<Rightarrow> bool" where "cont b \<longleftrightarrow> 128 \<le> b \<and> b \<le> 191"

text \<open>The admissible range of the second byte after the first byte.\<close>

definition second_ok :: "nat \<Rightarrow> nat \<Rightarrow> bool" where
  "second_ok b0 b1 \<longleftrightarrow>
     (if b0 = 224 then 160 \<le> b1 \<and> b1 \<le> 191 else if b0 = 237 then 128 \<le> b1 \<and> b1 \<le> 159
      else if b0 = 240 then 144 \<le> b1 \<and> b1 \<le> 191 else if b0 = 244 then 128 \<le> b1 \<and> b1 \<le> 143 else cont b1)"

text \<open>One step of the decoder: the rune, and how many bytes after the first it takes.\<close>

definition decode_one :: "nat \<Rightarrow> nat list \<Rightarrow> rune \<times> nat" where
  "decode_one b0 s =
     (if b0 < 128 then (b0, 0)
      else if 194 \<le> b0 \<and> b0 \<le> 223 \<and> 1 \<le> length s \<and> cont (s ! 0) then ((b0 - 192) * 64 + (s ! 0 - 128), 1)
      else if 224 \<le> b0 \<and> b0 \<le> 239 \<and> 2 \<le> length s \<and> second_ok b0 (s ! 0) \<and> cont (s ! 1)
      then ((b0 - 224) * 4096 + ((s ! 0 - 128) * 64 + (s ! 1 - 128)), 2)
      else if 240 \<le> b0 \<and> b0 \<le> 244 \<and> 3 \<le> length s \<and> second_ok b0 (s ! 0) \<and> cont (s ! 1) \<and> cont (s ! 2)
      then ((b0 - 240) * 262144 + ((s ! 0 - 128) * 4096 + ((s ! 1 - 128) * 64 + (s ! 2 - 128))), 3)
      else (65533, 0))"

function decode_bytes :: "nat list \<Rightarrow> rune list" where
  "decode_bytes [] = []"
| "decode_bytes (b0 # s) = fst (decode_one b0 s) # decode_bytes (drop (snd (decode_one b0 s)) s)"
  by pat_completeness auto
termination by (relation "measure length") auto

definition runes_of :: "string \<Rightarrow> rune list" where
  "runes_of s = decode_bytes (map of_char s)"

text \<open>\<open>WriteRune\<close>; a decoded rune is a valid code point.\<close>

definition rune_bytes :: "rune \<Rightarrow> nat list" where
  "rune_bytes r =
     (if r < 128 then [r]
      else if r < 2048 then [192 + r div 64, 128 + r mod 64]
      else if r < 65536 then [224 + r div 4096, 128 + r div 64 mod 64, 128 + r mod 64]
      else [240 + r div 262144 mod 8, 128 + r div 4096 mod 64, 128 + r div 64 mod 64, 128 + r mod 64])"

definition encode_rune :: "rune \<Rightarrow> string" where
  "encode_rune r = map char_of (rune_bytes r)"

text \<open>
  \<open>unicode.ToLower\<close> as far as ASCII is concerned: it lowers the ASCII letters, maps U+0130 and U+212A to ASCII letters,
  and every other rune to a rune outside ASCII, for which the rune itself stands.
\<close>

definition rune_lower :: "rune \<Rightarrow> rune" where
  "rune_lower r = (if 65 \<le> r \<and> r \<le> 90 then r + 32 else if r = 304 then 105 else if r = 8490 then 107 else r)"

section \<open>ASCII patterns\<close>

definition ascii :: "string \<Rightarrow> bool" where
  "ascii p \<longleftrightarrow> list_all (\<lambda>c. of_char c < (128 :: nat)) p"

text \<open>A pattern of lower-case ASCII bytes matches the front of a byte string up to ASCII case.\<close>

definition fold_byte :: "char \<Rightarrow> nat" where
  "fold_byte c = (let n = of_char c in if 65 \<le> n \<and> n \<le> 90 then n + 32 else n)"

fun starts_fold :: "string \<Rightarrow> string \<Rightarrow> bool" where
  "starts_fold [] s = True"
| "starts_fold (p # ps) [] = False"
| "starts_fold (p # ps) (c # s) \<longleftrightarrow> fold_byte c = of_char p \<and> starts_fold ps s"

fun starts_runes :: "string \<Rightarrow> rune list \<Rightarrow> bool" where
  "starts_runes [] rs = True"
| "starts_runes (p # ps) [] = False"
| "starts_runes (p # ps) (r # rs) \<longleftrightarrow> rune_lower r = of_char p \<and> starts_runes ps rs"

definition occurs_fold :: "string \<Rightarrow> string \<Rightarrow> bool" where
  "occurs_fold p s \<longleftrightarrow> list_ex (\<lambda>i. starts_fold p (drop i s)) [0..<Suc (length s)]"

lemma occurs_fold_iff: "occurs_fold p s \<longleftrightarrow> (\<exists>i\<le>length s. starts_fold p (drop i s))"
  by (auto simp: occurs_fold_def list_ex_iff less_Suc_eq_le simp del: upt_Suc)

lemma ascii_simps [simp]: "ascii []" "ascii (c # s) \<longleftrightarrow> of_char c < (128 :: nat) \<and> ascii s"
  by (simp_all add: ascii_def)

text \<open>The bytes of a rune outside ASCII are outside ASCII.\<close>

lemma rune_bytes_high: "128 \<le> r \<Longrightarrow> b \<in> set (rune_bytes r) \<Longrightarrow> 128 \<le> b \<and> b < 256"
proof -
  assume r: "128 \<le> r" and b: "b \<in> set (rune_bytes r)"
  have m: "128 + x mod 64 < 256" "240 + x mod 8 < 256" for x :: nat
    using mod_less_divisor [of 64 x] mod_less_divisor [of 8 x] by linarith+
  show ?thesis using r b m by (auto simp: rune_bytes_def split: if_splits)
qed

lemma encode_rune_high: "128 \<le> r \<Longrightarrow> c \<in> set (encode_rune r) \<Longrightarrow> 128 \<le> (of_char c :: nat)"
  using rune_bytes_high by (fastforce simp: encode_rune_def)

lemma encode_rune_low: "r < 128 \<Longrightarrow> encode_rune r = [char_of r]"
  by (simp add: encode_rune_def rune_bytes_def)

lemma encode_rune_nonempty [simp]: "encode_rune r \<noteq> []"
  by (simp add: encode_rune_def rune_bytes_def)

lemma fold_byte_high: "128 \<le> (of_char c :: nat) \<Longrightarrow> of_char p < (128 :: nat) \<Longrightarrow> fold_byte c \<noteq> of_char p"
  by (auto simp: fold_byte_def Let_def)

section \<open>From bytes to runes and back\<close>

text \<open>The ASCII runes of a decoded text are its ASCII bytes.\<close>

fun starts_asc :: "string \<Rightarrow> rune list \<Rightarrow> bool" where
  "starts_asc [] rs = True"
| "starts_asc (p # ps) [] = False"
| "starts_asc (p # ps) (r # rs) \<longleftrightarrow> r < 128 \<and> fold_byte (char_of r) = of_char p \<and> starts_asc ps rs"

lemma starts_asc_runes: "starts_asc p rs \<Longrightarrow> starts_runes p rs"
  by (induction p rs rule: starts_asc.induct) (auto simp: fold_byte_def rune_lower_def Let_def split: if_splits)

lemma starts_encode_asc: "ascii p \<Longrightarrow> starts_fold p (encode_rune r @ s) \<Longrightarrow> p = a # p' \<Longrightarrow>
    r < 128 \<and> fold_byte (char_of r) = of_char a \<and> starts_fold p' s"
proof -
  assume p: "ascii p" "starts_fold p (encode_rune r @ s)" "p = a # p'"
  obtain c cs where e: "encode_rune r = c # cs" by (cases "encode_rune r") auto
  have c: "fold_byte c = of_char a" "starts_fold p' (cs @ s)" using p by (auto simp: e)
  have "r < 128"
  proof (rule ccontr)
    assume "\<not> r < 128"
    then have "128 \<le> (of_char c :: nat)" using encode_rune_high [of r c] e by auto
    then show False using fold_byte_high [of c a] c(1) p by simp
  qed
  then show ?thesis using c e by (auto simp: encode_rune_low)
qed

lemma decode_one_ascii: "fst (decode_one b0 s) < 128 \<Longrightarrow> decode_one b0 s = (b0, 0)"
proof (rule ccontr)
  assume lt: "fst (decode_one b0 s) < 128" and ne: "decode_one b0 s \<noteq> (b0, 0)"
  have wide: "194 \<le> b0 \<Longrightarrow> 128 \<le> (b0 - 192) * 64 + x"
    "224 \<le> b0 \<Longrightarrow> second_ok b0 b1 \<Longrightarrow> 128 \<le> (b0 - 224) * 4096 + ((b1 - 128) * 64 + x)"
    "240 \<le> b0 \<Longrightarrow> second_ok b0 b1 \<Longrightarrow> 128 \<le> (b0 - 240) * 262144 + ((b1 - 128) * 4096 + x)" for b1 x
    by (auto simp: second_ok_def split: if_splits)
  have "\<not> b0 < 128" using ne by (auto simp: decode_one_def)
  then have "128 \<le> fst (decode_one b0 s)" unfolding decode_one_def using wide by (simp split: if_split)
  then show False using lt by simp
qed

lemma decode_ascii_head: "decode_bytes bs = r # rs \<Longrightarrow> r < 128 \<Longrightarrow> \<exists>bs'. bs = r # bs' \<and> rs = decode_bytes bs'"
  by (cases bs) (auto dest: decode_one_ascii)

lemma starts_decode: "starts_asc p (decode_bytes (map of_char s)) \<Longrightarrow> starts_fold p s"
proof (induction p arbitrary: s)
  case (Cons a p)
  then obtain r rs where d: "decode_bytes (map of_char s) = r # rs" "r < 128" "fold_byte (char_of r) = of_char a" "starts_asc p rs"
    by (cases "decode_bytes (map of_char s)") auto
  then obtain bs' where b: "map of_char s = r # bs'" "rs = decode_bytes bs'" using decode_ascii_head [OF d(1,2)] by auto
  then obtain c s' where "s = c # s'" "of_char c = r" "map of_char s' = bs'" by (cases s) auto
  then show ?case using Cons.IH [of s'] d b by auto
qed simp

lemma starts_decode_at:
  assumes "p \<noteq> []" "starts_asc p (drop j (decode_bytes (map of_char s)))"
  shows "occurs_fold p s"
  using assms(2)
proof (induction j arbitrary: s)
  case 0
  then show ?case using starts_decode [of p s] by (auto simp: occurs_fold_iff intro: exI [of _ 0])
next
  case (Suc j)
  have "s \<noteq> []" using Suc.prems assms(1) by (cases p) auto
  then obtain r k where k: "decode_bytes (map of_char s) = r # decode_bytes (drop (Suc k) (map of_char s))" by (cases s) auto
  then have "starts_asc p (drop j (decode_bytes (map of_char (drop (Suc k) s))))" using Suc.prems by (simp add: drop_map)
  then obtain i where i: "i \<le> length (drop (Suc k) s)" "starts_fold p (drop i (drop (Suc k) s))" using Suc.IH unfolding occurs_fold_iff by blast
  have "i + Suc k \<le> length s"
  proof (rule ccontr)
    assume "\<not> i + Suc k \<le> length s"
    then have "drop i (drop (Suc k) s) = []" by simp
    then show False using i(2) assms(1) by (cases p) auto
  qed
  then show ?case using i(2) unfolding occurs_fold_iff by (intro exI [of _ "i + Suc k"]) (simp add: drop_drop add.commute)
qed

end
