(* ===== verification/Inject.thy ===== *)
theory Inject
  imports Utf8 TaskType BM25 Judge
begin

text \<open>
  The L2 injector of \<open>kernel/inject/inject.go\<close>: the admission of retrieved slices and the assembly of the reuse block
  that is put into a prompt. The sanitizer (\<open>kernel/sanitize\<close>), the tokenizer and the formatting verbs
  \<open>%q\<close> and \<open>%.4f\<close> are arguments; the file system is seen through \<open>Lstat\<close> on the components of a path below
  the root and through the fingerprints of the judge. One call sees one state of the file system.
\<close>

section \<open>Escaping the block markers\<close>

text \<open>
  \<open>replaceFold\<close> walks over the runes: at each position it compares \<open>len(ro)\<close> runes up to case, and either
  writes the replacement and skips them or writes the rune it stands on. The patterns are not empty.
\<close>

function replace_runes :: "string \<Rightarrow> string \<Rightarrow> rune list \<Rightarrow> string" where
  "replace_runes ro new [] = []"
| "replace_runes ro new (r # rs) =
     (if ro \<noteq> [] \<and> length ro \<le> length (r # rs) \<and> starts_runes ro (r # rs)
      then new @ replace_runes ro new (drop (length ro) (r # rs))
      else encode_rune r @ replace_runes ro new rs)"
  by pat_completeness auto
termination by (relation "measure (\<lambda>(_, _, rs). length rs)") auto

lemma starts_runes_length: "starts_runes p rs \<Longrightarrow> length p \<le> length rs"
  by (induction p rs rule: starts_runes.induct) auto

lemma replace_runes_code [code]:
  "replace_runes ro new [] = []"
  "replace_runes ro new (r # rs) =
     (if starts_runes ro (r # rs) \<and> ro \<noteq> [] then new @ replace_runes ro new (drop (length ro) (r # rs))
      else encode_rune r @ replace_runes ro new rs)"
  using starts_runes_length [of ro "r # rs"] by auto

definition replaceFold :: "string \<Rightarrow> string \<Rightarrow> string \<Rightarrow> string" where
  "replaceFold s old new = replace_runes (to_lower old) new (runes_of s)"

definition openMark :: string where "openMark = ''[semantix-reuse]''"
definition closeMark :: string where "closeMark = ''[/semantix-reuse]''"
definition backslash :: char where "backslash = CHR 0x5C"

definition escapeMarker :: "string \<Rightarrow> string" where
  "escapeMarker s =
     replaceFold (replaceFold s closeMark (CHR ''['' # backslash # ''/semantix-reuse]''))
       openMark (CHR ''['' # backslash # ''semantix-reuse]'')"

section \<open>State\<close>

record Injector =
  in_K :: int
  in_Budget :: int
  in_MinScore :: f64
  in_AllowedTypes :: "(SliceType, bool) gomap option"
  in_RootDir :: string
  in_CurrentCommit :: string
  in_LibrarySize :: int
  in_MinLibrarySize :: int
  in_SourceSessionsByType :: "(SliceType, int) gomap"
  in_MinSourceSessions :: int
  in_MinCoverage :: f64
  in_MinTopMargin :: f64
  in_RequireRunnerUp :: bool
  in_Zones :: "Zones option"
  in_MinOrigin :: Origin
  in_AllowGrey :: bool
  in_TaskType :: string

definition InjectBudget :: int where "InjectBudget = 4096"

record CandidateDecision =
  cd_ID :: string
  cd_Score :: f64
  cd_Coverage :: f64
  cd_Zone :: string
  cd_Admitted :: bool
  cd_Reason :: string

record Injection =
  ij_Slices :: "Slice list"
  ij_Text :: string
  ij_Bytes :: int
  ij_Dropped :: int
  ij_GreyIncluded :: int
  ij_Decisions :: "CandidateDecision list"
  ij_TopMargin :: f64

definition newline :: char where "newline = CHR 0x0A"
definition blockOpen :: string where "blockOpen = ''[semantix-reuse]'' @ [newline]"
definition blockClose :: string where "blockClose = ''[/semantix-reuse]''"

text \<open>What the injector sees of its surroundings.\<close>

datatype lstat_result = NotExist | LstatError | LInfo bool bool bool

record world =
  w_sanitize :: "string \<Rightarrow> string"
  w_tok :: "string \<Rightarrow> string list"
  w_quote :: "string \<Rightarrow> string"
  w_score4 :: "f64 \<Rightarrow> string"
  w_root_ok :: bool
  w_lstat :: "string list \<Rightarrow> lstat_result"
  w_fs :: filesystem
  w_hash :: hashfun

section \<open>Freshness\<close>

text \<open>\<open>filepath.Clean\<close> of a local path, split at the separators.\<close>

fun clean_parts :: "string list \<Rightarrow> string list \<Rightarrow> string list" where
  "clean_parts acc [] = (if acc = [] then [''.''] else rev acc)"
| "clean_parts acc (p # ps) =
     (if p = [] \<or> p = ''.'' then clean_parts acc ps
      else if p = ''..'' then clean_parts (tl acc) ps
      else clean_parts (p # acc) ps)"

fun walk_parts :: "world \<Rightarrow> string list \<Rightarrow> string list \<Rightarrow> string" where
  "walk_parts w current [] = []"
| "walk_parts w current (part # parts) =
     (case w_lstat w (current @ [part]) of
        NotExist \<Rightarrow> ''path_missing''
      | LstatError \<Rightarrow> ''dependency_path_invalid''
      | LInfo symlink isdir regular \<Rightarrow>
          if symlink then ''dependency_path_invalid''
          else if parts \<noteq> [] \<and> \<not> isdir then ''dependency_path_invalid''
          else if parts = [] \<and> \<not> regular then ''dependency_path_invalid''
          else walk_parts w (current @ [part]) parts)"

fun check_paths :: "world \<Rightarrow> string list \<Rightarrow> string" where
  "check_paths w [] = []"
| "check_paths w (p # ps) =
     (if \<not> IsLocal p then ''dependency_path_invalid''
      else let r = walk_parts w [] (clean_parts [] (split_path p)) in if r \<noteq> [] then r else check_paths w ps)"

definition freshnessReason :: "world \<Rightarrow> Injector \<Rightarrow> Slice \<Rightarrow> string" where
  "freshnessReason w jr sl =
     (let deps = m_Deps (sl_Meta sl) in
      if in_RootDir jr = [] \<and> in_CurrentCommit jr = [] then []
      else if in_CurrentCommit jr = [] then ''current_commit_unknown''
      else if m_BaseCommit (sl_Meta sl) = [] then ''commit_unknown''
      else if IsHistoricalObservation (Some sl)
      then (if list_ex (\<lambda>p. \<not> IsLocal p) (keys deps) then ''dependency_path_invalid'' else [])
      else if m_BaseCommit (sl_Meta sl) \<noteq> in_CurrentCommit jr \<and> deps = [] then ''stale_commit''
      else if deps = [] then []
      else if \<not> w_root_ok w then ''dependency_path_invalid''
      else let r = check_paths w (sort_strings (keys deps)) in
        if r \<noteq> [] then r
        else if Verify (w_hash w) (w_fs w) deps \<noteq> [] then ''dependency_changed'' else [])"

section \<open>Admission\<close>

definition typeAllowed :: "Injector \<Rightarrow> SliceType \<Rightarrow> bool" where
  "typeAllowed jr t \<longleftrightarrow> (case in_AllowedTypes jr of None \<Rightarrow> True | Some m \<Rightarrow> m_get_or False m t)"

definition admissionTypeEligible :: "Injector \<Rightarrow> Slice \<Rightarrow> bool" where
  "admissionTypeEligible jr sl \<longleftrightarrow>
     typeAllowed jr (sl_Type sl) \<and>
     (in_AllowedTypes jr = None \<or> sl_Type sl \<noteq> Result \<or> EffectiveResultStatus (sl_Meta sl) = ResultStatusVerified)"

definition tag_byte :: "char \<Rightarrow> bool" where
  "tag_byte c \<longleftrightarrow> c = CHR ''-'' \<or> c = CHR ''_'' \<or> (let n = of_char c :: nat in 48 \<le> n \<and> n \<le> 57 \<or> 97 \<le> n \<and> n \<le> 122)"

definition taskTagOf :: "string \<Rightarrow> string" where
  "taskTagOf content =
     (let head = takeWhile (\<lambda>c. c \<noteq> newline) content in
      case go_index head ''task='' of None \<Rightarrow> [] | Some i \<Rightarrow> takeWhile tag_byte (drop (i + 5) head))"

definition taskAdmits :: "Injector \<Rightarrow> Slice \<Rightarrow> bool" where
  "taskAdmits jr sl \<longleftrightarrow>
     (if in_TaskType jr = [] \<or> sl_Type sl \<noteq> Memory then True
      else let tag = taskTagOf (sl_Content sl) in tag = [] \<or> tag = in_TaskType jr)"

definition eligible :: "world \<Rightarrow> Injector \<Rightarrow> Hit \<Rightarrow> bool" where
  "eligible w jr h \<longleftrightarrow>
     (case h_Slice h of None \<Rightarrow> False
      | Some sl \<Rightarrow> admissionTypeEligible jr sl \<and> taskAdmits jr sl \<and> freshnessReason w jr sl = [] \<and>
          Origin_Level (m_Origin (sl_Meta sl)) \<ge> Origin_Level (in_MinOrigin jr))"

text \<open>The window: the rank, the number of eligible hits taken so far, and the hits.\<close>

fun window :: "world \<Rightarrow> Injector \<Rightarrow> nat \<Rightarrow> nat \<Rightarrow> Hit list \<Rightarrow> Hit list" where
  "window w jr rank n [] = []"
| "window w jr rank n (h # hs) =
     (let e = eligible w jr h in
      if in_K jr > 0 \<and> (e \<and> int n \<ge> in_K jr \<or> \<not> e \<and> int rank \<ge> in_K jr) then window w jr (Suc rank) n hs
      else h # window w jr (Suc rank) (if e then Suc n else n) hs)"

definition fmt_d :: "int \<Rightarrow> string" where
  "fmt_d i = (if i < 0 then CHR ''-'' # itoa (nat (- i)) else itoa (nat i))"

definition item_header :: "Slice \<Rightarrow> bool \<Rightarrow> string" where
  "item_header sl grey =
     (if grey then ''--- slice '' @ sl_ID sl @ '' (grey, unverified) ---'' else ''--- slice '' @ sl_ID sl @ '' ---'')"

definition item_provenance :: "world \<Rightarrow> Slice \<Rightarrow> f64 \<Rightarrow> string" where
  "item_provenance w sl sc =
     ''type='' @ SliceType_String (sl_Type sl) @ '' project='' @ w_quote w (m_ProjectSlug (sl_Meta sl)) @
     '' source='' @ w_quote w (m_SourceSession (sl_Meta sl)) @ '' commit='' @ w_quote w (m_BaseCommit (sl_Meta sl)) @
     '' origin='' @ m_Origin (sl_Meta sl) @
     '' verified='' @ (if sl_Type sl = Result then EffectiveResultStatus (sl_Meta sl) else ''unknown'') @
     '' score='' @ w_score4 w sc @ '' created_at='' @ fmt_d (sl_CreatedAt sl)"

definition formatSliceItem :: "world \<Rightarrow> Slice \<Rightarrow> f64 \<Rightarrow> string \<Rightarrow> bool \<Rightarrow> string" where
  "formatSliceItem w sl sc content grey =
     item_header sl grey @ [newline] @ item_provenance w sl sc @ [newline] @
     (if IsHistoricalObservation (Some sl) then ''applicability=historical_observation; revalidate_before_use'' @ [newline] else []) @
     content @ [newline]"

text \<open>The gates in the order of the source: a refusal with its zone and reason, or the exact bytes offered.\<close>

datatype outcome = Refuse string string | Offer string bool string

definition zone_gate :: "Injector \<Rightarrow> f64 \<Rightarrow> Hit \<Rightarrow> Slice \<Rightarrow> outcome" where
  "zone_gate jr top1 h sl =
     (case in_Zones jr of None \<Rightarrow> Offer ''unclassified'' False []
      | Some z \<Rightarrow>
          let cl = ClassifyHit (ForType z (SliceType_String (sl_Type sl))) h top1 in
          case cl of ZHit \<Rightarrow> Offer (Zone_String cl) False []
          | ZGrey \<Rightarrow> if in_AllowGrey jr then Offer (Zone_String cl) True [] else Refuse (Zone_String cl) ''zone_grey''
          | ZMiss \<Rightarrow> Refuse (Zone_String cl) ''zone_miss'')"

definition gates :: "world \<Rightarrow> Injector \<Rightarrow> string \<Rightarrow> nat \<Rightarrow> f64 \<Rightarrow> f64 \<Rightarrow> Hit \<Rightarrow> Slice \<Rightarrow> outcome" where
  "gates w jr query nElig topMargin top1 h sl =
     (let miss = Zone_String ZMiss; fresh = freshnessReason w jr sl; cov = QueryCoverage (w_tok w) query (sl_Content sl) in
      if \<not> typeAllowed jr (sl_Type sl) then Refuse miss ''type_not_allowed''
      else if in_AllowedTypes jr \<noteq> None \<and> sl_Type sl = Result \<and> EffectiveResultStatus (sl_Meta sl) \<noteq> ResultStatusVerified
      then Refuse miss ''result_probation''
      else if Origin_Level (in_MinOrigin jr) > Origin_Level (m_Origin (sl_Meta sl)) then Refuse miss ''origin_below_floor''
      else if fresh \<noteq> [] then Refuse miss fresh
      else if in_MinLibrarySize jr > 0 \<and> in_LibrarySize jr < in_MinLibrarySize jr then Refuse miss ''library_too_small''
      else if in_MinSourceSessions jr > 0 \<and> m_get_or 0 (in_SourceSessionsByType jr) (sl_Type sl) < in_MinSourceSessions jr
      then Refuse miss ''type_sources_too_few''
      else if in_RequireRunnerUp jr \<and> nElig < 2 then Refuse miss ''runner_up_missing''
      else if flt f0 (in_MinTopMargin jr) \<and> flt topMargin (in_MinTopMargin jr) then Refuse miss ''top_margin_low''
      else if flt f0 (in_MinScore jr) \<and> flt (h_Score h) (in_MinScore jr) then Refuse miss ''below_min_score''
      else if flt f0 (in_MinCoverage jr) \<and> flt cov (in_MinCoverage jr) then Refuse miss ''coverage_low''
      else if \<not> taskAdmits jr sl then Refuse miss ''task_type_mismatch''
      else case zone_gate jr top1 h sl of
             Refuse z r \<Rightarrow> Refuse z r
           | Offer z grey _ \<Rightarrow>
               let content = w_sanitize w (sl_Content sl) in
               if content = [] then Refuse z ''sanitized_empty''
               else Offer z grey (formatSliceItem w sl (h_Score h) (escapeMarker content) grey))"

section \<open>Assembly\<close>

record candidate =
  ca_sl :: Slice
  ca_item :: string
  ca_grey :: bool
  ca_score :: f64

record assembly =
  as_size :: nat
  as_dropped :: int
  as_decisions :: "CandidateDecision list"
  as_cands :: "candidate list"

definition refuse :: "CandidateDecision \<Rightarrow> string \<Rightarrow> string \<Rightarrow> assembly \<Rightarrow> assembly" where
  "refuse d z reason a = a\<lparr>as_dropped := as_dropped a + 1, as_decisions := as_decisions a @ [d\<lparr>cd_Zone := z, cd_Reason := reason\<rparr>]\<rparr>"

definition consider_hit ::
  "world \<Rightarrow> Injector \<Rightarrow> string \<Rightarrow> int \<Rightarrow> nat \<Rightarrow> f64 \<Rightarrow> f64 \<Rightarrow> Hit \<Rightarrow> assembly \<Rightarrow> assembly" where
  "consider_hit w jr query budget nElig topMargin top1 h a =
     (let d = \<lparr>cd_ID = [], cd_Score = h_Score h, cd_Coverage = f0, cd_Zone = Zone_String ZMiss, cd_Admitted = False, cd_Reason = []\<rparr> in
      case h_Slice h of
        None \<Rightarrow> refuse d (Zone_String ZMiss) ''nil_slice'' a
      | Some sl \<Rightarrow>
          let d = d\<lparr>cd_ID := sl_ID sl, cd_Coverage := QueryCoverage (w_tok w) query (sl_Content sl)\<rparr> in
          case gates w jr query nElig topMargin top1 h sl of
            Refuse z reason \<Rightarrow> refuse d z reason a
          | Offer z grey item \<Rightarrow>
              if int (as_size a + length item + length blockClose) > budget then refuse d z ''budget'' a
              else a\<lparr>as_size := as_size a + length item,
                     as_decisions := as_decisions a @ [d\<lparr>cd_Zone := z, cd_Admitted := True, cd_Reason := ''admitted''\<rparr>],
                     as_cands := as_cands a @ [\<lparr>ca_sl = sl, ca_item = item, ca_grey = grey, ca_score = h_Score h\<rparr>]\<rparr>)"

definition cand_before :: "candidate \<Rightarrow> candidate \<Rightarrow> bool" where
  "cand_before a b =
     (if ca_grey a \<noteq> ca_grey b then \<not> ca_grey a
      else if fne (ca_score a) (ca_score b) then flt (ca_score b) (ca_score a)
      else sl_ID (ca_sl a) < sl_ID (ca_sl b))"

definition assemble :: "assembly \<Rightarrow> f64 \<Rightarrow> Injection" where
  "assemble a topMargin =
     (let cands = go_sort cand_before (as_cands a); body = blockOpen @ concat (map ca_item cands) @ blockClose in
      if as_cands a = []
      then \<lparr>ij_Slices = [], ij_Text = [], ij_Bytes = 0, ij_Dropped = as_dropped a, ij_GreyIncluded = 0,
            ij_Decisions = as_decisions a, ij_TopMargin = topMargin\<rparr>
      else \<lparr>ij_Slices = map ca_sl cands, ij_Text = body, ij_Bytes = int (length body), ij_Dropped = as_dropped a,
            ij_GreyIncluded = int (length (filter ca_grey cands)), ij_Decisions = as_decisions a, ij_TopMargin = topMargin\<rparr>)"

definition effective_budget :: "Injector \<Rightarrow> int" where
  "effective_budget jr = (if in_Budget jr \<le> 0 then InjectBudget else in_Budget jr)"

definition BuildHits :: "world \<Rightarrow> Injector \<Rightarrow> string \<Rightarrow> Hit list \<Rightarrow> Injection" where
  "BuildHits w jr query hits =
     (let candidates = window w jr 0 0 hits;
          scores = map h_Score (filter (eligible w jr) candidates);
          top1 = (case scores of [] \<Rightarrow> f0 | s # _ \<Rightarrow> s);
          topMargin = (case scores of s1 # s2 # _ \<Rightarrow> fsub s1 s2 | _ \<Rightarrow> f0);
          a = fold (consider_hit w jr query (effective_budget jr) (length scores) topMargin top1) candidates
                \<lparr>as_size = length blockOpen, as_dropped = 0, as_decisions = [], as_cands = []\<rparr>
      in assemble a topMargin)"

definition Build :: "world \<Rightarrow> Injector \<Rightarrow> (string \<Rightarrow> int \<Rightarrow> 'e + Hit list) \<Rightarrow> string \<Rightarrow> 'e + Injection" where
  "Build w jr search query =
     (case search query (if in_K jr \<le> 0 then 5 else in_K jr) of
        Inl e \<Rightarrow> Inl e | Inr hits \<Rightarrow> Inr (BuildHits w jr query hits))"

end
