(* ===== verification/Inject_Correct.thy ===== *)
theory Inject_Correct
  imports Inject
begin

text \<open>
  The reuse block is closed: escaping removes every marker from the content of a slice, at the level of bytes and up to
  case, and the assembled block contains none between its own; it never exceeds its budget, only admitted slices
  enter it, and hits that are not eligible have no influence on it.
\<close>

section \<open>Escaping\<close>

text \<open>A marker opens with its only bracket of that kind; a replacement does too and goes on differently.\<close>

definition marker_like :: "string \<Rightarrow> bool" where
  "marker_like q \<longleftrightarrow> (case q of b # c # q' \<Rightarrow> b = CHR ''['' \<and> c \<noteq> backslash \<and> CHR ''['' \<notin> set (c # q') | _ \<Rightarrow> False) \<and> ascii q"

definition replacement_like :: "string \<Rightarrow> bool" where
  "replacement_like n \<longleftrightarrow> (case n of b # c # n' \<Rightarrow> b = CHR ''['' \<and> c = backslash \<and> CHR ''['' \<notin> set n' | _ \<Rightarrow> False)"

lemma fold_nonletter:
  "\<not> (65 \<le> (of_char d :: nat) \<and> of_char d \<le> (90 :: nat)) \<Longrightarrow> \<not> (97 \<le> (of_char d :: nat) \<and> of_char d \<le> (122 :: nat)) \<Longrightarrow>
    fold_byte c = of_char d \<longleftrightarrow> c = d"
  by (auto simp: fold_byte_def Let_def)

lemma fold_bracket: "fold_byte c = of_char (CHR ''['') \<longleftrightarrow> c = CHR ''[''"
  by (rule fold_nonletter) simp_all

lemma fold_self: "fold_byte (CHR ''['') = of_char (CHR ''['')" "fold_byte backslash = of_char backslash"
  by (simp_all add: fold_byte_def backslash_def)

lemma copied_front:
  assumes "CHR ''['' \<notin> set q" "ascii q" "replacement_like new"
  shows "starts_fold q (replace_runes ro new rs) \<Longrightarrow> starts_asc q rs"
  using assms(1,2)
proof (induction q arbitrary: rs)
  case (Cons a q)
  obtain b n' where new: "new = CHR ''['' # n'" using assms(3) by (auto simp: replacement_like_def split: list.splits)
  show ?case
  proof (cases rs)
    case (Cons r rs')
    show ?thesis
    proof (cases "ro \<noteq> [] \<and> length ro \<le> length rs \<and> starts_runes ro rs")
      case True
      then have "fold_byte (CHR ''['') = of_char a" using Cons.prems(1) by (simp add: \<open>rs = r # rs'\<close> new)
      then have "a = CHR ''[''" unfolding fold_self by (simp only: of_char_eq_iff)
      then show ?thesis using Cons.prems(2) by simp
    next
      case False
      then have "starts_fold (a # q) (encode_rune r @ replace_runes ro new rs')" using Cons.prems(1) \<open>rs = r # rs'\<close> by auto
      then have "r < 128 \<and> fold_byte (char_of r) = of_char a \<and> starts_fold q (replace_runes ro new rs')"
        using starts_encode_asc [OF Cons.prems(3)] by blast
      then show ?thesis using Cons.IH [of rs'] Cons.prems(2,3) \<open>rs = r # rs'\<close> by simp
    qed
  qed (use Cons.prems in simp)
qed simp

text \<open>A marker in the output stands where the input has one at which nothing was replaced.\<close>

lemma output_marker:
  assumes "marker_like q" "replacement_like new" "ro \<noteq> []"
  shows "starts_fold q (drop i (replace_runes ro new rs)) \<Longrightarrow> \<exists>j. starts_asc q (drop j rs) \<and> \<not> starts_runes ro (drop j rs)"
proof (induction rs arbitrary: i rule: length_induct)
  case (1 rs)
  obtain c q' where q: "q = CHR ''['' # c # q'" "c \<noteq> backslash" "CHR ''['' \<notin> set (c # q')" "ascii q"
    using assms(1) by (auto simp: marker_like_def split: list.splits)
  obtain n' where new: "new = CHR ''['' # backslash # n'" "CHR ''['' \<notin> set n'"
    using assms(2) by (auto simp: replacement_like_def split: list.splits)
  show ?case
  proof (cases rs)
    case Nil
    then show ?thesis using 1(2) q(1) by simp
  next
    case rs: (Cons r rs')
    show ?thesis
    proof (cases "starts_runes ro rs")
      case True
      then have out: "replace_runes ro new rs = new @ replace_runes ro new (drop (length ro) rs)"
        using starts_runes_length [OF True] assms(3) by (simp add: rs)
      show ?thesis
      proof (cases "i < length new")
        case inside: True
        have "drop i (replace_runes ro new rs) = new ! i # drop (Suc i) new @ replace_runes ro new (drop (length ro) rs)"
          using inside by (simp add: out Cons_nth_drop_Suc [symmetric])
        then have "fold_byte (new ! i) = of_char (CHR ''['')" "starts_fold (c # q') (drop (Suc i) new @ replace_runes ro new (drop (length ro) rs))"
          using 1(2) q(1) by auto
        then have "new ! i = CHR ''[''" and cont: "starts_fold (c # q') (drop (Suc i) new @ replace_runes ro new (drop (length ro) rs))"
          using fold_bracket by auto
        moreover have "backslash \<noteq> CHR ''[''" by (simp add: backslash_def)
        ultimately have "i = 0" using new inside nth_mem [of "i - 2" n'] by (cases i; cases "i - 1") auto
        then have "fold_byte backslash = of_char c" using cont new(1) by simp
        then have "c = backslash" unfolding fold_self by (simp only: of_char_eq_iff)
        then show ?thesis using q(2) by simp
      next
        case False
        then have "starts_fold q (drop (i - length new) (replace_runes ro new (drop (length ro) rs)))" using 1(2) out by simp
        moreover have "length (drop (length ro) rs) < length rs" using assms(3) rs by simp
        ultimately obtain j where "starts_asc q (drop j (drop (length ro) rs))" "\<not> starts_runes ro (drop j (drop (length ro) rs))"
          using 1(1) by blast
        then show ?thesis by (intro exI [of _ "j + length ro"]) simp
      qed
    next
      case False
      then have out: "replace_runes ro new rs = encode_rune r @ replace_runes ro new rs'" by (simp add: rs)
      show ?thesis
      proof (cases "i < length (encode_rune r)")
        case inside: True
        have d: "drop i (replace_runes ro new rs) = encode_rune r ! i # drop (Suc i) (encode_rune r) @ replace_runes ro new rs'"
          using inside by (simp add: out Cons_nth_drop_Suc [symmetric])
        then have b: "encode_rune r ! i = CHR ''[''" using 1(2) q(1) fold_bracket by simp
        have "r < 128"
        proof (rule ccontr)
          assume "\<not> r < 128"
          then have "128 \<le> (of_char (encode_rune r ! i) :: nat)" using encode_rune_high [of r "encode_rune r ! i"] inside by simp
          then show False using b by simp
        qed
        then have "i = 0" "encode_rune r = [char_of r]" using inside by (auto simp: encode_rune_low)
        then have "fold_byte (char_of r) = of_char (CHR ''['')" "starts_fold (c # q') (replace_runes ro new rs')" using 1(2) d q(1) by auto
        then have "starts_asc q rs" using copied_front [OF q(3) _ assms(2)] q \<open>r < 128\<close> rs by simp
        then show ?thesis using False by (intro exI [of _ 0]) simp
      next
        case past: False
        then have "starts_fold q (drop (i - length (encode_rune r)) (replace_runes ro new rs'))" using 1(2) out by simp
        then obtain j where "starts_asc q (drop j rs')" "\<not> starts_runes ro (drop j rs')" using 1(1) rs by (metis length_Cons lessI)
        then show ?thesis using rs by (intro exI [of _ "Suc j"]) simp
      qed
    qed
  qed
qed

lemma replaced_away: "marker_like p \<Longrightarrow> replacement_like new \<Longrightarrow> p \<noteq> [] \<Longrightarrow> \<not> occurs_fold p (replace_runes p new rs)"
  unfolding occurs_fold_iff using output_marker starts_asc_runes by blast

lemma nothing_new:
  "marker_like q \<Longrightarrow> replacement_like new \<Longrightarrow> p \<noteq> [] \<Longrightarrow> occurs_fold q (replace_runes p new (runes_of s)) \<Longrightarrow> occurs_fold q s"
proof -
  assume a: "marker_like q" "replacement_like new" "p \<noteq> []" "occurs_fold q (replace_runes p new (runes_of s))"
  then obtain i where "starts_fold q (drop i (replace_runes p new (decode_bytes (map of_char s))))"
    unfolding occurs_fold_iff runes_of_def by blast
  then obtain j where "starts_asc q (drop j (decode_bytes (map of_char s)))" using output_marker [OF a(1-3)] by blast
  moreover have "q \<noteq> []" using a(1) by (auto simp: marker_like_def)
  ultimately show ?thesis by (rule starts_decode_at [rotated])
qed

definition marker_free :: "string \<Rightarrow> bool" where
  "marker_free s \<longleftrightarrow> \<not> occurs_fold openMark s \<and> \<not> occurs_fold closeMark s"

lemma marks:
  "marker_like openMark" "marker_like closeMark" "to_lower openMark = openMark" "to_lower closeMark = closeMark"
  "openMark \<noteq> []" "closeMark \<noteq> []"
  "replacement_like (CHR ''['' # backslash # ''/semantix-reuse]'')" "replacement_like (CHR ''['' # backslash # ''semantix-reuse]'')"
  by code_simp+

lemma escaped_content: "marker_free (escapeMarker s)"
  unfolding marker_free_def escapeMarker_def replaceFold_def marks(3,4)
  using replaced_away [OF marks(1,8,5)] nothing_new [OF marks(2,8,5)] replaced_away [OF marks(2,7,6)] by blast

section \<open>Lines\<close>

definition line_pattern :: "string \<Rightarrow> bool" where
  "line_pattern q \<longleftrightarrow> newline \<notin> set q \<and> q \<noteq> []"

lemma fold_newline: "fold_byte newline = of_char d \<longleftrightarrow> d = newline"
proof -
  have "fold_byte newline = of_char newline" by (simp add: fold_byte_def newline_def)
  then show ?thesis by (simp only: of_char_eq_iff) blast
qed

lemma starts_before_newline: "newline \<notin> set q \<Longrightarrow> starts_fold q (x @ newline # y) \<Longrightarrow> starts_fold q x"
proof (induction q x rule: starts_fold.induct)
  case (2 p ps)
  then show ?case using fold_newline by auto
qed auto

lemma occurs_line: "line_pattern q \<Longrightarrow> occurs_fold q (x @ newline # y) \<Longrightarrow> occurs_fold q x \<or> occurs_fold q y"
proof -
  assume q: "line_pattern q" and "occurs_fold q (x @ newline # y)"
  then obtain i where i: "i \<le> length (x @ newline # y)" "starts_fold q (drop i (x @ newline # y))" by (auto simp: occurs_fold_iff)
  show ?thesis
  proof (cases "i \<le> length x")
    case True
    then have "starts_fold q (drop i x @ newline # y)" using i(2) by simp
    then have "starts_fold q (drop i x)" using q starts_before_newline by (auto simp: line_pattern_def)
    then show ?thesis using True by (auto simp: occurs_fold_iff)
  next
    case False
    then obtain k where k: "i = Suc (length x) + k" by (metis Suc_le_eq le_Suc_ex not_le)
    then have "starts_fold q (drop k y)" "k \<le> length y" using i by auto
    then show ?thesis by (auto simp: occurs_fold_iff)
  qed
qed

lemma no_bracket: "CHR ''['' \<notin> set s \<Longrightarrow> marker_free s"
proof -
  assume s: "CHR ''['' \<notin> set s"
  have "\<not> starts_fold (CHR ''['' # q) (drop i s)" for q i
  proof
    assume "starts_fold (CHR ''['' # q) (drop i s)"
    then obtain c s' where "drop i s = c # s'" "c = CHR ''[''" using fold_bracket by (cases "drop i s") auto
    then show False using s by (metis in_set_dropD list.set_intros(1))
  qed
  then show ?thesis by (simp add: marker_free_def occurs_fold_iff openMark_def closeMark_def)
qed

lemma mark_lines: "line_pattern openMark" "line_pattern closeMark"
  by code_simp+

lemma marker_free_line: "marker_free x \<Longrightarrow> marker_free y \<Longrightarrow> marker_free (x @ newline # y)"
  unfolding marker_free_def using occurs_line [OF mark_lines(1)] occurs_line [OF mark_lines(2)] by blast

lemma marker_free_Nil: "marker_free []"
  by code_simp

lemma applicability_free: "marker_free ''applicability=historical_observation; revalidate_before_use''"
  by (rule no_bracket) simp

text \<open>What is written around the content must be free of markers, too: the code does not escape it.\<close>

definition clean_hit :: "world \<Rightarrow> Hit \<Rightarrow> bool" where
  "clean_hit w h \<longleftrightarrow> (case h_Slice h of None \<Rightarrow> True
     | Some sl \<Rightarrow> marker_free (item_header sl True) \<and> marker_free (item_header sl False) \<and> marker_free (item_provenance w sl (h_Score h)))"

lemma item_lines:
  assumes "clean_hit w h" "h_Slice h = Some sl"
  shows "\<exists>x. formatSliceItem w sl (h_Score h) (escapeMarker c) g = x @ [newline] \<and> (\<forall>y. marker_free y \<longrightarrow> marker_free (x @ newline # y))"
proof (intro exI conjI allI impI)
  let ?h = "if IsHistoricalObservation (Some sl) then ''applicability=historical_observation; revalidate_before_use'' @ [newline] else []"
  let ?x = "item_header sl g @ [newline] @ item_provenance w sl (h_Score h) @ [newline] @ ?h @ escapeMarker c"
  show "formatSliceItem w sl (h_Score h) (escapeMarker c) g = ?x @ [newline]" by (simp add: formatSliceItem_def)
  fix y assume y: "marker_free y"
  have "marker_free (escapeMarker c @ newline # y)" by (rule marker_free_line [OF escaped_content y])
  then have "marker_free (?h @ escapeMarker c @ newline # y)" using marker_free_line [OF applicability_free] by simp
  then have "marker_free (item_header sl g @ newline # item_provenance w sl (h_Score h) @ newline # ?h @ escapeMarker c @ newline # y)"
    using assms by (intro marker_free_line) (cases g; auto simp: clean_hit_def)+
  then show "marker_free (?x @ newline # y)" by simp
qed

section \<open>Admission\<close>

lemma gates_offer:
  assumes "gates w jr query n margin top1 h sl = Offer z g item"
  shows "item = formatSliceItem w sl (h_Score h) (escapeMarker (w_sanitize w (sl_Content sl))) g"
    "admissionTypeEligible jr sl" "taskAdmits jr sl" "freshnessReason w jr sl = []"
    "Origin_Level (in_MinOrigin jr) \<le> Origin_Level (m_Origin (sl_Meta sl))"
    "w_sanitize w (sl_Content sl) \<noteq> []" "\<not> (flt f0 (in_MinScore jr) \<and> flt (h_Score h) (in_MinScore jr))"
    "zone_gate jr top1 h sl = Offer z g []"
  using assms by (auto simp: gates_def zone_gate_def admissionTypeEligible_def Let_def not_less
      split: if_splits outcome.splits option.splits Zone.splits)

lemma offer_eligible:
  "h_Slice h = Some sl \<Longrightarrow> gates w jr query n margin top1 h sl = Offer z g item \<Longrightarrow> eligible w jr h"
  using gates_offer [of w jr query n margin top1 h sl z g item] by (simp add: eligible_def)

text \<open>A hit is either refused, which leaves the block alone, or appended within the budget.\<close>

lemma consider_cases:
  obtains (refused) d where "consider_hit w jr query budget n margin top1 h a =
      a\<lparr>as_dropped := as_dropped a + 1, as_decisions := as_decisions a @ [d]\<rparr>" "\<not> cd_Admitted d"
  | (taken) sl z g item d where "h_Slice h = Some sl" "gates w jr query n margin top1 h sl = Offer z g item"
      "int (as_size a + length item + length blockClose) \<le> budget" "cd_Admitted d"
      "consider_hit w jr query budget n margin top1 h a = a\<lparr>as_size := as_size a + length item,
         as_decisions := as_decisions a @ [d], as_cands := as_cands a @ [\<lparr>ca_sl = sl, ca_item = item, ca_grey = g, ca_score = h_Score h\<rparr>]\<rparr>"
proof (cases "h_Slice h")
  case None
  then show ?thesis by (intro refused) (auto simp: consider_hit_def refuse_def Let_def)
next
  case (Some sl)
  show ?thesis
  proof (cases "gates w jr query n margin top1 h sl")
    case (Refuse z r)
    then show ?thesis using Some by (intro refused) (auto simp: consider_hit_def refuse_def Let_def)
  next
    case (Offer z g item)
    show ?thesis
    proof (cases "int (as_size a + length item + length blockClose) > budget")
      case True
      then show ?thesis using Some Offer by (intro refused) (auto simp: consider_hit_def refuse_def Let_def)
    next
      case False
      then show ?thesis using Some Offer by (intro taken) (auto simp: consider_hit_def Let_def)
    qed
  qed
qed

definition from_hit :: "world \<Rightarrow> Injector \<Rightarrow> string \<Rightarrow> nat \<Rightarrow> f64 \<Rightarrow> f64 \<Rightarrow> Hit list \<Rightarrow> candidate \<Rightarrow> bool" where
  "from_hit w jr query n margin top1 hits c \<longleftrightarrow> (\<exists>h\<in>set hits. \<exists>z. h_Slice h = Some (ca_sl c) \<and>
     gates w jr query n margin top1 h (ca_sl c) = Offer z (ca_grey c) (ca_item c) \<and> ca_score c = h_Score h)"

definition assembly_ok :: "int \<Rightarrow> assembly \<Rightarrow> bool" where
  "assembly_ok budget a \<longleftrightarrow>
     as_size a = length blockOpen + sum_list (map (length \<circ> ca_item) (as_cands a)) \<and>
     (as_cands a = [] \<or> int (as_size a + length blockClose) \<le> budget) \<and>
     as_dropped a + int (length (as_cands a)) = int (length (as_decisions a)) \<and>
     length (filter cd_Admitted (as_decisions a)) = length (as_cands a)"

lemma consider_ok: "assembly_ok budget a \<Longrightarrow> assembly_ok budget (consider_hit w jr query budget n margin top1 h a)"
  by (rule consider_cases [of w jr query budget n margin top1 h a]) (auto simp: assembly_ok_def)

lemma considered_ok: "assembly_ok budget a \<Longrightarrow> assembly_ok budget (fold (consider_hit w jr query budget n margin top1) hs a)"
  by (induction hs arbitrary: a) (auto simp: consider_ok)

lemma considered_from:
  assumes "list_all (from_hit w jr query n margin top1 hits) (as_cands a)" "set hs \<subseteq> set hits"
  shows "list_all (from_hit w jr query n margin top1 hits) (as_cands (fold (consider_hit w jr query budget n margin top1) hs a))"
  using assms
proof (induction hs arbitrary: a)
  case (Cons h hs)
  have "list_all (from_hit w jr query n margin top1 hits) (as_cands (consider_hit w jr query budget n margin top1 h a))"
  proof (rule consider_cases [of w jr query budget n margin top1 h a])
    fix sl z g item d
    assume t: "h_Slice h = Some sl" "gates w jr query n margin top1 h sl = Offer z g item"
      "consider_hit w jr query budget n margin top1 h a = a\<lparr>as_size := as_size a + length item,
         as_decisions := as_decisions a @ [d], as_cands := as_cands a @ [\<lparr>ca_sl = sl, ca_item = item, ca_grey = g, ca_score = h_Score h\<rparr>]\<rparr>"
    have "from_hit w jr query n margin top1 hits \<lparr>ca_sl = sl, ca_item = item, ca_grey = g, ca_score = h_Score h\<rparr>"
      unfolding from_hit_def using t(1,2) Cons.prems(2) by (intro bexI [of _ h]) auto
    then show ?thesis using Cons.prems(1) t(3) by simp
  qed (use Cons.prems in simp)
  then show ?case using Cons by simp
qed simp

text \<open>What matters for the block: the candidates and their size.\<close>

definition core :: "assembly \<Rightarrow> nat \<times> candidate list" where
  "core a = (as_size a, as_cands a)"

lemma consider_core: "core a = core b \<Longrightarrow>
    core (consider_hit w jr query budget n margin top1 h a) = core (consider_hit w jr query budget n margin top1 h b)"
  by (auto simp: core_def consider_hit_def refuse_def Let_def split: option.splits outcome.splits)

lemma consider_ineligible:
  assumes "\<not> eligible w jr h" shows "core (consider_hit w jr query budget n margin top1 h a) = core a"
  by (rule consider_cases [of w jr query budget n margin top1 h a]) (use assms offer_eligible in \<open>auto simp: core_def\<close>)

lemma fold_core: "core a = core b \<Longrightarrow>
    core (fold (consider_hit w jr query budget n margin top1) hs a) =
    core (fold (consider_hit w jr query budget n margin top1) (filter (eligible w jr) hs) b)"
proof (induction hs arbitrary: a b)
  case (Cons h hs)
  show ?case
  proof (cases "eligible w jr h")
    case True
    then show ?thesis using Cons.IH consider_core [OF Cons.prems] by simp
  next
    case False
    then show ?thesis using Cons.IH [of _ b] consider_ineligible [OF False, of query budget n margin top1 a] Cons.prems by simp
  qed
qed simp

lemma window_eligible:
  "filter (eligible w jr) (window w jr rank n hs) =
    (if in_K jr > 0 then take (nat (in_K jr) - n) (filter (eligible w jr) hs) else filter (eligible w jr) hs)"
proof (induction hs arbitrary: rank n)
  case (Cons h hs)
  have "int n \<ge> in_K jr \<longleftrightarrow> nat (in_K jr) - n = 0" if "0 < in_K jr" using that by auto
  moreover have "nat (in_K jr) - n = Suc (nat (in_K jr) - Suc n)" if "0 < in_K jr" "\<not> int n \<ge> in_K jr" using that by auto
  ultimately show ?case using Cons.IH by (auto simp: Let_def)
qed simp

lemma window_subset: "set (window w jr rank n hs) \<subseteq> set hs"
  by (induction hs arbitrary: rank n) (auto simp: Let_def split: if_splits)

lemma window_filter: "filter (eligible w jr) (window w jr 0 0 (filter (eligible w jr) hs)) = filter (eligible w jr) (window w jr 0 0 hs)"
  by (simp add: window_eligible)

section \<open>The block\<close>

text \<open>\<open>BuildHits\<close> in terms of its window, with the figures every gate sees.\<close>

definition figures :: "world \<Rightarrow> Injector \<Rightarrow> Hit list \<Rightarrow> nat \<times> f64 \<times> f64" where
  "figures w jr hits =
     (let scores = map h_Score (filter (eligible w jr) (window w jr 0 0 hits)) in
      (length scores, case scores of s1 # s2 # _ \<Rightarrow> fsub s1 s2 | _ \<Rightarrow> f0, case scores of [] \<Rightarrow> f0 | s # _ \<Rightarrow> s))"

definition assembled :: "world \<Rightarrow> Injector \<Rightarrow> string \<Rightarrow> Hit list \<Rightarrow> assembly" where
  "assembled w jr query hits = (case figures w jr hits of (n, margin, top1) \<Rightarrow>
     fold (consider_hit w jr query (effective_budget jr) n margin top1) (window w jr 0 0 hits)
       \<lparr>as_size = length blockOpen, as_dropped = 0, as_decisions = [], as_cands = []\<rparr>)"

lemma BuildHits_alt: "BuildHits w jr query hits = assemble (assembled w jr query hits) (fst (snd (figures w jr hits)))"
  by (simp add: BuildHits_def assembled_def figures_def Let_def)

lemma assembled_ok: "assembly_ok (effective_budget jr) (assembled w jr query hits)"
proof -
  have "assembly_ok (effective_budget jr) \<lparr>as_size = length blockOpen, as_dropped = 0, as_decisions = [], as_cands = []\<rparr>"
    by (simp add: assembly_ok_def)
  then show ?thesis unfolding assembled_def by (cases "figures w jr hits") (simp add: considered_ok)
qed

lemma assembled_from:
  assumes "figures w jr hits = (n, margin, top1)"
  shows "list_all (from_hit w jr query n margin top1 hits) (as_cands (assembled w jr query hits))"
  unfolding assembled_def assms using window_subset by (simp add: considered_from)

lemma assembled_core: "core (assembled w jr query (filter (eligible w jr) hits)) = core (assembled w jr query hits)"
proof -
  obtain n margin top1 where f: "figures w jr hits = (n, margin, top1)" by (cases "figures w jr hits")
  then have f': "figures w jr (filter (eligible w jr) hits) = (n, margin, top1)" by (simp add: figures_def window_filter)
  show ?thesis unfolding assembled_def f f'
    using fold_core [of _ _ w jr query "effective_budget jr" n margin top1 "window w jr 0 0 (filter (eligible w jr) hits)"]
      fold_core [of _ _ w jr query "effective_budget jr" n margin top1 "window w jr 0 0 hits"]
    by (simp add: window_filter)
qed

text \<open>
  C12. Hits that are not eligible, for their type, status, task, freshness or origin, have no influence: the block, its slices
  and the margin are those of the eligible hits alone. An ineligible hit neither takes a place in the
  window nor changes the relative confidence of the others.
\<close>

theorem ineligible_hits_have_no_influence:
  "ij_Text (BuildHits w jr query (filter (eligible w jr) hits)) = ij_Text (BuildHits w jr query hits) \<and>
   ij_Slices (BuildHits w jr query (filter (eligible w jr) hits)) = ij_Slices (BuildHits w jr query hits) \<and>
   ij_TopMargin (BuildHits w jr query (filter (eligible w jr) hits)) = ij_TopMargin (BuildHits w jr query hits)"
proof -
  have "as_cands (assembled w jr query (filter (eligible w jr) hits)) = as_cands (assembled w jr query hits)"
    using assembled_core by (simp add: core_def)
  moreover have "figures w jr (filter (eligible w jr) hits) = figures w jr hits" by (simp add: figures_def window_filter)
  ultimately show ?thesis by (simp add: BuildHits_alt assemble_def Let_def)
qed

lemma length_items: "length (concat (map ca_item cs)) = sum_list (map (length \<circ> ca_item) cs)"
  by (simp add: length_concat comp_def)

lemma window_cap: "in_K jr \<le> 0 \<or> int (length (filter (eligible w jr) (window w jr 0 0 hits))) \<le> in_K jr"
  by (auto simp: window_eligible)

lemma cands_le: "length (as_cands (fold (consider_hit w jr query budget n margin top1) hs a)) \<le>
    length (as_cands a) + length (filter (eligible w jr) hs)"
proof (induction hs arbitrary: a)
  case (Cons h hs)
  have "length (as_cands (consider_hit w jr query budget n margin top1 h a)) \<le> length (as_cands a) + (if eligible w jr h then 1 else 0)"
    by (rule consider_cases [of w jr query budget n margin top1 h a]) (use offer_eligible in auto)
  then show ?case using Cons.IH [of "consider_hit w jr query budget n margin top1 h a"] by (simp split: if_splits)
qed simp


text \<open>
  C10. A stored slice cannot break out of the reuse block through its content. Whatever the content is, after sanitizing and
  escaping, and however it is spelled, a block that is not empty is the opening marker, lines without any
  marker, and the closing marker: no byte sequence inside is a marker, not even up to case. This needs identifiers, project names,
  sessions, commits and origins without markers, since those are written as they are.
\<close>

theorem reuse_block_closed:
  assumes "list_all (clean_hit w) hits" "ij_Slices (BuildHits w jr query hits) \<noteq> []"
  shows "\<exists>inner. ij_Text (BuildHits w jr query hits) = openMark @ [newline] @ inner @ closeMark \<and> marker_free inner \<and> last inner = newline"
proof -
  obtain n margin top1 where f: "figures w jr hits = (n, margin, top1)" by (cases "figures w jr hits")
  define cs where "cs = go_sort cand_before (as_cands (assembled w jr query hits))"
  have block: "ij_Text (BuildHits w jr query hits) = openMark @ [newline] @ concat (map ca_item cs) @ closeMark" "cs \<noteq> []"
    using assms(2) unfolding BuildHits_alt cs_def
    by (auto simp: assemble_def Let_def blockOpen_def openMark_def blockClose_def closeMark_def split: if_splits)
  have item: "\<exists>x. ca_item c = x @ [newline] \<and> (\<forall>y. marker_free y \<longrightarrow> marker_free (x @ newline # y))" if c: "c \<in> set cs" for c
  proof -
    obtain h z where h: "h \<in> set hits" "h_Slice h = Some (ca_sl c)" "gates w jr query n margin top1 h (ca_sl c) = Offer z (ca_grey c) (ca_item c)"
      using assembled_from [OF f, of query] c unfolding cs_def set_go_sort list_all_iff from_hit_def by blast
    have "clean_hit w h" using assms(1) h(1) by (simp add: list_all_iff)
    then show ?thesis unfolding gates_offer(1) [OF h(3)] by (rule item_lines [OF _ h(2)])
  qed
  have "marker_free (concat (map ca_item cs))" using item
  proof (induction cs)
    case (Cons c cs)
    then obtain x where "ca_item c = x @ [newline]" "\<forall>y. marker_free y \<longrightarrow> marker_free (x @ newline # y)" by (metis list.set_intros(1))
    then show ?case using Cons by simp
  qed (simp add: marker_free_Nil)
  moreover have "last (concat (map ca_item cs)) = newline"
  proof -
    obtain cs' c where "cs = cs' @ [c]" using block(2) by (metis rev_exhaust)
    moreover obtain x where "ca_item c = x @ [newline]" using item [of c] calculation by auto
    ultimately show ?thesis by simp
  qed
  ultimately show ?thesis using block(1) by blast
qed

section \<open>Concrete blocks\<close>

definition plain_world :: world where
  "plain_world = \<lparr>w_sanitize = (\<lambda>s. s), w_tok = go_fields, w_quote = (\<lambda>s. s), w_score4 = (\<lambda>_. ''1.0000''), w_root_ok = True,
     w_lstat = (\<lambda>_. NotExist), w_fs = (\<lambda>_. None), w_hash = (\<lambda>s. s)\<rparr>"

definition open_injector :: Injector where
  "open_injector = \<lparr>in_K = 5, in_Budget = 0, in_MinScore = f0, in_AllowedTypes = None, in_RootDir = [], in_CurrentCommit = [],
     in_LibrarySize = 0, in_MinLibrarySize = 0, in_SourceSessionsByType = [], in_MinSourceSessions = 0, in_MinCoverage = f0,
     in_MinTopMargin = f0, in_RequireRunnerUp = False, in_Zones = None, in_MinOrigin = [], in_AllowGrey = False, in_TaskType = []\<rparr>"

definition hit_on :: "string \<Rightarrow> string \<Rightarrow> Hit" where
  "hit_on sid content = \<lparr>h_Slice = Some (zero_slice\<lparr>sl_ID := sid, sl_Content := content\<rparr>), h_Score = f1, h_QueryCoverage = f0,
     h_QueryCoverageValid = False, h_Lexical = f0, h_LexicalValid = False\<rparr>"

theorem reuse_block_closed_witness:
  "\<exists>inner. ij_Text (BuildHits plain_world open_injector ''q'' [hit_on ''s'' ''x'']) =
     openMark @ [newline] @ inner @ closeMark \<and> marker_free inner \<and> last inner = newline"
proof (rule reuse_block_closed)
  let ?sl = "zero_slice\<lparr>sl_ID := ''s'', sl_Content := ''x''\<rparr>"
  have "CHR ''['' \<notin> set (item_header ?sl True)" "CHR ''['' \<notin> set (item_header ?sl False)"
    "CHR ''['' \<notin> set (item_provenance plain_world ?sl f1)" by code_simp+
  then show "list_all (clean_hit plain_world) [hit_on ''s'' ''x'']"
    by (simp add: clean_hit_def hit_on_def no_bracket)
  show "ij_Slices (BuildHits plain_world open_injector ''q'' [hit_on ''s'' ''x'']) \<noteq> []" by code_simp
qed

text \<open>
  The identifier is written unescaped: a slice whose identifier holds the closing marker ends the block early.
\<close>

lemma identifier_breaks_out:
  "take (length closeMark) (drop 27 (ij_Text (BuildHits plain_world open_injector ''q'' [hit_on closeMark ''x'']))) = closeMark"
  by code_simp

end
