(* ===== verification/Prune.thy ===== *)
theory Prune
  imports File_Store Inject
begin

text \<open>
  Explicit maintenance of a library file: the plan of \<open>kernel/slice/prune.go\<close> and its commit in
  \<open>kernel/slice/prune_store.go\<close>. The maps that the plan builds per identifier are functions of the slice here, since
  identifiers are the keys of the store. The directory handle of the project is a function from path components
  to what \<open>Lstat\<close> finds, absent without a project root. The library file is the disk of the journaled store;
  whether the strict decoder accepts a line, whether the file's hash is the one the header records, whether the file
  is there and its lease is granted, and which system calls fail, are arguments. The result's path of the archive is the archive itself here,
  and its constant note on space is left out.
\<close>

section \<open>Options\<close>

record PruneOptions =
  po_Scope :: Scope
  po_Apply :: bool
  po_OlderThanDays :: int
  po_RecentDays :: int
  po_Project :: string
  po_ProjectRoot :: string
  po_Now :: int

datatype prune_err = BadScope | BadWindow | NoProject | BadClock | BadRoot | Serialize | OrphanJournal | Preflight | Unhealthy
  | CorruptRecords | JournalUnreadable | ArchiveFailed | JournalFailed | CommitFailed

definition normalized :: "int \<Rightarrow> PruneOptions \<Rightarrow> prune_err + PruneOptions" where
  "normalized clock o0 =
     (if po_Scope o0 \<noteq> Project \<and> po_Scope o0 \<noteq> User then Inl BadScope
      else
        let o1 = (if po_OlderThanDays o0 = 0 then o0\<lparr>po_OlderThanDays := 90\<rparr> else o0);
            o2 = (if po_RecentDays o1 = 0 then o1\<lparr>po_RecentDays := 30\<rparr> else o1)
        in if po_OlderThanDays o2 < 1 \<or> po_OlderThanDays o2 > 3650000 \<or> po_RecentDays o2 < 1 \<or> po_RecentDays o2 > 3650000
           then Inl BadWindow
           else if po_ProjectRoot o2 \<noteq> [] \<and> po_Project o2 = [] then Inl NoProject
           else let o3 = (if po_Now o2 = 0 then o2\<lparr>po_Now := clock\<rparr> else o2)
                in if po_Now o3 < 0 then Inl BadClock else Inr o3)"

section \<open>The plan\<close>

record PruneCandidate =
  pc_ID :: string
  pc_Type :: string
  pc_Scope :: string
  pc_Reasons :: "string list"
  pc_SourceSession :: string
  pc_CreatedAt :: int
  pc_LastUsed :: int
  pc_Bytes :: int
  pc_RetainedID :: string

record PruneResult =
  pr_Scope :: string
  pr_DryRun :: bool
  pr_Checked :: int
  pr_Kept :: int
  pr_Removed :: int
  pr_Candidates :: "PruneCandidate list"
  pr_SkippedChecks :: "(string \<times> string) list"
  pr_Bytes :: int

definition emptyPruneResult :: "PruneOptions \<Rightarrow> PruneResult" where
  "emptyPruneResult o0 = \<lparr>pr_Scope = Scope_String (po_Scope o0), pr_DryRun = (\<not> po_Apply o0), pr_Checked = 0, pr_Kept = 0, pr_Removed = 0,
     pr_Candidates = [],
     pr_SkippedChecks = (if po_ProjectRoot o0 = [] then [(''missing_dependency'', ''project_mapping_unavailable'')] else []),
     pr_Bytes = 0\<rparr>"

definition pruneProtected :: "PruneOptions \<Rightarrow> Slice \<Rightarrow> bool" where
  "pruneProtected o0 s \<longleftrightarrow>
     (let cutoff = po_Now o0 - po_RecentDays o0 * 86400; st = sl_Stats s; m = sl_Meta s in
      SliceType_String (sl_Type s) = ''unknown'' \<or> sl_CreatedAt s \<le> 0 \<or> sl_CreatedAt s \<ge> cutoff \<or> st_LastUsed st < 0 \<or>
      st_LastUsed st \<ge> cutoff \<or> ((st_Hits st > 0 \<or> st_Injected st > 0) \<and> st_LastUsed st = 0) \<or>
      m_Origin m = OriginUserCurated \<or> (m_Origin m \<noteq> [] \<and> \<not> Origin_Valid (m_Origin m)) \<or>
      flt f0 (st_UserFeedback st) \<or> is_nan (st_UserFeedback st) \<or> is_inf (st_UserFeedback st) \<or> st_Useful st > 0 \<or>
      m_ResultStatus m = ResultStatusVerified \<or> (m_ResultStatus m \<noteq> [] \<and> m_ResultStatus m \<noteq> ResultStatusProbation))"

text \<open>
  \<open>duplicateKey\<close> renders the compared fields as JSON, which sorts the keys of a map; the fields themselves are compared here.
\<close>

definition json_map :: "(string, 'v) gomap \<Rightarrow> (string, 'v) gomap" where
  "json_map m = go_sort (\<lambda>a b. fst a < fst b) m"

definition duplicateKey :: "Slice \<Rightarrow> SliceType \<times> Scope \<times> string \<times> SliceMeta" where
  "duplicateKey s = (sl_Type s, sl_Scope s, sl_Content s,
     (sl_Meta s)\<lparr>m_SourceSession := [], m_OriginalBytes := 0, m_StoredBytes := 0,
       m_Deps := json_map (m_Deps (sl_Meta s)), m_Mtimes := json_map (m_Mtimes (sl_Meta s))\<rparr>)"

text \<open>The walk along one dependency: gone, ambiguous, or there.\<close>

datatype dep_state = Gone | Ambiguous | There

fun walk_dep :: "(string list \<Rightarrow> lstat_result) \<Rightarrow> string list \<Rightarrow> string list \<Rightarrow> dep_state" where
  "walk_dep lst pre [] = There"
| "walk_dep lst pre (part # parts) =
     (case lst (pre @ [part]) of
        NotExist \<Rightarrow> Gone
      | LstatError \<Rightarrow> Ambiguous
      | LInfo symlink isdir _ \<Rightarrow>
          if symlink \<or> parts \<noteq> [] \<and> \<not> isdir then Ambiguous else walk_dep lst (pre @ [part]) parts)"

fun missing_loop :: "(string list \<Rightarrow> lstat_result) \<Rightarrow> bool \<Rightarrow> string list \<Rightarrow> bool \<times> bool" where
  "missing_loop lst missing [] = (missing, False)"
| "missing_loop lst missing (p # ps) =
     (if \<not> IsLocal p \<or> CHR '':'' \<in> set p \<or> backslash \<in> set p then (False, True)
      else case walk_dep lst [] (clean_parts [] (split_path p)) of
             Gone \<Rightarrow> missing_loop lst True ps
           | Ambiguous \<Rightarrow> (False, True)
           | There \<Rightarrow> missing_loop lst missing ps)"

definition missingPruneDependency :: "(string list \<Rightarrow> lstat_result) \<Rightarrow> Slice \<Rightarrow> bool \<times> bool" where
  "missingPruneDependency lst s = missing_loop lst False (keys (m_Deps (sl_Meta s)))"

type_synonym project_root = "(string list \<Rightarrow> lstat_result) option"

definition dep_verdict :: "project_root \<Rightarrow> PruneOptions \<Rightarrow> Slice \<Rightarrow> bool \<times> bool" where
  "dep_verdict prt o0 s =
     (case prt of None \<Rightarrow> (False, False)
      | Some lst \<Rightarrow> if \<not> pruneProtected o0 s \<and> m_Deps (sl_Meta s) \<noteq> [] then missingPruneDependency lst s else (False, False))"

definition protected :: "project_root \<Rightarrow> PruneOptions \<Rightarrow> Slice \<Rightarrow> bool" where
  "protected prt o0 s \<longleftrightarrow> pruneProtected o0 s \<or> snd (dep_verdict prt o0 s)"

definition base_reasons :: "project_root \<Rightarrow> PruneOptions \<Rightarrow> Slice \<Rightarrow> string list" where
  "base_reasons prt o0 s =
     (let cutoff = po_Now o0 - po_OlderThanDays o0 * 86400; st = sl_Stats s in
      (if fst (dep_verdict prt o0 s) then [''missing_dependency''] else []) @
      (if \<not> protected prt o0 s \<and> sl_CreatedAt s < cutoff \<and> st_LastUsed st < cutoff
       then [''stale_unused''] @
            (if sl_Type s = Result \<and> m_ResultStatus (sl_Meta s) = ResultStatusProbation then [''stale_probation''] else []) @
            (if st_Rejected st > 0 \<or> flt (st_UserFeedback st) f0 then [''stale_rejected''] else [])
       else []))"

definition rep_before :: "project_root \<Rightarrow> PruneOptions \<Rightarrow> Slice \<Rightarrow> Slice \<Rightarrow> bool" where
  "rep_before prt o0 a b =
     (if protected prt o0 a \<noteq> protected prt o0 b then protected prt o0 a
      else if st_LastUsed (sl_Stats a) \<noteq> st_LastUsed (sl_Stats b) then st_LastUsed (sl_Stats a) > st_LastUsed (sl_Stats b)
      else if sl_CreatedAt a \<noteq> sl_CreatedAt b then sl_CreatedAt a > sl_CreatedAt b
      else sl_ID a < sl_ID b)"

text \<open>The representative of the group a slice is in: \<open>None\<close> when it is alone or every member is removed anyway.\<close>

definition representative :: "project_root \<Rightarrow> PruneOptions \<Rightarrow> Slice list \<Rightarrow> Slice \<Rightarrow> Slice option" where
  "representative prt o0 slices s =
     (let group = filter (\<lambda>x. sl_Content x \<noteq> [] \<and> duplicateKey x = duplicateKey s) slices in
      if sl_Content s = [] \<or> length group < 2 then None
      else find (\<lambda>x. protected prt o0 x \<or> base_reasons prt o0 x = []) (go_sort (rep_before prt o0) group))"

definition retained :: "project_root \<Rightarrow> PruneOptions \<Rightarrow> Slice list \<Rightarrow> Slice \<Rightarrow> string option" where
  "retained prt o0 slices s =
     (case representative prt o0 slices s of None \<Rightarrow> None
      | Some rep \<Rightarrow> if sl_ID s = sl_ID rep \<or> protected prt o0 s then None else Some (sl_ID rep))"

definition reasons :: "project_root \<Rightarrow> PruneOptions \<Rightarrow> Slice list \<Rightarrow> Slice \<Rightarrow> string list" where
  "reasons prt o0 slices s =
     (if retained prt o0 slices s \<noteq> None then [''exact_duplicate''] else []) @ base_reasons prt o0 s"

definition in_plan :: "PruneOptions \<Rightarrow> storedEntry \<Rightarrow> bool" where
  "in_plan o0 e \<longleftrightarrow> sl_Scope (se_s e) = po_Scope o0 \<and> (po_Project o0 = [] \<or> m_ProjectSlug (sl_Meta (se_s e)) = po_Project o0)"

definition candidate_of :: "(string \<Rightarrow> string) \<Rightarrow> (sliceDTO \<Rightarrow> nat) \<Rightarrow> string list \<Rightarrow> string option \<Rightarrow> storedEntry \<Rightarrow> PruneCandidate" where
  "candidate_of clean blen rs ret e =
     (let s = se_s e; source = clean (m_SourceSession (sl_Meta s)) in
      \<lparr>pc_ID = sl_ID s, pc_Type = SliceType_String (sl_Type s), pc_Scope = Scope_String (sl_Scope s), pc_Reasons = rs,
       pc_SourceSession = (if source = [] then ''unknown'' else source), pc_CreatedAt = sl_CreatedAt s,
       pc_LastUsed = st_LastUsed (sl_Stats s), pc_Bytes = int (blen (dtoFromEntry e) + 1),
       pc_RetainedID = (case ret of None \<Rightarrow> [] | Some i \<Rightarrow> i)\<rparr>)"

text \<open>The entries the plan removes, in the order of their identifiers.\<close>

definition doomed :: "project_root \<Rightarrow> PruneOptions \<Rightarrow> storedEntry list \<Rightarrow> storedEntry list" where
  "doomed prt o0 entries =
     (let own = filter (in_plan o0) entries; slices = map se_s own in
      filter (\<lambda>e. \<not> (protected prt o0 (se_s e) \<or> reasons prt o0 slices (se_s e) = []))
        (go_sort (\<lambda>a b. sl_ID (se_s a) < sl_ID (se_s b)) own))"

text \<open>A project root that cannot be opened safely is an error; the plan then stands at its empty result.\<close>

definition planPrune ::
  "(string \<Rightarrow> string) \<Rightarrow> (sliceDTO \<Rightarrow> nat) \<Rightarrow> bool \<Rightarrow> project_root \<Rightarrow> PruneOptions \<Rightarrow> storedEntry list \<Rightarrow> prune_err option \<times> PruneResult" where
  "planPrune clean blen rootOK prt o0 entries =
     (let r = emptyPruneResult o0; own = filter (in_plan o0) entries; slices = map se_s own; gone = doomed prt o0 entries in
      if po_ProjectRoot o0 \<noteq> [] \<and> \<not> rootOK then (Some BadRoot, r)
      else
        let r = r\<lparr>pr_Checked := int (length own),
              pr_SkippedChecks := pr_SkippedChecks r @
                (if list_ex (\<lambda>s. snd (dep_verdict prt o0 s)) slices then [(''missing_dependency'', ''ambiguous_dependencies_retained'')] else [])\<rparr>;
            cs = map (\<lambda>e. candidate_of clean blen (reasons prt o0 slices (se_s e)) (retained prt o0 slices (se_s e)) e)
                 (takeWhile (\<lambda>e. dto_ok (dtoFromEntry e)) gone);
            r = r\<lparr>pr_Candidates := cs, pr_Bytes := sum_list (map pc_Bytes cs)\<rparr>
        in if list_ex (\<lambda>e. \<not> dto_ok (dtoFromEntry e)) gone then (Some Serialize, r)
           else (None, r\<lparr>pr_Kept := int (length own) - int (length cs)\<rparr>))"

section \<open>The commit\<close>

record prune_env =
  pe_clock :: int
  pe_exists :: bool
  pe_preflight :: bool
  pe_shaOK :: bool
  pe_strict_base :: "sliceDTO fline \<Rightarrow> bool"
  pe_strict_line :: "jentry fline \<Rightarrow> bool"
  pe_rootOK :: bool
  pe_root :: project_root
  pe_clean :: "string \<Rightarrow> string"
  pe_readOK :: bool
  pe_archiveOK :: bool
  pe_journalOK :: bool
  pe_renameOK :: bool
  pe_blen :: "sliceDTO \<Rightarrow> nat"
  pe_jlen :: "journalRecord \<Rightarrow> nat"
  pe_hlen :: "journalHeader \<Rightarrow> nat"

definition invalid_record :: "jentry fline \<Rightarrow> bool" where
  "invalid_record l =
     (case l of Good (JRec r) _ \<Rightarrow>
        jr_Op r = ''del'' \<and> jr_ID r = [] \<or> jr_Op r = ''stat'' \<and> (jr_ID r = [] \<or> jr_D r = None)
      | _ \<Rightarrow> False)"

text \<open>
  The read-only load: it repairs nothing, a journal that would be moved aside is an error, and so is a line the strict
  decoder refuses.
\<close>

definition readable :: "'a fline \<Rightarrow> bool" where
  "readable l \<longleftrightarrow> line_len l \<le> maxImportLine \<and> (case l of Blank _ \<Rightarrow> False | _ \<Rightarrow> True)"

definition load_readonly :: "prune_env \<Rightarrow> Disk \<Rightarrow> fileStore option" where
  "load_readonly pe d =
     (let s = fold load_base_line (dk_base d) (new_store d);
          s = s\<lparr>fs_baseSize := file_size (dk_base d), fs_baseMtime := dk_bmtime d\<rparr> in
      if list_ex (\<lambda>l. readable l \<and> \<not> pe_strict_base pe l) (dk_base d) then None
      else case dk_journal d of
             None \<Rightarrow> Some s
           | Some f \<Rightarrow>
               (case all_lines f of
                  [] \<Rightarrow> None
                | h # ls \<Rightarrow>
                    if line_len h > maxImportLine \<or> \<not> pe_strict_line pe h then None
                    else (case h of
                      Good (JHdr hdr) _ \<Rightarrow>
                        if jh_J hdr \<noteq> journalVersion \<or> jh_BSize hdr \<noteq> fs_baseSize s \<or> jh_BMtime hdr \<noteq> fs_baseMtime s then None
                        else if \<not> pe_shaOK pe then None
                        else if list_ex (\<lambda>l. readable l \<and> (\<not> pe_strict_line pe l \<or> invalid_record l)) ls then None
                        else Some (fold load_journal_line ls s)
                    | _ \<Rightarrow> None)))"

fun terminated :: "'a fline \<Rightarrow> 'a fline" where
  "terminated (Good x n) = Good x (n + 1)" | "terminated (Junk n) = Junk (n + 1)" | "terminated (Blank n) = Blank (n + 1)"

text \<open>The journal with a complete last line, or a new one, followed by one deletion per candidate.\<close>

definition complete_journal :: "prune_env \<Rightarrow> fileStore \<Rightarrow> jfile" where
  "complete_journal pe s =
     (case dk_journal (fs_disk s) of
        None \<Rightarrow> let hdr = \<lparr>jh_J = journalVersion, jh_BSize = fs_baseSize s, jh_BMtime = fs_baseMtime s\<rparr>
                in \<lparr>jf_lines = [Good (JHdr hdr) (pe_hlen pe hdr)], jf_tail = None\<rparr>
      | Some f \<Rightarrow> \<lparr>jf_lines = jf_lines f @ (case jf_tail f of None \<Rightarrow> [] | Some l \<Rightarrow> [terminated l]), jf_tail = None\<rparr>)"

definition pruneFile :: "prune_env \<Rightarrow> PruneOptions \<Rightarrow> Disk \<Rightarrow> prune_err option \<times> PruneResult \<times> Disk \<times> sliceDTO list" where
  "pruneFile pe opts d =
     (case normalized (pe_clock pe) opts of
        Inl e \<Rightarrow> (Some e, emptyPruneResult opts, d, [])
      | Inr o0 \<Rightarrow>
          if \<not> pe_exists pe then (if dk_journal d = None then None else Some OrphanJournal, emptyPruneResult o0, d, [])
          else if \<not> pe_preflight pe then (Some Preflight, emptyPruneResult o0, d, [])
          else case load_readonly pe d of
                 None \<Rightarrow> (Some Unhealthy, emptyPruneResult o0, d, [])
               | Some s \<Rightarrow>
                   if fs_baseSkipped s + fs_journalSkipped s > 0 then (Some CorruptRecords, emptyPruneResult o0, d, [])
                   else
                     let (err, r) = planPrune (pe_clean pe) (pe_blen pe) (pe_rootOK pe) (pe_root pe) o0 (live s) in
                     if err \<noteq> None \<or> \<not> po_Apply o0 \<or> pr_Candidates r = [] then (err, r, d, [])
                     else
                       let archive = map dtoFromEntry (doomed (pe_root pe) o0 (live s));
                           dels = map (\<lambda>c. (del_rec (pc_ID c), pe_jlen pe (del_rec (pc_ID c)) + 1)) (pr_Candidates r);
                           journal = append_recs (complete_journal pe s) dels
                       in if \<not> pe_readOK pe then (Some JournalUnreadable, r, d, [])
                          else if \<not> pe_archiveOK pe then (Some ArchiveFailed, r, d, [])
                          else if \<not> pe_journalOK pe then (Some JournalFailed, r, d, archive)
                          else if \<not> pe_renameOK pe then (Some CommitFailed, r, d, archive)
                          else (None, r\<lparr>pr_Removed := int (length (pr_Candidates r))\<rparr>, d\<lparr>dk_journal := Some journal\<rparr>, archive))"

end
