(* ===== verification/Prune_Correct.thy ===== *)
theory Prune_Correct
  imports Prune File_Store_Correct
begin

text \<open>
  Pruning is conservative and atomic: a plan names only slices that are not protected, the representative of a removed duplicate
  survives, and a library file changes only in the final rename, after which opening it finds exactly
  the slices the plan keeps, with the removed ones in the archive.
\<close>

section \<open>The plan\<close>

lemma find_SomeD: "find P xs = Some x \<Longrightarrow> x \<in> set xs \<and> P x"
  by (induction xs) (auto split: if_splits)

lemma doomedD:
  assumes "e \<in> set (doomed prt o0 entries)"
  shows "e \<in> set entries" "in_plan o0 e" "\<not> protected prt o0 (se_s e)"
    "reasons prt o0 (map se_s (filter (in_plan o0) entries)) (se_s e) \<noteq> []"
  using assms by (auto simp: doomed_def Let_def)

lemma doomedI:
  assumes "e \<in> set entries" "in_plan o0 e" "\<not> protected prt o0 (se_s e)"
    "reasons prt o0 (map se_s (filter (in_plan o0) entries)) (se_s e) \<noteq> []"
  shows "e \<in> set (doomed prt o0 entries)"
  using assms by (auto simp: doomed_def Let_def)

lemma representative_survives:
  assumes "representative prt o0 slices s = Some rep"
  shows "rep \<in> set slices" "duplicateKey rep = duplicateKey s" "sl_Content rep \<noteq> []"
    "protected prt o0 rep \<or> reasons prt o0 slices rep = []"
proof -
  let ?g = "filter (\<lambda>x. sl_Content x \<noteq> [] \<and> duplicateKey x = duplicateKey s) slices"
  have f: "find (\<lambda>x. protected prt o0 x \<or> base_reasons prt o0 x = []) (go_sort (rep_before prt o0) ?g) = Some rep" "sl_Content s \<noteq> []" "\<not> length ?g < 2"
    using assms by (auto simp: representative_def Let_def split: if_splits)
  have rep: "rep \<in> set ?g" "protected prt o0 rep \<or> base_reasons prt o0 rep = []" using find_SomeD [OF f(1)] by auto
  then show "rep \<in> set slices" "duplicateKey rep = duplicateKey s" "sl_Content rep \<noteq> []" by auto
  then have "representative prt o0 slices rep = representative prt o0 slices s" using f(2) by (simp add: representative_def Let_def)
  then have "retained prt o0 slices rep = None" using assms by (simp add: retained_def)
  then show "protected prt o0 rep \<or> reasons prt o0 slices rep = []" using rep(2) by (auto simp: reasons_def)
qed

lemma retained_survives:
  assumes "retained prt o0 (map se_s (filter (in_plan o0) entries)) s = Some i" "distinct (map (\<lambda>e. sl_ID (se_s e)) entries)"
  shows "\<exists>e\<in>set entries. sl_ID (se_s e) = i \<and> i \<noteq> sl_ID s \<and> duplicateKey (se_s e) = duplicateKey s \<and>
    i \<notin> (\<lambda>e. sl_ID (se_s e)) ` set (doomed prt o0 entries)"
proof -
  let ?sl = "map se_s (filter (in_plan o0) entries)"
  obtain rep where rep: "representative prt o0 ?sl s = Some rep" "i = sl_ID rep" "sl_ID s \<noteq> sl_ID rep"
    using assms(1) by (auto simp: retained_def split: option.splits if_splits)
  note R = representative_survives [OF rep(1)]
  obtain e where e: "e \<in> set entries" "in_plan o0 e" "rep = se_s e" using R(1) by auto
  have "e' = e" if "e' \<in> set (doomed prt o0 entries)" "sl_ID (se_s e') = i" for e'
    using doomedD(1) [OF that(1)] e that(2) rep(2) assms(2) by (auto simp: distinct_map dest!: inj_onD)
  moreover have "e \<notin> set (doomed prt o0 entries)" using R(4) e(3) by (auto dest: doomedD(3,4))
  ultimately show ?thesis using e rep R(2) by (intro bexI [of _ e]) auto
qed

text \<open>The reasons given are true.\<close>

lemma reasons_true:
  "''exact_duplicate'' \<in> set (reasons prt o0 slices s) \<longleftrightarrow> retained prt o0 slices s \<noteq> None"
  "''stale_unused'' \<in> set (reasons prt o0 slices s) \<Longrightarrow> sl_CreatedAt s < po_Now o0 - po_OlderThanDays o0 * 86400 \<and>
     st_LastUsed (sl_Stats s) < po_Now o0 - po_OlderThanDays o0 * 86400"
  by (auto simp: reasons_def base_reasons_def Let_def split: if_splits)

section \<open>The library file\<close>

lemma load_readonly_live:
  assumes "load_readonly pe d = Some s"
  shows "mem_inv s" "live s = disk_live d" "outer s = (False, file_size (dk_base d), dk_bmtime d, None, d)"
    "\<And>f. dk_journal d = Some f \<Longrightarrow> all_lines f \<noteq> [] \<and> hdr_ok (file_size (dk_base d)) (dk_bmtime d) (hd (all_lines f))"
proof -
  define s0 where "s0 = (fold load_base_line (dk_base d) (new_store d))
    \<lparr>fs_baseSize := file_size (dk_base d), fs_baseMtime := dk_bmtime d\<rparr>"
  have b: "mem_inv s0" "live s0 = base_live d" "outer s0 = (False, file_size (dk_base d), dk_bmtime d, None, d)"
    using load_base_lines [OF mem_inv_new_store, of "dk_base d" d]
    by (auto simp: s0_def mem_inv_def live_def outer_def base_live_def new_store_def)
  have f: "all_lines f \<noteq> [] \<and> hdr_ok (file_size (dk_base d)) (dk_bmtime d) (hd (all_lines f)) \<and>
      s = fold load_journal_line (tl (all_lines f)) s0" if "dk_journal d = Some f" for f
    using assms that b(3) unfolding load_readonly_def Let_def s0_def [symmetric]
    by (auto simp: hdr_ok_def outer_def split: if_splits list.splits fline.splits jentry.splits)
  have n: "s = s0" if "dk_journal d = None"
    using assms that unfolding load_readonly_def Let_def s0_def [symmetric] by (auto split: if_splits)
  show "mem_inv s" "live s = disk_live d" "outer s = (False, file_size (dk_base d), dk_bmtime d, None, d)"
    "\<And>f. dk_journal d = Some f \<Longrightarrow> all_lines f \<noteq> [] \<and> hdr_ok (file_size (dk_base d)) (dk_bmtime d) (hd (all_lines f))"
    using f n b load_journal_lines [OF b(1)] by (cases "dk_journal d"; auto simp: disk_live_eq)+
qed

lemma line_effect_terminated: "line_len l < maxImportLine \<Longrightarrow> line_effect (terminated l) = line_effect l"
  by (cases l) (auto simp: line_effect_def fun_eq_iff)

lemma hdr_ok_terminated: "line_len l < maxImportLine \<Longrightarrow> hdr_ok a b (terminated l) = hdr_ok a b l"
  by (cases l) (auto simp: hdr_ok_def)

definition tail_fits :: "Disk \<Rightarrow> bool" where
  "tail_fits d \<longleftrightarrow> (case dk_journal d of None \<Rightarrow> True | Some f \<Rightarrow> (case jf_tail f of None \<Rightarrow> True | Some l \<Rightarrow> line_len l < maxImportLine))"

text \<open>Completing the last line, or starting a journal, changes nothing of what opening the file finds.\<close>

lemma complete_journal_live:
  assumes "load_readonly pe d = Some s" "tail_fits d" "\<And>h. pe_hlen pe h \<le> maxImportLine"
  obtains h ls where "complete_journal pe s = \<lparr>jf_lines = h # ls, jf_tail = None\<rparr>"
    "hdr_ok (file_size (dk_base d)) (dk_bmtime d) h" "disk_live (d\<lparr>dk_journal := Some (complete_journal pe s)\<rparr>) = disk_live d"
proof -
  note L = load_readonly_live [OF assms(1)]
  have o: "fs_disk s = d" "fs_baseSize s = file_size (dk_base d)" "fs_baseMtime s = dk_bmtime d" using L(3) by (auto simp: outer_def)
  let ?c = "complete_journal pe s"
  have "jf_tail ?c = None \<and> jf_lines ?c \<noteq> [] \<and> hdr_ok (file_size (dk_base d)) (dk_bmtime d) (hd (jf_lines ?c)) \<and>
      disk_live (d\<lparr>dk_journal := Some ?c\<rparr>) = disk_live d"
  proof (cases "dk_journal d")
    case None
    then show ?thesis using o assms(3) by (simp add: complete_journal_def Let_def hdr_ok_def disk_live_eq all_lines_def base_live_def)
  next
    case (Some f)
    note F = L(4) [OF Some]
    show ?thesis
    proof (cases "jf_tail f")
      case None
      then show ?thesis using F o Some by (simp add: complete_journal_def disk_live_eq all_lines_def base_live_def)
    next
      case (Some l)
      then have l: "line_len l < maxImportLine" using assms(2) \<open>dk_journal d = Some f\<close> by (simp add: tail_fits_def)
      have c: "?c = \<lparr>jf_lines = jf_lines f @ [terminated l], jf_tail = None\<rparr>" using Some o \<open>dk_journal d = Some f\<close> by (simp add: complete_journal_def)
      show ?thesis unfolding c using F Some \<open>dk_journal d = Some f\<close>
        by (cases "jf_lines f") (simp_all add: disk_live_eq all_lines_def base_live_def line_effect_terminated [OF l] hdr_ok_terminated [OF l])
    qed
  qed
  then show ?thesis using that [of "hd (jf_lines ?c)" "tl (jf_lines ?c)"] by (cases ?c) auto
qed

lemma deletions_effect:
  assumes "\<And>r. pe_jlen pe r < maxImportLine"
  shows "recs_effect (map (\<lambda>i. (del_rec i, pe_jlen pe (del_rec i) + 1)) ids) L = filter (\<lambda>e. eid e \<notin> set ids) L"
proof (induction ids arbitrary: L)
  case (Cons i ids)
  have "line_effect (Good (JRec (del_rec i)) (pe_jlen pe (del_rec i) + 1)) L = filter (\<lambda>e. eid e \<noteq> i) L"
    using assms [of "del_rec i"] by (simp add: line_effect_def rec_effect_def del_rec_def spec_del_def not_less Suc_le_eq)
  then show ?case using Cons [of "filter (\<lambda>e. eid e \<noteq> i) L"] by (simp add: recs_effect_def conj_commute)
qed (simp add: recs_effect_def)

lemma plan_candidates:
  assumes "planPrune clean blen rok prt o0 entries = (None, r)"
  shows "pr_Candidates r = map (\<lambda>e. candidate_of clean blen (reasons prt o0 (map se_s (filter (in_plan o0) entries)) (se_s e))
      (retained prt o0 (map se_s (filter (in_plan o0) entries)) (se_s e)) e) (doomed prt o0 entries)"
    and "\<forall>e\<in>set (doomed prt o0 entries). dto_ok (dtoFromEntry e)"
    and "pr_Checked r = int (length (filter (in_plan o0) entries))" "pr_Kept r = pr_Checked r - int (length (pr_Candidates r))"
proof -
  show ok: "\<forall>e\<in>set (doomed prt o0 entries). dto_ok (dtoFromEntry e)"
    using assms by (auto simp: planPrune_def Let_def list_ex_iff split: if_splits)
  then have tw: "takeWhile (\<lambda>e. dto_ok (dtoFromEntry e)) (doomed prt o0 entries) = doomed prt o0 entries" by (simp add: takeWhile_eq_all_conv)
  show "pr_Candidates r = map (\<lambda>e. candidate_of clean blen (reasons prt o0 (map se_s (filter (in_plan o0) entries)) (se_s e))
      (retained prt o0 (map se_s (filter (in_plan o0) entries)) (se_s e)) e) (doomed prt o0 entries)"
    "pr_Checked r = int (length (filter (in_plan o0) entries))" "pr_Kept r = pr_Checked r - int (length (pr_Candidates r))"
    using assms unfolding planPrune_def Let_def tw by (auto split: if_splits)
qed

lemma candidate_ids: "planPrune clean blen rok prt o0 entries = (None, r) \<Longrightarrow> map pc_ID (pr_Candidates r) = map eid (doomed prt o0 entries)"
  by (simp add: plan_candidates(1) candidate_of_def Let_def comp_def)

lemma normalized_apply: "normalized clock opts = Inr o0 \<Longrightarrow> po_Apply o0 = po_Apply opts \<and> po_Scope o0 = po_Scope opts"
  by (auto simp: normalized_def Let_def split: if_splits)

text \<open>The one path on which the file changes.\<close>

lemma pruneFile_commit:
  assumes "pruneFile pe opts d = (err, r, d', archive)" "d' \<noteq> d \<or> pr_Removed r \<noteq> 0"
  obtains o0 s r0 where "normalized (pe_clock pe) opts = Inr o0" "po_Apply o0" "load_readonly pe d = Some s" "err = None"
    "planPrune (pe_clean pe) (pe_blen pe) (pe_rootOK pe) (pe_root pe) o0 (live s) = (None, r0)"
    "r = r0\<lparr>pr_Removed := int (length (pr_Candidates r0))\<rparr>" "pr_Candidates r0 \<noteq> []"
    "archive = map dtoFromEntry (doomed (pe_root pe) o0 (live s))"
    "d' = d\<lparr>dk_journal := Some (append_recs (complete_journal pe s)
       (map (\<lambda>c. (del_rec (pc_ID c), pe_jlen pe (del_rec (pc_ID c)) + 1)) (pr_Candidates r0)))\<rparr>"
proof -
  have z: "pr_Removed (emptyPruneResult o0) = 0" for o0 by (simp add: emptyPruneResult_def)
  obtain o0 where o: "normalized (pe_clock pe) opts = Inr o0" using assms z by (auto simp: pruneFile_def split: sum.splits)
  then obtain s where s: "load_readonly pe d = Some s" using assms z by (auto simp: pruneFile_def split: if_splits option.splits)
  obtain e0 r0 where p: "planPrune (pe_clean pe) (pe_blen pe) (pe_rootOK pe) (pe_root pe) o0 (live s) = (e0, r0)" by (rule prod.exhaust)
  have r0: "pr_Removed r0 = 0" using p z by (auto simp: planPrune_def Let_def split: if_splits)
  show thesis using assms o s p z r0 by (auto simp: pruneFile_def Let_def split: if_splits intro!: that)
qed

section \<open>A library with a duplicate\<close>

definition dup_entry :: "string \<Rightarrow> int \<Rightarrow> storedEntry" where
  "dup_entry k t = entryFromSlice (zero_slice\<lparr>sl_ID := k, sl_Scope := Project, sl_Content := ''x'', sl_CreatedAt := t\<rparr>)"

definition dup_disk :: Disk where
  "dup_disk = \<lparr>dk_base = [Good (dtoFromEntry (dup_entry ''a'' 1728000)) 30, Good (dtoFromEntry (dup_entry ''b'' 2592000)) 30],
     dk_bmtime = 5, dk_journal = None, dk_stash = []\<rparr>"

definition dup_env :: prune_env where
  "dup_env = \<lparr>pe_clock = 8640000, pe_exists = True, pe_preflight = True, pe_shaOK = True, pe_strict_base = (\<lambda>_. True),
     pe_strict_line = (\<lambda>_. True), pe_rootOK = True, pe_root = None, pe_clean = (\<lambda>s. s), pe_readOK = True, pe_archiveOK = True, pe_journalOK = True,
     pe_renameOK = True, pe_blen = (\<lambda>_. 29), pe_jlen = (\<lambda>_. 20), pe_hlen = (\<lambda>_. 20)\<rparr>"

definition dup_opts :: PruneOptions where
  "dup_opts = \<lparr>po_Scope = Project, po_Apply = True, po_OlderThanDays = 0, po_RecentDays = 0, po_Project = [], po_ProjectRoot = [], po_Now = 0\<rparr>"

definition dup_norm :: PruneOptions where
  "dup_norm = dup_opts\<lparr>po_OlderThanDays := 90, po_RecentDays := 30, po_Now := 8640000\<rparr>"

lemma dup_entry_facts: "eid (dup_entry k t) = k" "d_ID (dtoFromEntry (dup_entry k t)) = k"
  "k \<noteq> [] \<Longrightarrow> entryFromDTO (dtoFromEntry (dup_entry k t)) = dup_entry k t"
  by (simp_all add: dup_entry_def entryFromDTO_def entryFromSlice_def zero_slice_def dtoFromEntry_def)

lemma dup_disk_live: "disk_live dup_disk = [dup_entry ''a'' 1728000, dup_entry ''b'' 2592000]"
  by (simp add: dup_disk_def disk_live_def base_live_def base_effect_def maxImportLine_def spec_put_def dup_entry_facts)

lemma dup_opts_normalized: "normalized 8640000 dup_opts = Inr dup_norm"
  by (simp add: normalized_def dup_opts_def dup_norm_def)

lemma dup_doomed: "map eid (doomed None dup_norm
    [dup_entry ''a'' 1728000, dup_entry ''b'' 2592000]) = [''a'']"
  by code_simp

lemma dup_plan: "fst (planPrune (\<lambda>s. s) (\<lambda>_. 29) True None dup_norm
    [dup_entry ''a'' 1728000, dup_entry ''b'' 2592000]) = None"
  by code_simp

lemma dup_loaded: "\<exists>s. load_readonly dup_env dup_disk = Some s \<and> fs_baseSkipped s + fs_journalSkipped s = 0"
  by (simp add: load_readonly_def Let_def dup_env_def dup_disk_def load_base_line_def maxImportLine_def dup_entry_facts
      upsertLocked_def new_store_def m_get_def)

lemma dup_run: "\<exists>r d' archive. pruneFile dup_env dup_opts dup_disk = (None, r, d', archive) \<and> map pc_ID (pr_Candidates r) = [''a''] \<and> pr_Removed r = 1"
proof -
  obtain s where s: "load_readonly dup_env dup_disk = Some s" "fs_baseSkipped s + fs_journalSkipped s = 0" by (rule exE [OF dup_loaded]) (elim conjE, rule that)
  have l: "live s = [dup_entry ''a'' 1728000, dup_entry ''b'' 2592000]" using load_readonly_live(2) [OF s(1)] dup_disk_live by simp
  let ?p = "planPrune (\<lambda>s. s) (\<lambda>_. 29) True None dup_norm (live s)"
  have p: "?p = (None, snd ?p)" using dup_plan l by (metis prod.collapse)
  have c: "map pc_ID (pr_Candidates (snd ?p)) = [''a'']" using candidate_ids [OF p] dup_doomed l by simp
  then have "pr_Candidates (snd ?p) \<noteq> []" "length (pr_Candidates (snd ?p)) = 1"
    by (auto simp del: length_map dest: arg_cong [where f = length])
  moreover have "po_Apply dup_norm" "normalized (pe_clock dup_env) dup_opts = Inr dup_norm"
    "pe_exists dup_env" "pe_preflight dup_env" "pe_readOK dup_env" "pe_archiveOK dup_env" "pe_journalOK dup_env" "pe_renameOK dup_env"
    "planPrune (pe_clean dup_env) (pe_blen dup_env) (pe_rootOK dup_env) (pe_root dup_env) dup_norm (live s) = (None, snd ?p)"
    using dup_opts_normalized p by (simp_all add: dup_env_def dup_opts_def dup_norm_def)
  ultimately show ?thesis using s c by (simp add: pruneFile_def)
qed

section \<open>Properties\<close>

text \<open>
  C8. A plan is conservative: every candidate is a slice of the requested scope that no protection rule and no
  ambiguous dependency covers, it has a reason, a duplicate names another slice with the same key that the plan keeps, and the
  counts add up.
\<close>

theorem prune_plan_safe:
  assumes "planPrune clean blen rok prt o0 entries = (None, r)" "distinct (map eid entries)"
  shows "pr_Kept r + int (length (pr_Candidates r)) = pr_Checked r \<and>
    (\<forall>c\<in>set (pr_Candidates r). pc_Reasons c \<noteq> [] \<and>
       (\<exists>e\<in>set entries. eid e = pc_ID c \<and> in_plan o0 e \<and> \<not> pruneProtected o0 (se_s e) \<and> \<not> snd (dep_verdict prt o0 (se_s e)) \<and>
         (''exact_duplicate'' \<in> set (pc_Reasons c) \<longrightarrow>
            (\<exists>k\<in>set entries. eid k = pc_RetainedID c \<and> k \<noteq> e \<and> duplicateKey (se_s k) = duplicateKey (se_s e) \<and>
               pc_RetainedID c \<notin> pc_ID ` set (pr_Candidates r)))))"
proof (intro conjI ballI)
  note P = plan_candidates [OF assms(1)]
  show "pr_Kept r + int (length (pr_Candidates r)) = pr_Checked r" using P(4) by simp
  fix c assume c: "c \<in> set (pr_Candidates r)"
  let ?sl = "map se_s (filter (in_plan o0) entries)"
  obtain e where e: "e \<in> set (doomed prt o0 entries)" "c = candidate_of clean blen (reasons prt o0 ?sl (se_s e)) (retained prt o0 ?sl (se_s e)) e"
    using c P(1) by auto
  have f: "pc_ID c = eid e" "pc_Reasons c = reasons prt o0 ?sl (se_s e)" "\<And>i. retained prt o0 ?sl (se_s e) = Some i \<Longrightarrow> pc_RetainedID c = i"
    by (simp_all add: e(2) candidate_of_def Let_def)
  have ids: "pc_ID ` set (pr_Candidates r) = eid ` set (doomed prt o0 entries)"
    using candidate_ids [OF assms(1)] by (metis image_set)
  have "\<exists>k\<in>set entries. eid k = pc_RetainedID c \<and> k \<noteq> e \<and> duplicateKey (se_s k) = duplicateKey (se_s e) \<and>
      pc_RetainedID c \<notin> pc_ID ` set (pr_Candidates r)" if "''exact_duplicate'' \<in> set (pc_Reasons c)"
  proof -
    have "''exact_duplicate'' \<in> set (reasons prt o0 ?sl (se_s e))" using that f(2) by simp
    then obtain i where i: "retained prt o0 ?sl (se_s e) = Some i" unfolding reasons_true(1) by auto
    show ?thesis using retained_survives [OF i assms(2)] f(3) [OF i] ids by auto
  qed
  moreover have "pc_Reasons c \<noteq> []" "e \<in> set entries" "eid e = pc_ID c" "in_plan o0 e" "\<not> pruneProtected o0 (se_s e)"
    "\<not> snd (dep_verdict prt o0 (se_s e))"
    using doomedD [OF e(1)] f by (auto simp: protected_def)
  ultimately show "pc_Reasons c \<noteq> []"
    "\<exists>e\<in>set entries. eid e = pc_ID c \<and> in_plan o0 e \<and> \<not> pruneProtected o0 (se_s e) \<and> \<not> snd (dep_verdict prt o0 (se_s e)) \<and>
         (''exact_duplicate'' \<in> set (pc_Reasons c) \<longrightarrow>
            (\<exists>k\<in>set entries. eid k = pc_RetainedID c \<and> k \<noteq> e \<and> duplicateKey (se_s k) = duplicateKey (se_s e) \<and>
               pc_RetainedID c \<notin> pc_ID ` set (pr_Candidates r)))" by blast+
qed

theorem prune_plan_safe_witness:
  "let entries = [dup_entry ''a'' 1728000, dup_entry ''b'' 2592000];
       p = planPrune (\<lambda>s. s) (\<lambda>_. 29) True None dup_norm entries in
   fst p = None \<and> distinct (map eid entries) \<and> map pc_ID (pr_Candidates (snd p)) = [''a''] \<and> pr_Kept (snd p) + 1 = pr_Checked (snd p)"
proof -
  let ?entries = "[dup_entry ''a'' 1728000, dup_entry ''b'' 2592000]"
  let ?p = "planPrune (\<lambda>s. s) (\<lambda>_. 29) True None dup_norm ?entries"
  have p: "?p = (None, snd ?p)" using dup_plan by (metis prod.collapse)
  have d: "distinct (map eid ?entries)" by (simp add: dup_entry_facts)
  have c: "map pc_ID (pr_Candidates (snd ?p)) = [''a'']" using candidate_ids [OF p] dup_doomed by simp
  then have "length (pr_Candidates (snd ?p)) = 1" by (metis length_map length_Cons list.size(3) One_nat_def)
  then have "pr_Kept (snd ?p) + 1 = pr_Checked (snd ?p)" using prune_plan_safe [OF p d] by simp
  then show ?thesis unfolding Let_def using dup_plan d c by blast
qed

text \<open>
  C7. Pruning is atomic and lossless. Whatever fails before the last rename, the library file is left as it was and
  nothing is reported removed; after the rename, opening the file finds exactly the slices that are not candidates,
  and the archive decodes to exactly the entries that are gone.
\<close>

theorem prune_commit_atomic:
  assumes "pruneFile pe opts d = (err, r, d', archive)" "tail_fits d"
    "\<And>h. pe_hlen pe h \<le> maxImportLine" "\<And>x. pe_jlen pe x < maxImportLine"
  shows "d' = d \<and> pr_Removed r = 0 \<or>
    err = None \<and> po_Apply opts \<and> pr_Removed r = int (length (pr_Candidates r)) \<and> dk_base d' = dk_base d \<and>
    disk_live d' = filter (\<lambda>e. eid e \<notin> pc_ID ` set (pr_Candidates r)) (disk_live d) \<and>
    entryFromDTO ` set archive = {e \<in> set (disk_live d). eid e \<in> pc_ID ` set (pr_Candidates r)}"
proof (cases "d' = d \<and> pr_Removed r = 0")
  case False
  then have ne: "d' \<noteq> d \<or> pr_Removed r \<noteq> 0" by blast
  from pruneFile_commit [OF assms(1) ne] obtain o0 s r0 where
    o: "normalized (pe_clock pe) opts = Inr o0" "po_Apply o0" "load_readonly pe d = Some s" "err = None"
    and p: "planPrune (pe_clean pe) (pe_blen pe) (pe_rootOK pe) (pe_root pe) o0 (live s) = (None, r0)"
    and r: "r = r0\<lparr>pr_Removed := int (length (pr_Candidates r0))\<rparr>"
    and a: "archive = map dtoFromEntry (doomed (pe_root pe) o0 (live s))"
    and d': "d' = d\<lparr>dk_journal := Some (append_recs (complete_journal pe s)
       (map (\<lambda>c. (del_rec (pc_ID c), pe_jlen pe (del_rec (pc_ID c)) + 1)) (pr_Candidates r0)))\<rparr>" .
  note L = load_readonly_live [OF o(3)]
  let ?ids = "map pc_ID (pr_Candidates r0)"
  let ?dels = "map (\<lambda>i. (del_rec i, pe_jlen pe (del_rec i) + 1)) ?ids"
  let ?G = "set (doomed (pe_root pe) o0 (live s))"
  have ids: "set ?ids = eid ` ?G" using candidate_ids [OF p] by simp
  have gone: "?G = {e \<in> set (live s). eid e \<in> set ?ids}"
    using ids doomedD(1) [of _ "pe_root pe" o0 "live s"] distinct_live [OF L(1)] by (auto simp: distinct_map dest: inj_onD)
  obtain h ls where c: "complete_journal pe s = \<lparr>jf_lines = h # ls, jf_tail = None\<rparr>"
    "hdr_ok (file_size (dk_base d)) (dk_bmtime d) h" "disk_live (d\<lparr>dk_journal := Some (complete_journal pe s)\<rparr>) = disk_live d"
    using complete_journal_live [OF o(3) assms(2,3)] by metis
  let ?d = "d\<lparr>dk_journal := Some (complete_journal pe s)\<rparr>"
  have "d' = ?d\<lparr>dk_journal := Some (append_recs \<lparr>jf_lines = h # ls, jf_tail = None\<rparr> ?dels)\<rparr>"
    by (simp add: d' c(1) comp_def)
  then have "disk_live d' = recs_effect ?dels (disk_live ?d)"
    using disk_live_append [of ?d h ls ?dels] c by simp
  then have live': "disk_live d' = filter (\<lambda>e. eid e \<notin> set ?ids) (disk_live d)"
    unfolding deletions_effect [OF assms(4), where ids = ?ids] c(3) .
  have "entryFromDTO (dtoFromEntry e) = e" if "e \<in> ?G" for e
    using doomedD(1) [OF that] disk_live_wf [of d] L(2) live_not_dead [of e s] by (intro entry_roundtrip) auto
  then have "entryFromDTO ` set archive = ?G" by (force simp: a image_image)
  then show ?thesis using live' gone L(2) r o normalized_apply [OF o(1)] d' by auto
qed simp

theorem prune_commit_atomic_witness:
  "\<exists>r d' archive. pruneFile dup_env dup_opts dup_disk = (None, r, d', archive) \<and> tail_fits dup_disk \<and>
     (\<forall>h. pe_hlen dup_env h \<le> maxImportLine) \<and> (\<forall>x. pe_jlen dup_env x < maxImportLine) \<and>
     map eid (disk_live d') = [''b''] \<and> entryFromDTO ` set archive = {dup_entry ''a'' 1728000}"
proof -
  obtain r d' archive where run: "pruneFile dup_env dup_opts dup_disk = (None, r, d', archive)" "map pc_ID (pr_Candidates r) = [''a'']" "pr_Removed r = 1"
    by (rule exE [OF dup_run]) (elim exE conjE, rule that)
  have len: "tail_fits dup_disk" "pe_hlen dup_env h \<le> maxImportLine" "pe_jlen dup_env x < maxImportLine" for h x
    by (simp_all add: tail_fits_def dup_disk_def dup_env_def maxImportLine_def)
  have ids: "pc_ID ` set (pr_Candidates r) = {''a''}" using run(2) by (metis image_set list.set(1,2))
  have "disk_live d' = filter (\<lambda>e. eid e \<notin> {''a''}) (disk_live dup_disk)"
    "entryFromDTO ` set archive = {e \<in> set (disk_live dup_disk). eid e \<in> {''a''}}"
    using prune_commit_atomic [OF run(1) len] run(3) ids by auto
  moreover have "{e \<in> set [dup_entry ''a'' 1728000, dup_entry ''b'' 2592000]. eid e \<in> {''a''}} = {dup_entry ''a'' 1728000}"
    by (auto simp: dup_entry_facts)
  ultimately show ?thesis using run(1) len by (auto simp: dup_disk_live dup_entry_facts)
qed

end
