(* ===== verification/Unit_Interval.thy ===== *)
theory Unit_Interval
  imports Score Adapt_Correct
begin

text \<open>
  Convex combinations in double precision. A weighted mean of two values of the unit interval, computed as
  \<open>w * a + (1 - w) * b\<close> with a rounding after each operation, stays in the unit interval: the roundings of the
  complement and of the sum are each too small to pass one. The fusion of two retrieval routes and the moving averages of the
  evolution engine both rest on it.
\<close>

lemma rne_dist: "\<bar>of_int (rne y) - y\<bar> \<le> 1/2"
proof -
  define d where "d = y - of_int \<lfloor>y\<rfloor>"
  have "0 \<le> d" "d < 1" unfolding d_def by linarith+
  moreover have "rne y = (if d < 1/2 then \<lfloor>y\<rfloor> else if 1/2 < d then \<lfloor>y\<rfloor> + 1 else if even \<lfloor>y\<rfloor> then \<lfloor>y\<rfloor> else \<lfloor>y\<rfloor> + 1)"
    by (simp add: rne_def Let_def d_def)
  moreover have "y = of_int \<lfloor>y\<rfloor> + d" by (simp add: d_def)
  ultimately show ?thesis by (auto simp: abs_le_iff)
qed

lemma rq_error:
  assumes "0 < x" "x < 1" shows "\<bar>rq x - x\<bar> \<le> 1 / 2 ^ 54"
proof -
  define e where "e = max (bexp x - 52) (- 1074)"
  have "pow2 (bexp x) < pow2 0" using bexp_bounds(1) [of x] assms by (simp add: pow2_def)
  then have "e \<le> - 53" using pow2_less_cancel [of "bexp x" 0] by (simp add: e_def)
  then have "pow2 e \<le> pow2 (- 53)" by (rule pow2_mono)
  moreover have "\<bar>rq x - x\<bar> = \<bar>of_int (rne (x / pow2 e)) - x / pow2 e\<bar> * pow2 e"
  proof -
    have "rq x - x = (of_int (rne (x / pow2 e)) - x / pow2 e) * pow2 e"
      using assms by (simp add: rq_def Let_def e_def left_diff_distrib)
    then show ?thesis by (simp add: abs_mult)
  qed
  ultimately have "\<bar>rq x - x\<bar> \<le> 1/2 * pow2 (- 53)"
    using rne_dist [of "x / pow2 e"] by (metis mult_mono abs_ge_zero less_imp_le pow2_pos zero_le_divide_1_iff zero_le_numeral)
  then show ?thesis by (simp add: pow2_def)
qed

lemma just_above_one: "r64 (1 + 1 / 2 ^ 53) = Fin 1"
  by code_simp

lemma r64_le_one: "x \<le> 1 + 1 / 2 ^ 53 \<Longrightarrow> fle (r64 x) f1"
  using r64_mono [of x "1 + 1 / 2 ^ 53"] just_above_one by simp

lemma complement_sum: assumes "0 \<le> w" "w \<le> 1" shows "w + rq (1 - w) \<le> 1 + 1 / 2 ^ 53"
proof (cases "w = 0 \<or> w = 1")
  case True
  have "rq 1 = 1" using rq_exact [of 1 0] by (simp add: pow2_def)
  then show ?thesis using True by auto
next
  case False
  then have "\<bar>rq (1 - w) - (1 - w)\<bar> \<le> 1 / 2 ^ 54" using assms by (intro rq_error) auto
  then have "rq (1 - w) - (1 - w) \<le> 1 / 2 ^ 53" 
    using abs_ge_self [of "rq (1 - w) - (1 - w)"] power_decreasing [of 53 54 "1/2 :: rat"] by (simp only: power_one_over) linarith
  then show ?thesis by linarith
qed

lemma unit_complement: assumes "in01 w" obtains q c where "w = Fin q" "fsub f1 w = Fin c" "c = rq (1 - q)" "0 \<le> q" "q \<le> 1" "0 \<le> c" "c \<le> 1"
proof -
  from assms obtain q where q: "w = Fin q" "0 \<le> q" "q \<le> 1" by (auto simp: in01_Fin)
  then obtain c where c: "r64 (1 - q) = Fin c" "0 \<le> c" "c \<le> 1" using r64_in01 [of "1 - q"] by (auto simp: in01_Fin)
  then show thesis using that [OF q(1), of c] q by (auto simp: fsub_def r64_rq split: if_splits)
qed

lemma mult_shrinks: assumes "double (Fin q)" "0 \<le> q" "q \<le> 1" "in01 a" obtains p where "fmul (Fin q) a = Fin p" "0 \<le> p" "p \<le> q"
proof -
  from assms(4) obtain x where x: "a = Fin x" "0 \<le> x" "x \<le> 1" by (auto simp: in01_Fin)
  have "in01 (fmul (Fin q) a)" using assms x by (intro in01_fmul) (auto simp: in01_Fin)
  then obtain p where p: "fmul (Fin q) a = Fin p" "0 \<le> p" by (auto simp: in01_Fin)
  have "fle (r64 (q * x)) (r64 q)" using assms x by (intro r64_mono) (auto simp: mult_left_le)
  then show thesis using that p assms(1) x by (simp add: double_def)
qed

lemma convex_unit:
  assumes "double w" "in01 w" "in01 a" "in01 b"
  shows "in01 (fadd (fmul w a) (fmul (fsub f1 w) b))"
proof -
  obtain q c where w: "w = Fin q" "fsub f1 w = Fin c" "c = rq (1 - q)" "0 \<le> q" "q \<le> 1" "0 \<le> c" "c \<le> 1"
    by (rule unit_complement [OF assms(2)])
  have dc: "double (Fin c)" using double_ops(3) [of f1 w] w(2) by simp
  obtain p where p: "fmul (Fin q) a = Fin p" "0 \<le> p" "p \<le> q" using mult_shrinks [of q a] assms w by auto
  obtain r where r: "fmul (Fin c) b = Fin r" "0 \<le> r" "r \<le> c" using mult_shrinks [of c b] assms dc w by auto
  have "p + r \<le> 1 + 1 / 2 ^ 53" using complement_sum [of q] p r w by linarith
  then have "fle (r64 (p + r)) f1" by (rule r64_le_one)
  moreover have "fle f0 (r64 (p + r))" using r64_mono [of 0 "p + r"] p r by (simp add: r64_def)
  ultimately show ?thesis using w p r by (simp add: in01_def)
qed

lemma convex_left: "double w \<Longrightarrow> in01 w \<Longrightarrow> in01 b \<Longrightarrow> in01 (fmul (fsub f1 w) b)"
  by (metis unit_complement in01_Fin in01_fmul)

end
