(* ===== verification/Fuse.thy ===== *)
theory Fuse
  imports BM25
begin

text \<open>
  Fusion of the lexical and the vector route of a hybrid search, \<open>kernel/fuse/fuse.go\<close>. A hit without a slice makes
  the code panic, which is the value \<open>None\<close>. The order in which Go iterates over the merged map is an argument:
  any function that permutes the entries.
\<close>

section \<open>Configuration\<close>

datatype Strategy = Weighted | RRF

definition DefaultRrfK :: int where "DefaultRrfK = 60"

definition DefaultBM25Weight :: f64 where "DefaultBM25Weight = r64 (1/2)"

record FuseConfig =
  fc_Strategy :: Strategy
  fc_RrfK :: int
  fc_BM25Weight :: "f64 option"

definition rrfK :: "FuseConfig \<Rightarrow> int" where
  "rrfK c = (if fc_RrfK c \<le> 0 then DefaultRrfK else fc_RrfK c)"

definition bm25Weight :: "FuseConfig \<Rightarrow> f64" where
  "bm25Weight c = (case fc_BM25Weight c of None \<Rightarrow> DefaultBM25Weight | Some w \<Rightarrow> w)"

section \<open>Weighted average\<close>

fun norm_loop :: "f64 \<Rightarrow> Hit list \<Rightarrow> (string, f64) gomap \<Rightarrow> (string, f64) gomap option" where
  "norm_loop top1 [] m = Some m"
| "norm_loop top1 (h # hs) m =
     (if flt f0 (h_Score h)
      then (case h_Slice h of None \<Rightarrow> None | Some s \<Rightarrow> norm_loop top1 hs (m_set (sl_ID s) (fdiv (h_Score h) top1) m))
      else norm_loop top1 hs m)"

definition normalize :: "Hit list \<Rightarrow> (string, f64) gomap option" where
  "normalize hits =
     (case hits of [] \<Rightarrow> Some []
      | h # _ \<Rightarrow> let top1 = h_Score h in if fle top1 f0 then Some [] else norm_loop top1 hits [])"

fun merge_route :: "Hit list \<Rightarrow> (string, Slice) gomap \<Rightarrow> (string, Slice) gomap option" where
  "merge_route [] m = Some m"
| "merge_route (h # hs) m =
     (case h_Slice h of None \<Rightarrow> None
      | Some s \<Rightarrow> merge_route hs (if m_get m (sl_ID s) = None then m_set (sl_ID s) s m else m))"

definition fused_hit :: "Slice \<Rightarrow> f64 \<Rightarrow> f64 \<Rightarrow> Hit" where
  "fused_hit s sc lx = \<lparr>h_Slice = Some s, h_Score = sc, h_QueryCoverage = f0, h_QueryCoverageValid = False,
     h_Lexical = lx, h_LexicalValid = True\<rparr>"

definition weighted_score :: "f64 \<Rightarrow> (string, f64) gomap \<Rightarrow> (string, f64) gomap \<Rightarrow> string \<Rightarrow> f64" where
  "weighted_score w bmN vecN sid =
     (let sc = (case m_get bmN sid of None \<Rightarrow> f0 | Some v \<Rightarrow> fadd f0 (fmul w v))
      in case m_get vecN sid of None \<Rightarrow> sc | Some v \<Rightarrow> fadd sc (fmul (fsub f1 w) v))"

definition weighted_hit :: "f64 \<Rightarrow> (string, f64) gomap \<Rightarrow> (string, f64) gomap \<Rightarrow> string \<times> Slice \<Rightarrow> Hit option" where
  "weighted_hit w bmN vecN e =
     (let sc = weighted_score w bmN vecN (fst e)
      in if fle sc f0 then None
         else Some (fused_hit (snd e) sc (case m_get bmN (fst e) of None \<Rightarrow> f0 | Some v \<Rightarrow> v)))"

type_synonym iteration = "(string \<times> Slice) list \<Rightarrow> (string \<times> Slice) list"

definition fuseWeighted :: "iteration \<Rightarrow> Hit list \<Rightarrow> Hit list \<Rightarrow> FuseConfig \<Rightarrow> Hit list option" where
  "fuseWeighted it bm vec cfg =
     Option.bind (normalize bm) (\<lambda>bmN. Option.bind (normalize vec) (\<lambda>vecN.
       if bmN = [] \<and> vecN = [] then Some []
       else Option.bind (merge_route bm []) (\<lambda>m. Option.bind (merge_route vec m) (\<lambda>merged.
         Some (go_sort hit_before (List.map_filter (weighted_hit (bm25Weight cfg) bmN vecN) (it merged)))))))"

section \<open>Reciprocal ranks\<close>

fun rrf_route ::
  "int \<Rightarrow> int \<Rightarrow> Hit list \<Rightarrow> (string, Slice) gomap \<times> (string, f64) gomap \<Rightarrow> ((string, Slice) gomap \<times> (string, f64) gomap) option" where
  "rrf_route kk i [] st = Some st"
| "rrf_route kk i (h # hs) st =
     (case h_Slice h of None \<Rightarrow> None
      | Some s \<Rightarrow>
          let (merged, sc) = st; sid = sl_ID s;
              merged = (if m_get merged sid = None then m_set sid s merged else merged);
              sc = m_set sid (fadd (m_get_or f0 sc sid) (fdiv f1 (fadd (fadd (f_of_int kk) (f_of_int i)) f1))) sc
          in rrf_route kk (i + 1) hs (merged, sc))"

definition rrf_hit :: "(string \<Rightarrow> string list) \<Rightarrow> string \<Rightarrow> f64 \<Rightarrow> (string, f64) gomap \<Rightarrow> string \<times> Slice \<Rightarrow> Hit option" where
  "rrf_hit tok query scale sc e =
     (let fused = fmul (m_get_or f0 sc (fst e)) scale
      in if fle fused f0 then None
         else Some (fused_hit (snd e) fused (QueryCoverage tok query (sl_Content (snd e)))))"

definition fuseRRF :: "(string \<Rightarrow> string list) \<Rightarrow> iteration \<Rightarrow> Hit list \<Rightarrow> Hit list \<Rightarrow> string \<Rightarrow> FuseConfig \<Rightarrow> Hit list option" where
  "fuseRRF tok it bm vec query cfg =
     (let kk = rrfK cfg; scale = fdiv (f_of_int (wrap64 (kk + 1))) (Fin 2) in
      Option.bind (rrf_route kk 0 bm ([], [])) (\<lambda>st. Option.bind (rrf_route kk 0 vec st) (\<lambda>(merged, sc).
        if sc = [] then Some []
        else Some (go_sort hit_before (List.map_filter (rrf_hit tok query scale sc) (it merged))))))"

section \<open>The entry point\<close>

definition Fuse :: "(string \<Rightarrow> string list) \<Rightarrow> iteration \<Rightarrow> Hit list \<Rightarrow> Hit list \<Rightarrow> string \<Rightarrow> int \<Rightarrow> FuseConfig \<Rightarrow> Hit list option" where
  "Fuse tok it bm vec query k cfg =
     (if k \<le> 0 then Some []
      else map_option (take (nat k))
        (case fc_Strategy cfg of RRF \<Rightarrow> fuseRRF tok it bm vec query cfg | Weighted \<Rightarrow> fuseWeighted it bm vec cfg))"

end
