(* ===== verification/Fuse_Correct.thy ===== *)
theory Fuse_Correct
  imports Fuse BM25_Correct Unit_Interval
begin

text \<open>
  Both strategies of the fusion emit scores in the half-open unit interval, in double precision, so that the absolute
  floors of the zone classifier keep their meaning; the result is ordered, bounded, free of duplicates and the same for every
  iteration order of the merged map.
\<close>

section \<open>Exactness and relative error\<close>

lemma int_exact: assumes "\<bar>n\<bar> < 2 ^ 53" shows "f_of_int n = Fin (of_int n)"
proof -
  have "rq (of_int n) = of_int n" using rq_exact [OF assms, of 0] by (simp add: pow2_def)
  moreover have "of_int \<bar>n\<bar> < (2 ^ 1024 :: rat)"
  proof -
    have "of_int \<bar>n\<bar> < (of_int (2 ^ 53) :: rat)" using assms by (simp only: of_int_less_iff)
    also have "\<dots> \<le> 2 ^ 1024" by simp
    finally show ?thesis .
  qed
  ultimately show ?thesis by (auto simp: f_of_int_def r64_rq abs_le_iff abs_less_iff)
qed

lemma rq_relative: assumes "pow2 (- 1022) \<le> x" shows "\<bar>rq x - x\<bar> \<le> x / 2 ^ 53"
proof -
  have pos: "0 < x" using assms pow2_pos [of "- 1022"] by linarith
  have b: "pow2 (bexp x) \<le> x" "x < pow2 (bexp x + 1)" using bexp_bounds [of x] pos by auto
  then have "pow2 (- 1022) < pow2 (bexp x + 1)" using assms by linarith
  then have e: "max (bexp x - 52) (- 1074) = bexp x - 52" using pow2_less_cancel by fastforce
  let ?u = "pow2 (bexp x - 52)"
  have "rq x - x = (of_int (rne (x / ?u)) - x / ?u) * ?u" using pos e by (simp add: rq_def Let_def left_diff_distrib)
  then have "\<bar>rq x - x\<bar> \<le> 1/2 * ?u"
    using rne_dist [of "x / ?u"] by (simp add: abs_mult mult_right_mono less_imp_le del: times_divide_eq_left)
  also have "?u = pow2 (bexp x) * pow2 (- 52)" using pow2_add [of "bexp x" "- 52"] by simp
  also have "1/2 * (pow2 (bexp x) * pow2 (- 52)) = pow2 (bexp x) / 2 ^ 53" by (simp add: pow2_def)
  also have "\<dots> \<le> x / 2 ^ 53" using b(1) by (simp add: divide_right_mono)
  finally show ?thesis .
qed

lemma rq_double: "rq (2 * rq x) = 2 * rq x"
proof (cases "x = 0")
  case False
  define e m where "e = max (bexp x - 52) (- 1074)" and "m = rne (x / pow2 e)"
  have r: "rq x = of_int m * pow2 e" using False by (simp add: rq_def Let_def e_def m_def)
  have m: "\<bar>m\<bar> \<le> 2 ^ 53" using mantissa_bound [OF False] by (simp add: m_def e_def)
  have e: "- 1074 \<le> e" by (simp add: e_def)
  have twice: "2 * rq x = of_int m * pow2 (e + 1)" using pow2_add [of e 1] by (simp add: r pow2_def)
  show ?thesis
  proof (cases "\<bar>m\<bar> < 2 ^ 53")
    case True
    then show ?thesis unfolding twice by (rule rq_exact) (use e in simp)
  next
    case False
    then have "m = 2 ^ 53 \<or> m = - (2 ^ 53)" using m by linarith
    then obtain z :: int where z: "\<bar>z\<bar> < 2 ^ 53" "m = z * 2 ^ 53" by (elim disjE) (auto intro: that [of 1] that [of "- 1"])
    have "pow2 (e + 54) = pow2 (e + 1) * 2 ^ 53" using pow2_add [of "e + 1" 53] pow2_nat [of 53] by (simp add: add.assoc)
    then have "2 * rq x = of_int z * pow2 (e + 54)" unfolding twice z(2) by simp
    then show ?thesis using rq_exact [OF z(1), of "e + 54"] e by simp
  qed
qed simp

text \<open>The largest reciprocal-rank score, scaled, does not pass one.\<close>

lemma reciprocal_unit:
  assumes "1 \<le> n" "n \<le> 2 ^ 53" shows "rq (1 / of_int n) * of_int n \<le> 1 + 1 / 2 ^ 53" "0 < rq (1 / of_int n)"
proof -
  let ?x = "1 / of_int n :: rat"
  have "of_int n \<le> (of_int (2 ^ 53) :: rat)" using assms(2) by (simp only: of_int_le_iff)
  then have n: "0 < (of_int n :: rat)" "of_int n \<le> (2 ^ 53 :: rat)" using assms(1) by simp_all
  have "pow2 (- 1022) \<le> pow2 (- 53)" by (rule pow2_mono) simp
  also have "\<dots> \<le> ?x" using n by (simp add: pow2_def frac_le)
  finally have r: "\<bar>rq ?x - ?x\<bar> \<le> ?x / 2 ^ 53" by (rule rq_relative)
  then have "rq ?x \<le> ?x + ?x / 2 ^ 53" using abs_ge_self [of "rq ?x - ?x"] by linarith
  then have "rq ?x * of_int n \<le> (?x + ?x / 2 ^ 53) * of_int n" using n by (intro mult_right_mono) auto
  then show "rq ?x * of_int n \<le> 1 + 1 / 2 ^ 53" using n by (simp add: field_simps)
  have "?x / 2 ^ 53 < ?x" using n by (simp add: field_simps)
  then show "0 < rq ?x" using r by (simp only: abs_le_iff) linarith
qed

section \<open>Routes\<close>

definition route_ok :: "Hit list \<Rightarrow> bool" where
  "route_ok hs \<longleftrightarrow> (\<forall>h\<in>set hs. h_Slice h \<noteq> None) \<and> distinct (map hit_id hs)"

definition led_by_top :: "Hit list \<Rightarrow> bool" where
  "led_by_top hs \<longleftrightarrow> hs = [] \<or> is_fin (h_Score (hd hs)) \<and> (\<forall>h\<in>set hs. fle (h_Score h) (h_Score (hd hs)))"

definition unit_map :: "(string, f64) gomap \<Rightarrow> bool" where
  "unit_map m \<longleftrightarrow> (\<forall>sid v. m_get m sid = Some v \<longrightarrow> in01 v)"

lemma norm_loop_unit:
  assumes "is_fin top1" "\<forall>h\<in>set hs. h_Slice h \<noteq> None \<and> fle (h_Score h) top1" "unit_map m"
  shows "\<exists>m'. norm_loop top1 hs m = Some m' \<and> unit_map m'"
  using assms
proof (induction hs arbitrary: m)
  case (Cons h hs)
  have "in01 (fdiv (h_Score h) top1)" if "flt f0 (h_Score h)"
    using that Cons.prems(1,2) in01_fdiv [of _ top1] by (cases "h_Score h") (auto simp: is_fin_iff)
  then show ?case using Cons by (auto simp: unit_map_def)
qed auto

lemma normalize_unit:
  assumes "route_ok hs" "led_by_top hs" shows "\<exists>m. normalize hs = Some m \<and> unit_map m"
proof (cases hs)
  case (Cons h hs')
  then show ?thesis using assms norm_loop_unit [of "h_Score h" hs "[]"]
    by (auto simp: normalize_def Let_def route_ok_def led_by_top_def unit_map_def)
qed (simp add: normalize_def unit_map_def)

definition merged_ok :: "Hit list \<Rightarrow> (string, Slice) gomap \<Rightarrow> bool" where
  "merged_ok hs m \<longleftrightarrow> wf_map m \<and> (\<forall>(k, s)\<in>set m. k = sl_ID s \<and> k \<in> hit_id ` set hs)"

lemma m_set_member: "(k', v') \<in> set (m_set k v m) \<Longrightarrow> (k', v') = (k, v) \<or> (k', v') \<in> set m"
  by (induction m) (auto split: if_splits)

lemma merged_okI:
  assumes "merged_ok hs m" "sl_ID s \<in> hit_id ` set hs" shows "merged_ok hs (if m_get m (sl_ID s) = None then m_set (sl_ID s) s m else m)"
  using assms by (auto simp: merged_ok_def dest!: m_set_member)

lemma hit_id_Some [simp]: "h_Slice h = Some s \<Longrightarrow> hit_id h = sl_ID s"
  by (simp add: hit_id_def)

lemma merge_route_ok:
  assumes "\<forall>h\<in>set hs. h_Slice h \<noteq> None" "set hs \<subseteq> set all" "merged_ok all m"
  shows "\<exists>m'. merge_route hs m = Some m' \<and> merged_ok all m'"
  using assms
proof (induction hs arbitrary: m)
  case (Cons h hs)
  then obtain s where s: "h_Slice h = Some s" by auto
  have "sl_ID s \<in> hit_id ` set all" using Cons.prems(2) s by force
  then show ?case using Cons.IH [OF _ _ merged_okI [OF Cons.prems(3)]] Cons.prems s by simp
qed simp

section \<open>Emission\<close>

text \<open>What both strategies do with the merged slices: score, filter, order and cut.\<close>

lemma emit_ok:
  assumes m: "merged_ok all m" and it: "mset (it m) = mset m"
    and f: "\<And>e h. e \<in> set m \<Longrightarrow> f e = Some h \<Longrightarrow> h_Slice h = Some (snd e) \<and> flt f0 (h_Score h) \<and> fle (h_Score h) f1 \<and> h_LexicalValid h"
  defines "out \<equiv> go_sort hit_before (List.map_filter f (it m))"
  shows "out = go_sort hit_before (List.map_filter f m)" "sorted_wrt (\<lambda>a b. \<not> hit_before b a) out" "distinct (map hit_id out)"
    "\<forall>h\<in>set out. flt f0 (h_Score h) \<and> fle (h_Score h) f1 \<and> h_LexicalValid h \<and> hit_id h \<in> hit_id ` set all"
proof -
  have mem: "\<exists>e\<in>set m. f e = Some h" if "h \<in> set (List.map_filter f m)" for h using that by (auto simp: List.map_filter_def)
  have id: "hit_id h = fst e" if "e \<in> set m" "f e = Some h" for e h
    using f [OF that] m that(1) by (cases e) (auto simp: merged_ok_def)
  have keys: "distinct (map fst m)" using m by (simp add: merged_ok_def wf_map_def)
  have dist: "distinct (map hit_id (List.map_filter f m))"
    using keys id
  proof (induction m)
    case (Cons e m)
    have sub: "\<And>e h. e \<in> set m \<Longrightarrow> f e = Some h \<Longrightarrow> hit_id h = fst e" using Cons.prems(2) by simp
    have "hit_id ` set (List.map_filter f m) \<subseteq> fst ` set m" using sub by (force simp: List.map_filter_def)
    moreover have "distinct (map hit_id (List.map_filter f m))" using Cons.prems(1) by (intro Cons.IH sub) simp_all
    moreover have "hit_id h = fst e" if "f e = Some h" for h using Cons.prems(2) that by simp
    moreover have "fst e \<notin> fst ` set m" using Cons.prems(1) by simp
    ultimately show ?case by (cases "f e") (auto simp: map_filter_simps)
  qed (simp add: map_filter_simps)
  have ms: "mset (List.map_filter f (it m)) = mset (List.map_filter f m)"
    using it by (simp add: List.map_filter_def)
  then have st: "set (List.map_filter f (it m)) = set (List.map_filter f m)" by (metis set_mset_mset)
  have rk: "ranked h" if "h \<in> set (List.map_filter f m)" for h
    using mem [OF that] f by (cases "h_Score h") (force simp: ranked_def)+
  have "go_sort hit_before (List.map_filter f m) = go_sort hit_before (List.map_filter f (it m))"
    by (rule hits_sort_perm) (use ms rk dist in \<open>auto simp: distinct_map\<close>)
  then show eq: "out = go_sort hit_before (List.map_filter f m)" by (simp add: out_def)
  show "sorted_wrt (\<lambda>a b. \<not> hit_before b a) out" unfolding eq by (rule hits.sorted_go_sort) (use rk in auto)
  show "distinct (map hit_id out)"
    unfolding eq using dist by (metis mset_eq_imp_distinct_iff mset_go_sort mset_map)
  show "\<forall>h\<in>set out. flt f0 (h_Score h) \<and> fle (h_Score h) f1 \<and> h_LexicalValid h \<and> hit_id h \<in> hit_id ` set all"
  proof
    fix h assume "h \<in> set out"
    then have "\<exists>e\<in>set m. f e = Some h" by (intro mem) (simp add: eq)
    then obtain e where e: "e \<in> set m" "f e = Some h" by blast
    then have "hit_id h \<in> hit_id ` set all" using id [OF e] m by (cases e) (auto simp: merged_ok_def)
    then show "flt f0 (h_Score h) \<and> fle (h_Score h) f1 \<and> h_LexicalValid h \<and> hit_id h \<in> hit_id ` set all" using f [OF e] by blast
  qed
qed

section \<open>Weighted scores\<close>

lemma fadd_zero: "double x \<Longrightarrow> fadd f0 x = x"
  by (cases x) (auto simp: double_def)

lemma double_fmul [simp]: "double (fmul a b)"
  by (cases a; cases b) (auto simp: double_ops(1), auto simp: double_def finf_def)

lemma weighted_score_unit:
  assumes "double w" "in01 w" "unit_map bmN" "unit_map vecN" shows "in01 (weighted_score w bmN vecN sid)"
proof -
  have c: "in01 (fmul (fsub f1 w) v)" if "in01 v" for v using assms that by (intro convex_left)
  show ?thesis
    using assms c in01_fmul [OF assms(2)] convex_unit [OF assms(1,2)] in01_Fin
    by (auto simp: weighted_score_def unit_map_def fadd_zero Let_def split: option.split)
qed

lemma weighted_hit_ok:
  assumes "double w" "in01 w" "unit_map bmN" "unit_map vecN" "weighted_hit w bmN vecN e = Some h"
  shows "h_Slice h = Some (snd e) \<and> flt f0 (h_Score h) \<and> fle (h_Score h) f1 \<and> h_LexicalValid h"
proof -
  have u: "in01 (weighted_score w bmN vecN (fst e))" by (rule weighted_score_unit [OF assms(1-4)])
  then obtain q where "weighted_score w bmN vecN (fst e) = Fin q" by (auto simp: in01_Fin)
  then show ?thesis using u assms(5) by (auto simp: weighted_hit_def Let_def fused_hit_def in01_def split: if_splits)
qed

section \<open>Reciprocal ranks\<close>

definition value_upto :: "rat \<Rightarrow> (string, f64) gomap \<Rightarrow> string \<Rightarrow> bool" where
  "value_upto b sc sid \<longleftrightarrow> (\<exists>x. m_get_or f0 sc sid = Fin x \<and> 0 \<le> x \<and> x \<le> b)"

lemma rank_term:
  assumes "0 < kk" "0 \<le> i" "kk + i + 1 < 2 ^ 53"
  obtains t where "fdiv f1 (fadd (fadd (f_of_int kk) (f_of_int i)) f1) = Fin t" "0 \<le> t" "t \<le> rq (1 / of_int (kk + 1))"
proof -
  have ex: "r64 (of_int n) = Fin (of_int n)" if "\<bar>n\<bar> < 2 ^ 53" for n using int_exact [OF that] by (simp add: f_of_int_def)
  have "fadd (fadd (f_of_int kk) (f_of_int i)) f1 = Fin (of_int (kk + i + 1))"
    using ex [of kk] ex [of i] ex [of "kk + i"] ex [of "kk + i + 1"] assms by (simp add: f_of_int_def)
  then have d: "fdiv f1 (fadd (fadd (f_of_int kk) (f_of_int i)) f1) = r64 (1 / of_int (kk + i + 1))"
    using assms by (simp flip: of_int_add)
  have "rat_of_int (kk + 1) \<le> of_int (kk + i + 1)" using assms by simp
  then have le: "rq (1 / of_int (kk + i + 1)) \<le> rq (1 / of_int (kk + 1))" using assms by (intro rq_mono frac_le) auto
  have "in01 (r64 (1 / of_int (kk + i + 1)))" using assms by (intro r64_in01) (auto simp: field_simps)
  then obtain t where t: "r64 (1 / of_int (kk + i + 1)) = Fin t" "0 \<le> t" by (auto simp: in01_Fin)
  then have "t = rq (1 / of_int (kk + i + 1))" by (auto simp: r64_rq split: if_splits)
  then show thesis using that t d le by simp
qed

lemma rrf_route_bound:
  assumes "0 < kk" "0 \<le> i" "kk + i + int (length hs) < 2 ^ 53" "\<forall>h\<in>set hs. h_Slice h \<noteq> None" "distinct (map hit_id hs)"
    and "set hs \<subseteq> set all" "merged_ok all m"
    and "r64 (b + rq (1 / of_int (kk + 1))) = Fin c"
    and "\<And>sid. value_upto c sc sid" "\<And>sid. sid \<in> hit_id ` set hs \<Longrightarrow> value_upto b sc sid"
  shows "\<exists>m' sc'. rrf_route kk i hs (m, sc) = Some (m', sc') \<and> merged_ok all m' \<and> (\<forall>sid. value_upto c sc' sid) \<and>
    (\<forall>sid. sid \<notin> hit_id ` set hs \<longrightarrow> m_get_or f0 sc' sid = m_get_or f0 sc sid)"
  using assms(2-7,9,10)
proof (induction hs arbitrary: i m sc)
  case (Cons h hs)
  obtain s where s: "h_Slice h = Some s" using Cons.prems(3) by auto
  then have id: "hit_id h = sl_ID s" by simp
  obtain t where t: "fdiv f1 (fadd (fadd (f_of_int kk) (f_of_int i)) f1) = Fin t" "0 \<le> t" "t \<le> rq (1 / of_int (kk + 1))"
    by (rule rank_term [OF assms(1) Cons.prems(1)]) (use Cons.prems(2) in simp)
  obtain x where x: "m_get_or f0 sc (sl_ID s) = Fin x" "0 \<le> x" "x \<le> b"
    using Cons.prems(8) [of "sl_ID s"] id by (auto simp: value_upto_def)
  let ?sc = "m_set (sl_ID s) (fadd (Fin x) (Fin t)) sc"
  let ?m = "if m_get m (sl_ID s) = None then m_set (sl_ID s) s m else m"
  have "fle (r64 (x + t)) (Fin c)" using r64_mono [of "x + t" "b + rq (1 / of_int (kk + 1))"] x t assms(8) by simp
  moreover have "fle f0 (r64 (x + t))" using r64_mono [of 0 "x + t"] x t by (simp add: r64_def)
  ultimately have up: "value_upto c ?sc (sl_ID s)" by (cases "r64 (x + t)") (auto simp: value_upto_def)
  have mem: "sl_ID s \<in> hit_id ` set all" using Cons.prems(5) id by force
  have "\<exists>m' sc'. rrf_route kk (i + 1) hs (?m, ?sc) = Some (m', sc') \<and> merged_ok all m' \<and> (\<forall>sid. value_upto c sc' sid) \<and>
      (\<forall>sid. sid \<notin> hit_id ` set hs \<longrightarrow> m_get_or f0 sc' sid = m_get_or f0 ?sc sid)"
  proof (rule Cons.IH)
    show "merged_ok all ?m" by (rule merged_okI [OF Cons.prems(6) mem])
    show "value_upto c ?sc sid" for sid using up Cons.prems(7) [of sid] by (cases "sid = sl_ID s") (auto simp: value_upto_def)
    show "value_upto b ?sc sid" if "sid \<in> hit_id ` set hs" for sid
    proof -
      have "sl_ID s \<notin> hit_id ` set hs" using Cons.prems(4) id by simp
      then have "sid \<noteq> sl_ID s" using that by blast
      then show ?thesis using Cons.prems(8) [of sid] that by (simp add: value_upto_def)
    qed
  qed (use Cons.prems in auto)
  then show ?case using s x t id by (auto simp: Let_def)
qed auto

lemma rrf_hit_ok:
  assumes "0 < kk" "kk + 1 < 2 ^ 53" "value_upto (2 * rq (1 / of_int (kk + 1))) sc (fst e)"
    "rrf_hit tok query (fdiv (f_of_int (wrap64 (kk + 1))) (Fin 2)) sc e = Some h"
  shows "h_Slice h = Some (snd e) \<and> flt f0 (h_Score h) \<and> fle (h_Score h) f1 \<and> h_LexicalValid h"
proof -
  let ?n = "rat_of_int (kk + 1)"
  have "rq (?n / 2) = ?n / 2" using rq_exact [of "kk + 1" "- 1"] assms(1,2) by (simp add: pow2_def)
  moreover have "?n / 2 < 2 ^ 1024"
  proof -
    have "?n < of_int (2 ^ 53)" using assms(2) by (simp only: of_int_less_iff)
    then show ?thesis by simp
  qed
  moreover have "wrap64 (kk + 1) = kk + 1" using assms(1,2) by (simp add: in64_def)
  ultimately have sc: "fdiv (f_of_int (wrap64 (kk + 1))) (Fin 2) = Fin (?n / 2)"
    using int_exact [of "kk + 1"] assms(1,2) by (simp add: r64_rq)
  obtain x where x: "m_get_or f0 sc (fst e) = Fin x" "0 \<le> x" "x \<le> 2 * rq (1 / ?n)" using assms(3) by (auto simp: value_upto_def)
  have "x * (?n / 2) \<le> (2 * rq (1 / ?n)) * (?n / 2)" using x assms(1) by (intro mult_right_mono) auto
  also have "\<dots> = rq (1 / ?n) * ?n" by simp
  also have "\<dots> \<le> 1 + 1 / 2 ^ 53" using reciprocal_unit(1) [of "kk + 1"] assms(1,2) by simp
  finally have le: "fle (r64 (x * (?n / 2))) f1" by (rule r64_le_one)
  have "fmul (m_get_or f0 sc (fst e)) (Fin (?n / 2)) = r64 (x * (?n / 2))" by (simp add: x)
  then show ?thesis using assms(4) le unfolding sc
    by (cases "r64 (x * (?n / 2))") (auto simp: rrf_hit_def Let_def fused_hit_def split: if_splits)
qed

section \<open>Both strategies\<close>

definition fusable :: "FuseConfig \<Rightarrow> Hit list \<Rightarrow> Hit list \<Rightarrow> bool" where
  "fusable cfg bm vec \<longleftrightarrow> route_ok bm \<and> route_ok vec \<and>
     (case fc_Strategy cfg of
        Weighted \<Rightarrow> led_by_top bm \<and> led_by_top vec \<and> double (bm25Weight cfg) \<and> in01 (bm25Weight cfg)
      | RRF \<Rightarrow> rrfK cfg + int (max (length bm) (length vec)) + 1 < 2 ^ 53)"

definition fused_ok :: "Hit list \<Rightarrow> Hit list \<Rightarrow> bool" where
  "fused_ok all out \<longleftrightarrow> sorted_wrt (\<lambda>a b. \<not> hit_before b a) out \<and> distinct (map hit_id out) \<and>
     (\<forall>h\<in>set out. flt f0 (h_Score h) \<and> fle (h_Score h) f1 \<and> h_LexicalValid h \<and> hit_id h \<in> hit_id ` set all)"

lemma fused_ok_take: "fused_ok all out \<Longrightarrow> fused_ok all (take n out)"
  by (auto simp: fused_ok_def sorted_wrt_take take_map [symmetric] dest: in_set_takeD)

lemma merged_ok_empty [simp]: "merged_ok all []"
  by (simp add: merged_ok_def)

lemma fuseWeighted_ok:
  assumes "route_ok bm" "route_ok vec" "led_by_top bm" "led_by_top vec" "double (bm25Weight cfg)" "in01 (bm25Weight cfg)"
    and it: "\<And>m. mset (it m) = mset m"
  shows "\<exists>out. fuseWeighted it bm vec cfg = Some out \<and> fuseWeighted (\<lambda>m. m) bm vec cfg = Some out \<and> fused_ok (bm @ vec) out"
proof -
  obtain bmN vecN where n: "normalize bm = Some bmN" "unit_map bmN" "normalize vec = Some vecN" "unit_map vecN"
    using normalize_unit assms(1-4) by blast
  obtain m1 where m1: "merge_route bm [] = Some m1" "merged_ok (bm @ vec) m1"
    using merge_route_ok [of bm "bm @ vec" "[]"] assms(1) by (auto simp: route_ok_def)
  obtain m2 where m2: "merge_route vec m1 = Some m2" "merged_ok (bm @ vec) m2"
    using merge_route_ok [of vec "bm @ vec" m1] assms(2) m1(2) by (auto simp: route_ok_def)
  note E = emit_ok [OF m2(2), of it "weighted_hit (bm25Weight cfg) bmN vecN", OF it weighted_hit_ok [OF assms(5,6) n(2,4)]]
  show ?thesis using E n m1 m2 by (auto simp: fuseWeighted_def fused_ok_def)
qed

lemma fuseRRF_ok:
  assumes "route_ok bm" "route_ok vec" "rrfK cfg + int (max (length bm) (length vec)) + 1 < 2 ^ 53" and it: "\<And>m. mset (it m) = mset m"
  shows "\<exists>out. fuseRRF tok it bm vec query cfg = Some out \<and> fuseRRF tok (\<lambda>m. m) bm vec query cfg = Some out \<and> fused_ok (bm @ vec) out"
proof -
  let ?k = "rrfK cfg" let ?q = "rq (1 / of_int (?k + 1))"
  have k: "0 < ?k" by (simp add: rrfK_def DefaultRrfK_def)
  have q: "0 < ?q" using reciprocal_unit(2) [of "?k + 1"] k assms(3) by simp
  have fin: "r64 (1 / of_int (?k + 1)) = Fin ?q" "?q \<le> 1"
  proof -
    have "in01 (r64 (1 / of_int (?k + 1)))" using k by (intro r64_in01) (auto simp: field_simps)
    then show "r64 (1 / of_int (?k + 1)) = Fin ?q" "?q \<le> 1" by (auto simp: in01_Fin r64_rq split: if_splits)
  qed
  have c1: "r64 (0 + ?q) = Fin ?q" using r64_idem fin(1) by simp
  have c2: "r64 (?q + ?q) = Fin (2 * ?q)" using rq_double [of "1 / of_int (?k + 1)"] q fin(2) by (simp add: r64_rq)
  have "\<exists>m1 s1. rrf_route ?k 0 bm ([], []) = Some (m1, s1) \<and> merged_ok (bm @ vec) m1 \<and> (\<forall>sid. value_upto ?q s1 sid) \<and>
      (\<forall>sid. sid \<notin> hit_id ` set bm \<longrightarrow> m_get_or f0 s1 sid = m_get_or f0 [] sid)"
    by (rule rrf_route_bound [where b = 0]) (use k assms q c1 in \<open>auto simp: route_ok_def value_upto_def m_get_or_def\<close>)
  then obtain m1 s1 where r1: "rrf_route ?k 0 bm ([], []) = Some (m1, s1)" "merged_ok (bm @ vec) m1" "\<And>sid. value_upto ?q s1 sid" by blast
  have "\<exists>m2 s2. rrf_route ?k 0 vec (m1, s1) = Some (m2, s2) \<and> merged_ok (bm @ vec) m2 \<and> (\<forall>sid. value_upto (2 * ?q) s2 sid) \<and>
      (\<forall>sid. sid \<notin> hit_id ` set vec \<longrightarrow> m_get_or f0 s2 sid = m_get_or f0 s1 sid)"
  proof (rule rrf_route_bound [where b = ?q])
    show "value_upto (2 * ?q) s1 sid" for sid using r1(3) [of sid] q by (force simp: value_upto_def)
  qed (use k assms c2 r1 in \<open>auto simp: route_ok_def\<close>)
  then obtain m2 s2 where r2: "rrf_route ?k 0 vec (m1, s1) = Some (m2, s2)" "merged_ok (bm @ vec) m2" "\<And>sid. value_upto (2 * ?q) s2 sid" by blast
  let ?f = "rrf_hit tok query (fdiv (f_of_int (wrap64 (?k + 1))) (Fin 2)) s2"
  have "?k + 1 < 2 ^ 53" using assms(3) by linarith
  note E = emit_ok [OF r2(2), of it ?f, OF it rrf_hit_ok [OF k this r2(3)]]
  show ?thesis using E r1(1) r2(1) by (auto simp: fuseRRF_def Let_def fused_ok_def)
qed

section \<open>Property\<close>

text \<open>
  C28. Fused scores keep their scale. For routes of distinct slices, each led by its best hit in the weighted mode, and a
  weight in the unit interval, fusion returns at most \<open>k\<close> hits, each with a score above zero and at most one in double
  precision, ordered by descending score, one per slice and each from one of the routes; the result does not depend on the
  iteration order of the merged map.
\<close>

theorem fused_scores_unit:
  assumes "fusable cfg bm vec" "\<And>m. mset (it m) = mset m"
  shows "\<exists>out. Fuse tok it bm vec query k cfg = Some out \<and> Fuse tok (\<lambda>m. m) bm vec query k cfg = Some out \<and>
    int (length out) \<le> max 0 k \<and> sorted_wrt (\<lambda>a b. \<not> hit_before b a) out \<and> distinct (map hit_id out) \<and>
    (\<forall>h\<in>set out. flt f0 (h_Score h) \<and> fle (h_Score h) f1 \<and> h_LexicalValid h \<and> hit_id h \<in> hit_id ` (set bm \<union> set vec))"
proof (cases "k \<le> 0")
  case False
  have "\<exists>out. (case fc_Strategy cfg of RRF \<Rightarrow> fuseRRF tok it bm vec query cfg | Weighted \<Rightarrow> fuseWeighted it bm vec cfg) = Some out \<and>
      (case fc_Strategy cfg of RRF \<Rightarrow> fuseRRF tok (\<lambda>m. m) bm vec query cfg | Weighted \<Rightarrow> fuseWeighted (\<lambda>m. m) bm vec cfg) = Some out \<and>
      fused_ok (bm @ vec) out"
    using fuseRRF_ok [of bm vec cfg it tok query] fuseWeighted_ok [of bm vec cfg it] assms
    by (cases "fc_Strategy cfg") (auto simp: fusable_def)
  then obtain out where out: "Fuse tok it bm vec query k cfg = Some (take (nat k) out)" "Fuse tok (\<lambda>m. m) bm vec query k cfg = Some (take (nat k) out)"
    "fused_ok (bm @ vec) out" using False by (auto simp: Fuse_def)
  then show ?thesis using fused_ok_take [OF out(3), of "nat k"] False
    by (intro exI [of _ "take (nat k) out"]) (auto simp: fused_ok_def)
qed (simp add: Fuse_def)

definition demo_hit :: "string \<Rightarrow> rat \<Rightarrow> Hit" where
  "demo_hit k q = fused_hit (zero_slice\<lparr>sl_ID := k\<rparr>) (Fin q) f0"

theorem fused_scores_unit_witness:
  "let cfg = \<lparr>fc_Strategy = RRF, fc_RrfK = 0, fc_BM25Weight = None\<rparr>; bm = [demo_hit ''a'' 3, demo_hit ''b'' 2]; vec = [demo_hit ''b'' 1];
       cfg' = cfg\<lparr>fc_Strategy := Weighted\<rparr> in
   fusable cfg bm vec \<and> fusable cfg' bm vec \<and> (\<forall>m :: (string \<times> Slice) list. mset (rev m) = mset m) \<and>
   (\<exists>out. Fuse (\<lambda>_. []) rev bm vec [] 5 cfg = Some out \<and> (\<forall>h\<in>set out. fle (h_Score h) f1)) \<and>
   (\<exists>out. Fuse (\<lambda>_. []) rev bm vec [] 1 cfg' = Some out \<and> length out \<le> 1)"
proof -
  let ?cfg = "\<lparr>fc_Strategy = RRF, fc_RrfK = 0, fc_BM25Weight = None\<rparr>"
  let ?cfg' = "?cfg\<lparr>fc_Strategy := Weighted\<rparr>"
  let ?bm = "[demo_hit ''a'' 3, demo_hit ''b'' 2]" let ?vec = "[demo_hit ''b'' 1]"
  have r: "route_ok ?bm" "route_ok ?vec" "led_by_top ?bm" "led_by_top ?vec"
    by (simp_all add: route_ok_def led_by_top_def demo_hit_def fused_hit_def hit_id_def)
  have w: "double (bm25Weight ?cfg')" "in01 (bm25Weight ?cfg')"
    by (simp_all add: bm25Weight_def DefaultBM25Weight_def r64_in01)
  have f: "fusable ?cfg ?bm ?vec" "fusable ?cfg' ?bm ?vec" using r w by (simp_all add: fusable_def rrfK_def DefaultRrfK_def)
  show ?thesis
    unfolding Let_def
    using f fused_scores_unit [OF f(1), of rev "\<lambda>_. []" "[]" 5] fused_scores_unit [OF f(2), of rev "\<lambda>_. []" "[]" 1]
    by (intro conjI allI) (force+)
qed

end
