(* ===== verification/Evolve.thy ===== *)
theory Evolve
  imports Sched Prefetch
begin

text \<open>
  Online tuning: the engine of \<open>kernel/evolve/evolve.go\<close> and the loop of \<open>harness/semantix/evolution.go\<close> that feeds
  it with the events of a session and passes its parameters on to the scheduler and the prefetcher. Epochs and counters are
  \<open>uint64\<close> with wrap-around. The two tuners are the types that implement the interface of the loop, absent
  when nothing is attached; the parameter snapshots published on the bus are a list. The payload of an event is
  absent when its bytes do not decode.
\<close>

section \<open>The engine\<close>

definition DefaultAlpha :: f64 where "DefaultAlpha = r64 (1/10)"
definition DefaultTauL2 :: f64 where "DefaultTauL2 = r64 (11/20)"
definition DefaultSuccessFloor :: f64 where "DefaultSuccessFloor = r64 (7/10)"
definition DefaultInjectCap :: f64 where "DefaultInjectCap = r64 (3/10)"
definition DefaultFreezeEpoch :: u64 where "DefaultFreezeEpoch = 60"
definition DefaultMinTau :: f64 where "DefaultMinTau = r64 (3/10)"
definition DefaultMaxTau :: f64 where "DefaultMaxTau = r64 (4/5)"
definition TauStep :: f64 where "TauStep = r64 (1/20)"
definition PrefetchStep :: f64 where "PrefetchStep = r64 (1/20)"
definition PollutionRiseAt :: f64 where "PollutionRiseAt = r64 (3/10)"
definition HitTarget :: f64 where "HitTarget = r64 (7/10)"
definition PollutionLow :: f64 where "PollutionLow = r64 (1/10)"
definition MinSamples :: u64 where "MinSamples = 20"

record EvolveConfig =
  ev_Alpha :: f64
  ev_TauL2 :: f64
  ev_SuccessFloor :: f64
  ev_InjectCap :: f64
  ev_FreezeEpochs :: u64
  ev_MinTau :: f64
  ev_MaxTau :: f64
  ev_MinSamples :: u64

record Signal =
  sg_Name :: string
  sg_Value :: f64
  sg_Epoch :: u64

record Params =
  pa_TauL2 :: f64
  pa_TauL3 :: f64
  pa_InjectCap :: f64
  pa_PrefetchConf :: f64
  pa_SuccessFloor :: f64
  pa_FreezeEpochs :: u64

record ewmaEngine =
  ee_alpha :: f64
  ee_minTau :: f64
  ee_maxTau :: f64
  ee_minSamples :: u64
  ee_epoch :: u64
  ee_freezeUntil :: u64
  ee_firstAdjustAt :: u64
  ee_params :: Params
  ee_hitEWMA :: f64
  ee_polEWMA :: f64
  ee_prefetchHitEWMA :: f64
  ee_prefetchWasteEWMA :: f64
  ee_sampleCount :: u64
  ee_adjustments :: u64

definition finite_f :: "f64 \<Rightarrow> bool" where
  "finite_f x \<longleftrightarrow> \<not> is_nan x \<and> \<not> is_inf x"

text \<open>A tuning constant that is not positive and finite falls back to its default.\<close>

definition or_default :: "f64 \<Rightarrow> f64 \<Rightarrow> f64" where
  "or_default x d = (if fle x f0 \<or> is_nan x \<or> is_inf x then d else x)"

definition evolve_New :: "EvolveConfig \<Rightarrow> ewmaEngine" where
  "evolve_New cfg =
     (let p = \<lparr>pa_TauL2 = DefaultTauL2, pa_TauL3 = f0, pa_InjectCap = DefaultInjectCap, pa_PrefetchConf = r64 (1/2),
                pa_SuccessFloor = DefaultSuccessFloor, pa_FreezeEpochs = DefaultFreezeEpoch\<rparr>;
          p = (if flt f0 (ev_TauL2 cfg) \<and> finite_f (ev_TauL2 cfg) then p\<lparr>pa_TauL2 := ev_TauL2 cfg\<rparr> else p);
          p = (if flt f0 (ev_SuccessFloor cfg) \<and> finite_f (ev_SuccessFloor cfg) then p\<lparr>pa_SuccessFloor := ev_SuccessFloor cfg\<rparr> else p);
          p = (if flt f0 (ev_InjectCap cfg) \<and> finite_f (ev_InjectCap cfg) then p\<lparr>pa_InjectCap := ev_InjectCap cfg\<rparr> else p);
          p = (if ev_FreezeEpochs cfg > 0 then p\<lparr>pa_FreezeEpochs := ev_FreezeEpochs cfg\<rparr> else p)
      in \<lparr>ee_alpha = or_default (ev_Alpha cfg) DefaultAlpha, ee_minTau = or_default (ev_MinTau cfg) DefaultMinTau,
          ee_maxTau = or_default (ev_MaxTau cfg) DefaultMaxTau,
          ee_minSamples = (if ev_MinSamples cfg = 0 then MinSamples else ev_MinSamples cfg), ee_epoch = 0, ee_freezeUntil = 0,
          ee_firstAdjustAt = pa_FreezeEpochs p, ee_params = p, ee_hitEWMA = f0, ee_polEWMA = f0, ee_prefetchHitEWMA = f0,
          ee_prefetchWasteEWMA = f0, ee_sampleCount = 0, ee_adjustments = 0\<rparr>)"

definition clamp_between :: "f64 \<Rightarrow> f64 \<Rightarrow> f64 \<Rightarrow> f64" where
  "clamp_between lo hi x = (let y = (if flt x lo then lo else x) in if flt hi y then hi else y)"

definition next_tau :: "ewmaEngine \<Rightarrow> f64" where
  "next_tau e =
     (let t = pa_TauL2 (ee_params e) in
      if ee_epoch e \<ge> ee_freezeUntil e then
        clamp_between (ee_minTau e) (ee_maxTau e)
          (if fle PollutionRiseAt (ee_polEWMA e) then fadd t TauStep
           else if fle HitTarget (ee_hitEWMA e) \<and> fle (ee_polEWMA e) PollutionLow then fsub t TauStep
           else t)
      else t)"

definition next_conf :: "ewmaEngine \<Rightarrow> f64" where
  "next_conf e =
     (let c = pa_PrefetchConf (ee_params e) in
      clamp_between (r64 (1/20)) (r64 (19/20))
        (if flt (ee_prefetchHitEWMA e) (ee_prefetchWasteEWMA e) then fadd c PrefetchStep
         else if flt (ee_prefetchWasteEWMA e) (ee_prefetchHitEWMA e) then fsub c PrefetchStep
         else c))"

definition maybeAdjustLocked :: "ewmaEngine \<Rightarrow> ewmaEngine" where
  "maybeAdjustLocked e =
     (if ee_sampleCount e < ee_minSamples e then e
      else if ee_epoch e < ee_firstAdjustAt e then e
      else
        let oldTau = pa_TauL2 (ee_params e); oldPrefetch = pa_PrefetchConf (ee_params e);
            e' = e\<lparr>ee_params := (ee_params e)\<lparr>pa_TauL2 := next_tau e, pa_PrefetchConf := next_conf e\<rparr>\<rparr>;
            e' = (if fne (next_tau e) oldTau \<or> fne (next_conf e) oldPrefetch then e'\<lparr>ee_adjustments := ee_adjustments e + 1\<rparr> else e')
        in if fne (next_tau e) oldTau then e'\<lparr>ee_freezeUntil := ee_epoch e + pa_FreezeEpochs (ee_params e)\<rparr> else e')"

datatype evolve_err = NonFiniteSignal | OutOfOrder | NonFiniteParam | Frozen u64

definition smooth :: "ewmaEngine \<Rightarrow> f64 \<Rightarrow> f64 \<Rightarrow> f64" where
  "smooth e v old = fadd (fmul (ee_alpha e) v) (fmul (fsub f1 (ee_alpha e)) old)"

definition fade :: "ewmaEngine \<Rightarrow> f64 \<Rightarrow> f64" where
  "fade e old = fmul (fsub f1 (ee_alpha e)) old"

definition RecordSignal :: "Signal \<Rightarrow> ewmaEngine \<Rightarrow> evolve_err option \<times> ewmaEngine" where
  "RecordSignal s e =
     (if is_nan (sg_Value s) \<or> is_inf (sg_Value s) then (Some NonFiniteSignal, e)
      else if sg_Epoch s < ee_epoch e then (Some OutOfOrder, e)
      else
        let e = e\<lparr>ee_epoch := (if sg_Epoch s > ee_epoch e then sg_Epoch s else ee_epoch e), ee_sampleCount := ee_sampleCount e + 1\<rparr>;
            v = sg_Value s; v = (if flt v f0 then f0 else v); v = (if flt f1 v then f1 else v)
        in if sg_Name s = ''cache_hit'' \<or> sg_Name s = ''success'' then
             (None, maybeAdjustLocked (e\<lparr>ee_hitEWMA := smooth e v (ee_hitEWMA e)\<rparr>))
           else if sg_Name s = ''inject_pollution'' then
             (None, maybeAdjustLocked (e\<lparr>ee_polEWMA := smooth e v (ee_polEWMA e)\<rparr>))
           else if sg_Name s = ''prefetch_hit'' then
             (None, maybeAdjustLocked (e\<lparr>ee_prefetchHitEWMA := smooth e v (ee_prefetchHitEWMA e),
                                        ee_prefetchWasteEWMA := fade e (ee_prefetchWasteEWMA e)\<rparr>))
           else if sg_Name s = ''prefetch_waste'' then
             (None, maybeAdjustLocked (e\<lparr>ee_prefetchWasteEWMA := smooth e v (ee_prefetchWasteEWMA e),
                                        ee_prefetchHitEWMA := fade e (ee_prefetchHitEWMA e)\<rparr>))
           else (None, e))"

definition evolve_Apply :: "Params \<Rightarrow> ewmaEngine \<Rightarrow> evolve_err option \<times> ewmaEngine" where
  "evolve_Apply p e =
     (if \<not> finite_f (pa_TauL2 p) \<or> \<not> finite_f (pa_InjectCap p) \<or> \<not> finite_f (pa_PrefetchConf p) \<or> \<not> finite_f (pa_SuccessFloor p)
      then (Some NonFiniteParam, e)
      else if ee_epoch e < ee_freezeUntil e \<and> pa_FreezeEpochs p \<noteq> 0 then (Some (Frozen (ee_freezeUntil e)), e)
      else (None, e\<lparr>ee_params := p\<lparr>pa_TauL2 := clamp_between (ee_minTau e) (ee_maxTau e) (pa_TauL2 p)\<rparr>,
                    ee_freezeUntil := ee_epoch e + pa_FreezeEpochs p\<rparr>))"

section \<open>The loop\<close>

definition EscapeEpsilon :: f64 where "EscapeEpsilon = r64 (1/10)"

record EvolutionLoop =
  el_engine :: ewmaEngine
  el_scheduler :: "RuleDecider option"
  el_prefetcher :: "MatrixPrefetcher option"
  el_epoch :: u64
  el_ticks :: "Params list"

datatype loop_event =
    PrefetchHit "(string list \<times> string list \<times> int) option"
  | PrefetchWaste "(string list \<times> string list) option"
  | SliceReject
  | Usage "(int \<times> int) option"
  | OtherEvent

text \<open>\<open>reflect.DeepEqual\<close> compares floats with \<open>==\<close>; \<open>json.Marshal\<close> refuses NaN and infinities.\<close>

definition params_equal :: "Params \<Rightarrow> Params \<Rightarrow> bool" where
  "params_equal p q \<longleftrightarrow> feq (pa_TauL2 p) (pa_TauL2 q) \<and> feq (pa_TauL3 p) (pa_TauL3 q) \<and> feq (pa_InjectCap p) (pa_InjectCap q) \<and>
     feq (pa_PrefetchConf p) (pa_PrefetchConf q) \<and> feq (pa_SuccessFloor p) (pa_SuccessFloor q) \<and> pa_FreezeEpochs p = pa_FreezeEpochs q"

definition params_json :: "Params \<Rightarrow> bool" where
  "params_json p \<longleftrightarrow> finite_f (pa_TauL2 p) \<and> finite_f (pa_TauL3 p) \<and> finite_f (pa_InjectCap p) \<and> finite_f (pa_PrefetchConf p) \<and>
     finite_f (pa_SuccessFloor p)"

definition recordLocked :: "string \<Rightarrow> f64 \<Rightarrow> EvolutionLoop \<Rightarrow> EvolutionLoop" where
  "recordLocked signal v l =
     (let before = ee_params (el_engine l); epoch = el_epoch l + 1; l = l\<lparr>el_epoch := epoch\<rparr>
      in case RecordSignal \<lparr>sg_Name = signal, sg_Value = v, sg_Epoch = epoch\<rparr> (el_engine l) of
           (Some _, e) \<Rightarrow> l\<lparr>el_engine := e\<rparr>
         | (None, e) \<Rightarrow>
             let l = l\<lparr>el_engine := e\<rparr>; after = ee_params e in
             if params_equal before after then l
             else
               let l = l\<lparr>el_scheduler := map_option (\<lambda>d. snd (Sched.ApplyEvolution (pa_SuccessFloor after) d)) (el_scheduler l),
                         el_prefetcher := map_option (\<lambda>m. snd (SetEpsilon EscapeEpsilon (snd (Matrix_ApplyEvolution (pa_PrefetchConf after) m))))
                           (el_prefetcher l)\<rparr>
               in if params_json after then l\<lparr>el_ticks := el_ticks l @ [after]\<rparr> else l)"

definition loop_feedback :: "bool \<Rightarrow> string list \<Rightarrow> string list \<Rightarrow> EvolutionLoop \<Rightarrow> EvolutionLoop" where
  "loop_feedback hit targets probes l =
     l\<lparr>el_prefetcher := map_option (fold (\<lambda>t m. if hit then ObserveHit t m else ObserveWaste t m) (if probes \<noteq> [] then probes else targets))
        (el_prefetcher l)\<rparr>"

definition outcome :: "string \<Rightarrow> f64 \<Rightarrow> string list \<Rightarrow> string list \<Rightarrow> EvolutionLoop \<Rightarrow> EvolutionLoop" where
  "outcome signal v targets probes l =
     (let l = loop_feedback (signal = ''prefetch_hit'') targets probes l
      in if probes \<noteq> [] then l else recordLocked signal v l)"

fun loop_observe :: "loop_event \<Rightarrow> EvolutionLoop \<Rightarrow> EvolutionLoop" where
  "loop_observe (PrefetchHit p) l =
     (case p of None \<Rightarrow> outcome ''prefetch_hit'' f1 [] [] l
      | Some (targets, probes, leadMs) \<Rightarrow> outcome ''prefetch_hit'' (if leadMs < 0 then r64 (1/2) else f1) targets probes l)"
| "loop_observe (PrefetchWaste p) l =
     (case p of None \<Rightarrow> outcome ''prefetch_waste'' f1 [] [] l
      | Some (targets, probes) \<Rightarrow> outcome ''prefetch_waste'' f1 targets probes l)"
| "loop_observe SliceReject l = outcome ''inject_pollution'' f1 [] [] l"
| "loop_observe (Usage p) l =
     (case p of None \<Rightarrow> l
      | Some (hit, miss) \<Rightarrow>
          if wrap64 (hit + miss) = 0 then l
          else recordLocked ''cache_hit'' (fdiv (f_of_int hit) (f_of_int (wrap64 (hit + miss)))) l)"
| "loop_observe OtherEvent l = l"

definition NewEvolutionLoop :: "ewmaEngine \<Rightarrow> EvolutionLoop" where
  "NewEvolutionLoop e = \<lparr>el_engine = e, el_scheduler = None, el_prefetcher = None, el_epoch = 0, el_ticks = []\<rparr>"

definition Attach :: "RuleDecider option \<Rightarrow> MatrixPrefetcher option \<Rightarrow> EvolutionLoop \<Rightarrow> EvolutionLoop" where
  "Attach s p l = l\<lparr>el_scheduler := s, el_prefetcher := p\<rparr>"

end
