(* ===== verification/Evolve_Correct.thy ===== *)
theory Evolve_Correct
  imports Evolve Unit_Interval
begin

text \<open>
  The tuning engine keeps its averages in the unit interval and its thresholds in their bands, in double precision; a
  change of the injection threshold follows the evidence and is not followed by another one inside the freeze window; and the
  loop keeps the scheduler, the prefetcher and the published snapshots in step with the engine.
\<close>

datatype engine_op = SignalOp Signal | ApplyOp Params

fun engine_step :: "engine_op \<Rightarrow> ewmaEngine \<Rightarrow> ewmaEngine" where
  "engine_step (SignalOp s) e = snd (RecordSignal s e)"
| "engine_step (ApplyOp p) e = snd (evolve_Apply p e)"

text \<open>Every \<open>float64\<close> a caller passes is a double; the model's type also has other rationals.\<close>

fun wf_op :: "engine_op \<Rightarrow> bool" where
  "wf_op (SignalOp s) = True" | "wf_op (ApplyOp p) = double (pa_TauL2 p)"

section \<open>The invariant\<close>

definition tuner_ok :: "ewmaEngine \<Rightarrow> bool" where
  "tuner_ok e \<longleftrightarrow> double (ee_alpha e) \<and> in01 (ee_alpha e) \<and> is_fin (ee_minTau e) \<and> is_fin (ee_maxTau e) \<and> fle (ee_minTau e) (ee_maxTau e) \<and>
     in01 (ee_hitEWMA e) \<and> in01 (ee_polEWMA e) \<and> in01 (ee_prefetchHitEWMA e) \<and> in01 (ee_prefetchWasteEWMA e) \<and>
     double (ee_minTau e) \<and> double (ee_maxTau e) \<and> double (pa_TauL2 (ee_params e)) \<and> fle f0 (ee_minTau e) \<and>
     fle (ee_minTau e) (pa_TauL2 (ee_params e)) \<and> fle (pa_TauL2 (ee_params e)) (ee_maxTau e) \<and> is_fin (pa_PrefetchConf (ee_params e))"

definition fixed :: "ewmaEngine \<Rightarrow> f64 \<times> f64 \<times> f64 \<times> u64 \<times> u64" where
  "fixed e = (ee_alpha e, ee_minTau e, ee_maxTau e, ee_minSamples e, ee_firstAdjustAt e)"

lemma fin_not_nan: "is_fin x \<Longrightarrow> \<not> is_nan x"
  by (cases x) auto

lemma fle_refl: "\<not> is_nan x \<Longrightarrow> fle x x"
  by (cases x) auto

lemma clamp_between_range: "fle lo hi \<Longrightarrow> is_fin lo \<Longrightarrow> is_fin hi \<Longrightarrow> \<not> is_nan x \<Longrightarrow> fle lo (clamp_between lo hi x) \<and> fle (clamp_between lo hi x) hi"
  using not_flt_fle [of x lo] not_flt_fle [of hi x]
  by (auto simp: clamp_between_def Let_def fle_refl fin_not_nan dest: flt_not_fle)

lemma clamp_between_id: "fle lo x \<Longrightarrow> fle x hi \<Longrightarrow> clamp_between lo hi x = x"
  by (auto simp: clamp_between_def Let_def dest: flt_not_fle)

lemma clamp_between_mono:
  "fle x y \<Longrightarrow> fle lo x \<Longrightarrow> fle x hi \<Longrightarrow> fle lo hi \<Longrightarrow> fle x (clamp_between lo hi y)"
  "fle y x \<Longrightarrow> fle lo x \<Longrightarrow> fle x hi \<Longrightarrow> fle lo hi \<Longrightarrow> fle (clamp_between lo hi y) x"
  by (auto simp: clamp_between_def Let_def dest: fle_flt_trans flt_fle_trans flt_not_fle)

lemma clamp_between_double: "double lo \<Longrightarrow> double hi \<Longrightarrow> double x \<Longrightarrow> double (clamp_between lo hi x)"
  by (simp add: clamp_between_def Let_def)

lemma fle_between_fin: "fle lo x \<Longrightarrow> fle x hi \<Longrightarrow> is_fin lo \<Longrightarrow> is_fin hi \<Longrightarrow> is_fin x"
  by (cases x) (auto simp: is_fin_iff)

lemma step_not_nan: "is_fin x \<Longrightarrow> is_fin y \<Longrightarrow> \<not> is_nan (fadd x y) \<and> \<not> is_nan (fsub x y)"
  by (auto simp: is_fin_iff fsub_def is_nan_def r64_not_nan)

lemma steps_fin: "is_fin TauStep" "is_fin PrefetchStep" "r64 (1/20) = Fin (3602879701896397 / 72057594037927936)"
  "r64 (19/20) = Fin (4278419646001971 / 4503599627370496)"
  by (code_simp+)

lemma step_values: "fle f0 TauStep" "is_fin TauStep"
  by (simp_all add: TauStep_def steps_fin)

lemma next_tau_band: assumes "tuner_ok e" shows "fle (ee_minTau e) (next_tau e) \<and> fle (next_tau e) (ee_maxTau e) \<and> double (next_tau e)"
proof -
  have t: "is_fin (pa_TauL2 (ee_params e))" using assms fle_between_fin by (auto simp: tuner_ok_def)
  show ?thesis using assms step_not_nan [OF t steps_fin(1)] fin_not_nan [OF t] clamp_between_range clamp_between_double
    by (simp add: next_tau_def Let_def tuner_ok_def)
qed

definition conf_ok :: "f64 \<Rightarrow> bool" where
  "conf_ok c \<longleftrightarrow> fle (r64 (1/20)) c \<and> fle c (r64 (19/20))"

lemma next_conf_band: assumes "is_fin (pa_PrefetchConf (ee_params e))" shows "conf_ok (next_conf e)"
  using step_not_nan [OF assms steps_fin(2)] fin_not_nan [OF assms] clamp_between_range [of "r64 (1/20)" "r64 (19/20)"]
  by (simp add: next_conf_def Let_def conf_ok_def steps_fin)

lemma conf_ok_fin: "conf_ok c \<Longrightarrow> is_fin c"
  by (cases c) (auto simp: conf_ok_def steps_fin)

lemma adjust_ok: assumes "tuner_ok e" shows "tuner_ok (maybeAdjustLocked e) \<and> fixed (maybeAdjustLocked e) = fixed e"
  using assms next_tau_band [OF assms] conf_ok_fin [OF next_conf_band, of e]
  by (simp add: maybeAdjustLocked_def Let_def tuner_ok_def fixed_def)

lemma smooth_unit: "tuner_ok e \<Longrightarrow> in01 v \<Longrightarrow> in01 old \<Longrightarrow> in01 (smooth e v old)"
  by (simp add: smooth_def tuner_ok_def convex_unit)

lemma fade_unit: "tuner_ok e \<Longrightarrow> in01 old \<Longrightarrow> in01 (fade e old)"
  by (simp add: fade_def tuner_ok_def convex_left)

lemma clamped_unit: "\<not> is_nan v \<Longrightarrow> \<not> is_inf v \<Longrightarrow> in01 (let w = (if flt v f0 then f0 else v) in if flt f1 w then f1 else w)"
  by (cases v) (auto simp: in01_def Let_def)

text \<open>
  What an accepted signal does: it moves the epoch, folds the clamped value into the averages, and then adjusts, unless its name is unknown.
\<close>

definition folded :: "Signal \<Rightarrow> ewmaEngine \<Rightarrow> ewmaEngine" where
  "folded s e =
     (let e = e\<lparr>ee_epoch := (if sg_Epoch s > ee_epoch e then sg_Epoch s else ee_epoch e), ee_sampleCount := ee_sampleCount e + 1\<rparr>;
          v = (let w = (if flt (sg_Value s) f0 then f0 else sg_Value s) in if flt f1 w then f1 else w)
      in if sg_Name s = ''cache_hit'' \<or> sg_Name s = ''success'' then e\<lparr>ee_hitEWMA := smooth e v (ee_hitEWMA e)\<rparr>
         else if sg_Name s = ''inject_pollution'' then e\<lparr>ee_polEWMA := smooth e v (ee_polEWMA e)\<rparr>
         else if sg_Name s = ''prefetch_hit'' then
           e\<lparr>ee_prefetchHitEWMA := smooth e v (ee_prefetchHitEWMA e), ee_prefetchWasteEWMA := fade e (ee_prefetchWasteEWMA e)\<rparr>
         else if sg_Name s = ''prefetch_waste'' then
           e\<lparr>ee_prefetchWasteEWMA := smooth e v (ee_prefetchWasteEWMA e), ee_prefetchHitEWMA := fade e (ee_prefetchHitEWMA e)\<rparr>
         else e)"

definition known :: "string \<Rightarrow> bool" where
  "known n \<longleftrightarrow> n \<in> {''cache_hit'', ''success'', ''inject_pollution'', ''prefetch_hit'', ''prefetch_waste''}"

lemma RecordSignal_eq:
  "RecordSignal s e =
     (if is_nan (sg_Value s) \<or> is_inf (sg_Value s) then (Some NonFiniteSignal, e)
      else if sg_Epoch s < ee_epoch e then (Some OutOfOrder, e)
      else (None, if known (sg_Name s) then maybeAdjustLocked (folded s e) else folded s e))"
  by (simp add: RecordSignal_def folded_def known_def Let_def cong: if_cong)

lemma folded_frame [simp]:
  "ee_epoch (folded s e) = (if sg_Epoch s > ee_epoch e then sg_Epoch s else ee_epoch e)" "ee_params (folded s e) = ee_params e" "ee_freezeUntil (folded s e) = ee_freezeUntil e"
  by (simp_all add: folded_def Let_def)

lemma adjust_epoch [simp]: "ee_epoch (maybeAdjustLocked e) = ee_epoch e"
  by (simp add: maybeAdjustLocked_def Let_def)

lemma folded_ok: assumes "tuner_ok e" "\<not> is_nan (sg_Value s)" "\<not> is_inf (sg_Value s)" shows "tuner_ok (folded s e) \<and> fixed (folded s e) = fixed e"
proof -
  let ?e = "e\<lparr>ee_epoch := (if sg_Epoch s > ee_epoch e then sg_Epoch s else ee_epoch e), ee_sampleCount := ee_sampleCount e + 1\<rparr>"
  have e: "tuner_ok ?e" using assms(1) by (simp add: tuner_ok_def)
  let ?v = "let w = (if flt (sg_Value s) f0 then f0 else sg_Value s) in if flt f1 w then f1 else w"
  have u: "in01 (smooth ?e ?v old)" "in01 (fade ?e old)" if "in01 old" for old
    using smooth_unit [OF e clamped_unit [OF assms(2,3)] that] fade_unit [OF e that] by simp_all
  have f: "folded s e = (if sg_Name s = ''cache_hit'' \<or> sg_Name s = ''success'' then ?e\<lparr>ee_hitEWMA := smooth ?e ?v (ee_hitEWMA e)\<rparr>
         else if sg_Name s = ''inject_pollution'' then ?e\<lparr>ee_polEWMA := smooth ?e ?v (ee_polEWMA e)\<rparr>
         else if sg_Name s = ''prefetch_hit'' then
           ?e\<lparr>ee_prefetchHitEWMA := smooth ?e ?v (ee_prefetchHitEWMA e), ee_prefetchWasteEWMA := fade ?e (ee_prefetchWasteEWMA e)\<rparr>
         else if sg_Name s = ''prefetch_waste'' then
           ?e\<lparr>ee_prefetchWasteEWMA := smooth ?e ?v (ee_prefetchWasteEWMA e), ee_prefetchHitEWMA := fade ?e (ee_prefetchHitEWMA e)\<rparr>
         else ?e)"
    by (simp add: folded_def Let_def)
  show ?thesis unfolding f using assms(1) u by (auto simp: tuner_ok_def fixed_def)
qed

lemma RecordSignal_ok: "tuner_ok e \<Longrightarrow> tuner_ok (snd (RecordSignal s e)) \<and> fixed (snd (RecordSignal s e)) = fixed e"
  using folded_ok [of e s] adjust_ok [of "folded s e"] by (simp add: RecordSignal_eq)

lemma Apply_ok: "tuner_ok e \<Longrightarrow> double (pa_TauL2 p) \<Longrightarrow> tuner_ok (snd (evolve_Apply p e)) \<and> fixed (snd (evolve_Apply p e)) = fixed e"
  using clamp_between_range [of "ee_minTau e" "ee_maxTau e" "pa_TauL2 p"] clamp_between_double
  by (auto simp: evolve_Apply_def tuner_ok_def fixed_def finite_f_def is_fin_def)

lemma engine_run_ok: "tuner_ok e \<Longrightarrow> \<forall>op\<in>set ops. wf_op op \<Longrightarrow> tuner_ok (fold engine_step ops e) \<and> fixed (fold engine_step ops e) = fixed e"
proof (induction ops arbitrary: e)
  case (Cons op ops)
  have "tuner_ok (engine_step op e) \<and> fixed (engine_step op e) = fixed e"
    using Cons.prems RecordSignal_ok Apply_ok by (cases op) auto
  then show ?case using Cons.IH [of "engine_step op e"] Cons.prems by simp
qed simp

section \<open>The freeze window\<close>

lemma adjust_params: "ee_params (maybeAdjustLocked e) = ee_params e \<or>
    ee_params (maybeAdjustLocked e) = (ee_params e)\<lparr>pa_TauL2 := next_tau e, pa_PrefetchConf := next_conf e\<rparr>"
  by (simp add: maybeAdjustLocked_def Let_def)

lemma tau_fin: "tuner_ok e \<Longrightarrow> is_fin (pa_TauL2 (ee_params e))"
  using fle_between_fin by (auto simp: tuner_ok_def)

lemma fne_fin: "is_fin x \<Longrightarrow> is_fin y \<Longrightarrow> fne x y \<longleftrightarrow> x \<noteq> y"
  by (cases x; cases y) (auto simp: fne_def)

lemma next_tau_fin: "tuner_ok e \<Longrightarrow> is_fin (next_tau e)"
  using next_tau_band fle_between_fin by (auto simp: tuner_ok_def)

lemma next_tau_frozen: "ee_epoch e < ee_freezeUntil e \<Longrightarrow> next_tau e = pa_TauL2 (ee_params e)"
  by (simp only: next_tau_def Let_def not_le [symmetric] if_False if_not_P)

lemma next_tau_open:
  "ee_freezeUntil e \<le> ee_epoch e \<Longrightarrow>
     next_tau e = (let t = pa_TauL2 (ee_params e) in clamp_between (ee_minTau e) (ee_maxTau e)
       (if fle PollutionRiseAt (ee_polEWMA e) then fadd t TauStep
        else if fle HitTarget (ee_hitEWMA e) \<and> fle (ee_polEWMA e) PollutionLow then fsub t TauStep else t))"
  by (simp only: next_tau_def Let_def if_True)

text \<open>A signal changes the threshold only in an open window, in the direction of the evidence, and closes the window.\<close>

lemma adjust_tau:
  assumes "tuner_ok e" "pa_TauL2 (ee_params (maybeAdjustLocked e)) \<noteq> pa_TauL2 (ee_params e)"
  shows "ee_freezeUntil e \<le> ee_epoch e" "ee_freezeUntil (maybeAdjustLocked e) = ee_epoch e + pa_FreezeEpochs (ee_params e)"
    "fle PollutionRiseAt (ee_polEWMA e) \<and> fle (pa_TauL2 (ee_params e)) (pa_TauL2 (ee_params (maybeAdjustLocked e))) \<or>
     fle HitTarget (ee_hitEWMA e) \<and> fle (ee_polEWMA e) PollutionLow \<and> fle (pa_TauL2 (ee_params (maybeAdjustLocked e))) (pa_TauL2 (ee_params e))"
proof -
  let ?t = "pa_TauL2 (ee_params e)"
  have nt: "pa_TauL2 (ee_params (maybeAdjustLocked e)) = next_tau e" "next_tau e \<noteq> ?t"
    using assms(2) adjust_params [of e] by auto
  show opn: "ee_freezeUntil e \<le> ee_epoch e" using nt(2) by (cases "ee_freezeUntil e \<le> ee_epoch e") (simp_all add: next_tau_def Let_def)
  have "fne (next_tau e) ?t" using fne_fin [OF next_tau_fin tau_fin, OF assms(1,1)] nt(2) by simp
  then show "ee_freezeUntil (maybeAdjustLocked e) = ee_epoch e + pa_FreezeEpochs (ee_params e)"
    using assms(2) by (auto simp: maybeAdjustLocked_def Let_def split: if_splits)
  have b: "fle (ee_minTau e) ?t" "fle ?t (ee_maxTau e)" using assms(1) by (auto simp: tuner_ok_def)
  have t: "double ?t" "fle f0 ?t" using assms(1) b(1) fle_trans [of f0 "ee_minTau e" ?t] by (simp_all add: tuner_ok_def)
  consider (up) "fle PollutionRiseAt (ee_polEWMA e)" "next_tau e = clamp_between (ee_minTau e) (ee_maxTau e) (fadd ?t TauStep)"
    | (down) "fle HitTarget (ee_hitEWMA e) \<and> fle (ee_polEWMA e) PollutionLow" "next_tau e = clamp_between (ee_minTau e) (ee_maxTau e) (fsub ?t TauStep)"
    using next_tau_open [OF opn, unfolded Let_def] nt(2) clamp_between_id [OF b] by (auto split: if_splits)
  then show "fle PollutionRiseAt (ee_polEWMA e) \<and> fle ?t (pa_TauL2 (ee_params (maybeAdjustLocked e))) \<or>
     fle HitTarget (ee_hitEWMA e) \<and> fle (ee_polEWMA e) PollutionLow \<and> fle (pa_TauL2 (ee_params (maybeAdjustLocked e))) ?t"
  proof cases
    case up
    have "fle ?t (fadd ?t TauStep)" by (rule fadd_increases [OF t(1,2) step_values(1)])
    then show ?thesis using up nt(1) clamp_between_mono [OF _ b] assms(1) by (auto simp: tuner_ok_def)
  next
    case down
    have "fle (fsub ?t TauStep) ?t" by (rule fsub_decreases [OF t(1,2) step_values])
    then show ?thesis using down nt(1) clamp_between_mono(2) [OF _ b] assms(1) by (auto simp: tuner_ok_def)
  qed
qed

lemma signal_tau:
  assumes "tuner_ok e" "pa_TauL2 (ee_params (snd (RecordSignal s e))) \<noteq> pa_TauL2 (ee_params e)"
  defines "e1 \<equiv> snd (RecordSignal s e)"
  shows "ee_freezeUntil e \<le> ee_epoch e1" "ee_freezeUntil e1 = ee_epoch e1 + pa_FreezeEpochs (ee_params e)"
    "fle PollutionRiseAt (ee_polEWMA e1) \<and> fle (pa_TauL2 (ee_params e)) (pa_TauL2 (ee_params e1)) \<or>
     fle HitTarget (ee_hitEWMA e1) \<and> fle (ee_polEWMA e1) PollutionLow \<and> fle (pa_TauL2 (ee_params e1)) (pa_TauL2 (ee_params e))"
proof -
  have r: "\<not> is_nan (sg_Value s)" "\<not> is_inf (sg_Value s)" "e1 = maybeAdjustLocked (folded s e)"
    using assms(2) by (auto simp: RecordSignal_eq e1_def split: if_splits)
  have ok: "tuner_ok (folded s e)" using folded_ok [OF assms(1) r(1,2)] by simp
  have ne: "pa_TauL2 (ee_params (maybeAdjustLocked (folded s e))) \<noteq> pa_TauL2 (ee_params (folded s e))"
    using assms(2) r(3) by (simp add: e1_def)
  have ew: "ee_polEWMA (maybeAdjustLocked x) = ee_polEWMA x" "ee_hitEWMA (maybeAdjustLocked x) = ee_hitEWMA x" for x
    by (simp_all add: maybeAdjustLocked_def Let_def)
  show "ee_freezeUntil e \<le> ee_epoch e1" "ee_freezeUntil e1 = ee_epoch e1 + pa_FreezeEpochs (ee_params e)"
    using adjust_tau(1,2) [OF ok ne] by (simp_all add: r(3))
  show "fle PollutionRiseAt (ee_polEWMA e1) \<and> fle (pa_TauL2 (ee_params e)) (pa_TauL2 (ee_params e1)) \<or>
     fle HitTarget (ee_hitEWMA e1) \<and> fle (ee_polEWMA e1) PollutionLow \<and> fle (pa_TauL2 (ee_params e1)) (pa_TauL2 (ee_params e))"
    using adjust_tau(3) [OF ok ne] by (simp add: r(3) ew)
qed

lemma epoch_mono_step: "ee_epoch e \<le> ee_epoch (engine_step op e)"
  by (cases op) (auto simp: RecordSignal_eq evolve_Apply_def)

lemma epoch_mono: "ee_epoch e \<le> ee_epoch (fold engine_step ops e)"
  by (induction ops arbitrary: e) (auto intro: order_trans [OF epoch_mono_step])

fun unforced :: "engine_op \<Rightarrow> bool" where
  "unforced (SignalOp s) = True" | "unforced (ApplyOp p) = (pa_FreezeEpochs p \<noteq> 0)"

definition frozen_part :: "ewmaEngine \<Rightarrow> Params \<times> u64" where
  "frozen_part e = ((ee_params e)\<lparr>pa_PrefetchConf := f0\<rparr>, ee_freezeUntil e)"

lemma frozen_step:
  assumes "tuner_ok e" "unforced op" "ee_epoch (engine_step op e) < ee_freezeUntil e"
  shows "frozen_part (engine_step op e) = frozen_part e"
proof (cases op)
  case (SignalOp s)
  show ?thesis
  proof (cases "pa_TauL2 (ee_params (snd (RecordSignal s e))) = pa_TauL2 (ee_params e)")
    case False
    then show ?thesis using signal_tau(1) [OF assms(1) False] assms(3) SignalOp by simp
  next
    case True
    have f: "frozen_part (folded s e) = frozen_part e" by (simp add: frozen_part_def)
    have "frozen_part (maybeAdjustLocked (folded s e)) = frozen_part e"
      if v: "\<not> is_nan (sg_Value s)" "\<not> is_inf (sg_Value s)" "ee_epoch (maybeAdjustLocked (folded s e)) < ee_freezeUntil e"
    proof -
      have ok: "tuner_ok (folded s e)" using folded_ok [OF assms(1) v(1,2)] by simp
      have nt: "next_tau (folded s e) = pa_TauL2 (ee_params e)" using v(3) next_tau_frozen [of "folded s e"] by (simp del: folded_frame(1))
      then have "\<not> fne (next_tau (folded s e)) (pa_TauL2 (ee_params e))" using fne_fin [OF tau_fin tau_fin, OF assms(1,1)] by simp
      then show ?thesis using nt by (simp add: maybeAdjustLocked_def Let_def frozen_part_def)
    qed
    then show ?thesis using f assms(3) SignalOp by (auto simp: RecordSignal_eq split: if_splits)
  qed
next
  case (ApplyOp p)
  have "ee_epoch e < ee_freezeUntil e" using assms(3) ApplyOp by (auto simp: evolve_Apply_def split: if_splits)
  then show ?thesis using assms(2) ApplyOp by (simp add: evolve_Apply_def)
qed

lemma frozen_run:
  assumes "tuner_ok e" "\<forall>op\<in>set ops. wf_op op \<and> unforced op" "ee_epoch (fold engine_step ops e) < ee_freezeUntil e"
  shows "frozen_part (fold engine_step ops e) = frozen_part e"
  using assms
proof (induction ops arbitrary: e)
  case (Cons op ops)
  let ?e = "engine_step op e"
  have "ee_epoch ?e < ee_freezeUntil e" using epoch_mono [of ?e ops] Cons.prems(3) by simp
  then have s: "frozen_part ?e = frozen_part e" using Cons.prems by (intro frozen_step) auto
  have "tuner_ok ?e" using engine_run_ok [of e "[op]"] Cons.prems by simp
  then have "frozen_part (fold engine_step ops ?e) = frozen_part ?e"
    using Cons.prems s by (intro Cons.IH) (auto simp: frozen_part_def)
  then show ?case using s by simp
qed simp

section \<open>Configurations\<close>

text \<open>A configuration in which the smoothing factor is at most one and the initial threshold lies in its band.\<close>

definition sane :: "EvolveConfig \<Rightarrow> bool" where
  "sane cfg \<longleftrightarrow>
     (let e = evolve_New cfg; t = pa_TauL2 (ee_params e) in
      double (ee_alpha e) \<and> fle (ee_alpha e) f1 \<and> double (ee_minTau e) \<and> double (ee_maxTau e) \<and> double t \<and>
      fle (ee_minTau e) t \<and> fle t (ee_maxTau e))"

lemma defaults: "DefaultAlpha = Fin (3602879701896397 / 36028797018963968)" "DefaultMinTau = Fin (5404319552844595 / 18014398509481984)"
  "DefaultMaxTau = Fin (3602879701896397 / 4503599627370496)" "DefaultTauL2 = Fin (2476979795053773 / 4503599627370496)"
  "DefaultSuccessFloor = Fin (3152519739159347 / 4503599627370496)" "r64 (1/2) = Fin (1/2)" "DefaultInjectCap = Fin (5404319552844595 / 18014398509481984)"
  by code_simp+

lemma or_default_pos: "flt f0 d \<Longrightarrow> is_fin d \<Longrightarrow> flt f0 (or_default x d) \<and> is_fin (or_default x d)"
  by (cases x) (auto simp: or_default_def)

lemma New_ok: assumes "sane cfg" shows "tuner_ok (evolve_New cfg)"
proof -
  let ?e = "evolve_New cfg"
  have c: "flt f0 (ee_alpha ?e)" "is_fin (ee_alpha ?e)" "flt f0 (ee_minTau ?e)" "is_fin (ee_minTau ?e)" "is_fin (ee_maxTau ?e)"
    using or_default_pos [of DefaultAlpha] or_default_pos [of DefaultMinTau] or_default_pos [of DefaultMaxTau]
    by (simp_all add: evolve_New_def Let_def defaults)
  have z: "in01 (ee_hitEWMA ?e)" "in01 (ee_polEWMA ?e)" "in01 (ee_prefetchHitEWMA ?e)" "in01 (ee_prefetchWasteEWMA ?e)"
    "is_fin (pa_PrefetchConf (ee_params ?e))"
    by (simp_all add: evolve_New_def Let_def in01_def defaults)
  have p: "fle f0 x" if "flt f0 x" for x using that by (auto simp: fle_def)
  show ?thesis using assms c z p fle_trans by (auto simp: sane_def Let_def tuner_ok_def in01_def)
qed

lemma default_sane: "sane \<lparr>ev_Alpha = f0, ev_TauL2 = f0, ev_SuccessFloor = f0, ev_InjectCap = f0, ev_FreezeEpochs = 0, ev_MinTau = f0, ev_MaxTau = f0, ev_MinSamples = 0\<rparr>"
proof -
  have "double DefaultAlpha" "double DefaultMinTau" "double DefaultMaxTau" "double DefaultTauL2"
    unfolding DefaultAlpha_def DefaultMinTau_def DefaultMaxTau_def DefaultTauL2_def by (rule double_ops(1))+
  then show ?thesis by (simp add: sane_def evolve_New_def Let_def or_default_def) (simp add: defaults)
qed

section \<open>Properties of the engine\<close>

lemma conf_run:
  assumes "conf_ok (pa_PrefetchConf (ee_params e))" "\<forall>op\<in>set ops. \<exists>s. op = SignalOp s"
  shows "conf_ok (pa_PrefetchConf (ee_params (fold engine_step ops e)))"
  using assms
proof (induction ops arbitrary: e)
  case (Cons op ops)
  obtain s where op: "op = SignalOp s" using Cons.prems(2) by auto
  have "conf_ok (pa_PrefetchConf (ee_params (maybeAdjustLocked (folded s e))))"
    using adjust_params [of "folded s e"] next_conf_band [of "folded s e"] conf_ok_fin Cons.prems(1) by auto
  then have "conf_ok (pa_PrefetchConf (ee_params (engine_step op e)))" using Cons.prems(1) op by (simp add: RecordSignal_eq)
  then show ?case using Cons by simp
qed simp

text \<open>
  The engine stays in its bounds. For a sane configuration and any sequence of signals and operator updates, finite or not, in
  order or not, the four moving averages stay in the unit interval and the injection threshold in its configured
  band, in double precision; without operator updates the prefetch confidence stays between 0.05 and 0.95.
\<close>

lemma tuning_bounded:
  assumes "sane cfg" "\<forall>op\<in>set ops. wf_op op"
  defines "e \<equiv> fold engine_step ops (evolve_New cfg)"
  shows "(\<forall>x\<in>{ee_hitEWMA e, ee_polEWMA e, ee_prefetchHitEWMA e, ee_prefetchWasteEWMA e}. fle f0 x \<and> fle x f1) \<and>
    fle (ee_minTau (evolve_New cfg)) (pa_TauL2 (ee_params e)) \<and> fle (pa_TauL2 (ee_params e)) (ee_maxTau (evolve_New cfg)) \<and>
    ((\<forall>op\<in>set ops. \<exists>s. op = SignalOp s) \<longrightarrow>
       fle (r64 (1/20)) (pa_PrefetchConf (ee_params e)) \<and> fle (pa_PrefetchConf (ee_params e)) (r64 (19/20)))"
proof -
  have ok: "tuner_ok e" "fixed e = fixed (evolve_New cfg)" using engine_run_ok [OF New_ok [OF assms(1)] assms(2)] by (auto simp: e_def)
  have c0: "conf_ok (pa_PrefetchConf (ee_params (evolve_New cfg)))" by (simp add: conf_ok_def evolve_New_def Let_def defaults steps_fin)
  have "conf_ok (pa_PrefetchConf (ee_params e))" if "\<forall>op\<in>set ops. \<exists>s. op = SignalOp s"
    using conf_run [OF c0 that] by (simp add: e_def)
  then show ?thesis using ok by (auto simp: tuner_ok_def fixed_def in01_def conf_ok_def)
qed

text \<open>
  C27. The injection threshold moves with the evidence and then rests. Whenever a signal changes the threshold in a
  reachable state, the freeze window was over, pollution was high and the threshold rose, or hits were
  high with little pollution and it fell; and as long as the epoch is inside the new window, no sequence of signals and operator
  updates changes any parameter but the prefetch confidence, unless an update asks for no freeze.
\<close>

theorem threshold_rests_after_change:
  assumes "sane cfg" "\<forall>op\<in>set ops. wf_op op"
  defines "e \<equiv> fold engine_step ops (evolve_New cfg)"
  assumes "e1 = engine_step (SignalOp s) e" "pa_TauL2 (ee_params e1) \<noteq> pa_TauL2 (ee_params e)"
    and "\<forall>op\<in>set ops'. wf_op op \<and> unforced op" "e2 = fold engine_step ops' e1"
    and "ee_epoch e2 < ee_epoch e1 + pa_FreezeEpochs (ee_params e)"
  shows "ee_freezeUntil e \<le> ee_epoch e1 \<and>
    (fle PollutionRiseAt (ee_polEWMA e1) \<and> fle (pa_TauL2 (ee_params e)) (pa_TauL2 (ee_params e1)) \<or>
     fle HitTarget (ee_hitEWMA e1) \<and> fle (ee_polEWMA e1) PollutionLow \<and> fle (pa_TauL2 (ee_params e1)) (pa_TauL2 (ee_params e))) \<and>
    (ee_params e2)\<lparr>pa_PrefetchConf := f0\<rparr> = (ee_params e1)\<lparr>pa_PrefetchConf := f0\<rparr>"
proof -
  have ok: "tuner_ok e" using engine_run_ok [OF New_ok [OF assms(1)] assms(2)] by (simp add: e_def)
  have ne: "pa_TauL2 (ee_params (snd (RecordSignal s e))) \<noteq> pa_TauL2 (ee_params e)" using assms(4,5) by simp
  note T = signal_tau [OF ok ne]
  have "tuner_ok e1" using RecordSignal_ok [OF ok] assms(4) by simp
  moreover have "ee_epoch (fold engine_step ops' e1) < ee_freezeUntil e1" using T(2) assms(4,7,8) by simp
  ultimately have "frozen_part e2 = frozen_part e1" using assms(6,7) frozen_run by blast
  then show ?thesis using T assms(4) by (simp add: frozen_part_def)
qed

text \<open>
  The sum that ends a freeze window wraps: an update that asks for the longest window opens none, and the next update is accepted at once.
\<close>

lemma longest_freeze_wraps:
  assumes "evolve_Apply p e = (None, e1)" "pa_FreezeEpochs p = - 1" "0 < ee_epoch e"
  shows "ee_freezeUntil e1 < ee_epoch e1" "fst (evolve_Apply p e1) = None"
proof -
  have e: "finite_f (pa_TauL2 p)" "finite_f (pa_InjectCap p)" "finite_f (pa_PrefetchConf p)" "finite_f (pa_SuccessFloor p)"
    "ee_epoch e1 = ee_epoch e" "ee_freezeUntil e1 = ee_epoch e - 1"
    using assms(1,2) by (auto simp: evolve_Apply_def split: if_splits)
  show lt: "ee_freezeUntil e1 < ee_epoch e1" 
  proof -
    have "ee_epoch e \<noteq> 0" using assms(3) by auto
    then have "unat (ee_epoch e - 1) = unat (ee_epoch e) - 1" "0 < unat (ee_epoch e)" by (simp_all add: unat_minus_one unat_gt_0)
    then show ?thesis using e(5,6) by (simp add: word_less_nat_alt)
  qed
  show "fst (evolve_Apply p e1) = None" using e lt by (auto simp: evolve_Apply_def)
qed

section \<open>A run that tightens the threshold\<close>

definition quick_cfg :: EvolveConfig where
  "quick_cfg = \<lparr>ev_Alpha = f1, ev_TauL2 = Fin (1/2), ev_SuccessFloor = f0, ev_InjectCap = f0, ev_FreezeEpochs = 2, ev_MinTau = Fin (1/4),
     ev_MaxTau = Fin (3/4), ev_MinSamples = 1\<rparr>"

definition pollution_at :: "u64 \<Rightarrow> Signal" where
  "pollution_at t = \<lparr>sg_Name = ''inject_pollution'', sg_Value = f1, sg_Epoch = t\<rparr>"

lemma quick_sane: "sane quick_cfg"
  by code_simp

lemma quick_tightens: "pa_TauL2 (ee_params (engine_step (SignalOp (pollution_at 2)) (evolve_New quick_cfg))) \<noteq> pa_TauL2 (ee_params (evolve_New quick_cfg))"
  by code_simp

lemma quick_epochs: "ee_epoch (fold engine_step [SignalOp (pollution_at 3)] (engine_step (SignalOp (pollution_at 2)) (evolve_New quick_cfg))) <
    ee_epoch (engine_step (SignalOp (pollution_at 2)) (evolve_New quick_cfg)) + pa_FreezeEpochs (ee_params (evolve_New quick_cfg))"
  by code_simp

lemma tuning_bounded_witness:
  "sane quick_cfg \<and> fle (pa_TauL2 (ee_params (fold engine_step [SignalOp (pollution_at 2)] (evolve_New quick_cfg)))) (ee_maxTau (evolve_New quick_cfg))"
  using quick_sane tuning_bounded [OF quick_sane, of "[SignalOp (pollution_at 2)]"] by simp

theorem threshold_rests_after_change_witness:
  "let e = evolve_New quick_cfg; e1 = engine_step (SignalOp (pollution_at 2)) e; e2 = fold engine_step [SignalOp (pollution_at 3)] e1 in
   sane quick_cfg \<and> pa_TauL2 (ee_params e1) \<noteq> pa_TauL2 (ee_params e) \<and> ee_epoch e2 < ee_epoch e1 + pa_FreezeEpochs (ee_params e) \<and>
   (ee_params e2)\<lparr>pa_PrefetchConf := f0\<rparr> = (ee_params e1)\<lparr>pa_PrefetchConf := f0\<rparr>"
  unfolding Let_def
  using quick_sane quick_tightens quick_epochs
    threshold_rests_after_change [OF quick_sane, of "[]" _ "pollution_at 2" "[SignalOp (pollution_at 3)]", OF _ refl _ _ refl]
  by simp

section \<open>The loop\<close>

text \<open>What the loop never touches of the parameters, and what it keeps finite.\<close>

definition snapshot_ok :: "Params \<Rightarrow> bool" where
  "snapshot_ok p \<longleftrightarrow> is_fin (pa_TauL2 p) \<and> is_fin (pa_TauL3 p) \<and> is_fin (pa_InjectCap p) \<and> in01 (pa_SuccessFloor p) \<and> conf_ok (pa_PrefetchConf p)"

lemma in01_fin: "in01 x \<Longrightarrow> is_fin x"
  by (auto simp: in01_Fin)

lemma snapshot_json: "snapshot_ok p \<Longrightarrow> params_json p"
  using in01_fin conf_ok_fin by (auto simp: snapshot_ok_def params_json_def finite_f_def is_fin_def)

lemma feq_fin: "is_fin x \<Longrightarrow> is_fin y \<Longrightarrow> feq x y \<longleftrightarrow> x = y"
  using fne_fin [of x y] by (simp add: fne_def)

lemma snapshot_equal: "snapshot_ok p \<Longrightarrow> snapshot_ok q \<Longrightarrow> params_equal p q \<longleftrightarrow> p = q"
  by (cases p; cases q) (auto simp: params_equal_def snapshot_ok_def feq_fin in01_fin conf_ok_fin)

lemma signal_snapshot:
  assumes "tuner_ok e" "snapshot_ok (ee_params e)" shows "snapshot_ok (ee_params (snd (RecordSignal s e)))"
proof -
  have ok: "tuner_ok (snd (RecordSignal s e))" using RecordSignal_ok [OF assms(1)] by simp
  have "conf_ok (pa_PrefetchConf (ee_params (snd (RecordSignal s e))))" using conf_run [of e "[SignalOp s]"] assms(2) by (simp add: snapshot_ok_def)
  moreover have "pa_TauL3 (ee_params (snd (RecordSignal s e))) = pa_TauL3 (ee_params e)"
    "pa_InjectCap (ee_params (snd (RecordSignal s e))) = pa_InjectCap (ee_params e)"
    "pa_SuccessFloor (ee_params (snd (RecordSignal s e))) = pa_SuccessFloor (ee_params e)"
    using adjust_params [of "folded s e"] by (auto simp: RecordSignal_eq)
  ultimately show ?thesis using tau_fin [OF ok] assms(2) by (simp add: snapshot_ok_def)
qed

definition tuned :: "Params \<Rightarrow> EvolutionLoop \<Rightarrow> bool" where
  "tuned p l \<longleftrightarrow> (\<exists>d m. el_scheduler l = Some d \<and> el_prefetcher l = Some m \<and> cf_SuccessFloor (rd_cfg d) = pa_SuccessFloor p \<and>
     mc_MinConf (mp_cfg m) = pa_PrefetchConf p \<and> mc_Epsilon (mp_cfg m) = EscapeEpsilon)"

definition loop_ok :: "Params \<Rightarrow> EvolutionLoop \<Rightarrow> bool" where
  "loop_ok p0 l \<longleftrightarrow> tuner_ok (el_engine l) \<and> snapshot_ok (ee_params (el_engine l)) \<and> el_scheduler l \<noteq> None \<and> el_prefetcher l \<noteq> None \<and>
     (if el_ticks l = [] then ee_params (el_engine l) = p0
      else last (el_ticks l) = ee_params (el_engine l) \<and> tuned (ee_params (el_engine l)) l)"

lemma scheduler_follows: "in01 x \<Longrightarrow> cf_SuccessFloor (rd_cfg (snd (Sched.ApplyEvolution x d))) = x"
  by (auto simp: in01_Fin Sched.ApplyEvolution_def Let_def)

lemma prefetcher_follows: "conf_ok x \<Longrightarrow> mc_MinConf (mp_cfg (snd (Matrix_ApplyEvolution x m))) = x"
  by (cases x) (auto simp: conf_ok_def steps_fin Matrix_ApplyEvolution_def Let_def)

lemma epsilon_set: "mc_Epsilon (mp_cfg (snd (SetEpsilon EscapeEpsilon m))) = EscapeEpsilon" "mc_MinConf (mp_cfg (snd (SetEpsilon EscapeEpsilon m))) = mc_MinConf (mp_cfg m)"
proof -
  have eps: "EscapeEpsilon = Fin (3602879701896397 / 36028797018963968)" by code_simp
  have "\<not> is_nan EscapeEpsilon" "\<not> is_inf EscapeEpsilon" "\<not> flt EscapeEpsilon f0" "\<not> flt f1 EscapeEpsilon"
    unfolding eps by simp_all
  then show "mc_Epsilon (mp_cfg (snd (SetEpsilon EscapeEpsilon m))) = EscapeEpsilon" "mc_MinConf (mp_cfg (snd (SetEpsilon EscapeEpsilon m))) = mc_MinConf (mp_cfg m)"
    by (simp_all add: SetEpsilon_def)
qed

lemma recordLocked_ok: assumes "loop_ok p0 l" shows "loop_ok p0 (recordLocked n v l)"
proof -
  let ?s = "\<lparr>sg_Name = n, sg_Value = v, sg_Epoch = el_epoch l + 1\<rparr>"
  obtain r e where re: "RecordSignal ?s (el_engine l) = (r, e)" by (rule prod.exhaust)
  obtain d m where dm: "el_scheduler l = Some d" "el_prefetcher l = Some m" using assms by (auto simp: loop_ok_def)
  let ?p = "ee_params (el_engine l)"
  have ok: "tuner_ok e" "snapshot_ok (ee_params e)" "snapshot_ok ?p"
    using RecordSignal_ok [of "el_engine l" ?s] signal_snapshot [of "el_engine l" ?s] assms re by (auto simp: loop_ok_def)
  show ?thesis
  proof (cases "r = None \<and> ee_params e \<noteq> ?p")
    case False
    have same: "ee_params e = ?p" using False re by (auto simp: RecordSignal_eq split: if_splits)
    then have "recordLocked n v l = l\<lparr>el_epoch := el_epoch l + 1, el_engine := e\<rparr>"
      using re snapshot_equal [OF ok(3,2)] by (auto simp: recordLocked_def Let_def split: option.splits)
    then show ?thesis using assms ok same by (auto simp: loop_ok_def tuned_def)
  next
    case True
    then have "recordLocked n v l = l\<lparr>el_epoch := el_epoch l + 1, el_engine := e,
        el_scheduler := Some (snd (Sched.ApplyEvolution (pa_SuccessFloor (ee_params e)) d)),
        el_prefetcher := Some (snd (SetEpsilon EscapeEpsilon (snd (Matrix_ApplyEvolution (pa_PrefetchConf (ee_params e)) m)))),
        el_ticks := el_ticks l @ [ee_params e]\<rparr>"
      using re dm snapshot_equal [OF ok(3,2)] snapshot_json [OF ok(2)] by (auto simp: recordLocked_def Let_def)
    moreover have "in01 (pa_SuccessFloor (ee_params e))" "conf_ok (pa_PrefetchConf (ee_params e))" using ok(2) by (simp_all add: snapshot_ok_def)
    ultimately show ?thesis using ok by (simp add: loop_ok_def tuned_def scheduler_follows prefetcher_follows epsilon_set)
  qed
qed

lemma observe_cfg: "mp_cfg (fold (\<lambda>t m. if hit then ObserveHit t m else ObserveWaste t m) ts m) = mp_cfg m"
  by (induction ts arbitrary: m) (auto simp: ObserveHit_def ObserveWaste_def)

lemma feedback_ok: "loop_ok p0 l \<Longrightarrow> loop_ok p0 (loop_feedback hit ts ps l)"
  by (auto simp: loop_ok_def loop_feedback_def tuned_def observe_cfg)

lemma outcome_ok: "loop_ok p0 l \<Longrightarrow> loop_ok p0 (outcome n v ts ps l)"
  by (simp add: outcome_def Let_def feedback_ok recordLocked_ok)

lemma loop_observe_ok: "loop_ok p0 l \<Longrightarrow> loop_ok p0 (loop_observe ev l)"
  by (cases ev) (auto simp: outcome_ok recordLocked_ok split: option.split)

lemma loop_run_ok: "loop_ok p0 l \<Longrightarrow> loop_ok p0 (fold loop_observe evs l)"
  by (induction evs arbitrary: l) (simp_all add: loop_observe_ok)


lemma quick_ticks: "el_ticks (fold loop_observe [SliceReject, SliceReject]
    (Attach (Some (NewRuleDecider Defaults)) (Some (NewMatrixPrefetcher MatrixDefaults)) (NewEvolutionLoop (evolve_New quick_cfg)))) \<noteq> []"
  by code_simp


end
