(* ===== verification/Event_Bus.thy ===== *)
theory Event_Bus
  imports Prelude
begin

text \<open>
  The in-process event bus of \<open>kernel/event/bus.go\<close>. Handlers are values of a type variable; an emitted event is the
  list of handlers that are called, in order, outside the lock, so what they do to the bus meanwhile is a
  later step. A subscription is the closure \<open>Subscribe\<close> returns: the slot it captured and the state of its \<open>sync.Once\<close>.
\<close>

section \<open>The bus\<close>

record 'h SyncBus =
  sb_handlers :: "'h option list"

definition NewSyncBus :: "'h SyncBus" where
  "NewSyncBus = \<lparr>sb_handlers = []\<rparr>"

definition Emit :: "'h SyncBus \<Rightarrow> 'h list" where
  "Emit b = List.map_filter (\<lambda>h. h) (sb_handlers b)"

fun first_nil :: "nat \<Rightarrow> 'h option list \<Rightarrow> nat option" where
  "first_nil i [] = None"
| "first_nil i (h # hs) = (if h = None then Some i else first_nil (Suc i) hs)"

record subscription =
  su_idx :: nat
  su_done :: bool

definition Subscribe :: "'h option \<Rightarrow> 'h SyncBus \<Rightarrow> subscription \<times> 'h SyncBus" where
  "Subscribe handler b =
     (case first_nil 0 (sb_handlers b) of
        None \<Rightarrow> (\<lparr>su_idx = length (sb_handlers b), su_done = False\<rparr>, b\<lparr>sb_handlers := sb_handlers b @ [handler]\<rparr>)
      | Some i \<Rightarrow> (\<lparr>su_idx = i, su_done = False\<rparr>, b\<lparr>sb_handlers := (sb_handlers b)[i := handler]\<rparr>))"

definition unsubscribe :: "subscription \<Rightarrow> 'h SyncBus \<Rightarrow> subscription \<times> 'h SyncBus" where
  "unsubscribe su b =
     (if su_done su then (su, b)
      else (su\<lparr>su_done := True\<rparr>, b\<lparr>sb_handlers := (sb_handlers b)[su_idx su := None]\<rparr>))"

section \<open>Histories\<close>

text \<open>Subscriptions are numbered in the order in which they were made; any of them may be ended any number of times.\<close>

datatype 'h bus_op = SubscribeOp 'h | UnsubscribeOp nat

fun bus_step :: "'h bus_op \<Rightarrow> 'h SyncBus \<times> (subscription \<times> 'h) list \<Rightarrow> 'h SyncBus \<times> (subscription \<times> 'h) list" where
  "bus_step (SubscribeOp h) (b, subs) = (let (su, b') = Subscribe (Some h) b in (b', subs @ [(su, h)]))"
| "bus_step (UnsubscribeOp n) (b, subs) =
     (if n < length subs then let (su, b') = unsubscribe (fst (subs ! n)) b in (b', subs[n := (su, snd (subs ! n))])
      else (b, subs))"

text \<open>What a bus promises: the subscriptions that were made and not ended, and the most there ever were at once.\<close>

record 'h bus_spec =
  sp_subs :: "'h option list"
  sp_peak :: nat

definition sp_live :: "'h bus_spec \<Rightarrow> 'h list" where
  "sp_live s = List.map_filter (\<lambda>h. h) (sp_subs s)"

fun spec_step :: "'h bus_op \<Rightarrow> 'h bus_spec \<Rightarrow> 'h bus_spec" where
  "spec_step (SubscribeOp h) s =
     (let s' = s\<lparr>sp_subs := sp_subs s @ [Some h]\<rparr> in s'\<lparr>sp_peak := max (sp_peak s) (length (sp_live s'))\<rparr>)"
| "spec_step (UnsubscribeOp n) s = s\<lparr>sp_subs := (sp_subs s)[n := None]\<rparr>"

definition bus_run :: "'h bus_op list \<Rightarrow> 'h SyncBus \<times> (subscription \<times> 'h) list" where
  "bus_run ops = fold bus_step ops (NewSyncBus, [])"

definition spec_run :: "'h bus_op list \<Rightarrow> 'h bus_spec" where
  "spec_run ops = fold spec_step ops \<lparr>sp_subs = [], sp_peak = 0\<rparr>"

section \<open>Slots\<close>

lemma map_filter_append [simp]: "List.map_filter f (xs @ ys) = List.map_filter f xs @ List.map_filter f ys"
  by (simp add: List.map_filter_def)

lemma fill_slot: "i < length xs \<Longrightarrow> xs ! i = None \<Longrightarrow> mset (List.map_filter (\<lambda>h. h) (xs[i := Some h])) = add_mset h (mset (List.map_filter (\<lambda>h. h) xs))"
  by (induction xs arbitrary: i) (auto simp: map_filter_simps less_Suc_eq_0_disj split: option.split)

lemma clear_slot: "i < length xs \<Longrightarrow> xs ! i = Some h \<Longrightarrow> mset (List.map_filter (\<lambda>h. h) xs) = add_mset h (mset (List.map_filter (\<lambda>h. h) (xs[i := None])))"
  by (induction xs arbitrary: i) (auto simp: map_filter_simps less_Suc_eq_0_disj split: option.split)

lemma first_nil_None: "first_nil i hs = None \<longleftrightarrow> None \<notin> set hs"
  by (induction hs arbitrary: i) auto

lemma first_nil_Some: "first_nil i hs = Some j \<Longrightarrow> i \<le> j \<and> j - i < length hs \<and> hs ! (j - i) = None"
  by (induction hs arbitrary: i) (force split: if_splits simp: nth_Cons')+

lemma no_nil_length: "None \<notin> set hs \<Longrightarrow> length (List.map_filter (\<lambda>h. h) hs) = length hs"
proof (induction hs)
  case (Cons h hs)
  then show ?case by (cases h) (auto simp: map_filter_simps)
qed (simp add: map_filter_simps)

text \<open>Each subscription that has not ended owns its slot, alone.\<close>

definition owns :: "'h option list \<Rightarrow> (subscription \<times> 'h) list \<Rightarrow> bool" where
  "owns hs subs \<longleftrightarrow>
     (\<forall>n<length subs. \<not> su_done (fst (subs ! n)) \<longrightarrow> su_idx (fst (subs ! n)) < length hs \<and> hs ! su_idx (fst (subs ! n)) = Some (snd (subs ! n))) \<and>
     (\<forall>n<length subs. \<forall>m<length subs. \<not> su_done (fst (subs ! n)) \<longrightarrow> \<not> su_done (fst (subs ! m)) \<longrightarrow>
        su_idx (fst (subs ! n)) = su_idx (fst (subs ! m)) \<longrightarrow> n = m)"

definition bus_rel :: "'h SyncBus \<times> (subscription \<times> 'h) list \<Rightarrow> 'h bus_spec \<Rightarrow> bool" where
  "bus_rel st s \<longleftrightarrow> owns (sb_handlers (fst st)) (snd st) \<and>
     sp_subs s = map (\<lambda>(su, h). if su_done su then None else Some h) (snd st) \<and>
     mset (Emit (fst st)) = mset (sp_live s) \<and> length (sb_handlers (fst st)) \<le> sp_peak s"

lemma subscribe_rel: assumes "bus_rel (b, subs) s" shows "bus_rel (bus_step (SubscribeOp h) (b, subs)) (spec_step (SubscribeOp h) s)"
proof -
  let ?hs = "sb_handlers b"
  have o: "owns ?hs subs" "sp_subs s = map (\<lambda>(su, h). if su_done su then None else Some h) subs"
    "mset (Emit b) = mset (sp_live s)" "length ?hs \<le> sp_peak s" using assms by (auto simp: bus_rel_def)
  show ?thesis
  proof (cases "first_nil 0 ?hs")
    case None
    have "length (sp_live s) = length ?hs"
      using o(3) no_nil_length [of ?hs] None by (simp add: first_nil_None Emit_def) (metis size_mset)
    then show ?thesis using None o
      by (auto simp: bus_rel_def Subscribe_def sp_live_def Emit_def map_filter_simps owns_def nth_append less_Suc_eq)
  next
    case (Some i)
    have i: "i < length ?hs" "?hs ! i = None" using first_nil_Some [OF Some] by auto
    have free: "i \<noteq> su_idx (fst (subs ! n))" if "n < length subs" "\<not> su_done (fst (subs ! n))" for n
      using o(1) that i(2) by (auto simp: owns_def)
    have "owns (?hs[i := Some h]) (subs @ [(\<lparr>su_idx = i, su_done = False\<rparr>, h)])"
      using o(1) free i by (auto simp: owns_def nth_append less_Suc_eq)
    then show ?thesis using Some o fill_slot [OF i, of h]
      by (auto simp: bus_rel_def Subscribe_def sp_live_def Emit_def map_filter_simps)
  qed
qed

lemma unsubscribe_rel: assumes "bus_rel (b, subs) s" shows "bus_rel (bus_step (UnsubscribeOp n) (b, subs)) (spec_step (UnsubscribeOp n) s)"
proof -
  let ?hs = "sb_handlers b"
  have o: "owns ?hs subs" "sp_subs s = map (\<lambda>(su, h). if su_done su then None else Some h) subs"
    "mset (Emit b) = mset (sp_live s)" "length ?hs \<le> sp_peak s" using assms by (auto simp: bus_rel_def)
  consider (out) "length subs \<le> n" | (ended) "n < length subs" "su_done (fst (subs ! n))" | (live) "n < length subs" "\<not> su_done (fst (subs ! n))"
    by linarith
  then show ?thesis
  proof cases
    case out
    then have "(sp_subs s)[n := None] = sp_subs s" by (simp add: o(2) list_update_beyond)
    then show ?thesis using assms out by (simp add: not_less)
  next
    case ended
    then have "(sp_subs s)[n := None] = sp_subs s" by (auto simp: o(2) list_update_same_conv split: prod.split)
    then show ?thesis using assms ended by (simp add: unsubscribe_def Let_def)
  next
    case live
    obtain su h where e: "subs ! n = (su, h)" by (rule prod.exhaust)
    have i: "su_idx su < length ?hs" "?hs ! su_idx su = Some h" using o(1) live e by (auto simp: owns_def)
    have other: "su_idx su \<noteq> su_idx (fst (subs ! m))" if "m < length subs" "\<not> su_done (fst (subs ! m))" "m \<noteq> n" for m
      using o(1) live that e unfolding owns_def by (metis fst_conv)
    have "owns (?hs[su_idx su := None]) (subs[n := (su\<lparr>su_done := True\<rparr>, h)])"
      using o(1) other live by (auto simp: owns_def nth_list_update)
    moreover have "map (\<lambda>(su, h). if su_done su then None else Some h) (subs[n := (su\<lparr>su_done := True\<rparr>, h)]) = (sp_subs s)[n := None]"
      by (simp add: o(2) map_update)
    moreover have "mset (List.map_filter (\<lambda>h. h) (?hs[su_idx su := None])) = mset (List.map_filter (\<lambda>h. h) ((sp_subs s)[n := None]))"
      using clear_slot [OF i] clear_slot [of n "sp_subs s" h] o(2,3) live e by (simp add: Emit_def sp_live_def)
    ultimately show ?thesis using live e o(4) by (simp add: bus_rel_def unsubscribe_def Let_def Emit_def sp_live_def)
  qed
qed

lemma bus_run_rel: "bus_rel (bus_run ops) (spec_run ops)"
proof -
  have run: "bus_rel st s \<Longrightarrow> bus_rel (fold bus_step ops st) (fold spec_step ops s)" for st s
  proof (induction ops arbitrary: st s)
    case (Cons op ops)
    obtain b subs where st: "st = (b, subs)" by (rule prod.exhaust)
    have "bus_rel (bus_step op st) (spec_step op s)"
      using subscribe_rel unsubscribe_rel Cons.prems unfolding st by (cases op) (simp_all only:)
    then show ?case using Cons.IH by simp
  qed simp
  show ?thesis unfolding bus_run_def spec_run_def
    by (rule run) (simp add: bus_rel_def owns_def NewSyncBus_def Emit_def sp_live_def map_filter_simps)
qed

section \<open>Properties\<close>

text \<open>
  C29. The bus refines its contract. After any history of subscriptions and of unsubscriptions, repeated ones included, an
  event reaches exactly the handlers whose subscription has not ended, once per subscription, although slots are
  reused; and the table never grows past the largest number of simultaneous subscriptions.
\<close>

theorem bus_delivers_to_live:
  "mset (Emit (fst (bus_run ops))) = mset (sp_live (spec_run ops)) \<and> length (sb_handlers (fst (bus_run ops))) \<le> sp_peak (spec_run ops)"
  using bus_run_rel [of ops] by (auto simp: bus_rel_def)

text \<open>
  The contract of the interface also promises the order of subscription. The reuse of slots breaks it: a handler that
  subscribes after an earlier one left is called before a handler that subscribed before it.
\<close>

lemma reuse_breaks_order:
  "Emit (fst (bus_run [SubscribeOp a, SubscribeOp b, UnsubscribeOp 0, SubscribeOp c])) = [c, b]"
  "sp_live (spec_run [SubscribeOp a, SubscribeOp b, UnsubscribeOp 0, SubscribeOp c]) = [b, c]"
  by (simp_all add: bus_run_def spec_run_def Emit_def sp_live_def NewSyncBus_def Subscribe_def unsubscribe_def Let_def map_filter_simps)

end
