(* ===== verification/Compress.thy ===== *)
theory Compress
  imports Utf8 "HOL-Library.Sublist"
begin

text \<open>
  Rule-based text compression, \<open>kernel/slice/compress.go\<close>, on byte strings. \<open>utf8.Valid\<close> follows
  the standard library at the level of bytes. A slice expression with a negative bound panics, which is the value \<open>None\<close>.
\<close>

section \<open>The standard library\<close>

function valid_bytes :: "nat list \<Rightarrow> bool" where
  "valid_bytes [] = True"
| "valid_bytes (b # s) \<longleftrightarrow> (b < 128 \<or> 0 < snd (decode_one b s)) \<and> valid_bytes (drop (snd (decode_one b s)) s)"
  by pat_completeness auto
termination by (relation "measure length") auto

definition utf8_valid :: "string \<Rightarrow> bool" where
  "utf8_valid s = valid_bytes (map of_char s)"

definition drop_right :: "('a \<Rightarrow> bool) \<Rightarrow> 'a list \<Rightarrow> 'a list" where
  "drop_right P xs = rev (dropWhile P (rev xs))"

abbreviation (input) LF :: char where "LF \<equiv> CHR 0x0A"
abbreviation (input) CR :: char where "CR \<equiv> CHR 0x0D"

fun crlf_to_lf :: "string \<Rightarrow> string" where
  "crlf_to_lf (c # d # s) = (if c = CR \<and> d = LF then LF # crlf_to_lf s else c # crlf_to_lf (d # s))"
| "crlf_to_lf [c] = [c]"
| "crlf_to_lf [] = []"

fun split_lines :: "string \<Rightarrow> string list" where
  "split_lines [] = [[]]"
| "split_lines (c # s) = (if c = LF then [] # split_lines s else (case split_lines s of [] \<Rightarrow> [[c]] | l # ls \<Rightarrow> (c # l) # ls))"

fun join_lines :: "string list \<Rightarrow> string" where
  "join_lines [] = []" | "join_lines [l] = l" | "join_lines (l # ls) = l @ LF # join_lines ls"

section \<open>The rules\<close>

definition compactionMarker :: string where
  "compactionMarker = LF # ''...[content compacted]...'' @ [LF]"

definition markdownFenceDelimiter :: "string \<Rightarrow> char option" where
  "markdownFenceDelimiter line0 =
     (let line = trim_space line0 in
      if length line < 3 then None
      else if take 3 line = ''```'' then Some CHR ''`''
      else if take 3 line = ''~~~'' then Some CHR ''~''
      else None)"

definition isMarkdownDecoration :: "string \<Rightarrow> bool" where
  "isMarkdownDecoration line0 =
     (let rs = runes_of (trim_space line0) in
      \<not> length rs < 3 \<and> list_all (\<lambda>r. r \<in> set (map of_char ''-*_=~#'')) rs)"

definition keep_line :: "string list \<Rightarrow> string \<Rightarrow> string list" where
  "keep_line kept line =
     (let blank = (trim_space line = []) in
      if isMarkdownDecoration line then kept
      else if kept \<noteq> [] \<and> blank \<and> trim_space (last kept) = [] then kept
      else if kept \<noteq> [] \<and> \<not> blank \<and> line = last kept then kept
      else kept @ [line])"

definition trim_right_blanks :: "string \<Rightarrow> string" where
  "trim_right_blanks line = drop_right (\<lambda>c. c = CHR '' '' \<or> c = CHR 0x09) line"

fun compress_lines :: "char option \<Rightarrow> string list \<Rightarrow> string list \<Rightarrow> string list" where
  "compress_lines fence kept [] = kept"
| "compress_lines fence kept (line0 # ls) =
     (let line = trim_right_blanks line0 in
      case markdownFenceDelimiter line of
        Some d \<Rightarrow> compress_lines (if fence = None then Some d else if fence = Some d then None else fence) (kept @ [line]) ls
      | None \<Rightarrow> if fence \<noteq> None then compress_lines fence (kept @ [line]) ls
               else compress_lines fence (keep_line kept line) ls)"

function valid_prefix :: "string \<Rightarrow> string" where
  "valid_prefix s = (if s = [] \<or> utf8_valid s then s else valid_prefix (butlast s))"
  by pat_completeness auto
termination by (relation "measure length") auto

declare valid_prefix.simps [simp del]

fun valid_suffix :: "string \<Rightarrow> string" where
  "valid_suffix [] = []"
| "valid_suffix (c # s) = (if utf8_valid (c # s) then c # s else valid_suffix s)"

definition utf8Prefix :: "string \<Rightarrow> int \<Rightarrow> string option" where
  "utf8Prefix content mx =
     (if int (length content) \<le> mx then Some content
      else if mx < 0 then None
      else Some (valid_prefix (take (nat mx) content)))"

definition utf8Suffix :: "string \<Rightarrow> int \<Rightarrow> string option" where
  "utf8Suffix content mx =
     (if int (length content) \<le> mx then Some content
      else if mx < 0 then None
      else Some (valid_suffix (drop (length content - nat mx) content)))"

definition retainHeadAndTail :: "string \<Rightarrow> int \<Rightarrow> string option" where
  "retainHeadAndTail content mx =
     (if int (length content) \<le> mx then Some content
      else if mx \<le> int (length compactionMarker) then utf8Prefix content mx
      else
        let available = mx - int (length compactionMarker); headBudget = available div 2; tailBudget = available - headBudget
        in Option.bind (utf8Prefix content headBudget) (\<lambda>h. Option.bind (utf8Suffix content tailBudget) (\<lambda>t.
             Some (h @ compactionMarker @ t))))"

definition compressText :: "string \<Rightarrow> int \<Rightarrow> string option" where
  "compressText content0 mx =
     (let content = map (\<lambda>c. if c = CR then LF else c) (crlf_to_lf content0);
          kept = compress_lines None [] (split_lines content);
          compacted = trim_space (join_lines kept)
      in if int (length compacted) \<le> mx then Some compacted else retainHeadAndTail compacted mx)"

end
