(* ===== verification/Compress_Correct.thy ===== *)
theory Compress_Correct
  imports Compress
begin

text \<open>
  Compression keeps its byte budget for every text and never breaks a rune: the result of a valid text is valid UTF-8, the rules
  only drop lines, and a cut loses at most three bytes on each side.
\<close>

section \<open>Encoded runes\<close>

definition rune_seq :: "nat list \<Rightarrow> bool" where
  "rune_seq p \<longleftrightarrow>
     (case p of [b] \<Rightarrow> b < 128
      | [b, c] \<Rightarrow> 194 \<le> b \<and> b \<le> 223 \<and> cont c
      | [b, c, d] \<Rightarrow> 224 \<le> b \<and> b \<le> 239 \<and> second_ok b c \<and> cont d
      | [b, c, d, e] \<Rightarrow> 240 \<le> b \<and> b \<le> 244 \<and> second_ok b c \<and> cont d \<and> cont e
      | _ \<Rightarrow> False)"

lemma rune_seq_cases:
  assumes "rune_seq p"
  obtains b where "p = [b]" "b < 128"
  | b c where "p = [b, c]" "194 \<le> b" "b \<le> 223" "cont c"
  | b c d where "p = [b, c, d]" "224 \<le> b" "b \<le> 239" "second_ok b c" "cont d"
  | b c d e where "p = [b, c, d, e]" "240 \<le> b" "b \<le> 244" "second_ok b c" "cont d" "cont e"
  using assms by (auto simp: rune_seq_def split: list.splits)

lemma second_cont: "second_ok b c \<Longrightarrow> cont c"
  by (auto simp: second_ok_def cont_def split: if_splits)

lemma rune_seq_shape: "rune_seq p \<Longrightarrow> p \<noteq> [] \<and> length p \<le> 4 \<and> \<not> cont (hd p) \<and> (\<forall>b\<in>set (tl p). cont b) \<and> (length p = 1 \<or> (\<forall>b\<in>set p. 128 \<le> b))"
  by (erule rune_seq_cases) (auto simp: second_cont cont_def dest!: second_cont)

lemma valid_rune: "rune_seq p \<Longrightarrow> valid_bytes (p @ t) = valid_bytes t"
  by (erule rune_seq_cases) (simp_all add: decode_one_def)

lemma valid_first:
  assumes "valid_bytes s" "s \<noteq> []" obtains p t where "s = p @ t" "rune_seq p" "valid_bytes t"
proof -
  obtain b s' where s: "s = b # s'" using assms(2) by (cases s) auto
  let ?n = "snd (decode_one b s')"
  have v: "b < 128 \<or> 0 < ?n" "valid_bytes (drop ?n s')" using assms(1) s by simp_all
  have "rune_seq (b # take ?n s')"
    using v(1) by (cases s'; cases "tl s'"; cases "tl (tl s')") (auto simp: decode_one_def rune_seq_def numeral_2_eq_2 numeral_3_eq_3 split: if_splits)
  then show thesis using that [of "b # take ?n s'" "drop ?n s'"] v(2) s by simp
qed

lemma valid_append: "valid_bytes a \<Longrightarrow> valid_bytes b \<Longrightarrow> valid_bytes (a @ b)"
proof (induction a rule: length_induct)
  case (1 a)
  show ?case
  proof (cases "a = []")
    case False
    then obtain p t where p: "a = p @ t" "rune_seq p" "valid_bytes t" using valid_first 1(2) by blast
    then have "length t < length a" using rune_seq_shape by fastforce
    then show ?thesis using 1 p valid_rune [OF p(2), of "t @ b"] by simp
  qed (use 1 in simp)
qed

text \<open>A valid text may be cut in front of every byte that does not continue a rune.\<close>

lemma valid_split: "valid_bytes (a @ b) \<Longrightarrow> b = [] \<or> \<not> cont (hd b) \<Longrightarrow> valid_bytes a \<and> valid_bytes b"
proof (induction a rule: length_induct)
  case (1 a)
  show ?case
  proof (cases "a = []")
    case False
    then obtain p t where p: "a @ b = p @ t" "rune_seq p" "valid_bytes t" using valid_first [OF 1(2)] by auto
    note sh = rune_seq_shape [OF p(2)]
    show ?thesis
    proof (cases "length p \<le> length a")
      case True
      then obtain a' where a': "a = p @ a'" "t = a' @ b" using p(1) by (metis append_eq_append_conv_if append_take_drop_id append_eq_conv_conj)
      moreover have "length a' < length a" using a' sh by (cases p) auto
      ultimately have "valid_bytes a' \<and> valid_bytes b" using 1(1,3) p(3) by blast
      then show ?thesis using a' valid_rune [OF p(2)] by simp
    next
      case False
      then obtain c where c: "p = a @ c" "b = c @ t" "c \<noteq> []"
        using p(1) by (metis append_eq_append_conv2 append_Nil2 le_refl length_append le_add1)
      then have "hd b \<in> set (tl p)" using \<open>a \<noteq> []\<close> by (cases a) auto
      then show ?thesis using sh 1(3) c by auto
    qed
  qed (use 1 in simp)
qed

lemma cut_front: "valid_bytes s \<Longrightarrow> k \<le> length s \<Longrightarrow> \<exists>j\<le>3. j \<le> k \<and> valid_bytes (take (k - j) s)"
proof (induction s arbitrary: k rule: length_induct)
  case (1 s)
  show ?case
  proof (cases "s = []")
    case False
    then obtain p t where p: "s = p @ t" "rune_seq p" "valid_bytes t" using valid_first 1(2) by blast
    note sh = rune_seq_shape [OF p(2)]
    show ?thesis
    proof (cases "k < length p")
      case True
      then show ?thesis using sh by (intro exI [of _ k]) simp
    next
      case False
      then obtain j where j: "j \<le> 3" "j \<le> k - length p" "valid_bytes (take (k - length p - j) t)"
        using 1(1,3) p sh by (metis add_diff_cancel_left' diff_le_mono length_append length_greater_0_conv less_add_same_cancel2)
      have "take (k - j) s = p @ take (k - length p - j) t" using j False p(1) by (simp add: add.commute)
      then show ?thesis using j False valid_rune [OF p(2)] by (intro exI [of _ j]) simp
    qed
  qed (use 1 in auto)
qed

lemma cut_back: "valid_bytes s \<Longrightarrow> k \<le> length s \<Longrightarrow> \<exists>j\<le>3. k + j \<le> length s \<and> valid_bytes (drop (k + j) s)"
proof (induction s arbitrary: k rule: length_induct)
  case (1 s)
  show ?case
  proof (cases "k = 0")
    case False
    then obtain p t where p: "s = p @ t" "rune_seq p" "valid_bytes t" using valid_first 1(2,3) by (metis le_zero_eq list.size(3))
    note sh = rune_seq_shape [OF p(2)]
    show ?thesis
    proof (cases "k < length p")
      case True
      then show ?thesis using sh p False by (intro exI [of _ "length p - k"]) auto
    next
      case False
      then obtain j where j: "j \<le> 3" "k - length p + j \<le> length t" "valid_bytes (drop (k - length p + j) t)"
        using 1(1,3) p sh by (metis add_diff_cancel_left' diff_le_mono length_append length_greater_0_conv less_add_same_cancel2)
      then show ?thesis using False p(1) by (intro exI [of _ j]) auto
    qed
  qed (use 1 in auto)
qed

section \<open>Byte strings\<close>

lemma utf8_append: "utf8_valid a \<Longrightarrow> utf8_valid b \<Longrightarrow> utf8_valid (a @ b)"
  by (simp add: utf8_valid_def valid_append)

lemma utf8_Nil [simp]: "utf8_valid []"
  by (simp add: utf8_valid_def)

lemma utf8_split: "utf8_valid (a @ b) \<Longrightarrow> b = [] \<or> \<not> cont (of_char (hd b)) \<Longrightarrow> utf8_valid a \<and> utf8_valid b"
  using valid_split [of "map of_char a" "map of_char b"] by (cases b) (auto simp: utf8_valid_def)

lemma utf8_first:
  assumes "utf8_valid s" "s \<noteq> []" obtains p t where "s = p @ t" "rune_seq (map of_char p)" "utf8_valid t" "p \<noteq> []"
proof -
  obtain q u where "map of_char s = q @ u" "rune_seq q" "valid_bytes u" using valid_first assms by (auto simp: utf8_valid_def)
  then obtain p t where p: "s = p @ t" "rune_seq (map of_char p)" "utf8_valid t" by (auto simp: utf8_valid_def map_eq_append_conv)
  then show thesis using that rune_seq_shape [OF p(2)] by simp
qed

lemma utf8_rune: "rune_seq (map of_char p) \<Longrightarrow> utf8_valid (p @ t) = utf8_valid t"
  by (simp add: utf8_valid_def valid_rune)

lemma utf8_ascii: "of_char c < (128 :: nat) \<Longrightarrow> utf8_valid (c # t) = utf8_valid t"
  using utf8_rune [of "[c]" t] by (simp add: rune_seq_def)

subsection \<open>Trimming\<close>

lemma space_seqs_runes: "list_all (\<lambda>p. rune_seq (map of_char p)) space_seqs"
  by code_simp

lemma space_rune: "p \<in> set space_seqs \<Longrightarrow> rune_seq (map of_char p)"
  using space_seqs_runes by (simp add: list_all_iff)

lemma find_seq: "find P xs = Some x \<Longrightarrow> x \<in> set xs \<and> P x"
  by (induction xs) (auto split: if_splits)

lemma trim_left_valid: "utf8_valid s \<Longrightarrow> utf8_valid (trim_left s)"
proof (induction s rule: trim_left.induct)
  case (1 s)
  show ?case
  proof (cases "space_at s = 0")
    case False
    then obtain p where p: "p \<in> set space_seqs" "prefix p s" "space_at s = length p"
      by (auto simp: space_at_def dest: find_seq split: option.splits)
    obtain u where u: "s = p @ u" using p(2) by (auto simp: prefix_def)
    then have "drop (space_at s) s = u" using p(3) by simp
    then have "utf8_valid (drop (space_at s) s)" using utf8_rune [OF space_rune [OF p(1)], of u] 1(2) u by simp
    then have "utf8_valid (trim_left (drop (space_at s) s))" by (rule 1(1) [OF False])
    then show ?thesis using False by (subst trim_left.simps) simp
  qed (use 1(2) in \<open>subst trim_left.simps, simp\<close>)
qed

lemma trim_right_valid: "utf8_valid s \<Longrightarrow> utf8_valid (trim_right s)"
proof (induction s rule: trim_right.induct)
  case (1 s)
  show ?case
  proof (cases "space_end s = 0")
    case False
    then obtain p where p: "p \<in> set space_seqs" "suffix p s" "space_end s = length p"
      by (auto simp: space_end_def dest: find_seq split: option.splits)
    then obtain a where a: "s = a @ p" by (auto simp: suffix_def)
    have "p \<noteq> []" "\<not> cont (of_char (hd p))" using rune_seq_shape [OF space_rune [OF p(1)]] by (auto simp: hd_map)
    then have "utf8_valid (take (length s - space_end s) s)" using utf8_split [of a p] 1(2) a p(3) by simp
    then have "utf8_valid (trim_right (take (length s - space_end s) s))" by (rule 1(1) [OF False])
    then show ?thesis using False by (subst trim_right.simps) simp
  qed (use 1(2) in \<open>subst trim_right.simps, simp\<close>)
qed

lemma trim_space_valid: "utf8_valid s \<Longrightarrow> utf8_valid (trim_space s)"
  by (simp add: trim_space_def trim_left_valid trim_right_valid)

lemma drop_right_prefix: "\<exists>ys. xs = drop_right P xs @ ys \<and> (\<forall>y\<in>set ys. P y)"
  unfolding drop_right_def
proof (intro exI conjI)
  show "xs = rev (dropWhile P (rev xs)) @ rev (takeWhile P (rev xs))" by (simp flip: rev_append)
  show "\<forall>y\<in>set (rev (takeWhile P (rev xs))). P y" by (auto dest: set_takeWhileD)
qed

lemma drop_right_valid:
  assumes "utf8_valid s" "\<And>c. P c \<Longrightarrow> \<not> cont (of_char c)" shows "utf8_valid (drop_right P s)"
proof -
  obtain ys where ys: "s = drop_right P s @ ys" "\<forall>y\<in>set ys. P y" using drop_right_prefix [of s P] by (elim exE conjE)
  have "ys = [] \<or> \<not> cont (of_char (hd ys))" using ys(2) assms(2) by (cases ys) auto
  then show ?thesis using utf8_split [of "drop_right P s" ys] assms(1) ys(1) by simp
qed

lemma trim_right_blanks_valid: "utf8_valid s \<Longrightarrow> utf8_valid (trim_right_blanks s)"
  unfolding trim_right_blanks_def by (erule drop_right_valid) (auto simp: cont_def)

subsection \<open>Line ends\<close>

lemma crlf_append: "CR \<notin> set p \<Longrightarrow> crlf_to_lf (p @ t) = p @ crlf_to_lf t"
proof (induction p)
  case (Cons c p)
  then show ?case by (cases "p @ t") auto
qed simp

definition norm_ends :: "string \<Rightarrow> string" where
  "norm_ends s = map (\<lambda>c. if c = CR then LF else c) (crlf_to_lf s)"

lemma norm_ends_append: "CR \<notin> set p \<Longrightarrow> norm_ends (p @ t) = p @ norm_ends t"
  by (auto simp: norm_ends_def crlf_append intro!: map_idI)

lemma norm_ends_valid: "utf8_valid s \<Longrightarrow> utf8_valid (norm_ends s)"
proof (induction s rule: length_induct)
  case (1 s)
  show ?case
  proof (cases "s = []")
    case False
    then obtain p t where p: "s = p @ t" "rune_seq (map of_char p)" "utf8_valid t" "p \<noteq> []" using utf8_first 1(2) by blast
    have IH: "\<And>u. length u < length s \<Longrightarrow> utf8_valid u \<Longrightarrow> utf8_valid (norm_ends u)" using 1(1) by blast
    show ?thesis
    proof (cases "CR \<in> set p")
      case False
      then show ?thesis using IH [of t] p utf8_rune by (simp add: norm_ends_append)
    next
      case True
      then have "length p = 1" using rune_seq_shape [OF p(2)] by fastforce
      then have pc: "p = [CR]" using True by (cases p) auto
      show ?thesis
      proof (cases t)
        case Nil
        then show ?thesis using p(1) pc by (simp add: norm_ends_def utf8_ascii)
      next
        case (Cons d u)
        show ?thesis
        proof (cases "d = LF")
          case True
          then have "utf8_valid u" using p(3) Cons by (simp add: utf8_ascii)
          then show ?thesis using IH [of u] True p(1) pc Cons by (simp add: norm_ends_def utf8_ascii)
        next
          case False
          then show ?thesis using IH [of t] p(1,3) pc Cons by (simp add: norm_ends_def utf8_ascii)
        qed
      qed
    qed
  qed (simp add: norm_ends_def)
qed

lemma split_lines_nonempty [simp]: "split_lines s \<noteq> []"
  by (induction s) (auto split: list.split)

lemma join_split: "join_lines (split_lines s) = s"
proof (induction s)
  case (Cons c s)
  then show ?case by (cases "split_lines s" rule: join_lines.cases) auto
qed simp

lemma join_valid: "utf8_valid (join_lines ls) \<longleftrightarrow> (\<forall>l\<in>set ls. utf8_valid l)"
proof (induction ls rule: join_lines.induct)
  case (3 l l' ls)
  have "utf8_valid (l @ LF # join_lines (l' # ls)) \<longleftrightarrow> utf8_valid l \<and> utf8_valid (join_lines (l' # ls))"
    using utf8_split [of l "LF # join_lines (l' # ls)"] utf8_append [of l "LF # join_lines (l' # ls)"] by (auto simp: cont_def utf8_ascii)
  then show ?case using 3 by simp
qed simp_all

lemma split_lines_valid: "utf8_valid s \<Longrightarrow> l \<in> set (split_lines s) \<Longrightarrow> utf8_valid l"
  using join_valid [of "split_lines s"] by (simp add: join_split)

section \<open>The rules only drop lines\<close>

lemma keep_line_cases: "keep_line kept line = kept \<or> keep_line kept line = kept @ [line]"
  by (simp add: keep_line_def Let_def)

lemma compress_lines_subseq: "\<exists>zs. compress_lines fence kept ls = kept @ zs \<and> subseq zs (map trim_right_blanks ls)"
proof (induction ls arbitrary: fence kept)
  case (Cons l ls)
  let ?l = "trim_right_blanks l"
  have step: "\<exists>f. compress_lines fence kept (l # ls) = compress_lines f kept ls \<or>
      compress_lines fence kept (l # ls) = compress_lines f (kept @ [?l]) ls"
    using keep_line_cases [of kept ?l] by (auto simp: Let_def split: option.split)
  then obtain f where "compress_lines fence kept (l # ls) = compress_lines f kept ls \<or>
      compress_lines fence kept (l # ls) = compress_lines f (kept @ [?l]) ls" ..
  moreover obtain zs where "compress_lines f kept ls = kept @ zs" "subseq zs (map trim_right_blanks ls)" using Cons.IH by blast
  moreover obtain zs' where "compress_lines f (kept @ [?l]) ls = kept @ ?l # zs'" "subseq zs' (map trim_right_blanks ls)" using Cons.IH [of f "kept @ [?l]"] by auto
  ultimately show ?case by (auto simp del: compress_lines.simps)
qed simp

section \<open>Cutting\<close>

lemma valid_prefix_take: "\<exists>n\<le>length s. valid_prefix s = take n s \<and> utf8_valid (take n s) \<and> (\<forall>m\<le>length s. utf8_valid (take m s) \<longrightarrow> m \<le> n)"
proof (induction s rule: valid_prefix.induct)
  case (1 s)
  show ?case
  proof (cases "s = [] \<or> utf8_valid s")
    case True
    then show ?thesis by (intro exI [of _ "length s"]) (auto simp: valid_prefix.simps [of s])
  next
    case False
    then obtain n where n: "n \<le> length (butlast s)" "valid_prefix (butlast s) = take n (butlast s)" "utf8_valid (take n (butlast s))"
      "\<forall>m\<le>length (butlast s). utf8_valid (take m (butlast s)) \<longrightarrow> m \<le> n" using 1 by blast
    have tb: "take m (butlast s) = take m s" if "m \<le> length (butlast s)" for m using that by (simp add: take_butlast butlast_conv_take)
    have "m \<le> n" if "m \<le> length s" "utf8_valid (take m s)" for m
    proof -
      have "m \<noteq> length s" using that(2) False by auto
      then show ?thesis using that n(4) tb [of m] by auto
    qed
    then show ?thesis using False n tb [of n] by (intro exI [of _ n]) (auto simp: valid_prefix.simps [of s])
  qed
qed

lemma valid_suffix_drop: "\<exists>n\<le>length s. valid_suffix s = drop n s \<and> utf8_valid (drop n s) \<and> (\<forall>m\<le>length s. utf8_valid (drop m s) \<longrightarrow> n \<le> m)"
proof (induction s)
  case (Cons c s)
  show ?case
  proof (cases "utf8_valid (c # s)")
    case True
    then show ?thesis by (intro exI [of _ 0]) simp
  next
    case False
    obtain n where n: "n \<le> length s" "valid_suffix s = drop n s" "utf8_valid (drop n s)" "\<forall>m\<le>length s. utf8_valid (drop m s) \<longrightarrow> n \<le> m"
      using Cons by blast
    have "Suc n \<le> m" if "m \<le> length (c # s)" "utf8_valid (drop m (c # s))" for m using that False n(4) by (cases m) auto
    then show ?thesis using False n by (intro exI [of _ "Suc n"]) simp
  qed
qed simp

lemma utf8Prefix_ok:
  assumes "0 \<le> mx" shows "\<exists>h. utf8Prefix s mx = Some h \<and> prefix h s \<and> int (length h) \<le> mx \<and> (utf8_valid s \<longrightarrow> utf8_valid h) \<and>
    (utf8_valid s \<longrightarrow> mx \<le> int (length s) \<longrightarrow> mx - 3 \<le> int (length h))"
proof (cases "int (length s) \<le> mx")
  case False
  let ?s = "take (nat mx) s"
  obtain n where n: "n \<le> length ?s" "valid_prefix ?s = take n ?s" "utf8_valid (take n ?s)" "\<forall>m\<le>length ?s. utf8_valid (take m ?s) \<longrightarrow> m \<le> n"
    using valid_prefix_take [of ?s] by blast
  have le: "nat mx \<le> length s" and l: "length ?s = nat mx" using False by simp_all
  have "mx - 3 \<le> int n" if v: "utf8_valid s"
  proof -
    obtain j where j: "j \<le> 3" "j \<le> nat mx" "utf8_valid (take (nat mx - j) s)"
      using cut_front [of "map of_char s" "nat mx"] v le by (auto simp: utf8_valid_def take_map)
    then have "nat mx - j \<le> n" using n(4) l by (auto simp: min_def)
    then show ?thesis using j assms by linarith
  qed
  then show ?thesis using False assms n l by (auto simp: utf8Prefix_def take_is_prefix min_def)
qed (simp add: utf8Prefix_def)

lemma utf8Suffix_ok:
  assumes "0 \<le> mx" shows "\<exists>t. utf8Suffix s mx = Some t \<and> suffix t s \<and> int (length t) \<le> mx \<and> (utf8_valid s \<longrightarrow> utf8_valid t) \<and>
    (utf8_valid s \<longrightarrow> mx \<le> int (length s) \<longrightarrow> mx - 3 \<le> int (length t))"
proof (cases "int (length s) \<le> mx")
  case False
  let ?k = "length s - nat mx" let ?s = "drop ?k s"
  obtain n where n: "n \<le> length ?s" "valid_suffix ?s = drop n ?s" "utf8_valid (drop n ?s)" "\<forall>m\<le>length ?s. utf8_valid (drop m ?s) \<longrightarrow> n \<le> m"
    using valid_suffix_drop [of ?s] by blast
  have l: "length ?s = nat mx" using False by simp
  have "n \<le> 3" if v: "utf8_valid s"
  proof -
    obtain j where j: "j \<le> 3" "?k + j \<le> length s" "utf8_valid (drop (?k + j) s)"
      using cut_back [of "map of_char s" ?k] v by (auto simp: utf8_valid_def drop_map)
    then have "n \<le> j" using n(4) l by (auto simp: add.commute)
    then show ?thesis using j by simp
  qed
  then show ?thesis using False assms n l by (auto simp: utf8Suffix_def suffix_drop)
qed (simp add: utf8Suffix_def)

lemma set_subseq: "subseq xs ys \<Longrightarrow> set xs \<subseteq> set ys"
  by (induction rule: list_emb.induct) auto

lemma marker_valid: "utf8_valid compactionMarker" "length compactionMarker = 27"
  by code_simp+

lemma retainHeadAndTail_ok:
  assumes "0 \<le> mx" "mx < int (length s)"
  shows "\<exists>out h t. retainHeadAndTail s mx = Some out \<and> prefix h s \<and> suffix t s \<and> (out = h \<or> out = h @ compactionMarker @ t) \<and>
    int (length out) \<le> mx \<and> (utf8_valid s \<longrightarrow> utf8_valid out \<and> mx - 6 \<le> int (length out))"
proof (cases "mx \<le> int (length compactionMarker)")
  case True
  obtain h where "utf8Prefix s mx = Some h" "prefix h s" "int (length h) \<le> mx" "utf8_valid s \<longrightarrow> utf8_valid h"
    "utf8_valid s \<longrightarrow> mx \<le> int (length s) \<longrightarrow> mx - 3 \<le> int (length h)"
    using utf8Prefix_ok [OF assms(1), of s] by blast
  then have "retainHeadAndTail s mx = Some h \<and> prefix h s \<and> suffix [] s \<and> (h = h \<or> h = h @ compactionMarker @ []) \<and>
      int (length h) \<le> mx \<and> (utf8_valid s \<longrightarrow> utf8_valid h \<and> mx - 6 \<le> int (length h))"
    using True assms by (auto simp: retainHeadAndTail_def)
  then show ?thesis by blast
next
  case False
  let ?a = "mx - int (length compactionMarker)" let ?h = "?a div 2" let ?t = "?a - ?h"
  have pos: "0 \<le> ?h" "0 \<le> ?t" "?h \<le> int (length s)" "?t \<le> int (length s)" using False assms by auto
  obtain h where h: "utf8Prefix s ?h = Some h" "prefix h s" "int (length h) \<le> ?h" "utf8_valid s \<longrightarrow> utf8_valid h"
    "utf8_valid s \<longrightarrow> ?h \<le> int (length s) \<longrightarrow> ?h - 3 \<le> int (length h)"
    using utf8Prefix_ok [OF pos(1), of s] by blast
  obtain t where t: "utf8Suffix s ?t = Some t" "suffix t s" "int (length t) \<le> ?t" "utf8_valid s \<longrightarrow> utf8_valid t"
    "utf8_valid s \<longrightarrow> ?t \<le> int (length s) \<longrightarrow> ?t - 3 \<le> int (length t)"
    using utf8Suffix_ok [OF pos(2), of s] by blast
  have "retainHeadAndTail s mx = Some (h @ compactionMarker @ t)"
    using False assms(2) h(1) t(1) by (simp add: retainHeadAndTail_def Let_def)
  moreover have "int (length (h @ compactionMarker @ t)) \<le> mx" using h(3) t(3) by simp
  moreover have "utf8_valid (h @ compactionMarker @ t) \<and> mx - 6 \<le> int (length (h @ compactionMarker @ t))" if "utf8_valid s"
    using that h(4,5) t(4,5) pos utf8_append marker_valid(1) by simp
  ultimately show ?thesis using h(2) t(2) by blast
qed

section \<open>Property\<close>

text \<open>
  C30. Compressed text is well formed and fits. For every text and every budget that is not negative, compression returns a text
  within the budget, and valid UTF-8 if the text was; it is what remains of the text's lines after some were dropped, or
  a head and a tail of that around the marker, at most six bytes short of the budget.
\<close>

theorem compressed_text_well_formed:
  assumes "0 \<le> mx"
  shows "\<exists>out kept full. compressText content mx = Some out \<and> int (length out) \<le> mx \<and> (utf8_valid content \<longrightarrow> utf8_valid out) \<and>
    subseq kept (map trim_right_blanks (split_lines (norm_ends content))) \<and> full = trim_space (join_lines kept) \<and>
    (out = full \<or> mx < int (length full) \<and> (utf8_valid content \<longrightarrow> mx - 6 \<le> int (length out)) \<and>
       (\<exists>h t. prefix h full \<and> suffix t full \<and> (out = h \<or> out = h @ compactionMarker @ t)))"
proof -
  let ?ls = "split_lines (norm_ends content)" let ?kept = "compress_lines None [] ?ls" let ?full = "trim_space (join_lines ?kept)"
  have sub: "subseq ?kept (map trim_right_blanks ?ls)" using compress_lines_subseq [of None "[]" ?ls] by auto
  have val: "utf8_valid ?full" if "utf8_valid content"
  proof (rule trim_space_valid, subst join_valid, rule ballI)
    fix l assume "l \<in> set ?kept"
    then have "l \<in> set (map trim_right_blanks ?ls)" using set_subseq [OF sub] by blast
    then obtain l0 where "l0 \<in> set ?ls" "l = trim_right_blanks l0" by auto
    then show "utf8_valid l" using trim_right_blanks_valid split_lines_valid norm_ends_valid [OF that] by blast
  qed
  have eq: "compressText content mx = (if int (length ?full) \<le> mx then Some ?full else retainHeadAndTail ?full mx)"
    by (simp add: compressText_def Let_def norm_ends_def)
  show ?thesis
  proof (cases "int (length ?full) \<le> mx")
    case True
    then show ?thesis using eq sub val by (intro exI [of _ ?full] exI [of _ ?kept]) simp
  next
    case False
    then obtain out h t where "retainHeadAndTail ?full mx = Some out" "prefix h ?full" "suffix t ?full" "out = h \<or> out = h @ compactionMarker @ t"
      "int (length out) \<le> mx" "utf8_valid ?full \<longrightarrow> utf8_valid out \<and> mx - 6 \<le> int (length out)"
      using retainHeadAndTail_ok [OF assms, of ?full] by auto
    then show ?thesis using eq sub val False by (intro exI [of _ out] exI [of _ ?kept] exI [of _ ?full]) auto
  qed
qed

theorem compressed_text_well_formed_witness:
  "\<exists>out. compressText [CHR 0xC3, CHR 0xA4, CHR ''b'', CHR 0x0D, CHR 0x0A, CHR ''b''] 1 = Some out \<and> (0 :: int) \<le> 1 \<and> length out \<le> 1 \<and> utf8_valid out"
proof -
  have "utf8_valid [CHR 0xC3, CHR 0xA4, CHR ''b'', CHR 0x0D, CHR 0x0A, CHR ''b'']" by code_simp
  then show ?thesis using compressed_text_well_formed [of 1 "[CHR 0xC3, CHR 0xA4, CHR ''b'', CHR 0x0D, CHR 0x0A, CHR ''b'']"] by auto
qed

end
