(* ===== verification/Sanitize.thy ===== *)
theory Sanitize
  imports Compress_Correct
begin

text \<open>
  The sanitization pipeline, \<open>kernel/sanitize/sanitize.go\<close>, on lists of bytes. The Unicode tables are an argument:
  the classification of letters, digits and ideographs and the simple lower-case mapping. Regular expressions have the
  leftmost-first semantics of package \<open>regexp\<close>: a matcher lists what may remain after a match, in order of preference.
\<close>

type_synonym bytes = "nat list"

section \<open>Escape sequences\<close>

definition ESC :: nat where "ESC = 0x1b"

definition c1_codes :: "nat list" where "c1_codes = [0x90, 0x98, 0x9b, 0x9c, 0x9d, 0x9e, 0x9f]"

fun consumeToFinal :: "bytes \<Rightarrow> bytes option" where
  "consumeToFinal [] = None"
| "consumeToFinal (c # s) = (if 0x40 \<le> c \<and> c \<le> 0x7e then Some s else consumeToFinal s)"

fun consumeToST :: "bytes \<Rightarrow> bytes option" where
  "consumeToST [] = None"
| "consumeToST (c # s) =
     (if c = 0x07 \<or> c = 0x9c then Some s
      else if c = ESC \<and> s \<noteq> [] \<and> hd s = 0x5c then Some (tl s)
      else consumeToST s)"

definition or_rest :: "bytes option \<Rightarrow> bytes \<Rightarrow> bytes" where
  "or_rest out rest = (case out of Some s \<Rightarrow> s | None \<Rightarrow> rest)"

definition consumeESCBody :: "bytes \<Rightarrow> bytes option" where
  "consumeESCBody s =
     (if length s < 2 then None
      else if s ! 1 = 0x5b then consumeToFinal (drop 2 s)
      else if s ! 1 \<in> {0x5d, 0x50, 0x5e, 0x5f, 0x58} then consumeToST (drop 2 s)
      else if s ! 1 = 0x5c then Some (drop 2 s)
      else if s ! 1 < 0x80 then Some (drop 2 s)
      else None)"

definition consumeESCSeq :: "bytes \<Rightarrow> bytes" where
  "consumeESCSeq s = or_rest (consumeESCBody s) (tl s)"

definition consume_c1 :: "nat \<Rightarrow> bytes \<Rightarrow> bytes" where
  "consume_c1 r rest =
     (if r = 0x9b then or_rest (consumeToFinal rest) rest
      else if r = 0x9c then rest
      else or_rest (consumeToST rest) rest)"

definition consumeC1Seq :: "bytes \<Rightarrow> bytes" where
  "consumeC1Seq s = consume_c1 (hd s) (tl s)"

lemma consume_shorter [termination_simp]:
  "consumeToFinal s = Some t \<Longrightarrow> length t < length s" "consumeToST s = Some t \<Longrightarrow> length t < length s"
  by (induction s) (auto split: if_splits)

lemma consume_c1_le: "length (consume_c1 r rest) \<le> length rest"
  by (auto simp: consume_c1_def or_rest_def split: option.split dest: consume_shorter)

lemma consumeESCSeq_le: "length (consumeESCSeq (c # s)) \<le> length s"
  by (auto simp: consumeESCSeq_def consumeESCBody_def or_rest_def split: option.split if_splits dest!: consume_shorter)

function EscapeSequences :: "bytes \<Rightarrow> bytes" where
  "EscapeSequences [] = []"
| "EscapeSequences (c # s) =
     (let (r, n) = decode_one c s in
      if n = 0 \<and> c \<ge> 128 then
        (if c = ESC then (if s = [] then [] else EscapeSequences (consumeESCSeq (c # s)))
         else if c \<in> set c1_codes then EscapeSequences (consumeC1Seq (c # s))
         else c # EscapeSequences s)
      else if r = ESC then (if s = [] then [] else EscapeSequences (consumeESCSeq (c # s)))
      else if r \<in> set c1_codes then EscapeSequences (consume_c1 r (drop n s))
      else take (Suc n) (c # s) @ EscapeSequences (drop n s))"
  by pat_completeness auto
termination
  by (relation "measure length")
    (auto simp: consumeC1Seq_def less_Suc_eq_le intro: order_trans [OF consume_c1_le] consumeESCSeq_le)

section \<open>Injection phrases\<close>

record unicode_tables =
  ut_letter :: "rune \<Rightarrow> bool"
  ut_digit :: "rune \<Rightarrow> bool"
  ut_cjk :: "rune \<Rightarrow> bool"
  ut_lower :: "rune \<Rightarrow> rune"

definition featurePhrases :: "rune list list" where
  "featurePhrases =
     [map of_char ''ignore previous instructions'', map of_char ''ignore all previous instructions'',
      map of_char ''ignore all instructions'', map of_char ''disregard previous instructions'',
      map of_char ''disregard all instructions'', map of_char ''forget previous instructions'',
      map of_char ''forget all previous instructions'', map of_char ''override all previous instructions'',
      map of_char ''your new system prompt'', map of_char ''your new instructions'',
      map of_char ''from now on you are'', map of_char ''pretend you are'',
      [25191, 34892, 20197, 19979, 21629, 20196], [36816, 34892, 20197, 19979, 21629, 20196],
      [24573, 30053, 20043, 21069, 30340, 25351, 20196], [24573, 30053, 20197, 19978, 25152, 26377, 20869, 23481],
      [24573, 30053, 20197, 19978, 20869, 23481], [26080, 35270, 20043, 21069, 30340, 25351, 20196],
      [24536, 35760, 20043, 21069, 30340, 25351, 20196], [20320, 30340, 26032, 31995, 32479, 25552, 31034],
      [20320, 30340, 26032, 25351, 20196]]"

definition wordBoundary :: "unicode_tables \<Rightarrow> rune \<Rightarrow> bool" where
  "wordBoundary U r \<longleftrightarrow> ut_cjk U r \<or> \<not> (ut_letter U r \<or> ut_digit U r \<or> r = 95)"

text \<open>A phrase at the front of the remaining runes, after the rune \<open>prev\<close>.\<close>

definition phrase_at :: "unicode_tables \<Rightarrow> rune option \<Rightarrow> rune list \<Rightarrow> rune list option" where
  "phrase_at U prev rs =
     find (\<lambda>p. length p \<le> length rs \<and> map (ut_lower U) (take (length p) rs) = p \<and>
             (case prev of None \<Rightarrow> True | Some r \<Rightarrow> wordBoundary U r) \<and>
             (length p = length rs \<or> wordBoundary U (rs ! length p))) featurePhrases"

function strip_runes :: "unicode_tables \<Rightarrow> rune option \<Rightarrow> rune list \<Rightarrow> bool \<times> rune list" where
  "strip_runes U prev [] = (False, [])"
| "strip_runes U prev (r # rs) =
     (case phrase_at U prev (r # rs) of
        Some p \<Rightarrow> (True, snd (strip_runes U (Some ((r # rs) ! (length p - 1))) (drop (length p - 1) rs)))
      | None \<Rightarrow> let (removed, out) = strip_runes U (Some r) rs in (removed, r # out))"
  by pat_completeness auto
termination by (relation "measure (\<lambda>(U, prev, rs). length rs)") auto

text \<open>\<open>unicode.IsSpace\<close>.\<close>

definition is_space :: "rune \<Rightarrow> bool" where
  "is_space r \<longleftrightarrow> (9 \<le> r \<and> r \<le> 13) \<or> (0x2000 \<le> r \<and> r \<le> 0x200a) \<or>
     r \<in> {0x20, 0x85, 0xa0, 0x1680, 0x2028, 0x2029, 0x202f, 0x205f, 0x3000}"

fun collapse_runes :: "bool \<Rightarrow> bool \<Rightarrow> rune list \<Rightarrow> rune list" where
  "collapse_runes prevSpace started [] = []"
| "collapse_runes prevSpace started (r # rs) =
     (if is_space r then collapse_runes True started rs
      else (if prevSpace \<and> started then [32] else []) @ r # collapse_runes False True rs)"

definition encode :: "rune list \<Rightarrow> bytes" where
  "encode rs = concat (map rune_bytes rs)"

definition collapseSpace :: "bytes \<Rightarrow> bytes" where
  "collapseSpace s = encode (collapse_runes False False (decode_bytes s))"

definition stripOnce :: "unicode_tables \<Rightarrow> bytes \<Rightarrow> bytes" where
  "stripOnce U s =
     (let (removed, out) = strip_runes U None (decode_bytes s)
      in if removed then collapseSpace (encode out) else s)"


section \<open>Removal ends\<close>

text \<open>
  A pass that removes a phrase leaves fewer runes: decoding gives scalar values, which survive encoding, and collapsing
  white space adds nothing.
\<close>

definition scalar :: "rune \<Rightarrow> bool" where
  "scalar r \<longleftrightarrow> r < 0xD800 \<or> 0xE000 \<le> r \<and> r \<le> 0x10FFFF"

lemma decode_one_scalar: "scalar (fst (decode_one b s))"
proof -
  consider "b < 128" | "194 \<le> b \<and> b \<le> 223 \<and> 1 \<le> length s \<and> cont (s ! 0)"
    | "224 \<le> b \<and> b \<le> 239 \<and> 2 \<le> length s \<and> second_ok b (s ! 0) \<and> cont (s ! 1)"
    | "240 \<le> b \<and> b \<le> 244 \<and> 3 \<le> length s \<and> second_ok b (s ! 0) \<and> cont (s ! 1) \<and> cont (s ! 2)"
    | "decode_one b s = (65533, 0)"
    by (cases "b < 128"; cases "194 \<le> b \<and> b \<le> 223 \<and> 1 \<le> length s \<and> cont (s ! 0)";
        cases "224 \<le> b \<and> b \<le> 239 \<and> 2 \<le> length s \<and> second_ok b (s ! 0) \<and> cont (s ! 1)";
        cases "240 \<le> b \<and> b \<le> 244 \<and> 3 \<le> length s \<and> second_ok b (s ! 0) \<and> cont (s ! 1) \<and> cont (s ! 2)")
      (simp_all add: decode_one_def)
  then show ?thesis
  proof cases
    case 3
    define x y where "x = s ! 0 - 128" and "y = s ! 1 - 128"
    have "x \<le> 63" "y \<le> 63" "b = 237 \<Longrightarrow> x \<le> 31" using 3 second_cont [of b "s ! 0"] by (auto simp: x_def y_def cont_def, simp add: second_ok_def)
    then have "(b - 224) * 4096 + (x * 64 + y) < 0xD800 \<or> 0xE000 \<le> (b - 224) * 4096 + (x * 64 + y) \<and> (b - 224) * 4096 + (x * 64 + y) \<le> 0xFFFF"
      using 3 by (cases "b \<le> 236"; cases "b = 237"; auto)
    then show ?thesis using 3 by (auto simp: decode_one_def scalar_def x_def y_def)
  next
    case 4
    define x y z where "x = s ! 0 - 128" and "y = s ! 1 - 128" and "z = s ! 2 - 128"
    have "x \<le> 63" "y \<le> 63" "z \<le> 63" "b = 244 \<Longrightarrow> x \<le> 15" "b = 240 \<Longrightarrow> 16 \<le> x"
      using 4 second_cont [of b "s ! 0"] by (auto simp: x_def y_def z_def cont_def, simp_all add: second_ok_def)
    then have "0xE000 \<le> (b - 240) * 262144 + (x * 4096 + (y * 64 + z)) \<and> (b - 240) * 262144 + (x * 4096 + (y * 64 + z)) \<le> 0x10FFFF"
      using 4 by (cases "b = 240"; cases "b = 244"; auto)
    then show ?thesis using 4 by (auto simp: decode_one_def scalar_def x_def y_def z_def)
  qed (auto simp: decode_one_def scalar_def cont_def)
qed

lemma decode_scalar: "\<forall>r\<in>set (decode_bytes bs). scalar r"
  by (induction bs rule: decode_bytes.induct) (auto simp: decode_one_scalar)

lemma split64: "(n :: nat) div 64 * 64 + n mod 64 = n"
  by simp

lemma encode_one:
  assumes "scalar r"
  obtains b w where "rune_bytes r = b # w" "\<And>t. decode_one b (w @ t) = (r, length w)"
proof -
  consider "r < 128" | "128 \<le> r \<and> r < 2048" | "2048 \<le> r \<and> r < 65536" | "65536 \<le> r \<and> r \<le> 0x10FFFF"
    using assms by (cases "r < 128"; cases "r < 2048"; cases "r < 65536") (auto simp: scalar_def)
  then show thesis
  proof cases
    case 1 then show ?thesis by (intro that [of r "[]"]) (auto simp: rune_bytes_def decode_one_def)
  next
    case 2
    define q m where "q = r div 64" and "m = r mod 64"
    have r: "r = q * 64 + m" "m < 64" by (auto simp: q_def m_def)
    then show ?thesis using 2 by (intro that [of "192 + q" "[128 + m]"]) (auto simp: rune_bytes_def decode_one_def cont_def q_def [symmetric] m_def [symmetric])
  next
    case 3
    define q l m where "q = r div 4096" and "l = r div 64 mod 64" and "m = r mod 64"
    have r: "r = q * 4096 + (l * 64 + m)" "m < 64" "l < 64"
      using split64 [of r] split64 [of "r div 64"] by (simp_all add: q_def l_def m_def div_mult2_eq [symmetric] del: div_mult_mod_eq, linarith)
    have q: "q < 16" using 3 r by auto
    have "second_ok (224 + q) (128 + l)" using r 3 assms by (auto simp: second_ok_def cont_def scalar_def)
    then have "decode_one (224 + q) ([128 + l, 128 + m] @ t) = (r, 2)" for t using r q by (auto simp: decode_one_def cont_def)
    moreover have "rune_bytes r = [224 + q, 128 + l, 128 + m]" using 3 by (simp add: rune_bytes_def q_def l_def m_def)
    ultimately show ?thesis by (intro that) auto
  next
    case 4
    define q k l m where "q = r div 262144" and "k = r div 4096 mod 64" and "l = r div 64 mod 64" and "m = r mod 64"
    have r: "r = q * 262144 + (k * 4096 + (l * 64 + m))" "m < 64" "l < 64" "k < 64"
      using split64 [of r] split64 [of "r div 64"] split64 [of "r div 4096"]
      by (simp_all add: q_def k_def l_def m_def div_mult2_eq [symmetric] del: div_mult_mod_eq, linarith)
    have q: "q \<le> 4" using 4 r by auto
    have "second_ok (240 + q) (128 + k)" using r 4 q by (auto simp: second_ok_def cont_def)
    then have "decode_one (240 + q) ([128 + k, 128 + l, 128 + m] @ t) = (r, 3)" for t using r q by (auto simp: decode_one_def cont_def)
    moreover have "r div 262144 mod 8 = q" using q by (simp add: q_def)
    then have "rune_bytes r = [240 + q, 128 + k, 128 + l, 128 + m]" using 4 by (simp add: rune_bytes_def k_def l_def m_def)
    ultimately show ?thesis by (intro that) auto
  qed
qed

lemma decode_encode_one: "scalar r \<Longrightarrow> decode_bytes (rune_bytes r @ t) = r # decode_bytes t"
  by (erule encode_one) simp

lemma decode_encode: "\<forall>r\<in>set rs. scalar r \<Longrightarrow> decode_bytes (encode rs) = rs"
  by (induction rs) (simp_all add: encode_def decode_encode_one)

lemma collapse_subset: "set (collapse_runes a b rs) \<subseteq> insert 32 (set rs)"
  by (induction a b rs rule: collapse_runes.induct) auto

lemma collapse_length: "length (collapse_runes a b rs) \<le> length rs + (if a \<and> b then 1 else 0)"
  by (induction a b rs rule: collapse_runes.induct) (auto split: if_splits)

lemma strip_subset: "set (snd (strip_runes U prev rs)) \<subseteq> set rs"
  by (induction U prev rs rule: strip_runes.induct)
    (auto split: option.split prod.split dest: in_set_dropD)

lemma phrases_long: "p \<in> set featurePhrases \<Longrightarrow> 5 \<le> length p"
  by (auto simp: featurePhrases_def)

lemma phrase_at_Some: "phrase_at U prev rs = Some p \<Longrightarrow> p \<in> set featurePhrases \<and> 5 \<le> length p \<and> length p \<le> length rs"
  using phrases_long unfolding phrase_at_def find_Some_iff by (metis nth_mem)

lemma strip_length: "length (snd (strip_runes U prev rs)) \<le> length rs \<and> (fst (strip_runes U prev rs) \<longrightarrow> length (snd (strip_runes U prev rs)) < length rs)"
proof (induction U prev rs rule: strip_runes.induct)
  case (2 U prev r rs)
  show ?case
  proof (cases "phrase_at U prev (r # rs)")
    case None
    then show ?thesis using 2(1) [OF None] by (cases "strip_runes U (Some r) rs") simp
  next
    case (Some p)
    then show ?thesis using 2(2) [OF Some] by (simp, linarith)
  qed
qed simp

lemma stripOnce_runes:
  "decode_bytes (stripOnce U s) = (if fst (strip_runes U None (decode_bytes s))
     then collapse_runes False False (snd (strip_runes U None (decode_bytes s))) else decode_bytes s)"
proof -
  let ?out = "snd (strip_runes U None (decode_bytes s))"
  have sc: "\<forall>r\<in>set ?out. scalar r" using strip_subset decode_scalar by blast
  moreover have "\<forall>r\<in>set (collapse_runes False False ?out). scalar r" using sc collapse_subset [of False False ?out] by (auto simp: scalar_def)
  ultimately show ?thesis by (simp add: stripOnce_def collapseSpace_def decode_encode split: prod.split)
qed

lemma stripOnce_shorter:
  "stripOnce U s = s \<or> length (decode_bytes (stripOnce U s)) < length (decode_bytes s)"
  using strip_length [of U None "decode_bytes s"] collapse_length [of False False "snd (strip_runes U None (decode_bytes s))"]
  by (cases "strip_runes U None (decode_bytes s)"; cases "fst (strip_runes U None (decode_bytes s))") (auto simp: stripOnce_runes, simp add: stripOnce_def)

function stripFeatures :: "unicode_tables \<Rightarrow> bytes \<Rightarrow> bytes" where
  "stripFeatures U s = (let out = stripOnce U s in if out = s then out else stripFeatures U out)"
  by pat_completeness auto
termination
  using stripOnce_shorter by (relation "measure (\<lambda>(U, s). length (decode_bytes s))") auto

declare stripFeatures.simps [simp del]

section \<open>Redaction\<close>

text \<open>
  A character class takes one byte that satisfies it. A case-insensitive class also takes the other case and the two runes
  outside ASCII that ci to an ASCII letter: U+017F to s and U+212A to k. At the front of a text, \<open>item_len\<close> is the
  number of bytes of the item, 0 if there is none.
\<close>

type_synonym char_class = "nat \<Rightarrow> bool"

datatype re =
    Cls bool char_class
  | Many bool char_class nat "nat option"
  | WordB
  | Cat re re
  | Alt re re

definition either_case :: "char_class \<Rightarrow> char_class" where
  "either_case p c \<longleftrightarrow> p c \<or> 65 \<le> c \<and> c \<le> 90 \<and> p (c + 32) \<or> 97 \<le> c \<and> c \<le> 122 \<and> p (c - 32)"

definition item_len :: "bool \<Rightarrow> char_class \<Rightarrow> bytes \<Rightarrow> nat" where
  "item_len ci p s =
     (if s = [] then 0
      else if hd s < 128 then (if (if ci then either_case p else p) (hd s) then 1 else 0)
      else if ci \<and> take 2 s = [0xC5, 0xBF] \<and> either_case p 115 then 2
      else if ci \<and> take 3 s = [0xE2, 0x84, 0xAA] \<and> either_case p 107 then 3
      else 0)"

text \<open>What remains after as many items as possible, then after one less, and so on.\<close>

function items :: "bool \<Rightarrow> char_class \<Rightarrow> bytes \<Rightarrow> bytes list" where
  "items ci p s = (if item_len ci p s = 0 then [s] else items ci p (drop (item_len ci p s) s) @ [s])"
  by pat_completeness auto
termination
  by (relation "measure (\<lambda>(ci, p, s). length s)") (auto simp: item_len_def split: if_splits)

declare items.simps [simp del]

definition word_byte :: "nat \<Rightarrow> bool" where
  "word_byte c \<longleftrightarrow> 48 \<le> c \<and> c \<le> 57 \<or> 65 \<le> c \<and> c \<le> 90 \<or> c = 95 \<or> 97 \<le> c \<and> c \<le> 122"

text \<open>A match is tried on the text \<open>rev pre @ s\<close> at the front of \<open>s\<close>.\<close>

definition move :: "bytes \<Rightarrow> bytes \<Rightarrow> bytes \<Rightarrow> bytes \<times> bytes" where
  "move pre s t = (rev (take (length s - length t) s) @ pre, t)"

fun matches :: "re \<Rightarrow> bytes \<times> bytes \<Rightarrow> (bytes \<times> bytes) list" where
  "matches (Cls ci p) (pre, s) = (let n = item_len ci p s in if n = 0 then [] else [move pre s (drop n s)])"
| "matches (Many ci p lo hi) (pre, s) =
     (let ts = rev (items ci p s); ts = (case hi of None \<Rightarrow> ts | Some h \<Rightarrow> take (Suc h) ts)
      in map (move pre s) (rev (drop lo ts)))"
| "matches WordB (pre, s) =
     (if (pre \<noteq> [] \<and> word_byte (hd pre)) \<noteq> (s \<noteq> [] \<and> word_byte (hd s)) then [(pre, s)] else [])"
| "matches (Cat a b) st = concat (map (matches b) (matches a st))"
| "matches (Alt a b) st = matches a st @ matches b st"

text \<open>\<open>ReplaceAllString\<close> for a pattern that takes at least one byte.\<close>

function replace_all :: "re \<Rightarrow> bytes \<Rightarrow> bytes \<Rightarrow> bytes \<Rightarrow> bytes" where
  "replace_all re repl pre [] = []"
| "replace_all re repl pre (c # s) =
     (case matches re (pre, c # s) of
        (pre', s') # _ \<Rightarrow> if length s' \<le> length s then repl @ replace_all re repl pre' s' else c # replace_all re repl (c # pre) s
      | [] \<Rightarrow> c # replace_all re repl (c # pre) s)"
  by pat_completeness auto
termination by (relation "measure (\<lambda>(re, repl, pre, s). length s)") auto

definition lit_then :: "bool \<Rightarrow> string \<Rightarrow> re \<Rightarrow> re" where
  "lit_then ci s r = foldr (\<lambda>c. Cat (Cls ci (\<lambda>b. b = of_char c))) s r"

definition digit_b :: char_class where "digit_b c \<longleftrightarrow> 48 \<le> c \<and> c \<le> 57"
definition upper_b :: char_class where "upper_b c \<longleftrightarrow> 65 \<le> c \<and> c \<le> 90"
definition alnum_b :: char_class where "alnum_b c \<longleftrightarrow> digit_b c \<or> upper_b c \<or> 97 \<le> c \<and> c \<le> 122"
definition one_of :: "string \<Rightarrow> char_class" where "one_of cs c \<longleftrightarrow> c \<in> set (map of_char cs)"
definition path_b :: char_class where "path_b c \<longleftrightarrow> alnum_b c \<or> one_of ''_.-'' c"

definition re_sk :: re where "re_sk = lit_then False ''sk-'' (Many False alnum_b 20 None)"
definition re_akia :: re where "re_akia = lit_then False ''AKIA'' (Many False (\<lambda>c. digit_b c \<or> upper_b c) 16 (Some 16))"
definition re_ghp :: re where "re_ghp = lit_then False ''ghp_'' (Many False alnum_b 36 (Some 36))"
definition re_xox :: re where
  "re_xox = lit_then False ''xox'' (Cat (Cls False (one_of ''baprs''))
     (lit_then False ''-'' (Many False (\<lambda>c. alnum_b c \<or> one_of ''-'' c) 10 None)))"
definition re_email :: re where
  "re_email = Cat WordB (Cat (Many True (\<lambda>c. upper_b c \<or> digit_b c \<or> one_of ''._%+-'' c) 1 None)
     (lit_then True ''@'' (Cat (Many True (\<lambda>c. upper_b c \<or> digit_b c \<or> one_of ''.-'' c) 1 None)
        (lit_then True ''.'' (Cat (Many True upper_b 2 None) WordB)))))"
definition re_home :: re where
  "re_home = Alt (lit_then False ''/home'' (lit_then False ''/'' (Many False path_b 1 None)))
                 (lit_then False ''/Users'' (lit_then False ''/'' (Many False path_b 1 None)))"
definition re_win :: re where
  "re_win = lit_then True (''C:'' @ CHR 0x5C # ''Users'' @ [CHR 0x5C]) (Many True path_b 1 None)"

definition key_mark :: bytes where "key_mark = map of_char ''[REDACTED_KEY]''"
definition email_mark :: bytes where "email_mark = map of_char ''[REDACTED_EMAIL]''"
definition path_mark :: bytes where "path_mark = map of_char ''[REDACTED_PATH]''"

definition redactionPatterns :: "(re \<times> bytes) list" where
  "redactionPatterns = [(re_sk, key_mark), (re_akia, key_mark), (re_ghp, key_mark), (re_xox, key_mark), (re_email, email_mark),
     (re_home, path_mark), (re_win, path_mark)]"

definition redact :: "bytes \<Rightarrow> bytes" where
  "redact s = fold (\<lambda>(re, repl) s. replace_all re repl [] s) redactionPatterns s"

section \<open>The pipeline\<close>

definition SanitizeVersion :: string where "SanitizeVersion = ''v2''"

definition sanitize_bytes :: "unicode_tables \<Rightarrow> bytes \<Rightarrow> bytes" where
  "sanitize_bytes U s = redact (stripFeatures U (EscapeSequences s))"

definition Sanitize :: "unicode_tables \<Rightarrow> string \<Rightarrow> string" where
  "Sanitize U s = map char_of (sanitize_bytes U (map of_char s))"

end
