(* ===== verification/Sanitize_Correct.thy ===== *)
theory Sanitize_Correct
  imports Sanitize
begin

text \<open>
  What the sanitizer guarantees. Its output never carries an escape character or a C1 control, as a byte or as a rune, whatever the
  input; the removal of injection phrases ends in a text without them; platform keys and home directories never survive.
  Redaction comes last, though, and can put a word boundary in front of a phrase that the removal had to
  leave alone.
\<close>

section \<open>Texts without control sequences\<close>

function control_free :: "bytes \<Rightarrow> bool" where
  "control_free [] = True"
| "control_free (c # s) \<longleftrightarrow>
     (let (r, n) = decode_one c s
      in (if n = 0 \<and> c \<ge> 128 then c \<notin> set c1_codes else r \<noteq> ESC \<and> r \<notin> set c1_codes) \<and> control_free (drop n s))"
  by pat_completeness auto
termination by (relation "measure length") auto

declare control_free.simps(2) [simp del]

lemma decode_one_len: "decode_one c s = (r, n) \<Longrightarrow> n \<le> length s"
  by (auto simp: decode_one_def split: if_splits)

lemma decode_one_low [simp]: "c < 128 \<Longrightarrow> decode_one c s = (c, 0)"
  by (simp add: decode_one_def)

lemma decode_one_cont: "cont c \<Longrightarrow> decode_one c s = (65533, 0)"
  by (auto simp: decode_one_def cont_def)

lemma decode_one_shape:
  assumes "decode_one c s = (r, n)"
  obtains "c < 128" "r = c" "n = 0"
  | b s' where "s = b # s'" "194 \<le> c" "c \<le> 223" "cont b" "r = (c - 192) * 64 + (b - 128)" "n = 1"
  | b d s' where "s = b # d # s'" "224 \<le> c" "c \<le> 239" "second_ok c b" "cont d" "r = (c - 224) * 4096 + ((b - 128) * 64 + (d - 128))" "n = Suc (Suc 0)"
  | b d e s' where "s = b # d # e # s'" "240 \<le> c" "c \<le> 244" "second_ok c b" "cont d" "cont e"
      "r = (c - 240) * 262144 + ((b - 128) * 4096 + ((d - 128) * 64 + (e - 128)))" "n = Suc (Suc (Suc 0))"
  | "128 \<le> c" "r = 65533" "n = 0"
proof (cases "128 \<le> c \<and> decode_one c s = (65533, 0)")
  case False
  then consider "c < 128" | "194 \<le> c \<and> c \<le> 223 \<and> 1 \<le> length s \<and> cont (s ! 0)"
    | "224 \<le> c \<and> c \<le> 239 \<and> 2 \<le> length s \<and> second_ok c (s ! 0) \<and> cont (s ! 1)"
    | "240 \<le> c \<and> c \<le> 244 \<and> 3 \<le> length s \<and> second_ok c (s ! 0) \<and> cont (s ! 1) \<and> cont (s ! 2)"
    by (simp add: decode_one_def split: if_splits)
  then show thesis
  proof cases
    case 1 then show ?thesis using assms by (intro that(1)) auto
  next
    case 2
    then obtain b s' where "s = b # s'" by (cases s) auto
    then show ?thesis using 2 assms by (intro that(2) [of b s']) (auto simp: decode_one_def)
  next
    case 3
    then obtain b d s' where "s = b # d # s'" by (cases s; cases "tl s") auto
    then show ?thesis using 3 assms by (intro that(3) [of b d s']) (auto simp: decode_one_def)
  next
    case 4
    then obtain b d e s' where "s = b # d # e # s'" by (cases s; cases "tl s"; cases "tl (tl s)") auto
    then show ?thesis using 4 assms by (intro that(4) [of b d e s']) (auto simp: decode_one_def)
  qed
qed (use assms that(5) in auto)

text \<open>A rune does not depend on what follows it, and no rune extends over a byte that continues nothing.\<close>

lemma decode_one_local: "decode_one c s = (r, n) \<Longrightarrow> 0 < n \<Longrightarrow> decode_one c (take n s @ t) = (r, n)"
  by (erule decode_one_shape) (simp_all add: decode_one_def)

lemma decode_one_conts: "decode_one c s = (r, n) \<Longrightarrow> \<forall>b\<in>set (take n s). cont b"
  by (erule decode_one_shape) (auto dest: second_cont)

lemma decode_one_stop:
  assumes "t = [] \<or> \<not> cont (hd t)"
  shows "decode_one c (s @ t) = decode_one c s"
proof (cases t)
  case (Cons b t')
  then have "\<not> cont b" "\<not> second_ok c b" using assms second_cont by auto
  then show ?thesis unfolding Cons
    by (cases s; cases "tl s"; cases "tl (tl s)") (auto simp: decode_one_def nth_Cons')
qed simp

lemma control_free_low: "c < 128 \<Longrightarrow> control_free (c # s) \<longleftrightarrow> c \<noteq> ESC \<and> control_free s"
  by (auto simp: control_free.simps(2) c1_codes_def)

lemma control_free_cont: "cont c \<Longrightarrow> control_free (c # s) \<longleftrightarrow> c \<notin> set c1_codes \<and> control_free s"
  by (simp add: control_free.simps(2) decode_one_cont) (simp add: cont_def)

lemma control_free_conts: "\<forall>c\<in>set w. cont c \<Longrightarrow> control_free (w @ s) \<longleftrightarrow> set w \<inter> set c1_codes = {} \<and> control_free s"
  by (induction w) (auto simp: control_free_cont)

lemma control_free_split:
  assumes "t = [] \<or> \<not> cont (hd t)"
  shows "control_free (s @ t) \<longleftrightarrow> control_free s \<and> control_free t"
proof (induction s rule: control_free.induct)
  case (2 c s)
  obtain r n where d: "decode_one c s = (r, n)" by (cases "decode_one c s")
  have "n \<le> length s" using decode_one_len d by blast
  then show ?case using 2 [OF d [symmetric] refl] d by (auto simp: control_free.simps(2) decode_one_stop [OF assms])
qed simp

lemma control_free_token:
  assumes "decode_one c s = (r, n)" "0 < n \<or> c < 128" "r \<noteq> ESC" "r \<notin> set c1_codes" "control_free t"
  shows "control_free (take (Suc n) (c # s) @ t)"
proof (cases "c < 128")
  case True
  then show ?thesis using assms by (simp add: control_free_low)
next
  case False
  then have "decode_one c (take n s @ t) = (r, n)" using decode_one_local assms(1,2) by simp
  then show ?thesis using assms decode_one_len [OF assms(1)] False by (simp add: control_free.simps(2))
qed

text \<open>A stray byte may join the bytes that follow it to a rune, but not to a control.\<close>

lemma control_free_stray:
  assumes "c \<ge> 128" "c \<notin> set c1_codes" "control_free t"
  shows "control_free (c # t)"
proof (cases "snd (decode_one c t)")
  case 0
  then show ?thesis using assms by (cases "decode_one c t") (simp add: control_free.simps(2))
next
  case (Suc k)
  then obtain r n where d: "decode_one c t = (r, n)" and n: "0 < n" by (cases "decode_one c t") auto
  have w: "set (take n t) \<inter> set c1_codes = {}" "control_free (drop n t)"
    using control_free_conts [OF decode_one_conts [OF d], of "drop n t"] assms(3) by auto
  have "r \<noteq> ESC \<and> r \<notin> set c1_codes"
    using d
  proof (cases rule: decode_one_shape)
    case (2 b s')
    then have "b \<notin> set c1_codes" using w by simp
    moreover have "r = b \<or> 192 \<le> r" using 2 by (cases "c = 194") (auto simp: cont_def)
    moreover have "\<forall>x\<in>set c1_codes. x < 192" "128 \<le> b" using 2 by (simp_all add: c1_codes_def cont_def)
    ultimately show ?thesis unfolding ESC_def by fastforce
  next
    case (3 b d s')
    then have "2048 \<le> r" by (cases "c = 224") (auto simp: second_ok_def cont_def split: if_splits)
    then show ?thesis by (auto simp: ESC_def c1_codes_def)
  next
    case (4 b d e s')
    then have "2048 \<le> r" by (cases "c = 240") (auto simp: second_ok_def cont_def split: if_splits)
    then show ?thesis by (auto simp: ESC_def c1_codes_def)
  qed (use n assms in auto)
  then show ?thesis using d n w by (simp add: control_free.simps(2))
qed

lemma consume_set: "consumeToFinal s = Some t \<Longrightarrow> set t \<subseteq> set s" "consumeToST s = Some t \<Longrightarrow> set t \<subseteq> set s"
  by (induction s) (auto split: if_splits dest: list.set_sel(2))

lemma consume_c1_set: "set (consume_c1 r s) \<subseteq> set s"
  by (auto simp: consume_c1_def or_rest_def split: option.split dest!: consume_set)

lemma consumeESC_set: "set (consumeESCSeq (c # s)) \<subseteq> set s"
  by (auto simp: consumeESCSeq_def consumeESCBody_def or_rest_def numeral_2_eq_2 split: option.split if_splits
      dest!: consume_set dest: in_set_dropD)

lemma escape_step:
  obtains "EscapeSequences (c # s) = []"
  | t where "EscapeSequences (c # s) = EscapeSequences t" "length t \<le> length s" "set t \<subseteq> set s"
  | n where "EscapeSequences (c # s) = take (Suc n) (c # s) @ EscapeSequences (drop n s)"
      "(n = 0 \<and> c \<ge> 128 \<and> c \<notin> set c1_codes) \<or> (\<exists>r. decode_one c s = (r, n) \<and> (0 < n \<or> c < 128) \<and> r \<noteq> ESC \<and> r \<notin> set c1_codes)"
proof -
  obtain r n where d: "decode_one c s = (r, n)" by (cases "decode_one c s")
  let ?bad = "n = 0 \<and> c \<ge> 128"
  consider "(?bad \<and> c = ESC \<or> \<not> ?bad \<and> r = ESC) \<and> s = []" | "(?bad \<and> c = ESC \<or> \<not> ?bad \<and> r = ESC) \<and> s \<noteq> []"
    | "?bad" "c \<noteq> ESC" "c \<in> set c1_codes" | "?bad" "c \<noteq> ESC" "c \<notin> set c1_codes"
    | "\<not> ?bad" "r \<noteq> ESC" "r \<in> set c1_codes" | "\<not> ?bad" "r \<noteq> ESC" "r \<notin> set c1_codes" by argo
  then show thesis
  proof cases
    case 1 then show ?thesis using d by (intro that(1)) auto
  next
    case 2 then show ?thesis using d consumeESCSeq_le consumeESC_set by (intro that(2) [of "consumeESCSeq (c # s)"]) auto
  next
    case 3 then show ?thesis using d consume_c1_le consume_c1_set by (intro that(2) [of "consume_c1 c s"]) (auto simp: consumeC1Seq_def)
  next
    case 4 then show ?thesis using d by (intro that(3) [of 0]) auto
  next
    case 5
    have "length (consume_c1 r (drop n s)) \<le> length s" using consume_c1_le [of r "drop n s"] by simp
    moreover have "set (consume_c1 r (drop n s)) \<subseteq> set s" using consume_c1_set set_drop_subset by (rule subset_trans)
    ultimately show ?thesis using d 5 by (intro that(2) [of "consume_c1 r (drop n s)"]) auto
  next
    case 6 then show ?thesis using d by (intro that(3) [of n]) auto
  qed
qed

lemma Escape_control_free: "control_free (EscapeSequences s)"
proof (induction s rule: length_induct)
  case (1 s)
  show ?case
  proof (cases s)
    case (Cons c s')
    have IH: "length t \<le> length s' \<Longrightarrow> control_free (EscapeSequences t)" for t using 1 Cons by simp
    show ?thesis unfolding Cons
    proof (rule escape_step [of c s'])
      fix n assume e: "EscapeSequences (c # s') = take (Suc n) (c # s') @ EscapeSequences (drop n s')"
        and n: "(n = 0 \<and> c \<ge> 128 \<and> c \<notin> set c1_codes) \<or> (\<exists>r. decode_one c s' = (r, n) \<and> (0 < n \<or> c < 128) \<and> r \<noteq> ESC \<and> r \<notin> set c1_codes)"
      have "control_free (EscapeSequences (drop n s'))" using IH by simp
      then show "control_free (EscapeSequences (c # s'))" unfolding e using n control_free_token [of c s'] control_free_stray [of c]
        by (elim disjE exE conjE) (simp, blast+)
    qed (use IH in simp_all)
  qed simp
qed

lemma Escape_id: "control_free s \<Longrightarrow> EscapeSequences s = s"
proof (induction s rule: control_free.induct)
  case (2 c s)
  obtain r n where d: "decode_one c s = (r, n)" by (cases "decode_one c s")
  have "EscapeSequences (drop n s) = drop n s" using 2 d by (simp add: control_free.simps(2))
  moreover have "r = ESC \<Longrightarrow> n = 0 \<and> c < 128" using d by (cases rule: decode_one_shape) (auto simp: ESC_def second_ok_def cont_def split: if_splits)
  ultimately show ?case using 2(2) d by (auto simp: control_free.simps(2) ESC_def)
qed simp

section \<open>Texts without injection phrases\<close>

lemma control_free_runes: "control_free s \<Longrightarrow> \<forall>r\<in>set (decode_bytes s). r \<noteq> ESC \<and> r \<notin> set c1_codes"
proof (induction s rule: control_free.induct)
  case (2 c s)
  obtain r n where d: "decode_one c s = (r, n)" by (cases "decode_one c s")
  have "r \<noteq> ESC \<and> r \<notin> set c1_codes"
  proof (cases "n = 0 \<and> 128 \<le> c")
    case True
    from d have "r = 65533" by (cases rule: decode_one_shape) (use True in auto)
    then show ?thesis by (simp add: ESC_def c1_codes_def)
  next
    case False
    then show ?thesis using 2(2) d unfolding control_free.simps(2) by (simp only: Let_def prod.case if_False) simp
  qed
  then show ?case using 2 d by (simp add: control_free.simps(2))
qed simp

lemma control_free_encode: "\<forall>r\<in>set rs. scalar r \<and> r \<noteq> ESC \<and> r \<notin> set c1_codes \<Longrightarrow> control_free (encode rs)"
proof (induction rs)
  case (Cons r rs)
  then have "scalar r" by simp
  then obtain b w where e: "rune_bytes r = b # w" "\<And>t. decode_one b (w @ t) = (r, length w)" by (rule encode_one) blast
  have "length w = 0 \<Longrightarrow> b < 128" using e(1) by (auto simp: rune_bytes_def split: if_splits)
  then show ?case using Cons control_free_token [OF e(2) [of "encode rs"], of "encode rs"] e(1) by (auto simp: encode_def)
qed (simp add: encode_def)

definition tame :: "rune \<Rightarrow> bool" where
  "tame r \<longleftrightarrow> scalar r \<and> r \<noteq> ESC \<and> r \<notin> set c1_codes"

lemma stripOnce_control_free: "control_free s \<Longrightarrow> control_free (stripOnce U s)"
proof (cases "strip_runes U None (decode_bytes s)")
  case (Pair removed out)
  assume cf: "control_free s"
  have o: "\<forall>r\<in>set out. tame r"
    using control_free_runes [OF cf] decode_scalar [of s] strip_subset [of U None "decode_bytes s"] Pair by (auto simp: tame_def)
  have "tame 32" by (simp add: tame_def scalar_def ESC_def c1_codes_def)
  then have "\<forall>r\<in>set (collapse_runes False False out). tame r" using o collapse_subset [of False False out] by blast
  then show ?thesis using Pair cf o by (auto simp: stripOnce_def collapseSpace_def decode_encode tame_def intro: control_free_encode)
qed

lemma stripFeatures_control_free: "control_free s \<Longrightarrow> control_free (stripFeatures U s)"
proof (induction U s rule: stripFeatures.induct)
  case (1 U s)
  then show ?case by (cases "stripOnce U s = s") (simp_all add: stripFeatures.simps [of U s] stripOnce_control_free)
qed

lemma stripFeatures_fix: "stripOnce U (stripFeatures U s) = stripFeatures U s"
proof (induction U s rule: stripFeatures.induct)
  case (1 U s)
  then show ?case by (cases "stripOnce U s = s") (simp_all add: stripFeatures.simps [of U s])
qed

text \<open>An occurrence of a phrase between word boundaries.\<close>

definition phrase_occurs :: "unicode_tables \<Rightarrow> rune list \<Rightarrow> bool" where
  "phrase_occurs U rs \<longleftrightarrow> (\<exists>a q b. rs = a @ q @ b \<and> map (ut_lower U) q \<in> set featurePhrases \<and>
     (a = [] \<or> wordBoundary U (last a)) \<and> (b = [] \<or> wordBoundary U (hd b)))"

lemma phrase_at_None:
  assumes "phrase_at U prev (q @ b) = None" "map (ut_lower U) q \<in> set featurePhrases" "b = [] \<or> wordBoundary U (hd b)"
  shows "\<exists>r. prev = Some r \<and> \<not> wordBoundary U r"
proof -
  let ?p = "map (ut_lower U) q"
  have "length ?p \<le> length (q @ b)" "map (ut_lower U) (take (length ?p) (q @ b)) = ?p"
    "length ?p = length (q @ b) \<or> wordBoundary U ((q @ b) ! length ?p)" using assms(3) by (cases b; auto simp: nth_append)+
  then have "\<not> (case prev of None \<Rightarrow> True | Some r \<Rightarrow> wordBoundary U r)" using assms(1,2) unfolding phrase_at_def find_None_iff by blast
  then show ?thesis by (cases prev) auto
qed

lemma strip_complete:
  assumes "\<not> fst (strip_runes U prev (a @ q @ b))" "map (ut_lower U) q \<in> set featurePhrases" "b = [] \<or> wordBoundary U (hd b)"
  shows "if a = [] then (\<exists>r. prev = Some r \<and> \<not> wordBoundary U r) else \<not> wordBoundary U (last a)"
  using assms(1)
proof (induction a arbitrary: prev)
  case Nil
  have "q \<noteq> []" using phrases_long assms(2) by fastforce
  then obtain r rs where "q @ b = r # rs" by (cases q) auto
  then have "phrase_at U prev (q @ b) = None" using Nil by (cases "phrase_at U prev (q @ b)") auto
  then show ?case using phrase_at_None assms(2,3) by simp
next
  case (Cons c a)
  then have "\<not> fst (strip_runes U (Some c) (a @ q @ b))"
    by (cases "phrase_at U prev (c # a @ q @ b)"; cases "strip_runes U (Some c) (a @ q @ b)") auto
  then show ?case using Cons.IH [of "Some c"] by (simp split: if_splits)
qed

lemma stripFeatures_phrase_free: "\<not> phrase_occurs U (decode_bytes (stripFeatures U s))"
proof
  let ?s = "stripFeatures U s"
  assume "phrase_occurs U (decode_bytes ?s)"
  then obtain a q b where o: "decode_bytes ?s = a @ q @ b" "map (ut_lower U) q \<in> set featurePhrases"
    "a = [] \<or> wordBoundary U (last a)" "b = [] \<or> wordBoundary U (hd b)" by (auto simp: phrase_occurs_def)
  have "\<not> fst (strip_runes U None (decode_bytes ?s))"
    using stripOnce_runes [of U ?s] stripFeatures_fix [of U s] strip_length [of U None "decode_bytes ?s"]
      collapse_length [of False False "snd (strip_runes U None (decode_bytes ?s))"] by (auto split: if_splits)
  then show False using strip_complete [of U None a q b] o by (auto split: if_splits)
qed

text \<open>Text in which no phrase occurs is left as it is.\<close>

lemma strip_sound: "fst (strip_runes U prev rs) \<Longrightarrow>
    \<exists>a q b. rs = a @ q @ b \<and> map (ut_lower U) q \<in> set featurePhrases \<and>
      (if a = [] then (\<forall>r. prev = Some r \<longrightarrow> wordBoundary U r) else wordBoundary U (last a)) \<and> (b = [] \<or> wordBoundary U (hd b))"
proof (induction rs arbitrary: prev)
  case (Cons r rs)
  show ?case
  proof (cases "phrase_at U prev (r # rs)")
    case None
    then have "fst (strip_runes U (Some r) rs)" using Cons.prems by (cases "strip_runes U (Some r) rs") simp
    then obtain a q b where "rs = a @ q @ b" "map (ut_lower U) q \<in> set featurePhrases"
      "if a = [] then (\<forall>r'. Some r = Some r' \<longrightarrow> wordBoundary U r') else wordBoundary U (last a)" "b = [] \<or> wordBoundary U (hd b)"
      using Cons.IH by blast
    then show ?thesis by (intro exI [of _ "r # a"] exI [of _ q] exI [of _ b]) (auto split: if_splits)
  next
    case (Some p)
    then have p: "p \<in> set featurePhrases" using phrase_at_Some by blast
    let ?q = "take (length p) (r # rs)" let ?b = "drop (length p) (r # rs)"
    from Some have P: "length p \<le> length (r # rs)" "map (ut_lower U) ?q = p"
      "case prev of None \<Rightarrow> True | Some r \<Rightarrow> wordBoundary U r" "length p = length (r # rs) \<or> wordBoundary U ((r # rs) ! length p)"
      unfolding phrase_at_def find_Some_iff by blast+
    have "?b = [] \<or> wordBoundary U (hd ?b)" using P(1,4) by (metis drop_all hd_drop_conv_nth le_neq_implies_less order_refl)
    moreover have "\<forall>r'. prev = Some r' \<longrightarrow> wordBoundary U r'" using P(3) by auto
    moreover have "r # rs = [] @ ?q @ ?b" by (simp only: append_take_drop_id append_Nil)
    ultimately show ?thesis using p P(2) by (metis (full_types))
  qed
qed simp

lemma stripFeatures_id:
  assumes "\<not> phrase_occurs U (decode_bytes s)" shows "stripFeatures U s = s"
proof -
  have "\<not> fst (strip_runes U None (decode_bytes s))"
  proof
    assume "fst (strip_runes U None (decode_bytes s))"
    from strip_sound [OF this] show False using assms unfolding phrase_occurs_def by (metis (full_types))
  qed
  then have "stripOnce U s = s" by (cases "strip_runes U None (decode_bytes s)") (simp add: stripOnce_def)
  then show ?thesis by (simp add: stripFeatures.simps)
qed

end
