(* ===== verification/Redact_Correct.thy ===== *)
theory Redact_Correct
  imports Sanitize_Correct
begin

text \<open>
  Redaction: a match depends only on the bytes it takes, unless the pattern looks at word boundaries, and never extends over
  a bracket; so a replacement neither leaves a match of its pattern nor brings one of another pattern about.
\<close>

section \<open>What a match takes\<close>

lemma item_len_le: "item_len ci p s \<le> length s"
  by (cases s) (auto simp: item_len_def dest!: arg_cong [where f = length])

lemma items_Cons: "rev (items ci p s) = s # (if item_len ci p s = 0 then [] else rev (items ci p (drop (item_len ci p s) s)))"
  by (subst items.simps) simp

lemma suffix_drop_trans: "suffix t (drop n s) \<Longrightarrow> suffix t s"
  using suffix_drop suffix_order.trans by blast

lemma items_suffix: "t \<in> set (items ci p s) \<Longrightarrow> suffix t s"
proof (induction ci p s rule: items.induct)
  case (1 ci p s)
  then show ?case using suffix_drop_trans by (subst (asm) (2) items.simps) (auto split: if_splits)
qed

lemma matches_suffix: "(pre', t) \<in> set (matches re (pre, s)) \<Longrightarrow> suffix t s"
proof (induction re arbitrary: pre s pre' t)
  case (Many ci p lo hi)
  then have "t \<in> set (items ci p s)"
    by (auto simp: move_def Let_def dest!: in_set_dropD in_set_takeD split: option.splits)
  then show ?case by (rule items_suffix)
next
  case (Cat a b)
  then obtain q u where "(q, u) \<in> set (matches a (pre, s))" "(pre', t) \<in> set (matches b (q, u))" by auto
  then show ?case using Cat.IH suffix_order.trans by blast
qed (auto simp: move_def suffix_drop Let_def split: if_splits)

text \<open>Items of a class without brackets.\<close>

definition bracketless :: "char_class \<Rightarrow> bool" where
  "bracketless p \<longleftrightarrow> \<not> p 91 \<and> \<not> p 93"

lemma item_local:
  assumes "0 < item_len ci p s" "bracketless p"
  shows "\<exists>u. s = u @ drop (item_len ci p s) s \<and> length u = item_len ci p s \<and> 91 \<notin> set u \<and> 93 \<notin> set u \<and>
    (\<forall>t. item_len ci p (u @ t) = length u)"
proof -
  define n u where "n = item_len ci p s" and "u = take n s"
  have n: "n \<le> length s" using item_len_le n_def by simp
  consider "n = 1" "s \<noteq> []" "hd s < 128" "(if ci then either_case p else p) (hd s)"
    | "n = 2" "ci" "u = [0xC5, 0xBF]" "either_case p 115"
    | "n = 3" "ci" "u = [0xE2, 0x84, 0xAA]" "either_case p 107"
    using assms(1) unfolding n_def u_def item_len_def by (auto split: if_splits)
  then have "91 \<notin> set u \<and> 93 \<notin> set u \<and> (\<forall>t. item_len ci p (u @ t) = length u)"
  proof cases
    case 1
    then obtain c s' where "s = c # s'" by (cases s) auto
    then show ?thesis using 1 assms(2) by (auto simp: u_def item_len_def bracketless_def either_case_def split: if_splits)
  qed (simp_all add: item_len_def)
  then show ?thesis using n by (intro exI [of _ u]) (auto simp: n_def u_def min_def)
qed

lemma items_local:
  assumes "k < length (items ci p s)" "bracketless p"
  shows "\<exists>u. s = u @ rev (items ci p s) ! k \<and> 91 \<notin> set u \<and> 93 \<notin> set u \<and>
    (\<forall>t. k < length (items ci p (u @ t)) \<and> rev (items ci p (u @ t)) ! k = t)"
  using assms(1)
proof (induction k arbitrary: s)
  case 0
  have "length (items ci p t) > 0" for t by (subst items.simps) simp
  then show ?case by (intro exI [of _ "[]"]) (simp add: items_Cons)
next
  case (Suc k)
  let ?n = "item_len ci p s"
  have len: "length (items ci p s') = Suc (if item_len ci p s' = 0 then 0 else length (items ci p (drop (item_len ci p s') s')))" for s'
    by (subst items.simps) simp
  have n: "0 < ?n" using Suc.prems len [of s] by (auto split: if_splits)
  obtain u where u: "s = u @ drop ?n s" "length u = ?n" "91 \<notin> set u" "93 \<notin> set u" "\<And>t. item_len ci p (u @ t) = length u"
    using item_local [OF n assms(2)] by blast
  have "k < length (items ci p (drop ?n s))" using Suc.prems n len [of s] by simp
  then obtain v where v: "drop ?n s = v @ rev (items ci p (drop ?n s)) ! k" "91 \<notin> set v" "93 \<notin> set v"
    "\<And>t. k < length (items ci p (v @ t)) \<and> rev (items ci p (v @ t)) ! k = t" using Suc.IH by blast
  have step: "rev (items ci p s) ! Suc k = rev (items ci p (drop ?n s)) ! k" using n by (simp add: items_Cons [of ci p s])
  have "s = (u @ v) @ rev (items ci p s) ! Suc k" unfolding step using u(1) v(1) by (metis append_assoc)
  moreover have "Suc k < length (items ci p ((u @ v) @ t)) \<and> rev (items ci p ((u @ v) @ t)) ! Suc k = t" for t
    using v(4) [of t] u(2) n by (simp add: len [of "u @ v @ t"] items_Cons [of ci p "u @ v @ t"] u(5))
  ultimately show ?case using u v by (intro exI [of _ "u @ v"]) auto
qed

text \<open>A pattern that looks at nothing but the bytes it takes.\<close>

fun plain :: "re \<Rightarrow> bool" where
  "plain (Cls ci p) \<longleftrightarrow> bracketless p"
| "plain (Many ci p lo hi) \<longleftrightarrow> bracketless p"
| "plain WordB = False"
| "plain (Cat a b) \<longleftrightarrow> plain a \<and> plain b"
| "plain (Alt a b) \<longleftrightarrow> plain a \<and> plain b"

definition words :: "re \<Rightarrow> bytes set" where
  "words re = {u. 91 \<notin> set u \<and> 93 \<notin> set u \<and> (\<forall>pre t. \<exists>pre'. (pre', t) \<in> set (matches re (pre, u @ t)))}"

lemma many_nth:
  "(pre', t) \<in> set (matches (Many ci p lo hi) (pre, s)) \<longleftrightarrow>
     (\<exists>k. lo \<le> k \<and> k < length (items ci p s) \<and> (case hi of None \<Rightarrow> True | Some h \<Rightarrow> k \<le> h) \<and> t = rev (items ci p s) ! k \<and> (pre', t) = move pre s t)"
  (is "?l \<longleftrightarrow> ?r")
proof -
  let ?ts = "case hi of None \<Rightarrow> rev (items ci p s) | Some h \<Rightarrow> take (Suc h) (rev (items ci p s))"
  have "?l \<longleftrightarrow> t \<in> set (drop lo ?ts) \<and> (pre', t) = move pre s t" by (auto simp: Let_def move_def)
  moreover have "t \<in> set (drop lo ?ts) \<longleftrightarrow> (\<exists>k. lo \<le> k \<and> k < length ?ts \<and> t = ?ts ! k)"
    by (auto simp: in_set_conv_nth) (metis add.commute le_add1 less_diff_conv, metis le_add_diff_inverse less_diff_conv add.commute)
  moreover have "k < length ?ts \<longleftrightarrow> k < length (items ci p s) \<and> (case hi of None \<Rightarrow> True | Some h \<Rightarrow> k \<le> h)" for k
    by (auto split: option.split)
  moreover have "k < length ?ts \<Longrightarrow> ?ts ! k = rev (items ci p s) ! k" for k by (auto split: option.split)
  ultimately show ?thesis by metis
qed

lemma matches_words:
  assumes "(pre', t) \<in> set (matches re (pre, s))" "plain re"
  shows "\<exists>u\<in>words re. s = u @ t"
  using assms
proof (induction re arbitrary: pre s pre' t)
  case (Cls ci p)
  then have n: "0 < item_len ci p s" and t: "t = drop (item_len ci p s) s" by (auto simp: Let_def move_def split: if_splits)
  then obtain u where u: "s = u @ t" "length u = item_len ci p s" "91 \<notin> set u" "93 \<notin> set u" "\<And>t. item_len ci p (u @ t) = length u"
    using item_local [OF n] Cls.prems(2) by auto
  then show ?case using n by (intro bexI [of _ u]) (auto simp: words_def move_def Let_def)
next
  case (Many ci p lo hi)
  then obtain k where k: "lo \<le> k" "k < length (items ci p s)" "case hi of None \<Rightarrow> True | Some h \<Rightarrow> k \<le> h" "t = rev (items ci p s) ! k"
    by (auto simp: many_nth simp del: matches.simps)
  then obtain u where "s = u @ t" "91 \<notin> set u" "93 \<notin> set u" "\<forall>t. k < length (items ci p (u @ t)) \<and> rev (items ci p (u @ t)) ! k = t"
    using items_local [OF k(2)] Many.prems(2) by auto
  then show ?case using k by (intro bexI [of _ u]) (auto simp: words_def many_nth move_def simp del: matches.simps)
next
  case (Cat a b)
  then obtain q m where m: "(q, m) \<in> set (matches a (pre, s))" "(pre', t) \<in> set (matches b (q, m))" by auto
  then obtain u v where uv: "u \<in> words a" "s = u @ m" "v \<in> words b" "m = v @ t" using Cat by fastforce
  have "\<exists>pre'. (pre', t') \<in> set (matches (Cat a b) (pre, (u @ v) @ t'))" for pre t'
  proof -
    obtain q where "(q, v @ t') \<in> set (matches a (pre, u @ v @ t'))" using uv(1) by (auto simp: words_def)
    moreover obtain r where "(r, t') \<in> set (matches b (q, v @ t'))" using uv(3) by (auto simp: words_def)
    ultimately show ?thesis by auto
  qed
  then show ?case using uv by (intro bexI [of _ "u @ v"]) (auto simp: words_def)
next
  case (Alt a b)
  then show ?case by (fastforce simp: words_def)
qed simp

lemma matches_iff: "plain re \<Longrightarrow> matches re (pre, s) \<noteq> [] \<longleftrightarrow> (\<exists>u\<in>words re. prefix u s)"
proof
  assume "plain re" "matches re (pre, s) \<noteq> []"
  then obtain pre' t where "(pre', t) \<in> set (matches re (pre, s))" by (cases "matches re (pre, s)") auto
  then show "\<exists>u\<in>words re. prefix u s" using matches_words \<open>plain re\<close> by (metis prefixI)
next
  assume "\<exists>u\<in>words re. prefix u s"
  then obtain u t where "u \<in> words re" "s = u @ t" by (auto elim: prefixE)
  then show "matches re (pre, s) \<noteq> []" by (auto simp: words_def) (metis empty_iff empty_set)
qed

section \<open>Replacements\<close>

fun takes_some :: "re \<Rightarrow> bool" where
  "takes_some (Cls ci p) = True"
| "takes_some (Many ci p lo hi) \<longleftrightarrow> 0 < lo"
| "takes_some WordB = False"
| "takes_some (Cat a b) \<longleftrightarrow> takes_some a \<or> takes_some b"
| "takes_some (Alt a b) \<longleftrightarrow> takes_some a \<and> takes_some b"

lemma takes_some_shorter: "(pre', t) \<in> set (matches re (pre, s)) \<Longrightarrow> takes_some re \<Longrightarrow> length t < length s"
proof (induction re arbitrary: pre s pre' t)
  case (Many ci p lo hi)
  then obtain k where "lo \<le> k" "k < length (items ci p s)" "t = rev (items ci p s) ! k" by (auto simp: many_nth simp del: matches.simps)
  then obtain j where "t = rev (items ci p s) ! Suc j" "Suc j < length (items ci p s)" using Many.prems(2) by (cases k) auto
  moreover have "i < length (rev (items ci p s)) \<Longrightarrow> length (rev (items ci p s) ! i) + i \<le> length s" for i
  proof (induction i arbitrary: s)
    case (Suc i)
    let ?n = "item_len ci p s"
    have n: "0 < ?n" using Suc.prems by (subst (asm) items_Cons) (auto split: if_splits)
    then have "i < length (rev (items ci p (drop ?n s)))" using Suc.prems by (subst (asm) items_Cons) simp
    from Suc.IH [OF this] show ?case using n item_len_le [of ci p s] by (subst items_Cons) auto
  qed (simp add: items_Cons)
  ultimately show ?case by fastforce
next
  case (Cat a b)
  then obtain q m where "(q, m) \<in> set (matches a (pre, s))" "(pre', t) \<in> set (matches b (q, m))" by auto
  then show ?case using Cat.IH Cat.prems(2) matches_suffix [THEN suffix_length_le] by (metis le_less_trans less_le_trans takes_some.simps(4))
next
  case (Cls ci p)
  then have "0 < item_len ci p s" "t = drop (item_len ci p s) s" by (auto simp: Let_def move_def split: if_splits)
  then show ?case using item_len_le [of ci p s] by simp
qed (auto split: if_splits)

lemma words_nonempty: "takes_some re \<Longrightarrow> u \<in> words re \<Longrightarrow> u \<noteq> []"
proof
  assume "takes_some re" "u \<in> words re" "u = []"
  then have "\<exists>pre'. (pre', []) \<in> set (matches re ([], [] @ []))" unfolding words_def by blast
  then obtain pre' where "(pre', []) \<in> set (matches re ([], []))" by auto
  then show False using takes_some_shorter \<open>takes_some re\<close> by fastforce
qed

definition hit :: "re \<Rightarrow> bytes \<Rightarrow> bool" where
  "hit re s \<longleftrightarrow> (\<exists>u\<in>words re. sublist u s)"

lemma sublist_around: "sublist u (x @ c # y) \<Longrightarrow> c \<notin> set u \<Longrightarrow> sublist u x \<or> sublist u y"
proof -
  assume s: "sublist u (x @ c # y)" and c: "c \<notin> set u"
  have "sublist u (c # y) \<Longrightarrow> sublist u y"
    using c by (auto simp: sublist_Cons_right prefix_Cons)
  moreover have "prefix v (c # y) \<Longrightarrow> v = [] \<or> c \<in> set v" for v by (cases v) auto
  ultimately show ?thesis using s c unfolding sublist_append
    by (metis Un_iff append_Nil2 set_append suffix_imp_sublist)
qed

lemma hit_around: "hit re (x @ c # y) \<Longrightarrow> c \<in> {91, 93} \<Longrightarrow> hit re x \<or> hit re y"
  unfolding hit_def words_def by (auto dest!: sublist_around)

lemma hit_mono: "hit re s \<Longrightarrow> sublist s t \<Longrightarrow> hit re t"
  unfolding hit_def using sublist_order.order_trans by blast

text \<open>A marker: a text in brackets in which no pattern matches.\<close>

definition marker :: "re \<Rightarrow> bytes \<Rightarrow> bool" where
  "marker re repl \<longleftrightarrow> (\<exists>m. repl = 91 # m @ [93] \<and> \<not> hit re m)"

lemma hit_marker: "marker re repl \<Longrightarrow> \<not> hit re a \<Longrightarrow> \<not> hit re y \<Longrightarrow> \<not> hit re (a @ repl @ y)"
proof -
  assume "marker re repl" "\<not> hit re a" "\<not> hit re y"
  then obtain m where m: "repl = 91 # m @ [93]" "\<not> hit re m" by (auto simp: marker_def)
  have "hit re (a @ 91 # m @ 93 # y) \<Longrightarrow> hit re a \<or> hit re (m @ 93 # y)" by (rule hit_around) auto
  moreover have "hit re (m @ 93 # y) \<Longrightarrow> hit re m \<or> hit re y" by (rule hit_around) auto
  ultimately show ?thesis using m \<open>\<not> hit re a\<close> \<open>\<not> hit re y\<close> by auto
qed

lemma replace_step:
  obtains "replace_all re repl pre (c # s) = c # replace_all re repl (c # pre) s" "takes_some re \<Longrightarrow> matches re (pre, c # s) = []"
  | pre' s' where "(pre', s') \<in> set (matches re (pre, c # s))" "length s' \<le> length s"
      "replace_all re repl pre (c # s) = repl @ replace_all re repl pre' s'"
proof (cases "matches re (pre, c # s)")
  case (Cons st rest)
  obtain pre' s' where st: "st = (pre', s')" by (cases st)
  then have "(pre', s') \<in> set (matches re (pre, c # s))" using Cons by simp
  then show ?thesis using Cons st that(2) [of pre' s'] that(1) takes_some_shorter [of pre' s' re pre "c # s"]
    by (cases "length s' \<le> length s") auto
qed (use that(1) in simp)

lemma replace_keeps:
  assumes "plain re" "marker re repl"
  shows "\<not> hit re (a @ s) \<Longrightarrow> \<not> hit re (a @ replace_all re' repl pre s)"
proof (induction s arbitrary: a pre rule: length_induct)
  case (1 s)
  show ?case
  proof (cases s)
    case (Cons c s')
    show ?thesis
    proof (rule replace_step [of re' repl pre c s'])
      assume "replace_all re' repl pre (c # s') = c # replace_all re' repl (c # pre) s'"
      moreover have "\<not> hit re ((a @ [c]) @ replace_all re' repl (c # pre) s')"
        using 1(1) [rule_format, of s' "a @ [c]" "c # pre"] 1(2) Cons by simp
      ultimately show ?thesis using Cons by simp
    next
      fix pre' t assume t: "(pre', t) \<in> set (matches re' (pre, c # s'))" "length t \<le> length s'"
        "replace_all re' repl pre (c # s') = repl @ replace_all re' repl pre' t"
      have "sublist t (a @ s)" using matches_suffix [OF t(1)] Cons by (metis suffix_appendI suffix_imp_sublist)
      then have "\<not> hit re ([] @ t)" using 1(2) hit_mono by auto
      then have "\<not> hit re (replace_all re' repl pre' t)" using 1(1) t(2) Cons by (metis append_Nil le_imp_less_Suc length_Cons)
      moreover have "\<not> hit re a" using 1(2) hit_mono by (metis sublist_append_rightI)
      ultimately show ?thesis using hit_marker [OF assms(2)] t(3) Cons by simp
    qed
  qed (use 1 in simp)
qed

lemma replace_all_free:
  assumes "plain re" "takes_some re" "marker re repl"
  shows "\<forall>i<length a. \<not> (\<exists>u\<in>words re. prefix u (drop i a @ s)) \<Longrightarrow> \<not> hit re (a @ replace_all re repl pre s)"
proof (induction s arbitrary: a pre rule: length_induct)
  case (1 s)
  have pre_hit: "\<not> hit re a"
  proof
    assume "hit re a"
    then obtain u x y where u: "u \<in> words re" "a = x @ u @ y" by (auto simp: hit_def sublist_def)
    then have "length x < length a" using words_nonempty [OF assms(2)] by auto
    moreover have "prefix u (drop (length x) a @ s)" using u by simp
    ultimately show False using 1(2) u(1) by blast
  qed
  show ?case
  proof (cases s)
    case (Cons c s')
    show ?thesis
    proof (rule replace_step [of re repl pre c s'])
      assume st: "replace_all re repl pre (c # s') = c # replace_all re repl (c # pre) s'" "takes_some re \<Longrightarrow> matches re (pre, c # s') = []"
      have none: "\<not> (\<exists>u\<in>words re. prefix u s)" using matches_iff [OF assms(1), of pre s] st(2) [OF assms(2)] Cons by simp
      have "\<forall>i<length (a @ [c]). \<not> (\<exists>u\<in>words re. prefix u (drop i (a @ [c]) @ s'))"
      proof (intro allI impI)
        fix i assume "i < length (a @ [c])"
        then consider "i < length a" | "i = length a" by fastforce
        then show "\<not> (\<exists>u\<in>words re. prefix u (drop i (a @ [c]) @ s'))" using 1(2) none Cons by cases auto
      qed
      then have "\<not> hit re ((a @ [c]) @ replace_all re repl (c # pre) s')" using 1(1) Cons by (metis length_Cons lessI)
      then show ?thesis using st Cons by simp
    next
      fix pre' t assume t: "length t \<le> length s'" "replace_all re repl pre (c # s') = repl @ replace_all re repl pre' t"
      have "\<not> hit re ([] @ replace_all re repl pre' t)" using 1(1) t(1) Cons by (metis le_imp_less_Suc length_Cons list.size(3) not_less_zero)
      then show ?thesis using hit_marker [OF assms(3) pre_hit] t(2) Cons by simp
    qed
  qed (use pre_hit in simp)
qed

text \<open>Replacements keep a text free of controls.\<close>

lemma item_control_free:
  assumes "0 < item_len ci p s"
  shows "\<not> cont (hd s) \<and> (control_free s \<longrightarrow> control_free (drop (item_len ci p s) s))"
proof -
  consider c s' where "s = c # s'" "c < 128" "item_len ci p s = 1"
    | s' where "s = 0xC5 # 0xBF # s'" "item_len ci p s = 2" | s' where "s = 0xE2 # 0x84 # 0xAA # s'" "item_len ci p s = 3"
  proof (cases "s \<noteq> [] \<and> hd s < 128")
    case True
    then show ?thesis using that(1) [of "hd s" "tl s"] assms by (cases s) (auto simp: item_len_def split: if_splits)
  next
    case False
    then have "item_len ci p s = 2 \<and> take 2 s = [0xC5, 0xBF] \<or> item_len ci p s = 3 \<and> take 3 s = [0xE2, 0x84, 0xAA]"
      using assms by (auto simp: item_len_def split: if_splits)
    moreover have "take 2 s = [0xC5, 0xBF] \<Longrightarrow> s = 0xC5 # 0xBF # drop 2 s" "take 3 s = [0xE2, 0x84, 0xAA] \<Longrightarrow> s = 0xE2 # 0x84 # 0xAA # drop 3 s"
      using append_take_drop_id [of 2 s] append_take_drop_id [of 3 s] by (metis append_Cons append_Nil)+
    ultimately show ?thesis using that(2) [of "drop 2 s"] that(3) [of "drop 3 s"] by blast
  qed
  then show ?thesis
    by cases (auto simp: control_free_low cont_def control_free.simps(2) [of 197] control_free.simps(2) [of 226] decode_one_def second_ok_def)
qed

lemma items_control_free: "t \<in> set (items ci p s) \<Longrightarrow> (t = s \<or> \<not> cont (hd s)) \<and> (control_free s \<longrightarrow> control_free t)"
proof (induction ci p s rule: items.induct)
  case (1 ci p s)
  then show ?case using item_control_free [of ci p s] items.simps [of ci p s] by (auto split: if_splits)
qed

lemma matches_control_free:
  "(pre', t) \<in> set (matches re (pre, s)) \<Longrightarrow> (t = s \<or> \<not> cont (hd s)) \<and> (control_free s \<longrightarrow> control_free t)"
proof (induction re arbitrary: pre s pre' t)
  case (Cls ci p)
  then have "0 < item_len ci p s" "t = drop (item_len ci p s) s" by (auto simp: Let_def move_def split: if_splits)
  then show ?case using item_control_free by blast
next
  case (Many ci p lo hi)
  then have "t \<in> set (items ci p s)"
    by (auto simp: move_def Let_def dest!: in_set_dropD in_set_takeD split: option.splits)
  then show ?case by (rule items_control_free)
next
  case (Cat a b)
  then obtain q m where "(q, m) \<in> set (matches a (pre, s))" "(pre', t) \<in> set (matches b (q, m))" by auto
  then show ?case using Cat.IH by metis
next
  case (Alt a b)
  then show ?case by (metis Un_iff matches.simps(5) set_append)
qed (auto split: if_splits)

lemma replace_control_free:
  assumes "repl \<noteq> []" "\<forall>c\<in>set repl. c < 128 \<and> c \<noteq> ESC"
  shows "control_free (a @ s) \<Longrightarrow> control_free (a @ replace_all re repl pre s)"
proof (induction s arbitrary: a pre rule: length_induct)
  case (1 s)
  show ?case
  proof (cases s)
    case (Cons c s')
    show ?thesis
    proof (rule replace_step [of re repl pre c s'])
      assume "replace_all re repl pre (c # s') = c # replace_all re repl (c # pre) s'"
      moreover have "control_free ((a @ [c]) @ replace_all re repl (c # pre) s')"
        using 1(1) [rule_format, of s' "a @ [c]" "c # pre"] 1(2) Cons by simp
      ultimately show ?thesis using Cons by simp
    next
      fix pre' t assume t: "(pre', t) \<in> set (matches re (pre, c # s'))" "length t \<le> length s'"
        "replace_all re repl pre (c # s') = repl @ replace_all re repl pre' t"
      have nc: "\<not> cont (hd s)" and tail: "control_free s \<Longrightarrow> control_free t" using matches_control_free [OF t(1)] t(2) Cons by auto
      then have "control_free a" "control_free s" using control_free_split [of s a] 1(2) by auto
      then have "control_free ([] @ replace_all re repl pre' t)" using 1(1) [rule_format, of t "[]" pre'] t(2) tail Cons by simp
      moreover have "control_free (repl @ y) \<longleftrightarrow> control_free y" for y
        using assms(2) by (induction repl) (auto simp: control_free_low)
      moreover have "\<not> cont (hd (repl @ replace_all re repl pre' t))" using assms by (cases repl) (auto simp: cont_def)
      ultimately show ?thesis using control_free_split [of "repl @ replace_all re repl pre' t" a] \<open>control_free a\<close> t(3) Cons by simp
    qed
  qed (use 1 in simp)
qed

section \<open>The patterns\<close>

definition secret_patterns :: "re list" where
  "secret_patterns = [re_sk, re_akia, re_ghp, re_xox, re_home, re_win]"

lemma plain_lit [simp]: "plain (lit_then ci s r) \<longleftrightarrow> CHR ''['' \<notin> set s \<and> CHR '']'' \<notin> set s \<and> plain r"
proof (induction s)
  case (Cons c s)
  have "of_char c = (91 :: nat) \<longleftrightarrow> c = CHR ''[''" "of_char c = (93 :: nat) \<longleftrightarrow> c = CHR '']''"
    using of_char_eq_iff [of c "CHR ''[''"] of_char_eq_iff [of c "CHR '']''"] by auto
  then show ?case using Cons by (auto simp: lit_then_def bracketless_def)
qed (simp add: lit_then_def)

lemma takes_lit: "s \<noteq> [] \<Longrightarrow> takes_some (lit_then ci s r)"
  by (cases s) (simp_all add: lit_then_def)

lemma secrets_plain: "re \<in> set secret_patterns \<Longrightarrow> plain re \<and> takes_some re"
  by (auto simp: secret_patterns_def re_sk_def re_akia_def re_ghp_def re_xox_def re_home_def re_win_def takes_lit
      bracketless_def path_b_def alnum_b_def digit_b_def upper_b_def one_of_def)

definition mark_texts :: "bytes list" where
  "mark_texts = [map of_char ''REDACTED_KEY'', map of_char ''REDACTED_EMAIL'', map of_char ''REDACTED_PATH'']"

lemma secrets_not_in_marks:
  "list_all (\<lambda>re. list_all (\<lambda>m. list_all (\<lambda>i. matches re ([], drop i m) = []) [0..<length m]) mark_texts) secret_patterns"
  by code_simp

lemma mark_ok:
  assumes "re \<in> set secret_patterns" "repl \<in> {key_mark, email_mark, path_mark}"
  shows "marker re repl"
proof -
  have "key_mark = 91 # map of_char ''REDACTED_KEY'' @ [93]" "email_mark = 91 # map of_char ''REDACTED_EMAIL'' @ [93]"
    "path_mark = 91 # map of_char ''REDACTED_PATH'' @ [93]" by (simp_all add: key_mark_def email_mark_def path_mark_def)
  then obtain m where m: "m \<in> set mark_texts" "repl = 91 # m @ [93]"
    using assms(2) unfolding mark_texts_def by (metis emptyE insertE list.set_intros)
  have "\<not> hit re m"
  proof
    assume "hit re m"
    then obtain u x y where u: "u \<in> words re" "m = x @ u @ y" by (auto simp: hit_def sublist_def)
    moreover have "u \<noteq> []" using u(1) words_nonempty secrets_plain [OF assms(1)] by blast
    ultimately have "length x < length m" by (metis add_less_cancel_left length_append length_greater_0_conv less_add_same_cancel1 trans_less_add1)
    then have "matches re ([], drop (length x) m) = []" using secrets_not_in_marks assms(1) m(1) by (simp add: list_all_iff)
    moreover have "prefix u (drop (length x) m)" using u(2) by simp
    ultimately show False using matches_iff [of re "[]"] secrets_plain [OF assms(1)] u(1) by blast
  qed
  then show ?thesis using m(2) by (auto simp: marker_def)
qed

lemma patterns_marks: "(re, repl) \<in> set redactionPatterns \<Longrightarrow> repl \<in> {key_mark, email_mark, path_mark}"
  by (auto simp: redactionPatterns_def)

lemma redact_run_free:
  assumes "set ps \<subseteq> set redactionPatterns" "re \<in> set secret_patterns" "\<not> hit re s \<or> re \<in> fst ` set ps"
  shows "\<not> hit re (fold (\<lambda>(re, repl) s. replace_all re repl [] s) ps s)"
  using assms(1,3)
proof (induction ps arbitrary: s)
  case (Cons p ps)
  obtain re' repl where p: "p = (re', repl)" by (cases p)
  have mk: "marker re repl" using mark_ok [OF assms(2)] patterns_marks [of re' repl] Cons.prems(1) p by auto
  note pl = secrets_plain [OF assms(2)]
  have "\<not> hit re (replace_all re' repl [] s) \<or> re \<in> fst ` set ps"
  proof (cases "re = re'")
    case True
    then show ?thesis using replace_all_free [of re repl "[]" s "[]"] pl mk by simp
  next
    case False
    then show ?thesis using replace_keeps [of re repl "[]" s re' "[]"] pl mk Cons.prems(2) p by auto
  qed
  then show ?case using Cons p by simp
qed simp

lemma redact_run_control_free:
  assumes "set ps \<subseteq> set redactionPatterns" "control_free s"
  shows "control_free (fold (\<lambda>(re, repl) s. replace_all re repl [] s) ps s)"
  using assms
proof (induction ps arbitrary: s)
  case (Cons p ps)
  obtain re' repl where p: "p = (re', repl)" by (cases p)
  have "repl \<in> {key_mark, email_mark, path_mark}" using patterns_marks [of re' repl] Cons.prems(1) p by simp
  then have "repl \<noteq> []" "\<forall>c\<in>set repl. c < 128 \<and> c \<noteq> ESC" by (auto simp: key_mark_def email_mark_def path_mark_def ESC_def)
  then show ?case using Cons p replace_control_free [of repl "[]" s re' "[]"] by simp
qed simp

section \<open>The pipeline\<close>

lemma sanitize_control_free: "control_free (sanitize_bytes U s)"
  unfolding sanitize_bytes_def redact_def
  by (intro redact_run_control_free stripFeatures_control_free Escape_control_free order_refl)

lemma sanitize_no_secrets:
  assumes re: "re \<in> set secret_patterns"
  shows "matches re (pre, drop i (sanitize_bytes U s)) = []"
proof (rule ccontr)
  let ?out = "sanitize_bytes U s"
  assume "matches re (pre, drop i ?out) \<noteq> []"
  then obtain u where u: "u \<in> words re" "prefix u (drop i ?out)" using matches_iff secrets_plain [OF re] by blast
  then have "hit re ?out" unfolding hit_def using sublist_drop prefix_imp_sublist sublist_order.order_trans by blast
  moreover have "re \<in> fst ` set redactionPatterns" using re by (auto simp: secret_patterns_def redactionPatterns_def)
  ultimately show False using redact_run_free [of redactionPatterns re] re by (simp add: sanitize_bytes_def redact_def)
qed

text \<open>The output consists of bytes.\<close>

definition all_bytes :: "nat list \<Rightarrow> bool" where
  "all_bytes s \<longleftrightarrow> (\<forall>c\<in>set s. c < 256)"

lemma Escape_set: "set (EscapeSequences s) \<subseteq> set s"
proof (induction s rule: length_induct)
  case (1 s)
  show ?case
  proof (cases s)
    case (Cons c s')
    have IH: "length t \<le> length s' \<Longrightarrow> set (EscapeSequences t) \<subseteq> set t" for t using 1 Cons by simp
    show ?thesis unfolding Cons
    proof (rule escape_step [of c s'])
      fix t assume "EscapeSequences (c # s') = EscapeSequences t" "length t \<le> length s'" "set t \<subseteq> set s'"
      then show "set (EscapeSequences (c # s')) \<subseteq> set (c # s')" using IH [of t] by auto
    next
      fix n assume "EscapeSequences (c # s') = take (Suc n) (c # s') @ EscapeSequences (drop n s')"
      moreover have "set (EscapeSequences (drop n s')) \<subseteq> set s'" using IH [of "drop n s'"] set_drop_subset [of n s'] by simp
      ultimately show "set (EscapeSequences (c # s')) \<subseteq> set (c # s')" using set_take_subset [of n s'] by auto
    qed simp
  qed simp
qed

lemma encode_bytes: "\<forall>r\<in>set rs. scalar r \<Longrightarrow> all_bytes (encode rs)"
proof (induction rs)
  case (Cons r rs)
  have "b < 256" if "b \<in> set (rune_bytes r)" for b using rune_bytes_high [of r b] that by (cases "r < 128") (auto simp: rune_bytes_def)
  then show ?case using Cons by (auto simp: encode_def all_bytes_def)
qed (simp add: encode_def all_bytes_def)

lemma stripOnce_bytes: "all_bytes s \<Longrightarrow> all_bytes (stripOnce U s)"
proof (cases "strip_runes U None (decode_bytes s)")
  case (Pair removed out)
  assume b: "all_bytes s"
  have o: "\<forall>r\<in>set out. scalar r" using strip_subset [of U None "decode_bytes s"] decode_scalar [of s] Pair by auto
  then have "\<forall>r\<in>set (collapse_runes False False out). scalar r" using collapse_subset [of False False out] by (auto simp: scalar_def)
  then show ?thesis using Pair b o by (auto simp: stripOnce_def collapseSpace_def decode_encode intro: encode_bytes)
qed

lemma stripFeatures_bytes: "all_bytes s \<Longrightarrow> all_bytes (stripFeatures U s)"
proof (induction U s rule: stripFeatures.induct)
  case (1 U s)
  then show ?case by (cases "stripOnce U s = s") (simp_all add: stripFeatures.simps [of U s] stripOnce_bytes)
qed

lemma replace_bytes: "all_bytes repl \<Longrightarrow> all_bytes s \<Longrightarrow> all_bytes (replace_all re repl pre s)"
proof (induction s arbitrary: pre rule: length_induct)
  case (1 s)
  show ?case
  proof (cases s)
    case (Cons c s')
    show ?thesis
    proof (rule replace_step [of re repl pre c s'])
      assume "replace_all re repl pre (c # s') = c # replace_all re repl (c # pre) s'"
      moreover have "all_bytes s'" "c < 256" using 1(3) Cons unfolding all_bytes_def by auto
      moreover have "length s' < length s" using Cons by simp
      then have "all_bytes (replace_all re repl (c # pre) s')" using 1(1,2) \<open>all_bytes s'\<close> by blast
      ultimately show ?thesis unfolding Cons all_bytes_def by (metis set_ConsD)
    next
      fix pre' t assume t: "(pre', t) \<in> set (matches re (pre, c # s'))" "length t \<le> length s'"
        "replace_all re repl pre (c # s') = repl @ replace_all re repl pre' t"
      then have "all_bytes t" using matches_suffix [OF t(1)] 1(3) Cons set_mono_suffix unfolding all_bytes_def by blast
      moreover have "length t < length s" using t(2) Cons by simp
      ultimately have "all_bytes (replace_all re repl pre' t)" using 1(1,2) by blast
      then show ?thesis unfolding Cons t(3) all_bytes_def using 1(2) by (auto simp: all_bytes_def)
    qed
  qed (simp add: all_bytes_def)
qed

lemma redact_bytes: "set ps \<subseteq> set redactionPatterns \<Longrightarrow> all_bytes s \<Longrightarrow> all_bytes (fold (\<lambda>(re, repl) s. replace_all re repl [] s) ps s)"
proof (induction ps arbitrary: s)
  case (Cons p ps)
  obtain re' repl where p: "p = (re', repl)" by (cases p)
  have "repl \<in> {key_mark, email_mark, path_mark}" using patterns_marks [of re' repl] Cons.prems(1) p by simp
  then have "all_bytes repl" by (auto simp: key_mark_def email_mark_def path_mark_def all_bytes_def)
  then show ?case using Cons p replace_bytes by simp
qed simp

lemma sanitize_all_bytes: "all_bytes (sanitize_bytes U (map of_char s))"
proof -
  have "all_bytes (map of_char s)" by (auto simp: all_bytes_def)
  then have "all_bytes (EscapeSequences (map of_char s))" using Escape_set [of "map of_char s"] unfolding all_bytes_def by blast
  then show ?thesis unfolding sanitize_bytes_def redact_def by (intro redact_bytes stripFeatures_bytes order_refl)
qed

lemma chars_back: "map char_of (map (of_char :: char \<Rightarrow> nat) s) = s"
  by (simp add: map_idI)

lemma Sanitize_inert:
  "map of_char (Sanitize U s) = sanitize_bytes U (map of_char s)"
  using sanitize_all_bytes [of U s] by (auto simp: Sanitize_def all_bytes_def intro: map_idI)

end
