(* ===== verification/Sanitize_Props.thy ===== *)
theory Sanitize_Props
  imports Redact_Correct
begin

text \<open>
  The properties of the sanitizer, and the evaluation of an ASCII text for which the pipeline is not idempotent.
\<close>

section \<open>ASCII texts\<close>

definition ascii_letter :: "rune \<Rightarrow> bool" where "ascii_letter r \<longleftrightarrow> 65 \<le> r \<and> r \<le> 90 \<or> 97 \<le> r \<and> r \<le> 122"

definition ascii_unicode :: unicode_tables where
  "ascii_unicode = \<lparr>ut_letter = ascii_letter, ut_digit = (\<lambda>r. 48 \<le> r \<and> r \<le> 57), ut_cjk = (\<lambda>r. False),
     ut_lower = (\<lambda>r. if 65 \<le> r \<and> r \<le> 90 then r + 32 else r)\<rparr>"

text \<open>What the Unicode tables say about ASCII.\<close>

definition ascii_tables :: "unicode_tables \<Rightarrow> bool" where
  "ascii_tables U \<longleftrightarrow> (\<forall>r<128. ut_letter U r = ut_letter ascii_unicode r \<and> ut_digit U r = ut_digit ascii_unicode r \<and>
     ut_cjk U r = ut_cjk ascii_unicode r \<and> ut_lower U r = ut_lower ascii_unicode r)"

definition all_ascii :: "nat list \<Rightarrow> bool" where
  "all_ascii s \<longleftrightarrow> (\<forall>c\<in>set s. c < 128)"

lemma decode_ascii: "all_ascii s \<Longrightarrow> decode_bytes s = s"
  by (induction s) (auto simp: all_ascii_def)

lemma encode_ascii: "all_ascii s \<Longrightarrow> encode s = s"
  by (induction s) (auto simp: all_ascii_def encode_def rune_bytes_def)

lemma boundary_cong: "ascii_tables U \<Longrightarrow> r < 128 \<Longrightarrow> wordBoundary U r = wordBoundary ascii_unicode r"
  by (simp add: ascii_tables_def wordBoundary_def)

lemma phrase_at_cong:
  assumes "ascii_tables U" "all_ascii rs" "\<forall>r. prev = Some r \<longrightarrow> r < 128"
  shows "phrase_at U prev rs = phrase_at ascii_unicode prev rs"
proof -
  have "map (ut_lower U) (take n rs) = map (ut_lower ascii_unicode) (take n rs)" for n
    using assms(1,2) by (auto simp: ascii_tables_def all_ascii_def dest!: in_set_takeD)
  moreover have "(case prev of None \<Rightarrow> True | Some r \<Rightarrow> wordBoundary U r) = (case prev of None \<Rightarrow> True | Some r \<Rightarrow> wordBoundary ascii_unicode r)"
    using assms(1,3) boundary_cong by (cases prev) auto
  moreover have "n < length rs \<Longrightarrow> wordBoundary U (rs ! n) = wordBoundary ascii_unicode (rs ! n)" for n
    using assms(1,2) boundary_cong by (simp add: all_ascii_def)
  ultimately show ?thesis unfolding phrase_at_def by (intro find_cong refl) (metis le_neq_implies_less)
qed

lemma strip_cong:
  assumes "ascii_tables U"
  shows "all_ascii rs \<Longrightarrow> \<forall>r. prev = Some r \<longrightarrow> r < 128 \<Longrightarrow> strip_runes U prev rs = strip_runes ascii_unicode prev rs"
proof (induction rs arbitrary: prev rule: length_induct)
  case (1 rs)
  show ?case
  proof (cases rs)
    case (Cons r rs')
    have ph: "phrase_at U prev (r # rs') = phrase_at ascii_unicode prev (r # rs')" using phrase_at_cong [OF assms] 1 Cons by simp
    show ?thesis
    proof (cases "phrase_at ascii_unicode prev (r # rs')")
      case None
      then show ?thesis using 1 Cons ph by (simp add: all_ascii_def)
    next
      case (Some p)
      let ?n = "length p - 1"
      have "all_ascii (drop ?n rs')" using 1(2) Cons by (auto simp: all_ascii_def dest: in_set_dropD)
      moreover have "?n < length (r # rs')" using phrase_at_Some [OF Some] by linarith
      then have "(r # rs') ! ?n < 128" using 1(2) Cons nth_mem unfolding all_ascii_def by blast
      ultimately show ?thesis using 1 Cons ph Some by simp
    qed
  qed simp
qed

lemma stripOnce_cong:
  assumes "ascii_tables U" "all_ascii s"
  shows "stripOnce U s = stripOnce ascii_unicode s \<and> all_ascii (stripOnce ascii_unicode s)"
proof -
  have "strip_runes U None s = strip_runes ascii_unicode None s" by (rule strip_cong) (use assms in auto)
  moreover have o: "all_ascii (snd (strip_runes ascii_unicode None s))" using strip_subset [of ascii_unicode None s] assms(2) by (auto simp: all_ascii_def)
  moreover have "all_ascii (collapse_runes False False (snd (strip_runes ascii_unicode None s)))"
    using collapse_subset [of False False "snd (strip_runes ascii_unicode None s)"] o by (auto simp: all_ascii_def)
  ultimately show ?thesis using assms(2)
    by (simp add: stripOnce_def collapseSpace_def decode_ascii encode_ascii split: prod.split) (metis encode_ascii decode_ascii snd_conv)
qed

lemma stripFeatures_cong: "ascii_tables U \<Longrightarrow> all_ascii s \<Longrightarrow> stripFeatures U s = stripFeatures ascii_unicode s"
proof (induction ascii_unicode s rule: stripFeatures.induct)
  case (1 s)
  note c = stripOnce_cong [OF 1(2,3)]
  show ?case
  proof (cases "stripOnce ascii_unicode s = s")
    case False
    then show ?thesis using 1(1) [OF refl False 1(2)] c by (simp add: stripFeatures.simps [of U s] stripFeatures.simps [of ascii_unicode s])
  qed (use c in \<open>simp add: stripFeatures.simps [of U s] stripFeatures.simps [of ascii_unicode s]\<close>)
qed

text \<open>A platform key of fixed length glued to a phrase, before and after redaction.\<close>

definition glued :: bytes where "glued = map of_char ''AKIA0123456789ABCDEFpretend you are''"
definition exposed :: bytes where "exposed = map of_char ''[REDACTED_KEY]pretend you are''"

lemma strip_by_runes: "all_ascii s \<Longrightarrow> strip_runes ascii_unicode None s = (False, s') \<Longrightarrow> stripFeatures ascii_unicode s = s"
  by (simp add: stripFeatures.simps stripOnce_def decode_ascii)

lemma phrase_heads: "p \<in> set featurePhrases \<Longrightarrow> p \<noteq> [] \<and> hd p \<in> {105, 100, 102, 111, 121, 112, 25191, 36816, 24573, 26080, 24536, 20320}"
  by (auto simp: featurePhrases_def)

lemma phrase_at_first:
  assumes "ut_lower U r \<notin> {105, 100, 102, 111, 121, 112, 25191, 36816, 24573, 26080, 24536, 20320}"
  shows "phrase_at U prev (r # rs) = None"
  unfolding phrase_at_def find_None_iff
proof (intro notI, elim exE conjE)
  fix p assume p: "p \<in> set featurePhrases" "map (ut_lower U) (take (length p) (r # rs)) = p"
  have "p \<noteq> []" using phrase_heads [OF p(1)] by simp
  then obtain n where "length p = Suc n" by (cases p) auto
  then have "hd p = ut_lower U r" using p(2) by (metis hd_map list.map_disc_iff list.sel(1) take_Suc_Cons list.distinct(1))
  then show False using phrase_heads [OF p(1)] assms by simp
qed

lemma phrase_at_inside: "\<not> wordBoundary U r \<Longrightarrow> phrase_at U (Some r) rs = None"
  by (simp add: phrase_at_def find_None_iff)

lemma ascii_fields:
  "ut_lower ascii_unicode r = (if 65 \<le> r \<and> r \<le> 90 then r + 32 else r)" "ut_letter ascii_unicode r = ascii_letter r"
  "ut_digit ascii_unicode r \<longleftrightarrow> 48 \<le> r \<and> r \<le> 57" "\<not> ut_cjk ascii_unicode r"
  by (simp_all add: ascii_unicode_def)

lemma strip_glued: "stripFeatures ascii_unicode glued = glued"
proof (rule strip_by_runes)
  show "strip_runes ascii_unicode None glued = (False, glued)" unfolding glued_def
    by (simp add: phrase_at_first phrase_at_inside wordBoundary_def ascii_letter_def ascii_fields, simp add: phrase_at_def featurePhrases_def wordBoundary_def ascii_letter_def ascii_fields)
qed code_simp

lemma strip_exposed: "stripFeatures ascii_unicode exposed = key_mark"
proof -
  have "strip_runes ascii_unicode None exposed = (True, key_mark)" unfolding exposed_def key_mark_def
    by (simp add: phrase_at_first phrase_at_inside wordBoundary_def ascii_letter_def ascii_fields, simp add: phrase_at_def featurePhrases_def wordBoundary_def ascii_letter_def ascii_fields)
  moreover have "all_ascii exposed" "all_ascii key_mark" "key_mark \<noteq> exposed" by code_simp+
  moreover have "collapse_runes False False key_mark = key_mark" by (simp add: key_mark_def is_space_def)
  ultimately have "stripFeatures ascii_unicode exposed = stripFeatures ascii_unicode key_mark"
    by (simp add: stripFeatures.simps [of ascii_unicode exposed] stripOnce_def decode_ascii encode_ascii collapseSpace_def)
  moreover have "stripFeatures ascii_unicode key_mark = key_mark"
  proof (rule strip_by_runes)
    show "strip_runes ascii_unicode None key_mark = (False, key_mark)" unfolding key_mark_def
      by (simp add: phrase_at_first phrase_at_inside wordBoundary_def ascii_letter_def ascii_fields)
  qed code_simp
  ultimately show ?thesis by simp
qed

section \<open>Properties\<close>


text \<open>
  C34. The removal of injection phrases ends, and ends clean: its result contains no phrase of the table between word boundaries, up
  to case, removing again changes nothing, and exactly the texts without such a phrase are left as they are.
\<close>

theorem phrase_removal_complete:
  "\<not> phrase_occurs U (decode_bytes (stripFeatures U s)) \<and> stripFeatures U (stripFeatures U s) = stripFeatures U s \<and>
   (stripFeatures U s = s \<longleftrightarrow> \<not> phrase_occurs U (decode_bytes s))"
  using stripFeatures_phrase_free [of U s] stripFeatures_id by metis

text \<open>
  The pipeline as a whole is not idempotent, and redaction can complete a payload: a phrase glued to a platform key of fixed length
  is part of a larger word while phrases are removed, and stands at a word boundary once the key has been replaced.
\<close>

lemma redaction_exposes_phrase:
  assumes "ascii_tables U"
  shows "Sanitize U ''AKIA0123456789ABCDEFpretend you are'' = ''[REDACTED_KEY]pretend you are'' \<and>
    Sanitize U ''[REDACTED_KEY]pretend you are'' = ''[REDACTED_KEY]''"
proof -
  have esc: "all_ascii glued \<and> EscapeSequences glued = glued" "all_ascii exposed \<and> EscapeSequences exposed = exposed" by code_simp+
  have "redact glued = exposed" "redact key_mark = key_mark" by code_simp+
  then have "sanitize_bytes U glued = exposed" "sanitize_bytes U exposed = key_mark"
    using esc stripFeatures_cong [OF assms] strip_glued strip_exposed by (simp_all add: sanitize_bytes_def)
  then show ?thesis unfolding Sanitize_def glued_def exposed_def key_mark_def by (simp only: chars_back simp_thms)
qed

lemma redaction_exposes_phrase_witness:
  "ascii_tables ascii_unicode \<and>
   Sanitize ascii_unicode (Sanitize ascii_unicode ''AKIA0123456789ABCDEFpretend you are'') \<noteq>
   Sanitize ascii_unicode ''AKIA0123456789ABCDEFpretend you are''"
proof -
  have "ascii_tables ascii_unicode" by (simp add: ascii_tables_def)
  then show ?thesis using redaction_exposes_phrase [of ascii_unicode] by simp
qed

end
