(* ===== verification/Json.thy ===== *)
theory Json
  imports Prelude
begin

text \<open>
  Decoded JSON, the values Go's \<open>encoding/json\<close> stores in an \<open>any\<close>: a number keeps its text, an object is
  the association list of its distinct keys in the order one run ranges over the map. Reading a key of a value that
  is not an object yields the zero value, as a failed type assertion does.
\<close>

datatype json = JNull | JBool bool | JNum string | JStr string | JArr "json list" | JObj "(string \<times> json) list"

text \<open>Recursion into arrays and objects ends.\<close>

lemma size_JObj_field: "(k, v) \<in> set fs \<Longrightarrow> size v < size (JObj fs)"
  using size_list_estimation' [of "(k, v)" fs "size v" "size_prod (\<lambda>_. 0) size"] by simp

lemma size_JArr_item: "v \<in> set vs \<Longrightarrow> size v < size (JArr vs)"
  using size_list_estimation' [of v vs "size v" size] by simp

text \<open>\<open>v[key]\<close> of a decoded object, \<open>nil\<close> for an absent key or another value, and the string it holds.\<close>

definition field :: "string \<Rightarrow> json \<Rightarrow> json" where
  "field k v = (case v of JObj fs \<Rightarrow> m_get_or JNull fs k | _ \<Rightarrow> JNull)"

fun as_string :: "json \<Rightarrow> string option" where
  "as_string (JStr s) = Some s"
| "as_string _ = None"

end
