(* ===== verification/Extractor.thy ===== *)
theory Extractor
  imports Slice_Types Judge Sanitize Json
begin

text \<open>
  Extraction of slices from session transcripts, \<open>kernel/slice/extractor.go\<close>. A transcript is the sequence of lines the scanner
  delivers; decoding a line is a value of its own, as is a line over the scanner's limit, which ends the scan with an
  error. Decoding the arguments of a tool call, the hash behind an identifier, the Unicode tables and the clock are one argument.
  The limits given to \<open>compressText\<close> are not negative, so it does not panic (theory \<open>Compress_Correct\<close>).
\<close>

section \<open>Transcripts\<close>

record tool_use =
  tu_ID :: string
  tu_Name :: string
  tu_Arguments :: string

record transcriptLine =
  tl_Role :: string
  tl_Type :: string
  tl_Content :: string
  tl_RawContent :: string
  tl_Name :: string
  tl_ToolCall :: string
  tl_Verification :: string
  tl_WorkspaceMutation :: bool
  tl_ToolCalls :: "tool_use list"

datatype scanned = Blank | Malformed | Decoded transcriptLine | TooLong

record extract_env =
  xe_unmarshal :: "string \<Rightarrow> json option"
  xe_sha :: "string \<Rightarrow> string"
  xe_unicode :: unicode_tables
  xe_hangul :: "rune \<Rightarrow> bool"
  xe_now :: int

definition maxPromptLen :: int where "maxPromptLen = 4000"
definition maxResultLen :: int where "maxResultLen = 8000"
definition minToolSeq :: nat where "minToolSeq = 2"
definition minContextUse :: nat where "minContextUse = 2"
definition maxContextTop :: nat where "maxContextTop = 5"

fun parseTranscript :: "scanned list \<Rightarrow> transcriptLine list \<times> bool" where
  "parseTranscript [] = ([], False)"
| "parseTranscript (Blank # ls) = parseTranscript ls"
| "parseTranscript (Malformed # ls) = parseTranscript ls"
| "parseTranscript (TooLong # ls) = ([], True)"
| "parseTranscript (Decoded l # ls) =
     (let l = (if tl_Role l = [] \<and> tl_Type l = ''tool'' then l\<lparr>tl_Role := ''tool''\<rparr> else l); (out, err) = parseTranscript ls
      in if tl_Role l = [] then (out, err) else (l # out, err))"

definition storedContent :: "transcriptLine \<Rightarrow> string" where
  "storedContent l = (if trim_space (tl_RawContent l) \<noteq> [] then tl_RawContent l else tl_Content l)"

section \<open>Building a slice\<close>

fun type_byte :: "SliceType \<Rightarrow> nat" where
  "type_byte Prompt = 0" | "type_byte Context = 1" | "type_byte ToolPattern = 2" | "type_byte Result = 3" | "type_byte Memory = 4"
| "type_byte (OtherType n) = nat (n mod 256)"

fun scope_byte :: "Scope \<Rightarrow> nat" where
  "scope_byte Session = 0" | "scope_byte Project = 1" | "scope_byte User = 2" | "scope_byte (OtherScope n) = nat (n mod 256)"

definition sliceID :: "extract_env \<Rightarrow> string \<Rightarrow> SliceType \<Rightarrow> Scope \<Rightarrow> string" where
  "sliceID E content t sc = xe_sha E (char_of (type_byte t) # char_of (scope_byte sc) # content)"

definition newSlice :: "extract_env \<Rightarrow> SliceType \<Rightarrow> Scope \<Rightarrow> string \<Rightarrow> SliceMeta \<Rightarrow> Slice" where
  "newSlice E t sc content0 meta =
     (let content = Sanitize (xe_unicode E) content0
      in zero_slice\<lparr>sl_ID := sliceID E content t sc, sl_Type := t, sl_Scope := sc, sl_Content := content, sl_Weight := f1,
           sl_Meta := meta\<lparr>m_Historical := False, m_SanitizeVersion := SanitizeVersion\<rparr>, sl_CreatedAt := xe_now E\<rparr>)"

definition observedSlice :: "extract_env \<Rightarrow> SliceType \<Rightarrow> Scope \<Rightarrow> string \<Rightarrow> SliceMeta \<Rightarrow> Slice" where
  "observedSlice E t sc content meta =
     (let s = newSlice E t sc content meta in s\<lparr>sl_Meta := (sl_Meta s)\<lparr>m_Historical := True\<rparr>\<rparr>)"

definition compressionMeta :: "SliceMeta \<Rightarrow> string \<Rightarrow> string \<Rightarrow> SliceMeta" where
  "compressionMeta meta original stored =
     meta\<lparr>m_CompressionVersion := ''rules-v1'', m_OriginalBytes := int (length original), m_StoredBytes := int (length stored)\<rparr>"

definition searchable :: "extract_env \<Rightarrow> rune \<Rightarrow> bool" where
  "searchable E r \<longleftrightarrow> ut_letter (xe_unicode E) r \<or> ut_digit (xe_unicode E) r \<or> r = 95 \<or> ut_cjk (xe_unicode E) r \<or> xe_hangul E r"

fun dedup_loop :: "extract_env \<Rightarrow> string list \<Rightarrow> Slice list \<Rightarrow> Slice list" where
  "dedup_loop E seen [] = []"
| "dedup_loop E seen (s # ss) =
     (if \<not> list_ex (searchable E) (runes_of (sl_Content s)) then dedup_loop E seen ss
      else if sl_ID s \<in> set seen then dedup_loop E seen ss
      else s # dedup_loop E (sl_ID s # seen) ss)"

definition dedup :: "extract_env \<Rightarrow> Slice list \<Rightarrow> Slice list" where
  "dedup E ss = dedup_loop E [] ss"

section \<open>Tool calls\<close>

definition shellToolNames :: "string list" where
  "shellToolNames = [''bash'', ''shell'', ''exec_command'', ''run_command'']"

definition commandFamilies :: "string list" where
  "commandFamilies = [''cargo'', ''docker'', ''git'', ''go'', ''make'', ''npm'', ''pnpm'', ''python'', ''python3'', ''uv'', ''yarn'']"

definition contextPathKeys :: "string list" where
  "contextPathKeys = [''path'', ''paths'', ''file'', ''files'', ''file_path'', ''file_paths'', ''source_path'', ''destination_path'',
     ''directory'', ''directories'', ''dir'', ''dirs'', ''cwd'', ''workdir'']"

definition decodeToolArgs :: "extract_env \<Rightarrow> string \<Rightarrow> json" where
  "decodeToolArgs E raw =
     (if raw = [] then JNull
      else case xe_unmarshal E raw of
             None \<Rightarrow> JNull
           | Some (JStr encoded) \<Rightarrow> (case xe_unmarshal E encoded of None \<Rightarrow> JNull | Some v \<Rightarrow> v)
           | Some v \<Rightarrow> v)"

fun stringValues :: "json \<Rightarrow> string list" where
  "stringValues (JStr s) = [s]"
| "stringValues (JArr vs) = concat (map stringValues vs)"
| "stringValues _ = []"

text \<open>What the fields of an object contribute; \<open>contextPaths\<close> looks at objects only.\<close>

function field_paths :: "json \<Rightarrow> string list" where
  "field_paths (JObj fs) =
     concat (map (\<lambda>(k, v). (if to_lower k \<in> set contextPathKeys then stringValues v else []) @ field_paths v) fs)"
| "field_paths (JArr vs) = concat (map (\<lambda>v. case v of JObj _ \<Rightarrow> field_paths v | _ \<Rightarrow> []) vs)"
| "field_paths JNull = []" | "field_paths (JBool b) = []" | "field_paths (JNum n) = []" | "field_paths (JStr s) = []"
  by pat_completeness auto
termination
  by (relation "measure size") (auto dest: size_JObj_field size_JArr_item simp del: json.size)

definition contextPaths :: "json \<Rightarrow> string list" where
  "contextPaths v = (case v of JObj _ \<Rightarrow> field_paths v | _ \<Rightarrow> [])"

definition commandValue :: "json \<Rightarrow> string" where
  "commandValue v = (case v of JObj fs \<Rightarrow> (case map_of fs ''command'' of Some (JStr c) \<Rightarrow> c | _ \<Rightarrow> []) | _ \<Rightarrow> [])"

definition isTestCommand :: "string \<Rightarrow> bool" where
  "isTestCommand cmd =
     (let l = to_lower cmd
      in list_ex (\<lambda>pat. sublist pat l) [''pytest'', ''runtests'', ''unittest'', ''tox ''] \<or> ''test'' \<in> set (tl (go_fields l)))"

record toolCall =
  tc_name :: string
  tc_args :: json

definition verifyBoundary :: "toolCall \<Rightarrow> bool" where
  "verifyBoundary c =
     (let lower = to_lower (tc_name c)
      in if sublist ''test'' lower then True
         else if lower \<notin> set shellToolNames then False
         else isTestCommand (commandValue (tc_args c)))"

section \<open>Prompts and tool patterns\<close>

definition promptSlice :: "extract_env \<Rightarrow> transcriptLine list \<Rightarrow> SliceMeta \<Rightarrow> Slice option" where
  "promptSlice E turn meta =
     (case find (\<lambda>l. tl_Role l = ''user'') turn of
        None \<Rightarrow> None
      | Some l \<Rightarrow>
          let txt = storedContent l; content = the (compressText txt maxPromptLen)
          in if content = [] then None else Some (newSlice E Prompt Project content (compressionMeta meta txt content)))"

definition join_sp :: "string list \<Rightarrow> string" where
  "join_sp ws = concat (case ws of [] \<Rightarrow> [] | w # ws \<Rightarrow> w # map (\<lambda>w. CHR '' '' # w) ws)"

definition toolPatternSlice :: "extract_env \<Rightarrow> transcriptLine list \<Rightarrow> SliceMeta \<Rightarrow> Slice option" where
  "toolPatternSlice E turn meta =
     (let names = concat (map (\<lambda>l. filter (\<lambda>n. n \<noteq> []) (map tu_Name (tl_ToolCalls l))) turn)
      in if length names < minToolSeq then None else Some (newSlice E ToolPattern Project (join_sp names) meta))"

definition toolCallsOf :: "extract_env \<Rightarrow> transcriptLine list \<Rightarrow> toolCall list" where
  "toolCallsOf E turn =
     concat (map (\<lambda>l. map (\<lambda>u. \<lparr>tc_name = tu_Name u, tc_args = decodeToolArgs E (tu_Arguments u)\<rparr>)
       (filter (\<lambda>u. tu_Name u \<noteq> []) (tl_ToolCalls l))) turn)"

text \<open>The segments of a sequence of calls, cut after every verification boundary.\<close>

fun step_segments :: "string list \<Rightarrow> toolCall list \<Rightarrow> string list list" where
  "step_segments seg [] = [seg]"
| "step_segments seg (c # cs) =
     (if verifyBoundary c then (seg @ [tc_name c]) # step_segments [] cs else step_segments (seg @ [tc_name c]) cs)"

definition toolPatternSlicesStepSplit :: "extract_env \<Rightarrow> transcriptLine list \<Rightarrow> SliceMeta \<Rightarrow> Slice list" where
  "toolPatternSlicesStepSplit E turn meta =
     map (\<lambda>seg. newSlice E ToolPattern Project (join_sp seg) meta)
       (filter (\<lambda>seg. length seg \<ge> minToolSeq) (step_segments [] (toolCallsOf E turn)))"

section \<open>Project context\<close>

definition trim_quotes :: "string \<Rightarrow> string" where
  "trim_quotes s = (let q = (\<lambda>c. c = CHR 0x22 \<or> c = CHR 0x27) in drop_right q (dropWhile q s))"

text \<open>\<open>path.Clean\<close> and \<open>path.Dir\<close> of a path that does not start with a slash.\<close>

fun clean_rel :: "string list \<Rightarrow> string list \<Rightarrow> string list" where
  "clean_rel acc [] = rev acc"
| "clean_rel acc (p # ps) =
     (if p = [] \<or> p = ''.'' then clean_rel acc ps
      else if p = ''..'' then clean_rel (case acc of [] \<Rightarrow> [''..''] | a # acc' \<Rightarrow> if a = ''..'' then ''..'' # acc else acc') ps
      else clean_rel (p # acc) ps)"

fun join_path :: "string list \<Rightarrow> string" where
  "join_path [] = []" | "join_path [p] = p" | "join_path (p # ps) = p @ CHR ''/'' # join_path ps"

definition path_Clean :: "string \<Rightarrow> string" where
  "path_Clean p = (let parts = clean_rel [] (split_path p) in if parts = [] then ''.'' else join_path parts)"

definition path_Dir :: "string \<Rightarrow> string" where
  "path_Dir p = path_Clean (drop_right (\<lambda>c. c \<noteq> CHR ''/'') p)"

definition normalizeContextPath :: "string \<Rightarrow> string option" where
  "normalizeContextPath raw =
     (let p = trim_space (trim_quotes raw); p = map (\<lambda>c. if c = CHR 0x5C then CHR ''/'' else c) p
      in if p = [] \<or> p = ''.'' \<or> prefix ''/'' p \<or> prefix ''~'' p \<or> sublist ''://'' p \<or> (length p \<ge> 2 \<and> p ! 1 = CHR '':'') then None
         else
           let p = path_Clean p; p = (if prefix ''./'' p then drop 2 p else p)
           in if p = [] \<or> p = ''.'' \<or> p = ''..'' \<or> prefix ''../'' p then None else Some p)"

definition command_char :: "char \<Rightarrow> bool" where
  "command_char c \<longleftrightarrow> c \<in> set ''-_.'' \<or>
     (let n = of_char c :: nat in 48 \<le> n \<and> n \<le> 57 \<or> 65 \<le> n \<and> n \<le> 90 \<or> 97 \<le> n \<and> n \<le> 122)"

definition validCommandToken :: "string \<Rightarrow> bool" where
  "validCommandToken token \<longleftrightarrow>
     \<not> (token = [] \<or> list_ex (\<lambda>c. c \<in> set (CHR 0x5C # ''/=:$'')) token) \<and> list_all command_char token"

definition commandHead :: "string \<Rightarrow> string" where
  "commandHead command =
     (case go_fields command of
        [] \<Rightarrow> []
      | f # rest \<Rightarrow>
          let first = trim_quotes f
          in if \<not> validCommandToken first then []
             else if to_lower first \<in> set commandFamilies \<and> rest \<noteq> [] then
               (let second = trim_quotes (hd rest)
                in if \<not> prefix ''-'' second \<and> validCommandToken second then first @ CHR '' '' # second else first)
             else first)"

definition bump :: "string \<Rightarrow> (string, nat) gomap \<Rightarrow> (string, nat) gomap" where
  "bump k m = m_set k (m_get_or 0 m k + 1) m"

definition entry_before :: "string \<times> nat \<Rightarrow> string \<times> nat \<Rightarrow> bool" where
  "entry_before a b = (if snd a \<noteq> snd b then snd a > snd b else fst a < fst b)"

definition topContextEntries :: "(string, nat) gomap \<Rightarrow> (string \<times> nat) list" where
  "topContextEntries counts = take maxContextTop (go_sort entry_before (filter (\<lambda>e. snd e \<ge> minContextUse) counts))"

definition writeContextSection :: "string \<Rightarrow> (string \<times> nat) list \<Rightarrow> string" where
  "writeContextSection title entries =
     (if entries = [] then []
      else title @ LF # concat (map (\<lambda>e. ''- '' @ fst e @ '' ('' @ itoa (snd e) @ '')'' @ [LF]) entries))"

record context_counts =
  cc_paths :: "(string, nat) gomap"
  cc_dirs :: "(string, nat) gomap"
  cc_commands :: "(string, nat) gomap"

definition count_path :: "string \<Rightarrow> context_counts \<Rightarrow> context_counts" where
  "count_path raw cc =
     (case normalizeContextPath raw of
        None \<Rightarrow> cc
      | Some p \<Rightarrow>
          let cc = cc\<lparr>cc_paths := bump p (cc_paths cc)\<rparr>; dir = path_Dir p
          in if dir \<noteq> ''.'' then cc\<lparr>cc_dirs := bump dir (cc_dirs cc)\<rparr> else cc)"

definition count_call :: "extract_env \<Rightarrow> tool_use \<Rightarrow> context_counts \<Rightarrow> context_counts" where
  "count_call E u cc =
     (let args = decodeToolArgs E (tu_Arguments u); cc = fold count_path (contextPaths args) cc
      in if to_lower (tu_Name u) \<in> set shellToolNames then
           (let head = commandHead (commandValue args) in if head \<noteq> [] then cc\<lparr>cc_commands := bump head (cc_commands cc)\<rparr> else cc)
         else cc)"

definition context_of :: "extract_env \<Rightarrow> transcriptLine list \<Rightarrow> context_counts" where
  "context_of E lines = fold (count_call E) (concat (map tl_ToolCalls lines)) \<lparr>cc_paths = [], cc_dirs = [], cc_commands = []\<rparr>"

definition contextSlice :: "extract_env \<Rightarrow> transcriptLine list \<Rightarrow> SliceMeta \<Rightarrow> Slice option" where
  "contextSlice E lines meta =
     (let cc = context_of E lines;
          pathTop = topContextEntries (cc_paths cc); dirTop = topContextEntries (cc_dirs cc); commandTop = topContextEntries (cc_commands cc)
      in if length pathTop + length dirTop + length commandTop = 0 then None
         else Some (observedSlice E Context Project
           (trim_space (''Project context observed from repeated tool calls:'' @ LF # writeContextSection ''Frequent paths:'' pathTop @
              writeContextSection ''Frequent directories:'' dirTop @ writeContextSection ''Common command heads:'' commandTop)) meta))"

section \<open>Results\<close>

record verification =
  vf_seenCalls :: "string list"
  vf_seenResults :: "string list"
  vf_pending :: "string list"
  vf_latestMutation :: int
  vf_latestVerification :: int
  vf_latestPassed :: bool
  vf_evidence :: string

definition no_call :: toolCall where "no_call = \<lparr>tc_name = [], tc_args = JNull\<rparr>"

definition calls_of :: "extract_env \<Rightarrow> transcriptLine list \<Rightarrow> (string, toolCall) gomap" where
  "calls_of E lines =
     fold (\<lambda>u m. m_set (tu_ID u) \<lparr>tc_name = tu_Name u, tc_args = decodeToolArgs E (tu_Arguments u)\<rparr> m) (concat (map tl_ToolCalls lines)) []"

definition see_call :: "(string, toolCall) gomap \<Rightarrow> tool_use \<Rightarrow> verification \<Rightarrow> verification" where
  "see_call calls u v =
     (if tu_ID u \<noteq> [] \<and> tu_ID u \<notin> set (vf_seenCalls v) then
        let v = v\<lparr>vf_seenCalls := tu_ID u # vf_seenCalls v\<rparr>
        in if verifyBoundary (m_get_or no_call calls (tu_ID u)) \<and> tu_ID u \<notin> set (vf_seenResults v)
           then v\<lparr>vf_pending := List.insert (tu_ID u) (vf_pending v)\<rparr> else v
      else v)"

definition evidence_of :: "transcriptLine \<Rightarrow> toolCall \<Rightarrow> string" where
  "evidence_of line call =
     (if commandValue (tc_args call) \<noteq> [] then commandValue (tc_args call) else if tc_name call \<noteq> [] then tc_name call else tl_Name line)"

definition see_result :: "(string, toolCall) gomap \<Rightarrow> int \<Rightarrow> transcriptLine \<Rightarrow> verification \<Rightarrow> verification" where
  "see_result calls i line v =
     (let tid = tl_ToolCall line in
      if tid \<noteq> [] \<and> tid \<in> set (vf_seenResults v) then v
      else
        let v = (if tid \<noteq> [] then v\<lparr>vf_seenResults := tid # vf_seenResults v, vf_pending := removeAll tid (vf_pending v)\<rparr> else v);
            v = (if tl_WorkspaceMutation line then v\<lparr>vf_latestMutation := i\<rparr> else v);
            call = m_get_or no_call calls tid
        in if tl_Verification line \<noteq> ''not_verification'' \<and>
              (tl_Verification line = ''passed'' \<or> tl_Verification line = ''failed'' \<or> verifyBoundary call)
           then v\<lparr>vf_latestVerification := i, vf_latestPassed := tl_Verification line = ''passed'', vf_evidence := evidence_of line call\<rparr>
           else v)"

fun verify_lines :: "(string, toolCall) gomap \<Rightarrow> int \<Rightarrow> transcriptLine list \<Rightarrow> verification \<Rightarrow> verification" where
  "verify_lines calls i [] v = v"
| "verify_lines calls i (line # ls) v =
     (let v = fold (see_call calls) (tl_ToolCalls line) v;
          v = (if tl_Role line \<noteq> ''tool'' then v else see_result calls i line v)
      in verify_lines calls (i + 1) ls v)"

definition no_verification :: verification where
  "no_verification = \<lparr>vf_seenCalls = [], vf_seenResults = [], vf_pending = [], vf_latestMutation = -1, vf_latestVerification = -1,
     vf_latestPassed = False, vf_evidence = []\<rparr>"

definition resultVerifiedAfterLatestMutation :: "extract_env \<Rightarrow> transcriptLine list \<Rightarrow> string \<times> bool" where
  "resultVerifiedAfterLatestMutation E lines =
     (let v = verify_lines (calls_of E lines) 0 lines no_verification
      in (vf_evidence v, vf_pending v = [] \<and> vf_latestPassed v \<and> vf_latestVerification v > vf_latestMutation v))"

definition result_meta :: "extract_env \<Rightarrow> transcriptLine list \<Rightarrow> SliceMeta \<Rightarrow> SliceMeta" where
  "result_meta E lines meta =
     (case resultVerifiedAfterLatestMutation E lines of
        (evidence, True) \<Rightarrow>
          meta\<lparr>m_ResultStatus := ResultStatusVerified, m_ResultVerifiedBy := ''command'', m_ResultVerificationEvidence := evidence\<rparr>
      | (_, False) \<Rightarrow>
          meta\<lparr>m_ResultStatus := ResultStatusProbation, m_ResultVerifiedBy := [], m_ResultVerificationEvidence := []\<rparr>)"

definition finalResultSlice :: "extract_env \<Rightarrow> transcriptLine list \<Rightarrow> SliceMeta \<Rightarrow> Slice option" where
  "finalResultSlice E lines meta0 =
     (let meta = result_meta E lines meta0 in
      case find (\<lambda>l. tl_Role l = ''assistant'' \<and> tl_ToolCalls l = []) (rev lines) of
        None \<Rightarrow> None
      | Some l \<Rightarrow>
          let txt = storedContent l; content = the (compressText txt maxResultLen)
          in if content = [] then None else Some (newSlice E Result Project content (compressionMeta meta txt content)))"

section \<open>Extraction\<close>

fun segment :: "transcriptLine list \<Rightarrow> transcriptLine list \<Rightarrow> transcriptLine list list" where
  "segment turn [] = (if turn = [] then [] else [turn])"
| "segment turn (l # ls) = (if tl_Role l = ''user'' \<and> turn \<noteq> [] then turn # segment [l] ls else segment (turn @ [l]) ls)"

definition opt_list :: "'a option \<Rightarrow> 'a list" where
  "opt_list x = (case x of None \<Rightarrow> [] | Some a \<Rightarrow> [a])"

definition flushTurn :: "extract_env \<Rightarrow> bool \<Rightarrow> SliceMeta \<Rightarrow> transcriptLine list \<Rightarrow> Slice list" where
  "flushTurn E tStepSplit meta turn =
     opt_list (promptSlice E turn meta) @
       (if tStepSplit then toolPatternSlicesStepSplit E turn meta else opt_list (toolPatternSlice E turn meta))"

definition Extract :: "extract_env \<Rightarrow> bool \<Rightarrow> scanned list \<Rightarrow> SliceMeta \<Rightarrow> Slice list \<times> bool" where
  "Extract E tStepSplit session meta =
     (let (lines, perr) = parseTranscript session;
          out = concat (map (flushTurn E tStepSplit meta) (segment [] lines)) @
            opt_list (contextSlice E lines meta) @ opt_list (finalResultSlice E lines meta)
      in (dedup E out, perr))"

end
