(* ===== verification/Extractor_Correct.thy ===== *)
theory Extractor_Correct
  imports Extractor Redact_Correct
begin

text \<open>
  What extraction guarantees: every slice it returns is sanitized, searchable, of project scope and identified by its content; a
  result counts as verified exactly when the last verification the host reported passed after the last mutation of the
  workspace and no verification is outstanding; the paths of a context card stay inside the project.
\<close>

section \<open>Verification\<close>

text \<open>The results that count: a repeated result of the same call does not.\<close>

fun fresh_results :: "string list \<Rightarrow> transcriptLine list \<Rightarrow> transcriptLine list" where
  "fresh_results seen [] = []"
| "fresh_results seen (l # ls) =
     (if tl_Role l \<noteq> ''tool'' then fresh_results seen ls
      else if tl_ToolCall l \<noteq> [] \<and> tl_ToolCall l \<in> set seen then fresh_results seen ls
      else l # fresh_results (tl_ToolCall l # seen) ls)"

lemma fresh_cong: "set a - {[]} = set b - {[]} \<Longrightarrow> fresh_results a ls = fresh_results b ls"
proof (induction ls arbitrary: a b)
  case (Cons l ls)
  have iff: "tl_ToolCall l \<noteq> [] \<and> tl_ToolCall l \<in> set a \<longleftrightarrow> tl_ToolCall l \<noteq> [] \<and> tl_ToolCall l \<in> set b" using Cons.prems by blast
  have "set (tl_ToolCall l # a) - {[]} = set (tl_ToolCall l # b) - {[]}" using Cons.prems by auto
  from Cons.IH [OF this] Cons.IH [OF Cons.prems] show ?case by (simp only: fresh_results.simps iff)
qed simp

definition verifies :: "(string, toolCall) gomap \<Rightarrow> transcriptLine \<Rightarrow> bool" where
  "verifies calls l \<longleftrightarrow> tl_Verification l \<noteq> ''not_verification'' \<and>
     (tl_Verification l = ''passed'' \<or> tl_Verification l = ''failed'' \<or> verifyBoundary (m_get_or no_call calls (tl_ToolCall l)))"

definition vf_ok :: "verification \<Rightarrow> bool" where
  "vf_ok v \<longleftrightarrow> vf_latestPassed v \<and> vf_latestVerification v > vf_latestMutation v"

definition judge_line :: "(string, toolCall) gomap \<Rightarrow> transcriptLine \<Rightarrow> bool \<Rightarrow> bool" where
  "judge_line calls l ok = (if tl_WorkspaceMutation l then False else if verifies calls l then tl_Verification l = ''passed'' else ok)"

definition boundary_id :: "(string, toolCall) gomap \<Rightarrow> string \<Rightarrow> bool" where
  "boundary_id calls k \<longleftrightarrow> k \<noteq> [] \<and> verifyBoundary (m_get_or no_call calls k)"

definition call_ids :: "transcriptLine list \<Rightarrow> string set" where
  "call_ids ls = tu_ID ` set (concat (map tl_ToolCalls ls))"

definition result_ids :: "transcriptLine list \<Rightarrow> string set" where
  "result_ids ls = tl_ToolCall ` {l \<in> set ls. tl_Role l = ''tool''}"

text \<open>The loop's state after the calls \<open>C\<close> and the results \<open>R\<close>.\<close>

definition vf_inv :: "(string, toolCall) gomap \<Rightarrow> int \<Rightarrow> string set \<Rightarrow> string set \<Rightarrow> verification \<Rightarrow> bool" where
  "vf_inv calls i C R v \<longleftrightarrow> vf_latestMutation v < i \<and> vf_latestVerification v < i \<and>
     set (vf_seenCalls v) = C - {[]} \<and> set (vf_seenResults v) = R - {[]} \<and>
     set (vf_pending v) = {k \<in> C. boundary_id calls k} - R"

lemma see_call_inv: "vf_inv calls i C R v \<Longrightarrow> vf_inv calls i (insert (tu_ID u) C) R (see_call calls u v) \<and> vf_ok (see_call calls u v) = vf_ok v \<and>
    vf_seenResults (see_call calls u v) = vf_seenResults v"
  by (auto simp: vf_inv_def see_call_def Let_def boundary_id_def vf_ok_def)

lemma see_calls_inv:
  "vf_inv calls i C R v \<Longrightarrow> vf_inv calls i (tu_ID ` set us \<union> C) R (fold (see_call calls) us v) \<and> vf_ok (fold (see_call calls) us v) = vf_ok v \<and>
    vf_seenResults (fold (see_call calls) us v) = vf_seenResults v"
proof (induction us arbitrary: C v)
  case (Cons u us)
  then show ?case using Cons.IH [OF see_call_inv [OF Cons.prems, of u, THEN conjunct1]] see_call_inv [OF Cons.prems, of u] by simp
qed simp

lemma see_result_skip: "tl_ToolCall l \<noteq> [] \<Longrightarrow> tl_ToolCall l \<in> set (vf_seenResults v) \<Longrightarrow> see_result calls i l v = v"
  by (simp add: see_result_def)

lemma see_result_inv:
  assumes "vf_inv calls i C R v" "\<not> (tl_ToolCall l \<noteq> [] \<and> tl_ToolCall l \<in> set (vf_seenResults v))"
  shows "vf_inv calls (i + 1) C (insert (tl_ToolCall l) R) (see_result calls i l v) \<and> vf_ok (see_result calls i l v) = judge_line calls l (vf_ok v)"
proof -
  have "boundary_id calls [] = False" by (simp add: boundary_id_def)
  then show ?thesis using assms
    by (auto simp: vf_inv_def see_result_def Let_def vf_ok_def judge_line_def verifies_def)
qed

lemma vf_inv_next: "vf_inv calls i C R v \<Longrightarrow> vf_inv calls (i + 1) C R v"
  by (simp add: vf_inv_def)

lemma vf_inv_R: "vf_inv calls i C R v \<Longrightarrow> k = [] \<or> k \<in> R \<Longrightarrow> vf_inv calls i C (insert k R) v"
  by (auto simp: vf_inv_def boundary_id_def)

lemma verify_lines_inv:
  assumes "vf_inv calls i C R v"
  shows "\<exists>j. vf_inv calls j (call_ids ls \<union> C) (result_ids ls \<union> R) (verify_lines calls i ls v) \<and>
    vf_ok (verify_lines calls i ls v) = fold (judge_line calls) (fresh_results (vf_seenResults v) ls) (vf_ok v)"
  using assms
proof (induction ls arbitrary: i C R v)
  case (Cons l ls)
  let ?v = "fold (see_call calls) (tl_ToolCalls l) v" let ?C = "tu_ID ` set (tl_ToolCalls l) \<union> C"
  note S = see_calls_inv [OF Cons.prems, of "tl_ToolCalls l"]
  show ?case
  proof (cases "tl_Role l \<noteq> ''tool'' \<or> (tl_ToolCall l \<noteq> [] \<and> tl_ToolCall l \<in> set (vf_seenResults ?v))")
    case True
    have step: "verify_lines calls i (l # ls) v = verify_lines calls (i + 1) ls ?v" using True by (auto simp: Let_def see_result_skip)
    let ?R = "result_ids [l] \<union> R"
    have "vf_inv calls (i + 1) ?C ?R ?v"
    proof (cases "tl_Role l = ''tool''")
      case tool: True
      then have "tl_ToolCall l \<in> R" using True S by (auto simp: vf_inv_def)
      then have "?R = R" using tool by (auto simp: result_ids_def)
      then show ?thesis using S vf_inv_next by simp
    next
      case False
      then have "?R = R" by (auto simp: result_ids_def)
      then show ?thesis using S vf_inv_next by simp
    qed
    from Cons.IH [OF this] obtain j where j: "vf_inv calls j (call_ids ls \<union> ?C) (result_ids ls \<union> ?R) (verify_lines calls (i + 1) ls ?v)"
      "vf_ok (verify_lines calls (i + 1) ls ?v) = fold (judge_line calls) (fresh_results (vf_seenResults ?v) ls) (vf_ok ?v)" by blast
    have eq: "call_ids ls \<union> ?C = call_ids (l # ls) \<union> C" "result_ids ls \<union> ?R = result_ids (l # ls) \<union> R"
      by (auto simp: call_ids_def result_ids_def)
    have fr: "fresh_results (vf_seenResults v) (l # ls) = fresh_results (vf_seenResults ?v) ls" using True S by auto
    have "vf_ok ?v = vf_ok v" using S by blast
    then show ?thesis unfolding step fr using j unfolding eq by auto
  next
    case False
    let ?w = "see_result calls i l ?v"
    have step: "verify_lines calls i (l # ls) v = verify_lines calls (i + 1) ls ?w" using False by (simp add: Let_def)
    note W = see_result_inv [OF S [THEN conjunct1], of l]
    have W': "vf_inv calls (i + 1) ?C (insert (tl_ToolCall l) R) ?w" "vf_ok ?w = judge_line calls l (vf_ok v)" using W False S by auto
    from Cons.IH [OF W'(1)] obtain j where
      j: "vf_inv calls j (call_ids ls \<union> ?C) (result_ids ls \<union> insert (tl_ToolCall l) R) (verify_lines calls (i + 1) ls ?w)"
      "vf_ok (verify_lines calls (i + 1) ls ?w) = fold (judge_line calls) (fresh_results (vf_seenResults ?w) ls) (vf_ok ?w)" by blast
    have eq: "call_ids ls \<union> ?C = call_ids (l # ls) \<union> C" "result_ids ls \<union> insert (tl_ToolCall l) R = result_ids (l # ls) \<union> R"
      using False by (auto simp: call_ids_def result_ids_def)
    have seen: "set (vf_seenResults ?w) = set (tl_ToolCall l # vf_seenResults v) - {[]}"
      using W'(1) Cons.prems by (auto simp: vf_inv_def)
    have "fresh_results (vf_seenResults ?w) ls = fresh_results (tl_ToolCall l # vf_seenResults v) ls" for ls
      by (rule fresh_cong) (use seen in auto)
    then have fr: "fresh_results (vf_seenResults v) (l # ls) = l # fresh_results (vf_seenResults ?w) ls" using False S by auto
    show ?thesis unfolding step fr fold_simps W'(2) [symmetric] using j unfolding eq by (intro exI [of _ j] conjI)
  qed
qed (auto simp: call_ids_def result_ids_def)

lemma judge_fold:
  "fold (judge_line calls) rs False \<longleftrightarrow>
     (\<exists>a r b. rs = a @ r # b \<and> tl_Verification r = ''passed'' \<and> \<not> tl_WorkspaceMutation r \<and> (\<forall>x\<in>set b. \<not> tl_WorkspaceMutation x \<and> \<not> verifies calls x))"
  (is "_ \<longleftrightarrow> ?P rs")
proof (induction rs rule: rev_induct)
  case (snoc x rs)
  have passed: "tl_Verification x = ''passed'' \<Longrightarrow> verifies calls x" by (simp add: verifies_def)
  have "?P (rs @ [x]) \<longleftrightarrow> (tl_Verification x = ''passed'' \<and> \<not> tl_WorkspaceMutation x) \<or> (?P rs \<and> \<not> tl_WorkspaceMutation x \<and> \<not> verifies calls x)"
    (is "_ \<longleftrightarrow> ?R")
  proof
    assume "?P (rs @ [x])"
    then obtain a r b where r: "rs @ [x] = a @ r # b" "tl_Verification r = ''passed''" "\<not> tl_WorkspaceMutation r"
      "\<forall>x\<in>set b. \<not> tl_WorkspaceMutation x \<and> \<not> verifies calls x" by blast
    show ?R
    proof (cases b rule: rev_cases)
      case Nil then show ?thesis using r by simp
    next
      case (snoc b' y)
      then have "rs = a @ r # b'" "x = y" using r(1) by simp_all
      then show ?thesis using r snoc by auto
    qed
  next
    assume ?R
    then show "?P (rs @ [x])"
    proof (elim disjE conjE exE)
      assume "tl_Verification x = ''passed''" "\<not> tl_WorkspaceMutation x"
      then show ?thesis by (intro exI [of _ rs] exI [of _ x] exI [of _ "[]"]) simp
    next
      fix a r b assume "rs = a @ r # b" "tl_Verification r = ''passed''" "\<not> tl_WorkspaceMutation r"
        "\<forall>x\<in>set b. \<not> tl_WorkspaceMutation x \<and> \<not> verifies calls x" "\<not> tl_WorkspaceMutation x" "\<not> verifies calls x"
      then show ?thesis by (intro exI [of _ a] exI [of _ r] exI [of _ "b @ [x]"]) auto
    qed
  qed
  then have P: "?P (rs @ [x]) \<longleftrightarrow> (tl_Verification x = ''passed'' \<and> \<not> tl_WorkspaceMutation x) \<or>
      (fold (judge_line calls) rs False \<and> \<not> tl_WorkspaceMutation x \<and> \<not> verifies calls x)" unfolding snoc.IH .
  show ?case unfolding P using passed by (auto simp: judge_line_def [of calls x])
qed simp

text \<open>
  The contract: among the results that count, one passed without changing the workspace, after it nothing changed the workspace and
  nothing was verified again, and every verification that was started has a result.
\<close>

definition checked :: "extract_env \<Rightarrow> transcriptLine list \<Rightarrow> bool" where
  "checked E ls \<longleftrightarrow>
     (\<exists>a r b. fresh_results [] ls = a @ r # b \<and> tl_Verification r = ''passed'' \<and> \<not> tl_WorkspaceMutation r \<and>
        (\<forall>x\<in>set b. \<not> tl_WorkspaceMutation x \<and> \<not> verifies (calls_of E ls) x)) \<and>
     (\<forall>k\<in>call_ids ls. boundary_id (calls_of E ls) k \<longrightarrow> k \<in> result_ids ls)"

lemma resultVerified_iff: "snd (resultVerifiedAfterLatestMutation E ls) \<longleftrightarrow> checked E ls"
proof -
  have "vf_inv (calls_of E ls) 0 {} {} no_verification" by (simp add: vf_inv_def no_verification_def)
  from verify_lines_inv [OF this, of ls] obtain j where
    "vf_inv (calls_of E ls) j (call_ids ls) (result_ids ls) (verify_lines (calls_of E ls) 0 ls no_verification)"
    and ok: "vf_ok (verify_lines (calls_of E ls) 0 ls no_verification) = fold (judge_line (calls_of E ls)) (fresh_results [] ls) False"
    by (auto simp: vf_ok_def no_verification_def)
  then have "vf_pending (verify_lines (calls_of E ls) 0 ls no_verification) = [] \<longleftrightarrow> (\<forall>k\<in>call_ids ls. boundary_id (calls_of E ls) k \<longrightarrow> k \<in> result_ids ls)"
    by (auto simp: vf_inv_def simp flip: set_empty)
  then show ?thesis using ok unfolding judge_fold checked_def resultVerifiedAfterLatestMutation_def vf_ok_def by (auto simp: Let_def)
qed

section \<open>The slices\<close>

definition extracted_ok :: "extract_env \<Rightarrow> Slice \<Rightarrow> bool" where
  "extracted_ok E s \<longleftrightarrow> sl_Scope s = Project \<and> sl_Weight s = f1 \<and> sl_Stats s = zero_stats \<and> sl_ID s = sliceID E (sl_Content s) (sl_Type s) Project \<and>
     m_SanitizeVersion (sl_Meta s) = SanitizeVersion \<and> (m_Historical (sl_Meta s) \<longleftrightarrow> sl_Type s = Context) \<and>
     control_free (map of_char (sl_Content s)) \<and>
     list_all (\<lambda>re. \<forall>pre i. matches re (pre, drop i (map of_char (sl_Content s))) = []) secret_patterns"

lemma newSlice_fields [simp]:
  "sl_Type (newSlice E t sc c m) = t" "sl_Scope (newSlice E t sc c m) = sc" "sl_Weight (newSlice E t sc c m) = f1"
  "sl_Stats (newSlice E t sc c m) = zero_stats" "sl_Content (newSlice E t sc c m) = Sanitize (xe_unicode E) c"
  "sl_ID (newSlice E t sc c m) = sliceID E (Sanitize (xe_unicode E) c) t sc"
  "sl_Meta (newSlice E t sc c m) = m\<lparr>m_Historical := False, m_SanitizeVersion := SanitizeVersion\<rparr>"
  "sl_Embedding (newSlice E t sc c m) = None"
  by (simp_all add: newSlice_def zero_slice_def Let_def)

lemma observedSlice_fields [simp]:
  "sl_Type (observedSlice E t sc c m) = t" "sl_Scope (observedSlice E t sc c m) = sc" "sl_Embedding (observedSlice E t sc c m) = None"
  by (simp_all add: observedSlice_def Let_def)

lemma newSlice_ok: "t \<noteq> Context \<Longrightarrow> extracted_ok E (newSlice E t Project c m)"
  using sanitize_control_free sanitize_no_secrets by (simp add: extracted_ok_def Sanitize_inert list_all_iff)

lemma observedSlice_ok: "extracted_ok E (observedSlice E Context Project c m)"
  using sanitize_control_free sanitize_no_secrets by (simp add: extracted_ok_def observedSlice_def Let_def Sanitize_inert list_all_iff)

lemma opt_list_set: "x \<in> set (opt_list a) \<longleftrightarrow> a = Some x"
  by (auto simp: opt_list_def split: option.split)

lemma promptSlice_new: "promptSlice E turn meta = Some s \<Longrightarrow> \<exists>c m. s = newSlice E Prompt Project c m"
  by (auto simp: promptSlice_def Let_def split: option.splits if_splits)

lemma toolPattern_new: "toolPatternSlice E turn meta = Some s \<Longrightarrow> \<exists>c m. s = newSlice E ToolPattern Project c m"
  by (auto simp: toolPatternSlice_def Let_def split: if_splits)

lemma contextSlice_new: "contextSlice E ls meta = Some s \<Longrightarrow> \<exists>c m. s = observedSlice E Context Project c m"
  by (auto simp: contextSlice_def Let_def split: if_splits)

lemma flushTurn_new: "s \<in> set (flushTurn E sp meta turn) \<Longrightarrow> \<exists>t c m. s = newSlice E t Project c m \<and> (t = Prompt \<or> t = ToolPattern)"
  by (auto simp: flushTurn_def opt_list_set toolPatternSlicesStepSplit_def dest!: promptSlice_new toolPattern_new split: if_splits)

lemma finalResult_new:
  "finalResultSlice E ls meta = Some s \<Longrightarrow> \<exists>c txt. s = newSlice E Result Project c (compressionMeta (result_meta E ls meta) txt c)"
  by (auto simp: finalResultSlice_def Let_def split: option.splits if_splits)

lemma dedup_loop_props:
  "distinct (map sl_ID (dedup_loop E seen ss)) \<and> sl_ID ` set (dedup_loop E seen ss) \<inter> set seen = {} \<and> set (dedup_loop E seen ss) \<subseteq> set ss \<and>
   (\<forall>s\<in>set (dedup_loop E seen ss). list_ex (searchable E) (runes_of (sl_Content s)))"
proof (induction ss arbitrary: seen)
  case (Cons s ss)
  show ?case using Cons [of seen] Cons [of "sl_ID s # seen"] by auto
qed simp

lemma Extract_cases:
  assumes "s \<in> set (fst (Extract E sp session meta))"
  shows "(\<exists>t c m. s = newSlice E t Project c m \<and> (t = Prompt \<or> t = ToolPattern)) \<or> (\<exists>c m. s = observedSlice E Context Project c m) \<or>
    (\<exists>c txt. s = newSlice E Result Project c (compressionMeta (result_meta E (fst (parseTranscript session)) meta) txt c))"
proof -
  obtain ls err where p: "parseTranscript session = (ls, err)" by (cases "parseTranscript session")
  have "s \<in> set (concat (map (flushTurn E sp meta) (segment [] ls)) @ opt_list (contextSlice E ls meta) @ opt_list (finalResultSlice E ls meta))"
    using assms p dedup_loop_props [of E "[]"] unfolding Extract_def dedup_def Let_def by (metis (no_types, lifting) case_prod_conv fst_conv subsetD)
  then show ?thesis using flushTurn_new contextSlice_new finalResult_new p by (auto simp: opt_list_set)
qed

lemma Extract_ok:
  assumes "s \<in> set (fst (Extract E sp session meta))"
  shows "extracted_ok E s" "sl_Embedding s = None" "admitted s"
proof -
  note C = Extract_cases [OF assms]
  show "extracted_ok E s" using C newSlice_ok observedSlice_ok by (elim disjE exE conjE) auto
  show "sl_Embedding s = None" using C by (elim disjE exE conjE) simp_all
  show "admitted s" using C by (elim disjE exE conjE) (simp_all add: admitted_def)
qed

lemma result_meta_verified: "m_ResultStatus (result_meta E ls meta) = ResultStatusVerified \<longleftrightarrow> checked E ls"
  using resultVerified_iff [of E ls]
  by (cases "resultVerifiedAfterLatestMutation E ls"; cases "snd (resultVerifiedAfterLatestMutation E ls)") (auto simp: result_meta_def status_defs)

section \<open>Paths\<close>

text \<open>A path that stays below its root: no component is empty, a dot or a step up.\<close>

definition inside :: "string \<Rightarrow> bool" where
  "inside p \<longleftrightarrow> list_all (\<lambda>c. c \<noteq> [] \<and> c \<noteq> ''.'' \<and> c \<noteq> ''..'') (split_path p)"

lemma split_path_Cons: obtains x xs where "split_path p = x # xs"
  by (cases p; cases "split_path (tl p)"; cases "hd p = slash") auto

lemma split_path_no_slash: "c \<in> set (split_path p) \<Longrightarrow> CHR ''/'' \<notin> set c"
proof (induction p arbitrary: c)
  case (Cons a p)
  obtain x xs where x: "split_path p = x # xs" by (rule split_path_Cons)
  then show ?case using Cons by (auto simp: slash_def split: if_splits)
qed simp

lemma split_path_prefix: "CHR ''/'' \<notin> set p \<Longrightarrow> split_path (p @ CHR ''/'' # s) = p # split_path s"
proof (induction p)
  case Nil
  obtain x xs where "split_path s = x # xs" by (rule split_path_Cons)
  then show ?case by (simp add: slash_def)
qed (auto simp: slash_def)

lemma split_path_one: "CHR ''/'' \<notin> set p \<Longrightarrow> split_path p = [p]"
  by (induction p) (auto simp: slash_def)

lemma split_join: "ps \<noteq> [] \<Longrightarrow> \<forall>c\<in>set ps. CHR ''/'' \<notin> set c \<Longrightarrow> split_path (join_path ps) = ps"
  by (induction ps rule: join_path.induct) (simp_all add: split_path_prefix split_path_one)

text \<open>Components of a cleaned relative path: steps up only in front.\<close>

lemma clean_rel_shape:
  assumes "\<exists>k xs. acc = xs @ replicate k ''..'' \<and> (\<forall>x\<in>set xs. x \<noteq> [] \<and> x \<noteq> ''.'' \<and> x \<noteq> ''..'')"
  shows "\<exists>k xs. clean_rel acc ps = replicate k ''..'' @ xs \<and> (\<forall>x\<in>set xs. x \<noteq> [] \<and> x \<noteq> ''.'' \<and> x \<noteq> ''..'')"
  using assms
proof (induction acc ps rule: clean_rel.induct)
  case (1 acc)
  then obtain k xs where "acc = xs @ replicate k ''..''" "\<forall>x\<in>set xs. x \<noteq> [] \<and> x \<noteq> ''.'' \<and> x \<noteq> ''..''" by blast
  then show ?case by (intro exI [of _ k] exI [of _ "rev xs"]) simp
next
  case (2 acc p ps)
  then obtain k xs where a: "acc = xs @ replicate k ''..''" "\<forall>x\<in>set xs. x \<noteq> [] \<and> x \<noteq> ''.'' \<and> x \<noteq> ''..''" by blast
  consider "p = [] \<or> p = ''.''" | "p = ''..''" | "p \<noteq> []" "p \<noteq> ''.''" "p \<noteq> ''..''" by blast
  then show ?case
  proof cases
    case 1 then show ?thesis using 2 by auto
  next
    case p: 2
    let ?acc = "case acc of [] \<Rightarrow> [''..''] | a # acc' \<Rightarrow> if a = ''..'' then ''..'' # acc else acc'"
    have "\<exists>k xs. ?acc = xs @ replicate k ''..'' \<and> (\<forall>x\<in>set xs. x \<noteq> [] \<and> x \<noteq> ''.'' \<and> x \<noteq> ''..'')"
    proof (cases xs)
      case Nil
      then show ?thesis using a by (intro exI [of _ "Suc k"] exI [of _ "[]"]) (cases k; simp)
    next
      case (Cons x xs')
      then show ?thesis using a by (intro exI [of _ k] exI [of _ xs']) simp
    qed
    then show ?thesis using 2(2) p by simp
  next
    case 3
    then have "\<exists>k xs. p # acc = xs @ replicate k ''..'' \<and> (\<forall>x\<in>set xs. x \<noteq> [] \<and> x \<noteq> ''.'' \<and> x \<noteq> ''..'')"
      using a by (intro exI [of _ k] exI [of _ "p # xs"]) simp
    then show ?thesis using 2(3) 3 by simp
  qed
qed

lemma clean_rel_no_slash:
  "\<forall>x\<in>set acc. CHR ''/'' \<notin> set x \<Longrightarrow> \<forall>x\<in>set ps. CHR ''/'' \<notin> set x \<Longrightarrow> x \<in> set (clean_rel acc ps) \<Longrightarrow> CHR ''/'' \<notin> set x"
  by (induction acc ps rule: clean_rel.induct) (auto split: if_splits list.splits)

lemma join_path_hd: "join_path (p # ps) = p @ (if ps = [] then [] else CHR ''/'' # join_path ps)"
  by (cases ps) auto

lemma path_Clean_inside:
  assumes "path_Clean p = q" "q \<noteq> ''.''" "q \<noteq> ''..''" "\<not> prefix ''../'' q"
  shows "inside q \<and> q \<noteq> [] \<and> \<not> prefix ''/'' q \<and> \<not> prefix ''./'' q"
proof -
  let ?c = "clean_rel [] (split_path p)"
  have ne: "?c \<noteq> []" and q: "q = join_path ?c" using assms(1,2) by (auto simp: path_Clean_def Let_def split: if_splits)
  obtain k xs where s: "?c = replicate k ''..'' @ xs" "\<forall>x\<in>set xs. x \<noteq> [] \<and> x \<noteq> ''.'' \<and> x \<noteq> ''..''"
    using clean_rel_shape [of "[]" "split_path p"] by auto
  have k: "k = 0"
  proof (rule ccontr)
    assume "k \<noteq> 0"
    then obtain k' where "?c = ''..'' # replicate k' ''..'' @ xs" using s(1) by (cases k) auto
    then have "q = ''..'' @ (if replicate k' ''..'' @ xs = [] then [] else CHR ''/'' # join_path (replicate k' ''..'' @ xs))"
      unfolding q using join_path_hd by metis
    then show False using assms(3,4) by (auto split: if_splits)
  qed
  have ns: "\<forall>x\<in>set ?c. CHR ''/'' \<notin> set x" using clean_rel_no_slash [of "[]" "split_path p"] split_path_no_slash by auto
  then have "split_path q = ?c" unfolding q using split_join ne by blast
  then have ins: "inside q" using s k by (simp add: inside_def list_all_iff)
  obtain y ys where c: "?c = y # ys" using ne by (cases ?c) auto
  then have y: "y \<noteq> []" "y \<noteq> ''.''" "CHR ''/'' \<notin> set y" "q = y @ (if ys = [] then [] else CHR ''/'' # join_path ys)"
    using s k ns q join_path_hd by auto
  have "\<not> prefix ''/'' q" using y by (cases y) auto
  moreover have "\<not> prefix ''./'' q"
  proof
    assume "prefix ''./'' q"
    then obtain z where "q = ''./'' @ z" by (auto elim: prefixE)
    then show False using y by (cases y; cases "tl y") auto
  qed
  ultimately show ?thesis using ins y by auto
qed

lemma normalize_inside: "normalizeContextPath raw = Some q \<Longrightarrow> inside q \<and> q \<noteq> [] \<and> \<not> prefix ''/'' q"
proof -
  assume norm: "normalizeContextPath raw = Some q"
  define p where "p = map (\<lambda>c. if c = CHR 0x5C then CHR ''/'' else c) (trim_space (trim_quotes raw))"
  have p: "q = (if prefix ''./'' (path_Clean p) then drop 2 (path_Clean p) else path_Clean p)"
    "q \<noteq> ''.''" "q \<noteq> ''..''" "\<not> prefix ''../'' q" "q \<noteq> []"
    using norm unfolding normalizeContextPath_def Let_def p_def [symmetric] by (auto split: if_splits)
  have "\<not> prefix ''./'' (path_Clean p)"
  proof
    assume pre: "prefix ''./'' (path_Clean p)"
    then have "path_Clean p \<noteq> ''.''" "path_Clean p \<noteq> ''..''" "\<not> prefix ''../'' (path_Clean p)" by (auto elim!: prefixE)
    then show False using path_Clean_inside [OF refl] pre by blast
  qed
  then show ?thesis using p path_Clean_inside [of p q] by auto
qed

definition path_keys :: "context_counts \<Rightarrow> string set" where
  "path_keys cc = fst ` set (cc_paths cc)"

lemma path_keys_simps [simp]:
  "path_keys (cc\<lparr>cc_paths := bump k (cc_paths cc)\<rparr>) = insert k (path_keys cc)"
  "path_keys (cc\<lparr>cc_dirs := d\<rparr>) = path_keys cc" "path_keys (cc\<lparr>cc_commands := d\<rparr>) = path_keys cc"
  by (simp_all add: path_keys_def bump_def)

definition paths_inside :: "context_counts \<Rightarrow> bool" where
  "paths_inside cc \<longleftrightarrow> (\<forall>p\<in>path_keys cc. inside p \<and> p \<noteq> [] \<and> \<not> prefix ''/'' p)"

lemma count_path_inside: "paths_inside cc \<Longrightarrow> paths_inside (count_path raw cc)"
  using normalize_inside [of raw] by (auto simp: paths_inside_def count_path_def Let_def split: option.split)

lemma count_paths_inside: "paths_inside cc \<Longrightarrow> paths_inside (fold count_path ps cc)"
  by (induction ps arbitrary: cc) (simp_all add: count_path_inside)

lemma count_call_inside: "paths_inside cc \<Longrightarrow> paths_inside (count_call E u cc)"
  using count_paths_inside [of cc "contextPaths (decodeToolArgs E (tu_Arguments u))"] by (simp add: count_call_def Let_def paths_inside_def)

lemma count_calls_inside: "paths_inside cc \<Longrightarrow> paths_inside (fold (count_call E) us cc)"
  by (induction us arbitrary: cc) (simp_all add: count_call_inside)

lemma context_of_inside: "paths_inside (context_of E ls)"
  unfolding context_of_def by (rule count_calls_inside) (simp add: paths_inside_def path_keys_def)

section \<open>Properties\<close>

text \<open>
  Extracted slices are well formed. Whatever the transcript, every slice extraction returns has project scope, is admitted, is
  identified by the hash of its sanitized content, type and scope, carries the version of the sanitizer, is marked as
  historical exactly when it is a context card, and has some searchable rune; its content has no control sequence, no
  platform key and no home directory; and no identifier occurs twice.
\<close>

lemma extracted_slices_well_formed:
  "let slices = fst (Extract E sp session meta) in
   distinct (map sl_ID slices) \<and>
   list_all (\<lambda>s. extracted_ok E s \<and> admitted s \<and> list_ex (searchable E) (runes_of (sl_Content s))) slices"
proof -
  obtain ls err where p: "parseTranscript session = (ls, err)" by (cases "parseTranscript session")
  let ?out = "concat (map (flushTurn E sp meta) (segment [] ls)) @ opt_list (contextSlice E ls meta) @ opt_list (finalResultSlice E ls meta)"
  have e: "fst (Extract E sp session meta) = dedup_loop E [] ?out" using p by (simp add: Extract_def dedup_def)
  show ?thesis using dedup_loop_props [of E "[]" ?out] Extract_ok [of _ E sp session meta] unfolding Let_def e by (auto simp: list_all_iff)
qed

text \<open>
  C32. A result counts as verified exactly when it was checked. The result slice of a session is marked verified if and only if, among the
  tool results without the repeated ones, one was reported as passed by the host and did not itself change the workspace,
  no later one changed the workspace or was a verification, and every verification call of the session has a result.
\<close>

theorem result_verified_iff_checked:
  assumes "s \<in> set (fst (Extract E sp session meta))" "sl_Type s = Result"
  shows "m_ResultStatus (sl_Meta s) = ResultStatusVerified \<longleftrightarrow> checked E (fst (parseTranscript session))"
proof -
  from Extract_cases [OF assms(1)] obtain c raw where
    s: "s = newSlice E Result Project c (compressionMeta (result_meta E (fst (parseTranscript session)) meta) raw c)"
    using assms(2) by (elim disjE exE conjE) auto
  show ?thesis unfolding s by (simp add: compressionMeta_def result_meta_verified)
qed

text \<open>A session with one verification that passed, and its result.\<close>

definition say :: "string \<Rightarrow> string \<Rightarrow> transcriptLine" where
  "say role content = \<lparr>tl_Role = role, tl_Type = [], tl_Content = content, tl_RawContent = [], tl_Name = [], tl_ToolCall = [], tl_Verification = [],
     tl_WorkspaceMutation = False, tl_ToolCalls = []\<rparr>"

definition sample_session :: "scanned list" where
  "sample_session = [Decoded ((say [] [])\<lparr>tl_Type := ''tool'', tl_ToolCall := ''b'', tl_Verification := ''passed''\<rparr>), Malformed, Decoded (say ''assistant'' ''ok'')]"

definition sample_lines :: "transcriptLine list" where
  "sample_lines = [(say ''tool'' [])\<lparr>tl_Type := ''tool'', tl_ToolCall := ''b'', tl_Verification := ''passed''\<rparr>, say ''assistant'' ''ok'']"

definition sample_tables :: unicode_tables where
  "sample_tables = \<lparr>ut_letter = (\<lambda>r. 97 \<le> r \<and> r \<le> 122), ut_digit = (\<lambda>r. False), ut_cjk = (\<lambda>r. False), ut_lower = (\<lambda>r. r)\<rparr>"

definition sample_extract_env :: extract_env where
  "sample_extract_env = \<lparr>xe_unmarshal = (\<lambda>s. None), xe_sha = (\<lambda>s. s), xe_unicode = sample_tables, xe_hangul = (\<lambda>r. False), xe_now = 0\<rparr>"

lemma strip_short: "length (decode_bytes s) < 5 \<Longrightarrow> stripFeatures U s = s"
  by (rule stripFeatures_id) (auto simp: phrase_occurs_def dest!: phrases_long)

lemma sanitize_ok: "Sanitize U ''ok'' = ''ok''"
proof -
  let ?b = "map of_char ''ok'' :: bytes"
  have "EscapeSequences ?b = ?b" "redact ?b = ?b" "length (decode_bytes ?b) < 5" by code_simp+
  then show ?thesis by (simp only: Sanitize_def sanitize_bytes_def strip_short chars_back)
qed

definition sample_result :: "SliceMeta \<Rightarrow> Slice" where
  "sample_result meta = newSlice sample_extract_env Result Project ''ok''
     (compressionMeta (result_meta sample_extract_env sample_lines meta) ''ok'' ''ok'')"

lemma sample_extracted: "Extract sample_extract_env False sample_session meta = ([sample_result meta], False)"
proof -
  let ?E = sample_extract_env
  have p: "parseTranscript sample_session = (sample_lines, False)" by (simp add: sample_session_def sample_lines_def say_def)
  have "segment [] sample_lines = [sample_lines]" by (simp add: sample_lines_def say_def)
  moreover have "flushTurn ?E False meta sample_lines = []"
    by (simp add: flushTurn_def promptSlice_def toolPatternSlice_def opt_list_def sample_lines_def say_def minToolSeq_def)
  moreover have "contextSlice ?E sample_lines meta = None"
    by (simp add: contextSlice_def context_of_def sample_lines_def say_def topContextEntries_def)
  moreover have "the (compressText ''ok'' maxResultLen) = ''ok''" by code_simp
  then have "finalResultSlice ?E sample_lines meta = Some (sample_result meta)"
    by (simp add: finalResultSlice_def sample_result_def) (simp add: sample_lines_def say_def storedContent_def trim_space_def trim_left.simps trim_right.simps Let_def)
  moreover have "list_ex (searchable ?E) (runes_of (sl_Content (sample_result meta)))"
    by (simp add: sample_result_def sanitize_ok) code_simp
  ultimately show ?thesis using p by (simp add: Extract_def dedup_def opt_list_def)
qed

theorem result_verified_iff_checked_witness:
  "sample_result zero_meta \<in> set (fst (Extract sample_extract_env False sample_session zero_meta)) \<and> sl_Type (sample_result zero_meta) = Result \<and>
   m_ResultStatus (sl_Meta (sample_result zero_meta)) = ResultStatusVerified \<and> checked sample_extract_env (fst (parseTranscript sample_session))"
proof -
  have m: "sample_result zero_meta \<in> set (fst (Extract sample_extract_env False sample_session zero_meta))" "sl_Type (sample_result zero_meta) = Result"
    unfolding sample_extracted by (simp_all add: sample_result_def)
  have "snd (resultVerifiedAfterLatestMutation sample_extract_env sample_lines)" by code_simp
  then have "m_ResultStatus (sl_Meta (sample_result zero_meta)) = ResultStatusVerified"
    by (simp add: sample_result_def compressionMeta_def result_meta_verified resultVerified_iff)
  then show ?thesis using result_verified_iff_checked [OF m] m by simp
qed

text \<open>
  Context cards name only paths inside the project: every path a card lists is relative and none of its components is empty, a dot or
  a step up, whatever the arguments of the tool calls were.
\<close>

lemma context_paths_stay_inside:
  "list_all (\<lambda>(p, n). inside p \<and> p \<noteq> [] \<and> \<not> prefix ''/'' p) (topContextEntries (cc_paths (context_of E lines)))"
proof -
  have "fst e \<in> path_keys (context_of E lines)" if "e \<in> set (topContextEntries (cc_paths (context_of E lines)))" for e
    using that by (auto simp: topContextEntries_def path_keys_def dest!: in_set_takeD)
  then show ?thesis using context_of_inside [of E lines] by (fastforce simp: list_all_iff paths_inside_def)
qed

text \<open>
  A path below the home directory is refused only in front of the cleaning step, so a detour in front of the tilde hides it.
\<close>

lemma hidden_home_path: "normalizeContextPath ''x/../~/.ssh/id'' = Some ''~/.ssh/id''"
  by code_simp

end
