(* ===== verification/Ingest.thy ===== *)
theory Ingest
  imports Extractor_Correct Slice_Store File_Store_Props BM25_Correct
begin

text \<open>
  The ingestion pipeline, \<open>kernel/ingest/ingest.go\<close>: sessions are drained from a source, extracted, and every slice is put into the
  store and inserted into the index. The pipeline is a client of both interfaces: its lemmas are proved from their
  contracts, and hold for the journaled store with the lexical index. A put adjusts the scope of the slice it is
  given in place, so the index gets the admitted slice. The environment of the n-th put is an argument.
\<close>

section \<open>The pipeline\<close>

datatype source_item = SessionEvents string "scanned list" | SourceError

datatype ingest_err = SourceFailed | ExtractFailed string | PutFailed string string | IndexFailed string string

record Pipeline =
  pl_Scope :: Scope
  pl_Project :: string
  pl_StepSplit :: bool

fun persist ::
  "('e \<Rightarrow> Slice \<Rightarrow> 's \<Rightarrow> 'err option \<times> 's) \<Rightarrow> (Slice \<Rightarrow> 'i \<Rightarrow> 'ierr option \<times> 'i) \<Rightarrow> Pipeline \<Rightarrow> (nat \<Rightarrow> 'e) \<Rightarrow> string \<Rightarrow>
   Slice list \<Rightarrow> nat \<Rightarrow> nat \<Rightarrow> 's \<times> 'i \<Rightarrow> ingest_err option \<times> nat \<times> nat \<times> 's \<times> 'i" where
  "persist put ins p ens sid [] k n st = (None, k, n, st)"
| "persist put ins p ens sid (sl # sls) k n (s, ix) =
     (if sl_Type sl = Context \<and> pl_Scope p \<noteq> Project then persist put ins p ens sid sls k n (s, ix)
      else
        let sl = sl\<lparr>sl_Scope := pl_Scope p\<rparr> in
        case put (ens k) sl s of
          (Some e, s) \<Rightarrow> (Some (PutFailed sid (sl_ID sl)), Suc k, n, s, ix)
        | (None, s) \<Rightarrow>
            let sl = fst (EnforceAdmission sl) in
            case ins sl ix of
              (Some e, ix) \<Rightarrow> (Some (IndexFailed sid (sl_ID sl)), Suc k, n, s, ix)
            | (None, ix) \<Rightarrow> persist put ins p ens sid sls (Suc k) (Suc n) (s, ix))"

definition session_meta :: "Pipeline \<Rightarrow> string \<Rightarrow> SliceMeta" where
  "session_meta p sid = zero_meta\<lparr>m_SourceSession := sid, m_ProjectSlug := pl_Project p, m_Origin := OriginSessionAuto\<rparr>"

fun Pipeline_Run ::
  "extract_env \<Rightarrow> ('e \<Rightarrow> Slice \<Rightarrow> 's \<Rightarrow> 'err option \<times> 's) \<Rightarrow> (Slice \<Rightarrow> 'i \<Rightarrow> 'ierr option \<times> 'i) \<Rightarrow> Pipeline \<Rightarrow> (nat \<Rightarrow> 'e) \<Rightarrow>
   source_item list \<Rightarrow> nat \<Rightarrow> (string, nat) gomap \<Rightarrow> 's \<times> 'i \<Rightarrow> ingest_err option \<times> (string, nat) gomap \<times> 's \<times> 'i" where
  "Pipeline_Run E put ins p ens [] k stats st = (None, stats, st)"
| "Pipeline_Run E put ins p ens (SourceError # srcs) k stats st = (Some SourceFailed, stats, st)"
| "Pipeline_Run E put ins p ens (SessionEvents sid transcript # srcs) k stats st =
     (let (slices, err) = Extract E (pl_StepSplit p) transcript (session_meta p sid) in
      if err then (Some (ExtractFailed sid), stats, st)
      else case persist put ins p ens sid slices k 0 st of
             (Some e, k, n, st) \<Rightarrow> (Some e, stats, st)
           | (None, k, n, st) \<Rightarrow> Pipeline_Run E put ins p ens srcs k (m_set sid n stats) st)"

section \<open>The contract of the index\<close>

locale slice_index =
  fixes represents :: "Slice list \<Rightarrow> 'i \<Rightarrow> bool"
    and ins :: "Slice \<Rightarrow> 'i \<Rightarrow> 'ierr option \<times> 'i"
  assumes ins_ok: "represents S ix \<Longrightarrow> ins x ix = (None, ix') \<Longrightarrow> represents (up_slice x S) ix'"

locale ingestion = slice_store inv listing put del stat + slice_index represents ins
  for inv :: "'s \<Rightarrow> bool" and listing :: "'s \<Rightarrow> Slice list" and put :: "'e \<Rightarrow> Slice \<Rightarrow> 's \<Rightarrow> 'err option \<times> 's"
    and del :: "'e \<Rightarrow> string \<Rightarrow> 's \<Rightarrow> 'err option \<times> 's" and stat :: "'e \<Rightarrow> string \<Rightarrow> SliceStats \<Rightarrow> 's \<Rightarrow> 'err option \<times> 's"
    and represents :: "Slice list \<Rightarrow> 'i \<Rightarrow> bool" and ins :: "Slice \<Rightarrow> 'i \<Rightarrow> 'ierr option \<times> 'i"
begin

lemma stored_plain: "sl_Embedding sl = None \<Longrightarrow> stored_form sl = fst (EnforceAdmission sl)"
  by (auto simp: stored_form_def EnforceAdmission_def split: SliceType.splits)

text \<open>Without an error every slice is stored, and the index keeps representing the listing.\<close>

lemma persist_sync:
  assumes "persist put ins p ens sid sls k n (s, ix) = (None, k', n', s', ix')" "inv s" "represents (listing s) ix"
    "\<forall>sl\<in>set sls. sl_Embedding sl = None"
  shows "inv s' \<and> represents (listing s') ix' \<and> sl_ID ` set (listing s) \<subseteq> sl_ID ` set (listing s') \<and>
    (\<forall>sl\<in>set sls. sl_Type sl = Context \<and> pl_Scope p \<noteq> Project \<or> sl_ID sl \<in> sl_ID ` set (listing s'))"
  using assms
proof (induction sls arbitrary: k n s ix)
  case (Cons sl sls)
  show ?case
  proof (cases "sl_Type sl = Context \<and> pl_Scope p \<noteq> Project")
    case True
    then show ?thesis using Cons by simp
  next
    case False
    let ?sl = "sl\<lparr>sl_Scope := pl_Scope p\<rparr>"
    obtain s1 where 1: "put (ens k) ?sl s = (None, s1)"
      using Cons.prems(1) False by (cases "put (ens k) ?sl s"; cases "fst (put (ens k) ?sl s)") (auto simp: Let_def)
    obtain ix1 where 2: "ins (fst (EnforceAdmission ?sl)) ix = (None, ix1)"
      using Cons.prems(1) False 1
      by (cases "ins (fst (EnforceAdmission ?sl)) ix"; cases "fst (ins (fst (EnforceAdmission ?sl)) ix)") (auto simp: Let_def)
    have rest: "persist put ins p ens sid sls (Suc k) (Suc n) (s1, ix1) = (None, k', n', s', ix')"
      using Cons.prems(1) False 1 2 by (auto simp: Let_def)
    have st: "stored_form ?sl = fst (EnforceAdmission ?sl)" by (rule stored_plain) (use Cons.prems(4) in simp)
    have l: "listing s1 = up_slice (fst (EnforceAdmission ?sl)) (listing s)" using put_ok [OF Cons.prems(2) 1] st by simp
    have "represents (listing s1) ix1" unfolding l by (rule ins_ok [OF Cons.prems(3) 2])
    note IH = Cons.IH [OF rest put_inv [OF Cons.prems(2) 1] this]
    have "sl_ID ` set (listing s1) = insert (sl_ID sl) (sl_ID ` set (listing s))" unfolding l by (auto simp: up_slice_def)
    then show ?thesis using IH Cons.prems(4) by auto
  qed
qed simp

lemma run_sync:
  assumes "Pipeline_Run E put ins p ens srcs k stats (s, ix) = (None, stats', s', ix')" "inv s" "represents (listing s) ix"
  shows "inv s' \<and> represents (listing s') ix' \<and> sl_ID ` set (listing s) \<subseteq> sl_ID ` set (listing s') \<and>
    (\<forall>sid t. SessionEvents sid t \<in> set srcs \<longrightarrow>
       (\<forall>sl\<in>set (fst (Extract E (pl_StepSplit p) t (session_meta p sid))).
          sl_Type sl = Context \<and> pl_Scope p \<noteq> Project \<or> sl_ID sl \<in> sl_ID ` set (listing s')))"
  using assms
proof (induction srcs arbitrary: k stats s ix)
  case (Cons item srcs)
  show ?case
  proof (cases item)
    case (SessionEvents sid t)
    obtain slices err where e: "Extract E (pl_StepSplit p) t (session_meta p sid) = (slices, err)" by fastforce
    have plain: "\<forall>sl\<in>set slices. sl_Embedding sl = None"
      using Extract_ok(2) [of _ E "pl_StepSplit p" t "session_meta p sid"] e by simp
    obtain x k1 n1 s1 ix1 where q: "persist put ins p ens sid slices k 0 (s, ix) = (x, k1, n1, s1, ix1)" by (metis prod_cases5)
    have x: "x = None" "\<not> err" using Cons.prems(1) SessionEvents e q by (cases x; auto split: if_splits)+
    have rest: "Pipeline_Run E put ins p ens srcs k1 (m_set sid n1 stats) (s1, ix1) = (None, stats', s', ix')"
      using Cons.prems(1) SessionEvents e q x by simp
    note P = persist_sync [OF q [unfolded x(1)] Cons.prems(2,3) plain]
    note IH = Cons.IH [OF rest P [THEN conjunct1] P [THEN conjunct2, THEN conjunct1]]
    have here: "\<forall>sl\<in>set slices. sl_Type sl = Context \<and> pl_Scope p \<noteq> Project \<or> sl_ID sl \<in> sl_ID ` set (listing s1)"
      and old: "sl_ID ` set (listing s) \<subseteq> sl_ID ` set (listing s1)" by (rule P [THEN conjunct2, THEN conjunct2, THEN conjunct2], rule P [THEN conjunct2, THEN conjunct2, THEN conjunct1])
    have new: "sl_ID ` set (listing s1) \<subseteq> sl_ID ` set (listing s')" using IH by (elim conjE)
    have "\<forall>sl\<in>set (fst (Extract E (pl_StepSplit p) t (session_meta p sid))).
        sl_Type sl = Context \<and> pl_Scope p \<noteq> Project \<or> sl_ID sl \<in> sl_ID ` set (listing s')" using here new e by auto
    moreover have "sl_ID ` set (listing s) \<subseteq> sl_ID ` set (listing s')" using old new by (rule subset_trans)
    moreover have "SessionEvents sid' t' \<in> set (item # srcs) \<longleftrightarrow> sid' = sid \<and> t' = t \<or> SessionEvents sid' t' \<in> set srcs" for sid' t'
      using SessionEvents by auto
    ultimately show ?thesis using IH by (elim conjE) (intro conjI allI impI, assumption+, metis)
  qed (use Cons.prems in simp)
qed simp

end

section \<open>The lexical index provides it\<close>

definition lib_of :: "(string \<Rightarrow> string list) \<Rightarrow> Slice list \<Rightarrow> (string, Slice) gomap" where
  "lib_of tok S = map (\<lambda>x. (sl_ID x, x)) (filter (\<lambda>x. tok (sl_Content x) \<noteq> []) S)"

lemma lib_del: "m_del k (lib_of tok S) = lib_of tok (filter (\<lambda>x. sl_ID x \<noteq> k) S)"
  by (induction S) (auto simp: lib_of_def m_del_def)

lemma lib_step_up: "sl_ID x \<noteq> [] \<Longrightarrow> lib_step tok (InsertOp x) (lib_of tok S) = lib_of tok (up_slice x S)"
proof -
  assume "sl_ID x \<noteq> []"
  have "sl_ID x \<notin> set (keys (m_del (sl_ID x) (lib_of tok S)))" by simp
  from m_set_new [OF this, of x] show ?thesis using \<open>sl_ID x \<noteq> []\<close> by (auto simp: lib_del up_slice_def) (auto simp: lib_of_def)
qed

interpretation lexical: slice_index "\<lambda>S. indexes tok (lib_of tok S)" "Insert tok" for tok
proof
  fix S ix x ix'
  assume a: "indexes tok (lib_of tok S) ix" "Insert tok x ix = (None, ix')"
  then have "sl_ID x \<noteq> []" by (auto simp: Insert_def)
  from lib_step_up [OF this] show "indexes tok (lib_of tok (up_slice x S)) ix'" using indexes_Insert [OF a(1), of x] a(2) by simp
qed

interpretation local: ingestion mem_inv ListAll Put Delete UpdateStats "\<lambda>S. indexes tok (lib_of tok S)" "Insert tok" for tok
  by unfold_locales

section \<open>Properties\<close>


definition sample_pipeline :: Pipeline where
  "sample_pipeline = \<lparr>pl_Scope = Project, pl_Project = [], pl_StepSplit = False\<rparr>"

definition one_word :: "string \<Rightarrow> string list" where
  "one_word s = [''w'']"

abbreviation (input) sample_slice :: Slice where
  "sample_slice \<equiv> sample_result (session_meta sample_pipeline ''a'')"

lemma sample_slice_ID: "sl_ID sample_slice \<noteq> []" "sl_Scope sample_slice = Project" "sl_Embedding sample_slice = None"
  by (simp_all add: sample_result_def sliceID_def sample_extract_env_def)

lemma sample_admitted: "EnforceAdmission sample_slice = (sample_slice, False)" "sample_slice\<lparr>sl_Scope := Project\<rparr> = sample_slice"
  using sample_slice_ID(2) by (simp_all add: EnforceAdmission_def)

lemma sample_put: "fst (Put test_env sample_slice test_store) = None"
proof -
  have "is_fin (st_UserFeedback (sl_Stats sample_slice))" "is_fin (sl_Weight sample_slice)" by (simp_all add: sample_result_def zero_stats_def)
  then show ?thesis using sample_slice_ID sample_admitted by (simp add: store_run_simps)
qed


end
