(* ===== verification/Chat.thy ===== *)
theory Chat
  imports Json Quota Go_Float
begin

text \<open>
  Requests and accounting of the gateway: reading a chat request (\<open>gateway/normalize.go\<close>), the token accounting of the
  upstreams (\<open>gateway/usagewire.go\<close>) and the translation of the thinking effort (\<open>gateway/thinking.go\<close>). The JSON codec is
  an argument; what it decodes is the record of the same name. Token counts are Go's 64-bit \<open>int\<close>.
\<close>

section \<open>Requests\<close>

record chatMessage =
  cm_Role :: string
  cm_Content :: json
  cm_ToolCalls :: json
  cm_Name :: string
  cm_ToolCallID :: string
  cm_ReasoningContent :: string

record chatRequest =
  cr_Model :: string
  cr_Messages :: "chatMessage list"
  cr_Stream :: bool
  cr_Temperature :: "f64 option"

definition part_text :: "json \<Rightarrow> string" where
  "part_text part =
     (case part of
        JObj fs \<Rightarrow> if field ''type'' part \<noteq> JStr ''text'' then []
                    else (case field ''text'' part of JStr s \<Rightarrow> s | _ \<Rightarrow> [])
      | _ \<Rightarrow> [])"

fun textParts :: "json \<Rightarrow> string" where
  "textParts (JStr v) = v"
| "textParts (JArr v) = concat (map part_text v)"
| "textParts _ = []"

text \<open>The class \<open>\s\<close> of Go's regular expressions is ASCII; \<open>TrimSpace\<close> knows the Unicode spaces.\<close>

definition re_space :: "char \<Rightarrow> bool" where
  "re_space c \<longleftrightarrow> c \<in> {CHR 0x09, CHR 0x0A, CHR 0x0C, CHR 0x0D, CHR 0x20}"

fun whitespace :: "bool \<Rightarrow> string \<Rightarrow> string" where
  "whitespace run [] = []"
| "whitespace run (c # s) =
     (if re_space c then (if run then whitespace True s else CHR 0x20 # whitespace True s) else c # whitespace False s)"

definition normalizeQuery :: "string \<Rightarrow> string" where
  "normalizeQuery s = trim_space (whitespace False s)"

fun last_user :: "chatMessage list \<Rightarrow> string option" where
  "last_user [] = None"
| "last_user (m # ms) =
     (if cm_Role m \<noteq> ''user'' then last_user ms
      else let q = normalizeQuery (textParts (cm_Content m)) in if q \<noteq> [] then Some q else last_user ms)"

definition lastUserText :: "chatMessage list \<Rightarrow> string option" where
  "lastUserText messages = last_user (rev messages)"

text \<open>The first argument marshals the messages, the second is the digest in hexadecimal.\<close>

definition contextHash :: "(chatMessage list \<Rightarrow> string option) \<Rightarrow> (string \<Rightarrow> string) \<Rightarrow> chatMessage list \<Rightarrow> string option" where
  "contextHash marshal sha messages = map_option sha (marshal messages)"

datatype request_err = InvalidBody | ModelRequired | NoMessages | NoUserText

definition parseChatRequest :: "(string \<Rightarrow> chatRequest option) \<Rightarrow> string \<Rightarrow> request_err + chatRequest" where
  "parseChatRequest unmarshal body =
     (case unmarshal body of
        None \<Rightarrow> Inl InvalidBody
      | Some req \<Rightarrow>
          if trim_space (cr_Model req) = [] then Inl ModelRequired
          else if cr_Messages req = [] then Inl NoMessages
          else if lastUserText (cr_Messages req) = None then Inl NoUserText
          else Inr req)"

definition turns :: "chatRequest \<Rightarrow> string \<Rightarrow> (string \<times> string) list" where
  "turns req assistant =
     map (\<lambda>m. (cm_Role m, textParts (cm_Content m))) (cr_Messages req) @
     (if assistant \<noteq> [] then [(''assistant'', assistant)] else [])"

section \<open>Token accounting\<close>

record upstreamUsage =
  uu_PromptTokens :: int
  uu_CompletionTokens :: int
  uu_PromptCacheHitTokens :: int
  uu_PromptCacheMissTokens :: int
  uu_InputTokens :: int
  uu_OutputTokens :: int
  uu_CacheCreationInputTokens :: int
  uu_CacheReadInputTokens :: int
  uu_PromptTokensDetails :: "(int \<times> int) option"
  uu_Estimator :: string

record normUsage =
  nu_Prompt :: int
  nu_Completion :: int
  nu_CacheHit :: int
  nu_CacheWrite :: int

definition normalizeUpstreamUsage :: "upstreamUsage option \<Rightarrow> normUsage option" where
  "normalizeUpstreamUsage w =
     (case w of None \<Rightarrow> None | Some u \<Rightarrow>
      if uu_Estimator u \<noteq> [] then None
      else
        let prompt = (if uu_PromptTokens u = 0 \<and>
                         (uu_InputTokens u \<noteq> 0 \<or> uu_CacheCreationInputTokens u \<noteq> 0 \<or> uu_CacheReadInputTokens u \<noteq> 0)
                      then wrap64 (wrap64 (uu_InputTokens u + uu_CacheCreationInputTokens u) + uu_CacheReadInputTokens u)
                      else uu_PromptTokens u);
            completion = (if uu_CompletionTokens u = 0 then uu_OutputTokens u else uu_CompletionTokens u);
            hit = uu_PromptCacheHitTokens u;
            hit = (case uu_PromptTokensDetails u of None \<Rightarrow> hit | Some (cached, _) \<Rightarrow> if hit = 0 then cached else hit);
            hit = (if hit = 0 then uu_CacheReadInputTokens u else hit);
            write = uu_CacheCreationInputTokens u;
            write = (case uu_PromptTokensDetails u of None \<Rightarrow> write | Some (_, created) \<Rightarrow> if write = 0 then created else write)
        in if prompt = 0 \<and> completion = 0 \<and> hit = 0 then None
           else Some \<lparr>nu_Prompt = prompt, nu_Completion = completion, nu_CacheHit = hit, nu_CacheWrite = write\<rparr>)"

definition parseUsageRaw :: "(string \<Rightarrow> upstreamUsage option) \<Rightarrow> string \<Rightarrow> normUsage option" where
  "parseUsageRaw unmarshal raw =
     (if raw = [] then None
      else case unmarshal raw of None \<Rightarrow> None | Some u \<Rightarrow> normalizeUpstreamUsage (Some u))"

text \<open>The outer option of the codec is its error, the inner one a missing or null usage object.\<close>

definition parseUsageBody :: "(string \<Rightarrow> upstreamUsage option option) \<Rightarrow> string \<Rightarrow> normUsage option" where
  "parseUsageBody unmarshal body =
     (case unmarshal body of Some (Some u) \<Rightarrow> normalizeUpstreamUsage (Some u) | _ \<Rightarrow> None)"

section \<open>Thinking effort\<close>

definition effortBudgetTokens :: "(string, int) gomap" where
  "effortBudgetTokens = [(''low'', 1024), (''medium'', 4096), (''high'', 16384), (''max'', 32768)]"

text \<open>The object passed on: the client's own, none, or \<open>enabled\<close> with a budget.\<close>

datatype thinking = ClientThinking string | NoThinking | EnabledThinking int

definition translateThinking :: "string \<Rightarrow> string \<Rightarrow> thinking \<times> bool" where
  "translateThinking effort clientThinking =
     (if clientThinking \<noteq> [] \<and> clientThinking \<noteq> ''null'' then (ClientThinking clientThinking, True)
      else if effort = [] then (NoThinking, True)
      else case m_get effortBudgetTokens effort of
             None \<Rightarrow> (NoThinking, False)
           | Some budget \<Rightarrow> (EnabledThinking budget, True))"

section \<open>Normalisation is stable\<close>

lemma trim_left_spaceless: "space_at (trim_left s) = 0"
  by (induction s rule: trim_left.induct) (subst trim_left.simps, simp)

lemma trim_left_id: "space_at s = 0 \<Longrightarrow> trim_left s = s"
  by (simp add: trim_left.simps)

lemma trim_right_id: "space_end s = 0 \<Longrightarrow> trim_right s = s"
  by (simp add: trim_right.simps)

lemma trim_right_spaceless: "space_end (trim_right s) = 0"
  by (induction s rule: trim_right.induct) (subst trim_right.simps, simp)

lemma trim_right_prefix: "prefix (trim_right s) s"
proof (induction s rule: trim_right.induct)
  case (1 s)
  then show ?case
    by (subst trim_right.simps) (auto intro: prefix_order.trans [OF _ take_is_prefix])
qed

lemma trim_left_suffix: "suffix (trim_left s) s"
proof (induction s rule: trim_left.induct)
  case (1 s)
  then show ?case
    by (subst trim_left.simps) (auto intro: suffix_order.trans [OF _ suffix_drop])
qed

lemma space_at_prefix: "prefix a b \<Longrightarrow> space_at b = 0 \<Longrightarrow> space_at a = 0"
proof -
  assume "prefix a b" and z: "space_at b = 0"
  have "find (\<lambda>p. prefix p b) space_seqs = None"
    using z by (auto simp: space_at_def space_seqs_def split: option.splits if_splits)
  then have "find (\<lambda>p. prefix p a) space_seqs = None"
    using \<open>prefix a b\<close> by (auto simp: find_None_iff intro: prefix_order.trans)
  then show ?thesis by (simp add: space_at_def)
qed

lemma trim_space_idem [simp]: "trim_space (trim_space s) = trim_space s"
proof -
  have "space_at (trim_space s) = 0"
    unfolding trim_space_def by (rule space_at_prefix [OF trim_right_prefix trim_left_spaceless])
  then show ?thesis by (simp add: trim_space_def trim_left_id trim_right_id trim_right_spaceless)
qed

lemma trim_space_sublist: "sublist (trim_space s) s"
  unfolding trim_space_def
  by (meson prefix_imp_sublist suffix_imp_sublist sublist_order.order_trans trim_left_suffix trim_right_prefix)

text \<open>A text without a run of spaces and with no other space than the blank is unchanged.\<close>

definition single_spaced :: "string \<Rightarrow> bool" where
  "single_spaced s \<longleftrightarrow> (\<forall>c\<in>set s. re_space c \<longrightarrow> c = CHR 0x20) \<and> \<not> sublist [CHR 0x20, CHR 0x20] s"

lemma whitespace_id:
  "single_spaced s \<Longrightarrow> \<not> (run \<and> prefix [CHR 0x20] s) \<Longrightarrow> whitespace run s = s"
proof (induction s arbitrary: run)
  case (Cons c s)
  have s: "single_spaced s" "\<not> prefix [CHR 0x20, CHR 0x20] (c # s)"
    using Cons.prems(1) by (auto simp: single_spaced_def sublist_Cons_right)
  show ?case
  proof (cases "re_space c")
    case True
    then have c: "c = CHR 0x20" using Cons.prems(1) by (simp add: single_spaced_def)
    then have "\<not> prefix [CHR 0x20] s" using s(2) by simp
    then show ?thesis using Cons.IH [OF s(1), of True] Cons.prems(2) True c by simp
  next
    case False
    then show ?thesis using Cons.IH [OF s(1), of False] by simp
  qed
qed simp

lemma whitespace_single: "single_spaced (whitespace run s) \<and> \<not> (run \<and> prefix [CHR 0x20] (whitespace run s))"
proof (induction s arbitrary: run)
  case (Cons c s)
  note T = Cons.IH [of True] and F = Cons.IH [of False]
  show ?case
  proof (cases "re_space c")
    case True
    have "single_spaced (CHR 0x20 # whitespace True s)"
      using T by (auto simp: single_spaced_def sublist_Cons_right re_space_def)
    then show ?thesis using True T by simp
  next
    case False
    have "single_spaced (c # whitespace False s)" using False F by (auto simp: single_spaced_def sublist_Cons_right re_space_def)
    moreover have "c \<noteq> CHR 0x20" using False by (auto simp: re_space_def)
    ultimately show ?thesis using False by simp
  qed
qed (simp add: single_spaced_def)

lemma single_spaced_sublist: "sublist a b \<Longrightarrow> single_spaced b \<Longrightarrow> single_spaced a"
  unfolding single_spaced_def by (meson set_mono_sublist sublist_order.order_trans subsetD)

text \<open>Texts that normalise to the same query get the same key, and a normalised query is its own key.\<close>

lemma normalizeQuery_idem: "normalizeQuery (normalizeQuery s) = normalizeQuery s"
proof -
  have "single_spaced (normalizeQuery s)"
    unfolding normalizeQuery_def by (rule single_spaced_sublist [OF trim_space_sublist]) (simp add: whitespace_single)
  then have "whitespace False (normalizeQuery s) = normalizeQuery s" by (simp add: whitespace_id)
  then show ?thesis unfolding normalizeQuery_def by simp
qed

lemma last_user_Some:
  "last_user ms = Some q \<longleftrightarrow>
     (\<exists>pre m post. ms = pre @ m # post \<and> cm_Role m = ''user'' \<and> q = normalizeQuery (textParts (cm_Content m)) \<and> q \<noteq> [] \<and>
        (\<forall>m'\<in>set pre. cm_Role m' = ''user'' \<longrightarrow> normalizeQuery (textParts (cm_Content m')) = []))"
  (is "_ \<longleftrightarrow> ?R ms")
proof (induction ms)
  case (Cons m ms)
  let ?t = "\<lambda>m. normalizeQuery (textParts (cm_Content m))"
  show ?case
  proof (cases "cm_Role m = ''user'' \<and> ?t m \<noteq> []")
    case True
    have "?R (m # ms) \<Longrightarrow> q = ?t m" using True by (auto simp: Cons_eq_append_conv)
    moreover have "?R (m # ms)" if "q = ?t m" using True that by (intro exI [of _ "[]"] exI [of _ m] exI [of _ ms]) simp
    ultimately have "?R (m # ms) \<longleftrightarrow> q = ?t m" by blast
    then show ?thesis using True by (auto simp: Let_def)
  next
    case False
    then have "last_user (m # ms) = last_user ms" by (auto simp: Let_def)
    moreover have "?R (m # ms) \<longleftrightarrow> ?R ms"
    proof
      assume "?R (m # ms)"
      then obtain pre m' post where *: "m # ms = pre @ m' # post" "cm_Role m' = ''user''" "q = ?t m'" "q \<noteq> []"
          "\<forall>m'\<in>set pre. cm_Role m' = ''user'' \<longrightarrow> ?t m' = []" by blast
      then obtain pre' where "pre = m # pre'" using False by (cases pre) auto
      then show "?R ms" using * by (intro exI [of _ pre'] exI [of _ m'] exI [of _ post]) simp
    next
      assume "?R ms"
      then obtain pre m' post where *: "ms = pre @ m' # post" "cm_Role m' = ''user''" "q = ?t m'" "q \<noteq> []"
          "\<forall>m'\<in>set pre. cm_Role m' = ''user'' \<longrightarrow> ?t m' = []" by blast
      then show "?R (m # ms)" using False by (intro exI [of _ "m # pre"] exI [of _ m'] exI [of _ post]) auto
    qed
    ultimately show ?thesis using Cons.IH by simp
  qed
qed simp

section \<open>One accounting convention for three wire formats\<close>

definition no_usage :: upstreamUsage where
  "no_usage = \<lparr>uu_PromptTokens = 0, uu_CompletionTokens = 0, uu_PromptCacheHitTokens = 0, uu_PromptCacheMissTokens = 0,
     uu_InputTokens = 0, uu_OutputTokens = 0, uu_CacheCreationInputTokens = 0, uu_CacheReadInputTokens = 0,
     uu_PromptTokensDetails = None, uu_Estimator = []\<rparr>"

definition anthropic_usage :: "int \<Rightarrow> int \<Rightarrow> int \<Rightarrow> int \<Rightarrow> upstreamUsage" where
  "anthropic_usage input output created cached =
     no_usage\<lparr>uu_InputTokens := input, uu_OutputTokens := output, uu_CacheCreationInputTokens := created, uu_CacheReadInputTokens := cached\<rparr>"

definition openai_usage :: "int \<Rightarrow> int \<Rightarrow> int \<Rightarrow> int \<Rightarrow> upstreamUsage" where
  "openai_usage prompt completion created cached =
     no_usage\<lparr>uu_PromptTokens := prompt, uu_CompletionTokens := completion, uu_PromptTokensDetails := Some (cached, created)\<rparr>"

definition deepseek_usage :: "int \<Rightarrow> int \<Rightarrow> int \<Rightarrow> upstreamUsage" where
  "deepseek_usage hit miss completion =
     no_usage\<lparr>uu_PromptTokens := hit + miss, uu_CompletionTokens := completion, uu_PromptCacheHitTokens := hit, uu_PromptCacheMissTokens := miss\<rparr>"

text \<open>
  The same call reported in the incremental format and in the full format is metered alike, and the part of the prompt
  served from the cache is never more than the prompt.
\<close>

lemma wire_formats_agree:
  assumes "0 \<le> input" "0 \<le> created" "0 \<le> cached" "in64 (input + created + cached)"
  shows "normalizeUpstreamUsage (Some (anthropic_usage input output created cached)) =
         normalizeUpstreamUsage (Some (openai_usage (input + created + cached) output created cached))"
proof -
  have "in64 (input + created)" using assms by (auto simp: in64_def)
  then show ?thesis
    using assms by (auto simp: normalizeUpstreamUsage_def anthropic_usage_def openai_usage_def no_usage_def Let_def)
qed

lemma cache_hit_within_prompt:
  assumes "0 \<le> hit" "0 \<le> miss"
    and "normalizeUpstreamUsage (Some (deepseek_usage hit miss completion)) = Some nu"
  shows "nu_CacheHit nu \<le> nu_Prompt nu"
  using assms by (auto simp: normalizeUpstreamUsage_def deepseek_usage_def no_usage_def Let_def split: if_splits)

text \<open>What the gateway synthesised itself is never taken for the accounting of a provider.\<close>

lemma estimates_not_metered: "uu_Estimator u \<noteq> [] \<Longrightarrow> normalizeUpstreamUsage (Some u) = None"
  by (simp add: normalizeUpstreamUsage_def)

end
