(* ===== verification/Sse.thy ===== *)
theory Sse
  imports Chat Compress
begin

text \<open>
  Streamed replies of the gateway. \<open>gateway/sse.go\<close> aggregates the assistant text out of a stream while it is relayed;
  \<open>streamThrough\<close> in \<open>gateway/pipeline.go\<close> relays the stream line by line, adds the accounting the upstream left out,
  ends a stream that was cut off, and decides what is kept for reuse; \<open>replayStream\<close> rebuilds a stream from a cached
  answer. The JSON codec is part of the environment \<open>sse_env\<close>. Lengths are bounded by the limits below, so they are natural numbers.
\<close>

section \<open>The aggregator\<close>

definition maxSSEAggregateBytes :: nat where "maxSSEAggregateBytes = 2 ^ 20"
definition maxSSEPendingBytes :: nat where "maxSSEPendingBytes = maxSSEAggregateBytes"
definition maxSSELineBytes :: nat where "maxSSELineBytes = 64 * 1024"

text \<open>A decoded chunk: its identifier, the text and the finish reason of each choice, the raw usage object.\<close>

record sse_event =
  se_ID :: string
  se_Choices :: "(string \<times> string option) list"
  se_Usage :: string

type_synonym decoder = "string \<Rightarrow> sse_event option"

record sseAggregator =
  sa_lineBuf :: string
  sa_pending :: "string list"
  sa_pendingBytes :: nat
  sa_content :: string
  sa_overflow :: bool
  sa_done :: bool
  sa_sawUsage :: bool
  sa_usageRaw :: string
  sa_eventID :: string
  sa_limit :: nat
  sa_lineMax :: nat

definition newSSEAggregator :: "nat \<Rightarrow> sseAggregator" where
  "newSSEAggregator limit =
     \<lparr>sa_lineBuf = [], sa_pending = [], sa_pendingBytes = 0, sa_content = [], sa_overflow = False, sa_done = False,
      sa_sawUsage = False, sa_usageRaw = [], sa_eventID = [], sa_limit = limit, sa_lineMax = maxSSELineBytes\<rparr>"

definition take_text :: "string \<Rightarrow> sseAggregator \<Rightarrow> sseAggregator" where
  "take_text delta a =
     (if sa_overflow a \<or> delta = [] then a
      else if length (sa_content a) + length delta > sa_limit a then a\<lparr>sa_overflow := True\<rparr>
      else a\<lparr>sa_content := sa_content a @ delta\<rparr>)"

definition take_event :: "sse_event \<Rightarrow> sseAggregator \<Rightarrow> sseAggregator" where
  "take_event evt a =
     (let a = (if sa_eventID a = [] \<and> se_ID evt \<noteq> [] then a\<lparr>sa_eventID := se_ID evt\<rparr> else a);
          a = (if se_Usage evt \<noteq> [] \<and> se_Usage evt \<noteq> ''null'' then a\<lparr>sa_sawUsage := True, sa_usageRaw := se_Usage evt\<rparr> else a)
      in case se_Choices evt of
           [] \<Rightarrow> a
         | (delta, reason) # _ \<Rightarrow>
             let a = (if reason \<noteq> None \<and> reason \<noteq> Some [] then a\<lparr>sa_done := True\<rparr> else a)
             in take_text delta a)"

definition flushEvent :: "decoder \<Rightarrow> sseAggregator \<Rightarrow> sseAggregator" where
  "flushEvent dec a =
     (if sa_pending a = [] then a
      else let payload = join_lines (sa_pending a);
               a = a\<lparr>sa_pending := [], sa_pendingBytes := 0\<rparr>
           in if payload = ''[DONE]'' then a\<lparr>sa_done := True\<rparr>
              else case dec payload of None \<Rightarrow> a | Some evt \<Rightarrow> take_event evt a)"

definition data_payload :: "string \<Rightarrow> string" where
  "data_payload line = (let payload = drop 5 line in if prefix '' '' payload then drop 1 payload else payload)"

definition handleLine :: "decoder \<Rightarrow> string \<Rightarrow> sseAggregator \<Rightarrow> sseAggregator" where
  "handleLine dec line a =
     (if trim_space line = [] then flushEvent dec a
      else if prefix ''data:'' line then
        let payload = data_payload line;
            additional = length payload + (if sa_pending a \<noteq> [] then 1 else 0)
        in if sa_pendingBytes a + additional > maxSSEPendingBytes
           then a\<lparr>sa_pending := [], sa_pendingBytes := 0, sa_overflow := True\<rparr>
           else a\<lparr>sa_pending := sa_pending a @ [payload], sa_pendingBytes := sa_pendingBytes a + additional\<rparr>
      else a)"

text \<open>The complete lines of a buffer, each with its newline, and what is left.\<close>

fun cut_lines :: "string \<Rightarrow> string list \<times> string" where
  "cut_lines [] = ([], [])"
| "cut_lines (c # s) =
     (let (ls, r) = cut_lines s in
      if c = LF then ([LF] # ls, r) else (case ls of [] \<Rightarrow> ([], c # r) | l # ls \<Rightarrow> ((c # l) # ls, r)))"

definition trim_newline :: "string \<Rightarrow> string" where
  "trim_newline = drop_right (\<lambda>c. c = CR \<or> c = LF)"

fun feed_lines :: "decoder \<Rightarrow> string \<Rightarrow> string list \<Rightarrow> sseAggregator \<Rightarrow> sseAggregator" where
  "feed_lines dec rest [] a = a\<lparr>sa_lineBuf := rest\<rparr>"
| "feed_lines dec rest (l # ls) a =
     (let a = handleLine dec (trim_newline l) a
      in if sa_overflow a then a\<lparr>sa_lineBuf := []\<rparr> else feed_lines dec rest ls a)"

definition Feed :: "decoder \<Rightarrow> string \<Rightarrow> sseAggregator \<Rightarrow> sseAggregator" where
  "Feed dec p a =
     (if sa_overflow a then a
      else if length (sa_lineBuf a) + length p > sa_lineMax a then a\<lparr>sa_overflow := True, sa_lineBuf := []\<rparr>
      else let (ls, rest) = cut_lines (sa_lineBuf a @ p) in feed_lines dec rest ls a)"

definition Complete :: "sseAggregator \<Rightarrow> bool" where
  "Complete a \<longleftrightarrow> sa_done a \<and> \<not> sa_overflow a"

section \<open>Relaying a stream\<close>

text \<open>
  The environment: decoding a chunk and a usage object, the two events the gateway writes itself, a fresh identifier. The
  marshalled usage event gets the identifier and the counts of prompt, completion, both and cached tokens.
\<close>

record sse_env =
  sv_decode :: decoder
  sv_usage :: "string \<Rightarrow> upstreamUsage option"
  sv_usage_chunk :: "string \<Rightarrow> int \<Rightarrow> int \<Rightarrow> int \<Rightarrow> int \<Rightarrow> string"
  sv_chunk :: "string \<Rightarrow> (string \<times> string) option \<Rightarrow> string option \<Rightarrow> string"
  sv_randomID :: string

definition sse_write :: "string \<Rightarrow> string" where
  "sse_write raw = ''data: '' @ raw @ [LF, LF]"

definition writeUsageChunk :: "sse_env \<Rightarrow> string \<Rightarrow> int \<Rightarrow> int \<Rightarrow> int \<Rightarrow> string" where
  "writeUsageChunk E eid prompt completion cached =
     sse_write (sv_usage_chunk E (if eid = [] then ''chatcmpl-'' @ sv_randomID E else eid)
       prompt completion (wrap64 (prompt + completion)) cached)"

definition len4 :: "string \<Rightarrow> int" where
  "len4 s = int (length s div 4)"

definition is_done_line :: "string \<Rightarrow> bool" where
  "is_done_line line \<longleftrightarrow> prefix ''data: [DONE]'' (trim_space line)"

definition done_event :: string where "done_event = ''data: [DONE]'' @ [LF, LF]"

record relay =
  ry_agg :: sseAggregator
  ry_sawDone :: bool
  ry_out :: "string list"

definition relay_line :: "sse_env \<Rightarrow> int \<Rightarrow> int \<Rightarrow> string \<Rightarrow> relay \<Rightarrow> relay" where
  "relay_line E prompt injectedTokens line r =
     (let agg = Feed (sv_decode E) line (ry_agg r);
          synth = (if is_done_line line \<and> \<not> sa_sawUsage agg \<and> \<not> sa_overflow agg
                   then [writeUsageChunk E (sa_eventID agg) prompt (len4 (sa_content agg)) injectedTokens] else [])
      in \<lparr>ry_agg = agg, ry_sawDone = (ry_sawDone r \<or> is_done_line line), ry_out = ry_out r @ synth @ [line]\<rparr>)"

text \<open>What \<open>ReadBytes\<close> returns until the body ends: the lines, and an unterminated rest.\<close>

definition read_lines :: "string \<Rightarrow> string list" where
  "read_lines body = (let (ls, rest) = cut_lines body in if rest = [] then ls else ls @ [rest])"

record usageEvent = usage_event +
  ue_SessionID :: string
  ue_Provider :: string
  ue_Vendor :: string
  ue_Model :: string
  ue_CacheHitToken :: int
  ue_CacheWriteToken :: int
  ue_Exact :: bool
  ue_InjectedTokens :: int
  ue_SliceHits :: int
  ue_At :: int

definition exact_usage :: "normUsage option \<Rightarrow> usageEvent \<Rightarrow> usageEvent" where
  "exact_usage w ev =
     (case w of None \<Rightarrow> ev
      | Some nu \<Rightarrow> ev\<lparr>ue_TokensIn := nu_Prompt nu, ue_TokensOut := nu_Completion nu, ue_CacheHitToken := nu_CacheHit nu,
                      ue_CacheWriteToken := nu_CacheWrite nu, ue_Exact := True\<rparr>)"

record turn_info =
  ti_session :: string
  ti_request :: chatRequest
  ti_query :: string
  ti_injected :: int
  ti_hits :: int
  ti_provider :: string
  ti_vendor :: string
  ti_now :: int

record stream_reply =
  sr_status :: int
  sr_writes :: "string list"
  sr_session :: "(string \<times> string) list option"
  sr_usage :: "usageEvent option"

definition relay_start :: relay where
  "relay_start = \<lparr>ry_agg = newSSEAggregator maxSSEAggregateBytes, ry_sawDone = False, ry_out = []\<rparr>"

text \<open>
  The reply to an upstream error is the error envelope, a value of the argument; nothing of it is recorded. The fields of the
  usage event the reuse gate and the judge contribute are copied from the request and left out.
\<close>

definition streamThrough :: "sse_env \<Rightarrow> string \<Rightarrow> int \<Rightarrow> string \<Rightarrow> turn_info \<Rightarrow> stream_reply" where
  "streamThrough E api_error status body t =
     (if status \<ge> 400 then \<lparr>sr_status = status, sr_writes = [api_error], sr_session = None, sr_usage = None\<rparr>
      else
        let prompt = wrap64 (len4 (ti_query t) + ti_injected t);
            r = fold (relay_line E prompt (ti_injected t)) (read_lines body) relay_start;
            agg = ry_agg r;
            out = (if ry_sawDone r then ry_out r else ry_out r @ [done_event]);
            session = (if Complete agg then Some (turns (ti_request t) (sa_content agg)) else None);
            tokensOut = (if Complete agg then len4 (sa_content agg) else 0);
            ev = \<lparr>ue_TokensIn = prompt, ue_TokensOut = tokensOut, ue_L3Reuse = False, ue_SessionID = ti_session t,
                  ue_Provider = ti_provider t, ue_Vendor = ti_vendor t, ue_Model = cr_Model (ti_request t),
                  ue_CacheHitToken = 0, ue_CacheWriteToken = 0, ue_Exact = False,
                  ue_InjectedTokens = ti_injected t, ue_SliceHits = ti_hits t, ue_At = ti_now t\<rparr>
        in \<lparr>sr_status = status, sr_writes = out, sr_session = session,
            sr_usage = Some (exact_usage (parseUsageRaw (sv_usage E) (sa_usageRaw agg)) ev)\<rparr>)"

section \<open>Replaying a cached answer\<close>

definition rune_start :: "char \<Rightarrow> bool" where "rune_start c \<longleftrightarrow> \<not> cont (of_char c)"

fun back_off :: "string \<Rightarrow> nat \<Rightarrow> nat" where
  "back_off content 0 = 0"
| "back_off content (Suc n) = (if \<not> rune_start (content ! Suc n) then back_off content n else Suc n)"

definition piece_len :: "string \<Rightarrow> nat" where
  "piece_len content =
     (if 256 \<ge> length content then length content
      else let n = back_off content 256 in if n = 0 then length content else n)"

lemma piece_len_pos: "content \<noteq> [] \<Longrightarrow> 0 < piece_len content"
  by (auto simp: piece_len_def Let_def)

function pieces :: "string \<Rightarrow> string list" where
  "pieces content =
     (if content = [] then [] else take (piece_len content) content # pieces (drop (piece_len content) content))"
  by pat_completeness auto
termination by (relation "measure length") (auto simp: piece_len_pos)

declare pieces.simps [simp del]

text \<open>The deltas of the replayed events with their finish reason: the role, the pieces, an empty last one.\<close>

definition replay_deltas :: "string \<Rightarrow> ((string \<times> string) option \<times> string option) list" where
  "replay_deltas response =
     (Some (''role'', ''assistant''), None) # map (\<lambda>p. (Some (''content'', p), None)) (pieces response) @ [(None, Some ''stop'')]"

definition reply_id :: "string \<Rightarrow> string" where "reply_id sliceID = ''chatcmpl-'' @ sliceID"

definition replayStream :: "sse_env \<Rightarrow> string \<Rightarrow> string \<Rightarrow> string \<Rightarrow> string list" where
  "replayStream E query sliceID response =
     (let eid = reply_id sliceID; cached = len4 response in
      map (\<lambda>(delta, reason). sse_write (sv_chunk E eid delta reason)) (replay_deltas response) @
      [writeUsageChunk E eid (wrap64 (len4 query + cached)) 0 cached, done_event])"

end
