(* ===== verification/Sse_Correct.thy ===== *)
theory Sse_Correct
  imports Sse Compress_Correct
begin

text \<open>
  What the aggregator has read, stated on the stream as a whole: the chunks in which it arrived and the bounds play no
  part in the reference below. A stream that is kept for reuse is kept in full, and a replayed answer is read back.
\<close>

section \<open>Reading a whole stream\<close>

text \<open>The payloads of the finished events, and the data lines of the event still open.\<close>

fun sse_step :: "string \<Rightarrow> string list \<times> string list \<Rightarrow> string list \<times> string list" where
  "sse_step l (ps, pend) =
     (if trim_space l = [] then (if pend = [] then (ps, []) else (ps @ [join_lines pend], []))
      else if prefix ''data:'' l then (ps, pend @ [data_payload l])
      else (ps, pend))"

definition sse_read :: "string list \<Rightarrow> string list \<times> string list" where
  "sse_read ls = fold sse_step (map trim_newline ls) ([], [])"

definition stream_payloads :: "string \<Rightarrow> string list" where
  "stream_payloads s = fst (sse_read (fst (cut_lines s)))"

text \<open>What one event contributes; an event that cannot be decoded contributes nothing.\<close>

definition event_of :: "decoder \<Rightarrow> string \<Rightarrow> sse_event option" where
  "event_of dec p = (if p = ''[DONE]'' then None else dec p)"

definition event_text :: "decoder \<Rightarrow> string \<Rightarrow> string" where
  "event_text dec p = (case event_of dec p of Some e \<Rightarrow> (case se_Choices e of c # _ \<Rightarrow> fst c | [] \<Rightarrow> []) | None \<Rightarrow> [])"

definition event_ends :: "decoder \<Rightarrow> string \<Rightarrow> bool" where
  "event_ends dec p \<longleftrightarrow> p = ''[DONE]'' \<or>
     (case dec p of Some e \<Rightarrow> (case se_Choices e of c # _ \<Rightarrow> snd c \<noteq> None \<and> snd c \<noteq> Some [] | [] \<Rightarrow> False) | None \<Rightarrow> False)"

definition event_usage :: "decoder \<Rightarrow> string \<Rightarrow> string" where
  "event_usage dec p = (case event_of dec p of Some e \<Rightarrow> (if se_Usage e = ''null'' then [] else se_Usage e) | None \<Rightarrow> [])"

definition event_id :: "decoder \<Rightarrow> string \<Rightarrow> string" where
  "event_id dec p = (case event_of dec p of Some e \<Rightarrow> se_ID e | None \<Rightarrow> [])"

definition stream_text :: "decoder \<Rightarrow> string list \<Rightarrow> string" where
  "stream_text dec ps = concat (map (event_text dec) ps)"

definition first_id :: "decoder \<Rightarrow> string list \<Rightarrow> string" where
  "first_id dec ps = (case filter (\<lambda>x. x \<noteq> []) (map (event_id dec) ps) of [] \<Rightarrow> [] | x # _ \<Rightarrow> x)"

definition last_usage :: "decoder \<Rightarrow> string list \<Rightarrow> string" where
  "last_usage dec ps = (case rev (filter (\<lambda>x. x \<noteq> []) (map (event_usage dec) ps)) of [] \<Rightarrow> [] | x # _ \<Rightarrow> x)"

lemmas event_defs = event_of_def event_text_def event_ends_def event_usage_def event_id_def

lemma stream_text_snoc [simp]: "stream_text dec (ps @ [p]) = stream_text dec ps @ event_text dec p"
  by (simp add: stream_text_def)

lemma stream_text_Nil [simp]: "stream_text dec [] = []"
  by (simp add: stream_text_def)

lemma first_id_snoc [simp]:
  "first_id dec (ps @ [p]) = (if first_id dec ps = [] then event_id dec p else first_id dec ps)"
proof (cases "filter (\<lambda>x. x \<noteq> []) (map (event_id dec) ps)")
  case Nil
  then show ?thesis by (simp add: first_id_def)
next
  case (Cons x xs)
  then have "x \<noteq> []" by (metis (mono_tags, lifting) Cons_eq_filterD)
  then show ?thesis using Cons by (simp add: first_id_def)
qed

lemma last_usage_snoc [simp]:
  "last_usage dec (ps @ [p]) = (if event_usage dec p = [] then last_usage dec ps else event_usage dec p)"
  by (simp add: last_usage_def)

lemma last_usage_Nil [simp]: "last_usage dec [] = []" and first_id_Nil [simp]: "first_id dec [] = []"
  by (simp_all add: last_usage_def first_id_def)

section \<open>The state after a number of lines\<close>

definition agrees :: "decoder \<Rightarrow> sseAggregator \<Rightarrow> string list \<times> string list \<Rightarrow> bool" where
  "agrees dec a r \<longleftrightarrow>
     sa_pending a = snd r \<and> sa_pendingBytes a = length (join_lines (snd r)) \<and> sa_content a = stream_text dec (fst r) \<and>
     sa_done a = list_ex (event_ends dec) (fst r) \<and> sa_usageRaw a = last_usage dec (fst r) \<and>
     sa_sawUsage a = (last_usage dec (fst r) \<noteq> []) \<and> sa_eventID a = first_id dec (fst r)"

lemma agrees_new: "agrees dec (newSSEAggregator limit) ([], [])"
  by (simp add: agrees_def newSSEAggregator_def)

lemma join_lines_snoc: "join_lines (ls @ [l]) = (if ls = [] then l else join_lines ls @ LF # l)"
  by (induction ls rule: join_lines.induct) simp_all

lemma take_text_frame [simp]:
  "sa_pending (take_text d a) = sa_pending a" "sa_pendingBytes (take_text d a) = sa_pendingBytes a"
  "sa_done (take_text d a) = sa_done a" "sa_usageRaw (take_text d a) = sa_usageRaw a" "sa_limit (take_text d a) = sa_limit a"
  "sa_sawUsage (take_text d a) = sa_sawUsage a" "sa_eventID (take_text d a) = sa_eventID a"
  "sa_lineMax (take_text d a) = sa_lineMax a" "sa_lineBuf (take_text d a) = sa_lineBuf a"
  by (simp_all add: take_text_def)

lemma take_event_agrees:
  assumes "agrees dec a (ps, [])" "event_of dec p = Some e" "\<not> sa_overflow (take_event e a)"
  shows "agrees dec (take_event e a) (ps @ [p], [])"
proof -
  have p: "p \<noteq> ''[DONE]''" "dec p = Some e" using assms(2) by (auto simp: event_of_def split: if_splits)
  show ?thesis
  proof (cases "se_Choices e")
    case Nil
    then show ?thesis using assms(1) p by (auto simp: agrees_def take_event_def event_defs Let_def)
  next
    case (Cons c cs)
    obtain d reason where c: "c = (d, reason)" by (cases c)
    have "sa_content (take_event e a) = sa_content a @ d"
      using assms(3) Cons c by (auto simp: take_event_def take_text_def Let_def split: if_splits)
    then show ?thesis
      using assms(1) p Cons c unfolding agrees_def
      by (intro conjI; simp add: take_event_def event_defs Let_def; fail | auto simp: take_event_def event_defs Let_def; fail)
  qed
qed

lemma flushEvent_agrees:
  assumes "agrees dec a (ps, pend)" "\<not> sa_overflow (flushEvent dec a)" "pend \<noteq> []"
  shows "agrees dec (flushEvent dec a) (ps @ [join_lines pend], [])"
proof -
  let ?a = "a\<lparr>sa_pending := [], sa_pendingBytes := 0\<rparr>" and ?p = "join_lines pend"
  have pend: "sa_pending a = pend" using assms(1) by (simp add: agrees_def)
  have a: "agrees dec ?a (ps, [])" using assms(1) by (simp add: agrees_def)
  show ?thesis
  proof (cases "event_of dec ?p")
    case None
    then show ?thesis
      using a pend assms(3)
      by (auto simp: flushEvent_def agrees_def event_text_def event_ends_def event_usage_def event_id_def event_of_def split: if_splits)
  next
    case (Some e)
    then have "?p \<noteq> ''[DONE]''" "dec ?p = Some e" by (auto simp: event_of_def split: if_splits)
    then have f: "flushEvent dec a = take_event e ?a" using pend assms(3) by (simp add: flushEvent_def)
    show ?thesis using take_event_agrees [OF a Some] assms(2) by (simp add: f)
  qed
qed

lemma handleLine_agrees:
  assumes "agrees dec a r" "\<not> sa_overflow (handleLine dec l a)"
  shows "agrees dec (handleLine dec l a) (sse_step l r)"
proof -
  obtain ps pend where r: "r = (ps, pend)" by (cases r)
  show ?thesis
  proof (cases "trim_space l = []")
    case True
    then have h: "handleLine dec l a = flushEvent dec a" by (simp add: handleLine_def)
    show ?thesis
    proof (cases "pend = []")
      case True
      then have "sa_pending a = []" using assms(1) r by (simp add: agrees_def)
      then show ?thesis using assms(1) r h True \<open>trim_space l = []\<close> by (simp add: flushEvent_def)
    next
      case False
      then show ?thesis using flushEvent_agrees [of dec a ps pend] assms r h \<open>trim_space l = []\<close> by simp
    qed
  next
    case False
    show ?thesis
    proof (cases "prefix ''data:'' l")
      case True
      have "\<not> sa_pendingBytes a + (length (data_payload l) + (if sa_pending a \<noteq> [] then 1 else 0)) > maxSSEPendingBytes"
        using assms(2) False True by (simp add: handleLine_def Let_def split: if_splits)
      then have h: "handleLine dec l a = a\<lparr>sa_pending := sa_pending a @ [data_payload l],
          sa_pendingBytes := sa_pendingBytes a + (length (data_payload l) + (if sa_pending a \<noteq> [] then 1 else 0))\<rparr>"
        using False True by (simp add: handleLine_def Let_def)
      show ?thesis using assms(1) False True unfolding h by (simp add: r agrees_def join_lines_snoc)
    next
      case False
      then show ?thesis using assms(1) \<open>trim_space l \<noteq> []\<close> by (simp add: r handleLine_def)
    qed
  qed
qed

section \<open>Chunks and lines\<close>

lemma take_event_frame:
  "sa_limit (take_event e a) = sa_limit a \<and> sa_lineMax (take_event e a) = sa_lineMax a \<and> sa_lineBuf (take_event e a) = sa_lineBuf a"
  by (simp add: take_event_def Let_def split: list.split prod.split)

lemma flushEvent_frame:
  "sa_limit (flushEvent dec a) = sa_limit a \<and> sa_lineMax (flushEvent dec a) = sa_lineMax a \<and> sa_lineBuf (flushEvent dec a) = sa_lineBuf a"
  by (simp add: flushEvent_def Let_def take_event_frame split: option.split)

lemma handleLine_frame [simp]:
  "sa_limit (handleLine dec l a) = sa_limit a" "sa_lineMax (handleLine dec l a) = sa_lineMax a"
  "sa_lineBuf (handleLine dec l a) = sa_lineBuf a"
  by (simp_all add: handleLine_def Let_def flushEvent_frame)

lemma take_event_content: "length (sa_content a) \<le> sa_limit a \<Longrightarrow> length (sa_content (take_event e a)) \<le> sa_limit a"
  by (simp add: take_event_def take_text_def Let_def split: list.split prod.split)

lemma flushEvent_content: "length (sa_content a) \<le> sa_limit a \<Longrightarrow> length (sa_content (flushEvent dec a)) \<le> sa_limit a"
  using take_event_content [of "a\<lparr>sa_pending := [], sa_pendingBytes := 0\<rparr>"]
  by (simp add: flushEvent_def Let_def split: option.split)

lemma handleLine_content: "length (sa_content a) \<le> sa_limit a \<Longrightarrow> length (sa_content (handleLine dec l a)) \<le> sa_limit a"
  by (simp add: handleLine_def Let_def flushEvent_content)

lemma take_event_pending: "sa_pendingBytes (take_event e a) = sa_pendingBytes a"
  by (simp add: take_event_def Let_def split: list.split prod.split)

lemma handleLine_pending: "sa_pendingBytes a \<le> maxSSEPendingBytes \<Longrightarrow> sa_pendingBytes (handleLine dec l a) \<le> maxSSEPendingBytes"
  by (simp add: handleLine_def flushEvent_def Let_def take_event_pending split: option.split)

text \<open>The bounds of the aggregator.\<close>

definition bounded :: "sseAggregator \<Rightarrow> bool" where
  "bounded a \<longleftrightarrow> length (sa_lineBuf a) \<le> sa_lineMax a \<and> sa_pendingBytes a \<le> maxSSEPendingBytes \<and> length (sa_content a) \<le> sa_limit a"

lemma cut_lines_rest: "length (snd (cut_lines s)) \<le> length s"
  by (induction s) (auto split: prod.splits list.splits)

lemma feed_lines_bounded:
  assumes "length rest \<le> sa_lineMax a" "sa_pendingBytes a \<le> maxSSEPendingBytes" "length (sa_content a) \<le> sa_limit a"
  shows "bounded (feed_lines dec rest ls a) \<and> sa_limit (feed_lines dec rest ls a) = sa_limit a \<and> sa_lineMax (feed_lines dec rest ls a) = sa_lineMax a"
  using assms
proof (induction ls arbitrary: a)
  case Nil
  then show ?case by (simp add: bounded_def)
next
  case (Cons l ls)
  let ?a = "handleLine dec (trim_newline l) a"
  have a: "sa_pendingBytes ?a \<le> maxSSEPendingBytes" "length (sa_content ?a) \<le> sa_limit ?a"
    using Cons.prems handleLine_pending handleLine_content by simp_all
  show ?case
  proof (cases "sa_overflow ?a")
    case True
    then show ?thesis using a by (simp add: bounded_def)
  next
    case False
    then show ?thesis using Cons.IH [of ?a] a Cons.prems(1) by simp
  qed
qed

lemma Feed_bounded:
  assumes "bounded a" shows "bounded (Feed dec p a) \<and> sa_limit (Feed dec p a) = sa_limit a \<and> sa_lineMax (Feed dec p a) = sa_lineMax a"
proof (cases "sa_overflow a \<or> length (sa_lineBuf a) + length p > sa_lineMax a")
  case True
  then show ?thesis using assms by (auto simp: Feed_def bounded_def)
next
  case False
  then have f: "Feed dec p a = feed_lines dec (snd (cut_lines (sa_lineBuf a @ p))) (fst (cut_lines (sa_lineBuf a @ p))) a"
    by (simp add: Feed_def case_prod_beta)
  have "length (snd (cut_lines (sa_lineBuf a @ p))) \<le> sa_lineMax a"
    using cut_lines_rest [of "sa_lineBuf a @ p"] False by simp
  from feed_lines_bounded [OF this, of dec "fst (cut_lines (sa_lineBuf a @ p))"] show ?thesis
    unfolding f using assms unfolding bounded_def by argo
qed

lemma bounded_new [simp]: "bounded (newSSEAggregator limit)"
  by (simp add: bounded_def newSSEAggregator_def)

text \<open>An overflow is final.\<close>

lemma take_event_overflow: "sa_overflow a \<Longrightarrow> sa_overflow (take_event e a)"
  by (simp add: take_event_def take_text_def Let_def split: list.split prod.split)

lemma handleLine_overflow: "sa_overflow a \<Longrightarrow> sa_overflow (handleLine dec l a)"
  by (simp add: handleLine_def flushEvent_def Let_def take_event_overflow split: option.split)

lemma Feed_overflow: "sa_overflow a \<Longrightarrow> sa_overflow (fold (Feed dec) ps a)"
  by (induction ps arbitrary: a) (simp_all add: Feed_def)

text \<open>Cutting a stream into lines does not depend on the chunks.\<close>

lemma cut_lines_append:
  "cut_lines (s @ t) = (let (ls, r) = cut_lines s; (ls', r') = cut_lines (r @ t) in (ls @ ls', r'))"
proof (induction s)
  case (Cons c s)
  obtain ls r where s: "cut_lines s = (ls, r)" by force
  obtain ls' r' where t: "cut_lines (r @ t) = (ls', r')" by force
  have st: "cut_lines (s @ t) = (ls @ ls', r')" using Cons.IH s t by simp
  show ?case
  proof (cases "c = LF")
    case True
    then show ?thesis using s t st by simp
  next
    case False
    then show ?thesis using s t st by (cases ls) (simp_all split: list.split)
  qed
qed simp

lemma feed_lines_reads:
  assumes "agrees dec a r" "\<not> sa_overflow (feed_lines dec rest ls a)"
  shows "agrees dec (feed_lines dec rest ls a) (fold sse_step (map trim_newline ls) r) \<and> sa_lineBuf (feed_lines dec rest ls a) = rest"
  using assms
proof (induction ls arbitrary: a r)
  case Nil
  then show ?case by (simp add: agrees_def)
next
  case (Cons l ls)
  let ?a = "handleLine dec (trim_newline l) a"
  have no: "\<not> sa_overflow ?a" using Cons.prems(2) by (auto simp: Let_def split: if_splits)
  then have "\<not> sa_overflow (feed_lines dec rest ls ?a)" using Cons.prems(2) by simp
  from Cons.IH [OF handleLine_agrees [OF Cons.prems(1) no] this] show ?case using no by simp
qed

text \<open>The state is a function of the bytes read so far.\<close>

definition has_read :: "decoder \<Rightarrow> string \<Rightarrow> sseAggregator \<Rightarrow> bool" where
  "has_read dec s a \<longleftrightarrow> agrees dec a (sse_read (fst (cut_lines s))) \<and> sa_lineBuf a = snd (cut_lines s)"

lemma Feed_reads:
  assumes "has_read dec s a" "\<not> sa_overflow (Feed dec p a)"
  shows "has_read dec (s @ p) (Feed dec p a)"
proof -
  obtain ls r where s: "cut_lines s = (ls, r)" by force
  obtain ls' r' where p: "cut_lines (r @ p) = (ls', r')" by force
  have sp: "cut_lines (s @ p) = (ls @ ls', r')" using cut_lines_append [of s p] s p by simp
  have buf: "sa_lineBuf a = r" using assms(1) s by (simp add: has_read_def)
  have "\<not> sa_overflow a"
  proof
    assume "sa_overflow a"
    then have "sa_overflow (Feed dec p a)" by (simp add: Feed_def)
    then show False using assms(2) by simp
  qed
  moreover have "\<not> length (sa_lineBuf a) + length p > sa_lineMax a"
  proof
    assume "length (sa_lineBuf a) + length p > sa_lineMax a"
    then have "sa_overflow (Feed dec p a)" by (simp add: Feed_def)
    then show False using assms(2) by simp
  qed
  ultimately have f: "Feed dec p a = feed_lines dec r' ls' a" by (simp add: Feed_def buf p)
  show ?thesis
    using feed_lines_reads [of dec a "sse_read ls" r' ls'] assms s unfolding f has_read_def sp
    by (simp add: sse_read_def)
qed

lemma fold_Feed_reads:
  "has_read dec s a \<Longrightarrow> \<not> sa_overflow (fold (Feed dec) ps a) \<Longrightarrow> has_read dec (s @ concat ps) (fold (Feed dec) ps a)"
proof (induction ps arbitrary: s a)
  case (Cons p ps)
  have "\<not> sa_overflow (Feed dec p a)" using Cons.prems(2) Feed_overflow [of "Feed dec p a"] by auto
  from Cons.IH [OF Feed_reads [OF Cons.prems(1) this]] Cons.prems(2) show ?case by simp
qed simp

lemma has_read_new: "has_read dec [] (newSSEAggregator limit)"
  by (simp add: has_read_def sse_read_def agrees_new) (simp add: newSSEAggregator_def)

lemmas aggregated = fold_Feed_reads [OF has_read_new, simplified]

text \<open>The chunks of a stream do not matter: without an overflow, two ways to cut it leave the same text, end and usage.\<close>

lemma chunks_do_not_matter:
  assumes "concat ps = concat qs"
    and "\<not> sa_overflow (fold (Feed dec) ps (newSSEAggregator limit))" "\<not> sa_overflow (fold (Feed dec) qs (newSSEAggregator limit))"
  shows "sa_content (fold (Feed dec) ps (newSSEAggregator limit)) = sa_content (fold (Feed dec) qs (newSSEAggregator limit))
       \<and> Complete (fold (Feed dec) ps (newSSEAggregator limit)) = Complete (fold (Feed dec) qs (newSSEAggregator limit))"
  using aggregated [OF assms(2)] aggregated [OF assms(3)] assms by (simp add: has_read_def agrees_def Complete_def)

end
