(* ===== verification/Sse_Props.thy ===== *)
theory Sse_Props
  imports Sse_Correct
begin

text \<open>
  The relay and the replay: what the client gets, what is kept for reuse and metered, and that a replayed answer, relayed by
  a further gateway, is read back.
\<close>

section \<open>Lines\<close>

definition complete_line :: "string \<Rightarrow> bool" where
  "complete_line l \<longleftrightarrow> (\<exists>x. l = x @ [LF] \<and> LF \<notin> set x)"

lemma cut_lines_spec:
  "cut_lines s = (ls, r) \<Longrightarrow> (\<forall>l\<in>set ls. complete_line l) \<and> LF \<notin> set r \<and> concat ls @ r = s"
proof (induction s arbitrary: ls r)
  case (Cons c s)
  obtain ks q where s: "cut_lines s = (ks, q)" by force
  note IH = Cons.IH [OF s]
  have one: "complete_line [LF]" by (auto simp: complete_line_def)
  have more: "complete_line (c # k)" if "complete_line k" "c \<noteq> LF" for k
    using that unfolding complete_line_def by (metis append_Cons set_ConsD)
  show ?case using Cons.prems s IH one more by (cases ks) (auto split: if_splits)
qed simp

lemma cut_no_LF: "LF \<notin> set r \<Longrightarrow> cut_lines r = ([], r)"
  by (induction r) auto

lemma cut_complete: "complete_line l \<Longrightarrow> cut_lines l = ([l], [])"
proof -
  have "cut_lines (x @ [LF]) = ([x @ [LF]], [])" if "LF \<notin> set x" for x
    using that by (induction x) auto
  then show "complete_line l \<Longrightarrow> ?thesis" by (auto simp: complete_line_def)
qed

lemma cut_concat: "\<forall>l\<in>set ls. complete_line l \<Longrightarrow> LF \<notin> set r \<Longrightarrow> cut_lines (concat ls @ r) = (ls, r)"
proof (induction ls)
  case (Cons l ls)
  then show ?case using cut_lines_append [of l "concat ls @ r"] cut_complete [of l] by simp
qed (simp add: cut_no_LF)

lemma read_lines_concat: "concat (read_lines body) = body"
  using cut_lines_spec [of body] by (auto simp: read_lines_def split: prod.split)

section \<open>Streams within the bounds\<close>

definition fits :: "decoder \<Rightarrow> nat \<Rightarrow> string list \<times> string list \<Rightarrow> bool" where
  "fits dec limit r \<longleftrightarrow> length (join_lines (snd r)) \<le> maxSSEPendingBytes \<and> length (stream_text dec (fst r)) \<le> limit"

lemma take_event_fits:
  assumes "\<not> sa_overflow a" "event_of dec p = Some e" "length (sa_content a @ event_text dec p) \<le> sa_limit a"
  shows "\<not> sa_overflow (take_event e a)"
proof (cases "se_Choices e")
  case Nil
  then show ?thesis using assms(1) by (simp add: take_event_def Let_def)
next
  case (Cons c cs)
  then have "event_text dec p = fst c" using assms(2) by (simp add: event_text_def)
  then show ?thesis using assms Cons by (cases c) (simp add: take_event_def take_text_def Let_def)
qed

lemma handleLine_fits:
  assumes "agrees dec a r" "\<not> sa_overflow a" "fits dec (sa_limit a) (sse_step l r)"
  shows "\<not> sa_overflow (handleLine dec l a)"
proof -
  obtain ps pend where r: "r = (ps, pend)" by (cases r)
  have pend: "sa_pending a = pend" "sa_content a = stream_text dec ps" "sa_pendingBytes a = length (join_lines pend)"
    using assms(1) r by (simp_all add: agrees_def)
  show ?thesis
  proof (cases "trim_space l = []")
    case True
    let ?a = "a\<lparr>sa_pending := [], sa_pendingBytes := 0\<rparr>" and ?p = "join_lines pend"
    have h: "handleLine dec l a = flushEvent dec a" using True by (simp add: handleLine_def)
    show ?thesis
    proof (cases "pend = []")
      case True
      then show ?thesis using assms(2) pend h by (simp add: flushEvent_def)
    next
      case False
      then have fit: "length (stream_text dec ps @ event_text dec ?p) \<le> sa_limit a"
        using assms(3) r True by (simp add: fits_def)
      show ?thesis
      proof (cases "event_of dec ?p")
        case None
        then show ?thesis using assms(2) pend h False by (auto simp: flushEvent_def Let_def event_of_def split: if_splits)
      next
        case (Some e)
        then have "?p \<noteq> ''[DONE]''" "dec ?p = Some e" by (auto simp: event_of_def split: if_splits)
        then have "flushEvent dec a = take_event e ?a" using pend False by (simp add: flushEvent_def)
        then show ?thesis using take_event_fits [of ?a dec ?p e] Some assms(2) fit pend h by simp
      qed
    qed
  next
    case False
    then show ?thesis
      using assms(2,3) pend by (simp add: r fits_def handleLine_def Let_def join_lines_snoc split: if_splits)
  qed
qed

lemma Feed_complete_line:
  assumes "complete_line l" "sa_lineBuf a = []" "\<not> sa_overflow a" "length l \<le> sa_lineMax a"
    "agrees dec a r" "fits dec (sa_limit a) (sse_step (trim_newline l) r)"
  shows "\<not> sa_overflow (Feed dec l a)"
proof -
  have "Feed dec l a = feed_lines dec [] [l] a" using assms cut_complete by (simp add: Feed_def)
  then show ?thesis using handleLine_fits [OF assms(5,3,6)] by simp
qed

text \<open>A stream read line by line stays within the bounds when its lines, its events and its text do.\<close>

definition stream_fits :: "decoder \<Rightarrow> nat \<Rightarrow> string \<Rightarrow> bool" where
  "stream_fits dec limit body \<longleftrightarrow>
     (\<forall>l\<in>set (read_lines body). length l \<le> maxSSELineBytes) \<and>
     (\<forall>k\<le>length (fst (cut_lines body)). fits dec limit (sse_read (take k (fst (cut_lines body)))))"

lemma fold_Feed_frame:
  "bounded a \<Longrightarrow> bounded (fold (Feed dec) ps a) \<and> sa_limit (fold (Feed dec) ps a) = sa_limit a \<and> sa_lineMax (fold (Feed dec) ps a) = sa_lineMax a"
  by (induction ps arbitrary: a) (simp_all add: Feed_bounded)

lemma lines_within_bounds:
  assumes "\<forall>l\<in>set ls. complete_line l \<and> length l \<le> maxSSELineBytes" "\<forall>k\<le>length ls. fits dec limit (sse_read (take k ls))"
  shows "\<not> sa_overflow (fold (Feed dec) ls (newSSEAggregator limit))"
  using assms
proof (induction ls rule: rev_induct)
  case Nil
  then show ?case by (simp add: newSSEAggregator_def)
next
  case (snoc l ls)
  let ?a = "fold (Feed dec) ls (newSSEAggregator limit)"
  have fit: "\<forall>k\<le>length ls. fits dec limit (sse_read (take k ls))"
  proof (intro allI impI)
    fix k assume "k \<le> length ls"
    then show "fits dec limit (sse_read (take k ls))" using snoc.prems(2) [rule_format, of k] by simp
  qed
  have ok: "\<not> sa_overflow ?a" using snoc.IH [OF _ fit] snoc.prems(1) by simp
  have "cut_lines (concat ls) = (ls, [])" using cut_concat [of ls "[]"] snoc.prems(1) by simp
  then have a: "agrees dec ?a (sse_read ls)" "sa_lineBuf ?a = []" using aggregated [OF ok] by (simp_all add: has_read_def)
  have frame: "sa_limit ?a = limit" "sa_lineMax ?a = maxSSELineBytes"
    using fold_Feed_frame [OF bounded_new, of dec ls limit] by (simp_all add: newSSEAggregator_def)
  have "fits dec limit (sse_step (trim_newline l) (sse_read ls))"
    using snoc.prems(2) [rule_format, of "Suc (length ls)"] by (simp add: sse_read_def)
  then show ?case
    using Feed_complete_line [of l ?a dec "sse_read ls"] ok a frame snoc.prems(1) by simp
qed

lemma within_bounds:
  assumes "stream_fits dec limit body"
  shows "\<not> sa_overflow (fold (Feed dec) (read_lines body) (newSSEAggregator limit))"
proof -
  obtain ls r where cut: "cut_lines body = (ls, r)" by force
  note spec = cut_lines_spec [OF cut]
  let ?a = "fold (Feed dec) ls (newSSEAggregator limit)"
  have len: "\<forall>l\<in>set (read_lines body). length l \<le> maxSSELineBytes" using assms by (simp add: stream_fits_def)
  have ok: "\<not> sa_overflow ?a"
    using lines_within_bounds [of ls dec limit] assms spec cut by (auto simp: stream_fits_def read_lines_def split: if_splits)
  show ?thesis
  proof (cases "r = []")
    case True
    then show ?thesis using ok cut by (simp add: read_lines_def)
  next
    case False
    have "sa_lineBuf ?a = []"
      using aggregated [OF ok] cut_concat [of ls "[]"] spec by (simp add: has_read_def)
    moreover have "sa_lineMax ?a = maxSSELineBytes"
      using fold_Feed_frame [OF bounded_new, of dec ls limit] by (simp add: newSSEAggregator_def)
    moreover have "length r \<le> maxSSELineBytes" using len False cut by (simp add: read_lines_def)
    ultimately have "\<not> sa_overflow (Feed dec r ?a)" using ok spec cut_no_LF [of r] by (simp add: Feed_def)
    then show ?thesis using False cut by (simp add: read_lines_def)
  qed
qed

section \<open>The relay\<close>

lemma relay_agg: "ry_agg (fold (relay_line E p i) ls r) = fold (Feed (sv_decode E)) ls (ry_agg r)"
  by (induction ls arbitrary: r) (simp_all add: relay_line_def Let_def)

lemma relay_done: "ry_sawDone (fold (relay_line E p i) ls r) \<longleftrightarrow> ry_sawDone r \<or> list_ex is_done_line ls"
  by (induction ls arbitrary: r) (auto simp: relay_line_def Let_def)

text \<open>The gateway writes before a line nothing, or one usage event when the line ends the stream.\<close>

definition inserted :: "sse_env \<Rightarrow> int \<Rightarrow> int \<Rightarrow> string \<Rightarrow> string list \<Rightarrow> bool" where
  "inserted E prompt injectedTokens line ws \<longleftrightarrow>
     ws = [] \<or> is_done_line line \<and> (\<exists>eid completion. ws = [writeUsageChunk E eid prompt completion injectedTokens])"

lemma relay_out:
  "\<exists>wss. list_all2 (inserted E p i) ls wss \<and>
     ry_out (fold (relay_line E p i) ls r) = ry_out r @ concat (map2 (\<lambda>ws l. ws @ [l]) wss ls)"
proof (induction ls arbitrary: r)
  case (Cons l ls)
  let ?r = "relay_line E p i l r"
  have "\<exists>ws. inserted E p i l ws \<and> ry_out ?r = ry_out r @ ws @ [l]"
    by (cases "is_done_line l \<and> \<not> sa_sawUsage (Feed (sv_decode E) l (ry_agg r)) \<and> \<not> sa_overflow (Feed (sv_decode E) l (ry_agg r))")
      (auto simp: relay_line_def Let_def inserted_def)
  then obtain ws where ws: "inserted E p i l ws" "ry_out ?r = ry_out r @ ws @ [l]" by blast
  obtain wss where "list_all2 (inserted E p i) ls wss"
      "ry_out (fold (relay_line E p i) ls ?r) = ry_out ?r @ concat (map2 (\<lambda>ws l. ws @ [l]) wss ls)"
    using Cons.IH by blast
  then show ?case using ws by (intro exI [of _ "ws # wss"]) simp
qed simp

abbreviation prompt_tokens :: "turn_info \<Rightarrow> int" where
  "prompt_tokens t \<equiv> wrap64 (len4 (ti_query t) + ti_injected t)"

lemma streamThrough_ok:
  assumes "status < 400"
  shows "sr_session (streamThrough E err status body t) =
      (let a = fold (Feed (sv_decode E)) (read_lines body) (newSSEAggregator maxSSEAggregateBytes)
       in if Complete a then Some (turns (ti_request t) (sa_content a)) else None)"
    and "sr_writes (streamThrough E err status body t) =
      (let r = fold (relay_line E (prompt_tokens t) (ti_injected t)) (read_lines body) relay_start
       in if list_ex is_done_line (read_lines body) then ry_out r else ry_out r @ [done_event])"
  using assms by (simp_all add: streamThrough_def Let_def relay_agg relay_done relay_start_def)

text \<open>
  The relay adds nothing but usage events in front of a line that ends the stream, and ends the stream itself exactly when
  the upstream did not.
\<close>

lemma relay_verbatim:
  assumes "status < 400"
  shows "\<exists>wss. list_all2 (inserted E (prompt_tokens t) (ti_injected t)) (read_lines body) wss \<and>
     sr_writes (streamThrough E err status body t) =
       concat (map2 (\<lambda>ws l. ws @ [l]) wss (read_lines body)) @ (if list_ex is_done_line (read_lines body) then [] else [done_event])"
  using relay_out [of E "prompt_tokens t" "ti_injected t" "read_lines body" relay_start] assms
  by (auto simp: streamThrough_ok Let_def relay_start_def)

section \<open>What is kept\<close>

lemma read_whole:
  assumes "\<not> sa_overflow (fold (Feed dec) (read_lines body) (newSSEAggregator limit))"
  shows "agrees dec (fold (Feed dec) (read_lines body) (newSSEAggregator limit)) (sse_read (fst (cut_lines body)))"
  using aggregated [OF assms] by (simp add: has_read_def read_lines_concat)

lemma kept_iff:
  assumes "status < 400" "stream_fits (sv_decode E) maxSSEAggregateBytes body"
  shows "sr_session (streamThrough E err status body t) =
     (if list_ex (event_ends (sv_decode E)) (stream_payloads body)
      then Some (turns (ti_request t) (stream_text (sv_decode E) (stream_payloads body))) else None)"
  using read_whole [OF within_bounds [OF assms(2)]] within_bounds [OF assms(2)]
  by (simp add: streamThrough_ok [OF assms(1)] Let_def Complete_def agrees_def stream_payloads_def)

text \<open>
  C37. A relayed stream is kept for reuse only in full: the text that is recorded for the session is the text of all events of
  the stream, one of them ended it, and it is at most one MiB long.
\<close>

theorem kept_stream_is_whole:
  assumes "status < 400" "sr_session (streamThrough E err status body t) = Some ts"
  shows "ts = turns (ti_request t) (stream_text (sv_decode E) (stream_payloads body)) \<and>
    list_ex (event_ends (sv_decode E)) (stream_payloads body) \<and>
    length (stream_text (sv_decode E) (stream_payloads body)) \<le> maxSSEAggregateBytes"
proof -
  let ?a = "fold (Feed (sv_decode E)) (read_lines body) (newSSEAggregator maxSSEAggregateBytes)"
  have c: "Complete ?a" "ts = turns (ti_request t) (sa_content ?a)"
    using assms(2) by (auto simp: streamThrough_ok [OF assms(1)] Let_def split: if_splits)
  have r: "agrees (sv_decode E) ?a (sse_read (fst (cut_lines body)))" using read_whole c(1) by (simp add: Complete_def)
  have "bounded ?a" "sa_limit ?a = maxSSEAggregateBytes"
    using fold_Feed_frame [OF bounded_new, of "sv_decode E" "read_lines body" maxSSEAggregateBytes] by (simp_all add: newSSEAggregator_def)
  then have "length (sa_content ?a) \<le> maxSSEAggregateBytes" by (simp add: bounded_def)
  then show ?thesis using r c by (simp add: agrees_def stream_payloads_def Complete_def)
qed

section \<open>Replay\<close>

lemma back_off_le: "back_off content n \<le> n"
  by (induction n) auto

lemma back_off_start: "back_off content n = 0 \<or> rune_start (content ! back_off content n)"
  by (induction n) auto

lemma back_off_max: "m \<le> n \<Longrightarrow> rune_start (content ! m) \<Longrightarrow> m \<le> back_off content n"
  by (induction n) (auto simp: le_Suc_eq)

lemma valid_rest: "utf8_valid (a @ b) \<Longrightarrow> utf8_valid a \<Longrightarrow> utf8_valid b"
proof (induction a rule: length_induct)
  case (1 a)
  show ?case
  proof (cases "a = []")
    case False
    then obtain p q where a: "a = p @ q" "rune_seq (map of_char p)" "utf8_valid q" "p \<noteq> []" using utf8_first "1.prems"(2) by blast
    then have "utf8_valid (q @ b)" using "1.prems"(1) utf8_rune [OF a(2), of "q @ b"] by simp
    moreover have "length q < length a" using a by simp
    ultimately show ?thesis using "1.IH" a(3) by blast
  qed (use 1 in simp)
qed

lemma start_near:
  assumes "utf8_valid s" "k < length s" shows "\<exists>m. m \<le> k \<and> k \<le> m + 3 \<and> rune_start (s ! m)"
proof -
  obtain j where j: "j \<le> 3" "j \<le> k" "valid_bytes (take (k - j) (map of_char s))"
    using cut_front [of "map of_char s" k] assms by (auto simp: utf8_valid_def)
  let ?m = "k - j"
  have "utf8_valid (take ?m s @ drop ?m s)" "utf8_valid (take ?m s)" using assms(1) j(3) by (simp_all add: utf8_valid_def take_map)
  then have "utf8_valid (drop ?m s)" by (rule valid_rest)
  moreover have ne: "drop ?m s \<noteq> []" using assms(2) by simp
  ultimately obtain p q where p: "drop ?m s = p @ q" "rune_seq (map of_char p)" "p \<noteq> []" using utf8_first by blast
  have "hd (drop ?m s) = s ! ?m" using ne by (simp add: hd_drop_conv_nth)
  then have "hd p = s ! ?m" using p by simp
  then have "\<not> cont (of_char (s ! ?m))" using rune_seq_shape [OF p(2)] p(3) by (simp add: hd_map)
  then show ?thesis using j by (intro exI [of _ ?m]) (simp add: rune_start_def)
qed

lemma piece_ok:
  assumes "utf8_valid s" "s \<noteq> []"
  shows "utf8_valid (take (piece_len s) s) \<and> utf8_valid (drop (piece_len s) s) \<and> piece_len s \<le> 256"
proof (cases "length s \<le> 256")
  case True
  then show ?thesis using assms by (simp add: piece_len_def)
next
  case False
  let ?n = "back_off s 256"
  obtain m where "m \<le> 256" "256 \<le> m + 3" "rune_start (s ! m)" using start_near [OF assms(1), of 256] False by auto
  then have n: "0 < ?n" using back_off_max [of m 256 s] by simp
  then have "rune_start (s ! ?n)" using back_off_start [of s 256] by simp
  moreover have "hd (drop ?n s) = s ! ?n" using False back_off_le [of s 256] by (simp add: hd_drop_conv_nth)
  ultimately have "utf8_valid (take ?n s) \<and> utf8_valid (drop ?n s)"
    using utf8_split [of "take ?n s" "drop ?n s"] assms(1) by (simp add: rune_start_def)
  then show ?thesis using False n back_off_le [of s 256] by (simp add: piece_len_def Let_def)
qed

lemma concat_pieces: "concat (pieces s) = s"
  by (induction s rule: pieces.induct) (subst pieces.simps, simp)

lemma pieces_valid: "utf8_valid s \<Longrightarrow> p \<in> set (pieces s) \<Longrightarrow> utf8_valid p \<and> length p \<le> 256 \<and> p \<noteq> []"
proof (induction s rule: pieces.induct)
  case (1 s)
  then have "s \<noteq> []" by (auto simp: pieces.simps [of "[]"])
  then have "p = take (piece_len s) s \<or> p \<in> set (pieces (drop (piece_len s) s))"
    using "1.prems"(2) by (simp add: pieces.simps [of s])
  then show ?case
    using "1.IH" \<open>s \<noteq> []\<close> piece_ok [OF "1.prems"(1) \<open>s \<noteq> []\<close>] piece_len_pos [of s] by auto
qed

text \<open>The text a delta carries.\<close>

definition delta_text :: "(string \<times> string) option \<Rightarrow> string" where
  "delta_text d = (case d of Some (k, v) \<Rightarrow> if k = ''content'' then v else [] | None \<Rightarrow> [])"

text \<open>
  What the codec has to do for the events of one replayed answer: a marshalled event is one line, well within the limit of a
  line, and decoding it returns the identifier, the text, the finish reason and the usage object.
\<close>

definition one_line :: "string \<Rightarrow> bool" where
  "one_line raw \<longleftrightarrow> LF \<notin> set raw \<and> CR \<notin> set raw \<and> raw \<noteq> ''[DONE]'' \<and> length raw \<le> 65000"

definition replay_codec :: "sse_env \<Rightarrow> string \<Rightarrow> string \<Rightarrow> string \<Rightarrow> bool" where
  "replay_codec E query sliceID response \<longleftrightarrow>
     (let eid = reply_id sliceID; cached = len4 response; prompt = wrap64 (len4 query + cached);
          u = sv_usage_chunk E eid prompt 0 (wrap64 (prompt + 0)) cached
      in (\<forall>(d, f)\<in>set (replay_deltas response).
            one_line (sv_chunk E eid d f) \<and>
            sv_decode E (sv_chunk E eid d f) = Some \<lparr>se_ID = eid, se_Choices = [(delta_text d, f)], se_Usage = []\<rparr>) \<and>
         one_line u \<and> (case sv_decode E u of None \<Rightarrow> False | Some e \<Rightarrow> se_ID e = eid \<and> se_Choices e = []))"

definition replay_payloads :: "sse_env \<Rightarrow> string \<Rightarrow> string \<Rightarrow> string \<Rightarrow> string list" where
  "replay_payloads E query sliceID response =
     (let eid = reply_id sliceID; cached = len4 response; prompt = wrap64 (len4 query + cached)
      in map (\<lambda>(d, f). sv_chunk E eid d f) (replay_deltas response) @
         [sv_usage_chunk E eid prompt 0 (wrap64 (prompt + 0)) cached, ''[DONE]''])"

lemma reply_id_nonempty [simp]: "reply_id sliceID \<noteq> []"
  by (simp add: reply_id_def)

lemma replay_writes: "replayStream E query sliceID response = map sse_write (replay_payloads E query sliceID response)"
  by (simp add: replayStream_def replay_payloads_def Let_def writeUsageChunk_def done_event_def sse_write_def case_prod_beta)

definition write_lines :: "string \<Rightarrow> string list" where
  "write_lines raw = [''data: '' @ raw @ [LF], [LF]]"

lemma concat_writes: "concat (map sse_write rs) = concat (concat (map write_lines rs))"
  by (induction rs) (simp_all add: sse_write_def write_lines_def)

lemma cut_writes: "\<forall>r\<in>set rs. LF \<notin> set r \<Longrightarrow> cut_lines (concat (map sse_write rs)) = (concat (map write_lines rs), [])"
proof -
  assume *: "\<forall>r\<in>set rs. LF \<notin> set r"
  have "complete_line l" if l: "l \<in> set (concat (map write_lines rs))" for l
  proof -
    obtain r where r: "r \<in> set rs" "l \<in> set (write_lines r)" using l by auto
    then consider "l = (''data: '' @ r) @ [LF]" | "l = [] @ [LF]" by (auto simp: write_lines_def)
    then show ?thesis unfolding complete_line_def using r(1) * by cases (auto intro: exI [of _ "''data: '' @ r"])
  qed
  then show ?thesis using cut_concat [of "concat (map write_lines rs)" "[]"] by (simp add: concat_writes)
qed

lemma space_bytes: "p \<in> set space_seqs \<Longrightarrow> CHR ''d'' \<notin> set p"
  by (auto simp: space_seqs_def)

lemma trim_left_keeps: "CHR ''d'' \<in> set s \<Longrightarrow> CHR ''d'' \<in> set (trim_left s)"
proof (induction s rule: trim_left.induct)
  case (1 s)
  show ?case
  proof (cases "space_at s = 0")
    case False
    then obtain p where p: "find (\<lambda>p. prefix p s) space_seqs = Some p" "space_at s = length p"
      by (auto simp: space_at_def split: option.splits)
    then obtain r where "s = p @ r" "p \<in> set space_seqs" by (auto simp: find_Some_iff prefix_def in_set_conv_nth)
    then have "CHR ''d'' \<in> set (drop (space_at s) s)" using 1(2) space_bytes p(2) by auto
    then show ?thesis using 1(1) False by (simp add: trim_left.simps [of s])
  qed (use 1 in \<open>simp add: trim_left.simps\<close>)
qed

lemma trim_right_keeps: "CHR ''d'' \<in> set s \<Longrightarrow> CHR ''d'' \<in> set (trim_right s)"
proof (induction s rule: trim_right.induct)
  case (1 s)
  show ?case
  proof (cases "space_end s = 0")
    case False
    then obtain p where p: "find (\<lambda>p. suffix p s) space_seqs = Some p" "space_end s = length p"
      by (auto simp: space_end_def split: option.splits)
    then obtain r where "s = r @ p" "p \<in> set space_seqs" by (auto simp: find_Some_iff suffix_def in_set_conv_nth)
    then have "CHR ''d'' \<in> set (take (length s - space_end s) s)" using 1(2) space_bytes p(2) by auto
    then show ?thesis using 1(1) False by (simp add: trim_right.simps [of s])
  qed (use 1 in \<open>simp add: trim_right.simps\<close>)
qed

lemma data_line:
  assumes "LF \<notin> set r" "CR \<notin> set r"
  shows "sse_step (trim_newline (''data: '' @ r @ [LF])) (ps, pend) = (ps, pend @ [r])"
proof -
  have "drop_right (\<lambda>c. c = CR \<or> c = LF) (''data: '' @ r) = ''data: '' @ r"
    using assms by (cases r rule: rev_cases) (auto simp: drop_right_def)
  then have t: "trim_newline (''data: '' @ r @ [LF]) = ''data: '' @ r"
    by (simp add: trim_newline_def drop_right_def)
  have "CHR ''d'' \<in> set (trim_space (''data: '' @ r))"
    unfolding trim_space_def by (intro trim_right_keeps trim_left_keeps) simp
  then have "trim_space (''data: '' @ r) \<noteq> []" by auto
  then show ?thesis unfolding t by (simp add: data_payload_def)
qed

lemma blank_line: "sse_step (trim_newline [LF]) (ps, [r]) = (ps @ [r], [])"
  by (simp add: trim_newline_def drop_right_def trim_space_def trim_left.simps trim_right.simps)

lemma read_writes:
  assumes "\<forall>r\<in>set rs. LF \<notin> set r \<and> CR \<notin> set r"
  shows "\<exists>m pend. fold sse_step (map trim_newline (take k (concat (map write_lines rs)))) (ps, []) = (ps @ take m rs, pend) \<and>
    (pend = [] \<or> (\<exists>r\<in>set rs. pend = [r])) \<and> (2 * length rs \<le> k \<longrightarrow> m = length rs \<and> pend = [])"
  using assms
proof (induction rs arbitrary: ps k)
  case (Cons r rs)
  show ?case
  proof (cases k)
    case 0
    then show ?thesis by (intro exI [of _ 0] exI [of _ "[]"]) simp
  next
    case (Suc k1)
    show ?thesis
    proof (cases k1)
      case 0
      then show ?thesis using Suc Cons.prems data_line [of r ps "[]"]
        by (intro exI [of _ 0] exI [of _ "[r]"]) (simp add: write_lines_def del: sse_step.simps)
    next
      case (Suc k2)
      obtain m pend where m: "fold sse_step (map trim_newline (take k2 (concat (map write_lines rs)))) (ps @ [r], []) = ((ps @ [r]) @ take m rs, pend)"
          "pend = [] \<or> (\<exists>r\<in>set rs. pend = [r])" "2 * length rs \<le> k2 \<longrightarrow> m = length rs \<and> pend = []"
        using Cons.IH [of k2 "ps @ [r]"] Cons.prems by auto
      then show ?thesis using \<open>k = Suc k1\<close> Suc Cons.prems data_line [of r ps "[]"] blank_line [of ps r]
        by (intro exI [of _ "Suc m"] exI [of _ pend]) (auto simp add: write_lines_def [of r] simp del: sse_step.simps)
    qed
  qed
qed simp

lemma stream_text_append: "stream_text dec (ps @ qs) = stream_text dec ps @ stream_text dec qs"
  by (simp add: stream_text_def)

lemma event_text_chunk:
  "sv_decode E p = Some \<lparr>se_ID = i, se_Choices = cs, se_Usage = u\<rparr> \<Longrightarrow> p \<noteq> ''[DONE]'' \<Longrightarrow>
     event_text (sv_decode E) p = (case cs of [] \<Rightarrow> [] | c # _ \<Rightarrow> fst c)"
  by (simp add: event_defs split: list.split)

lemma replay_text:
  assumes "replay_codec E query sliceID response"
  shows "stream_text (sv_decode E) (replay_payloads E query sliceID response) = response"
proof -
  let ?eid = "reply_id sliceID"
  let ?prompt = "wrap64 (len4 query + len4 response)"
  let ?u = "sv_usage_chunk E ?eid ?prompt 0 (wrap64 (?prompt + 0)) (len4 response)"
  have chunk: "event_text (sv_decode E) (sv_chunk E ?eid d f) = delta_text d" if "(d, f) \<in> set (replay_deltas response)" for d f
    using assms that by (auto simp: replay_codec_def Let_def one_line_def dest!: bspec intro!: event_text_chunk [THEN trans])
  have "map (event_text (sv_decode E)) (map (\<lambda>(d, f). sv_chunk E ?eid d f) (replay_deltas response)) =
      map (\<lambda>(d, f). delta_text d) (replay_deltas response)"
    by (auto simp: chunk simp del: append.simps)
  moreover have "concat (map (\<lambda>(d, f). delta_text d) (replay_deltas response)) = concat (pieces response)"
    by (simp add: replay_deltas_def delta_text_def comp_def)
  moreover have "event_text (sv_decode E) ?u = []"
    using assms by (auto simp: replay_codec_def Let_def event_defs split: option.splits)
  moreover have "event_text (sv_decode E) ''[DONE]'' = []" by (simp add: event_defs)
  ultimately show ?thesis
    unfolding replay_payloads_def Let_def stream_text_def map_append concat_append list.map concat.simps by (simp only: concat_pieces append_Nil2)
qed

lemma replay_clean:
  assumes "replay_codec E query sliceID response" "r \<in> set (replay_payloads E query sliceID response)"
  shows "LF \<notin> set r \<and> CR \<notin> set r \<and> length r \<le> 65000"
proof -
  have "one_line (sv_chunk E (reply_id sliceID) d f)" if "(d, f) \<in> set (replay_deltas response)" for d f
    using assms(1) that by (auto simp: replay_codec_def Let_def)
  moreover have "one_line x \<Longrightarrow> LF \<notin> set x \<and> CR \<notin> set x \<and> length x \<le> 65000" for x by (simp add: one_line_def)
  moreover have "LF \<notin> set ''[DONE]'' \<and> CR \<notin> set ''[DONE]'' \<and> length ''[DONE]'' \<le> 65000" by simp
  ultimately show ?thesis
    using assms unfolding replay_payloads_def replay_codec_def Let_def by (auto simp del: length_Cons)
qed

lemma replay_fits:
  assumes "replay_codec E query sliceID response" "length response \<le> limit"
  shows "stream_fits (sv_decode E) limit (concat (replayStream E query sliceID response)) \<and>
    stream_payloads (concat (replayStream E query sliceID response)) = replay_payloads E query sliceID response"
proof -
  let ?rs = "replay_payloads E query sliceID response"
  have clean: "\<forall>r\<in>set ?rs. LF \<notin> set r \<and> CR \<notin> set r \<and> length r \<le> 65000" using replay_clean [OF assms(1)] by blast
  then have cut: "cut_lines (concat (replayStream E query sliceID response)) = (concat (map write_lines ?rs), [])"
    using cut_writes [of ?rs] by (simp add: replay_writes)
  have lines: "length l \<le> maxSSELineBytes" if l: "l \<in> set (concat (map write_lines ?rs))" for l
  proof -
    obtain r where r: "r \<in> set ?rs" "l \<in> set (write_lines r)" using l by auto
    then have "length r \<le> 65000" using clean by blast
    then show ?thesis using r(2) by (auto simp: write_lines_def maxSSELineBytes_def)
  qed
  have read: "\<exists>m pend. sse_read (take k (concat (map write_lines ?rs))) = (take m ?rs, pend) \<and>
      (pend = [] \<or> (\<exists>r\<in>set ?rs. pend = [r])) \<and> (2 * length ?rs \<le> k \<longrightarrow> m = length ?rs \<and> pend = [])" for k
    using read_writes [of ?rs k "[]"] clean by (simp add: sse_read_def)
  have "fits (sv_decode E) limit (sse_read (take k (concat (map write_lines ?rs))))" for k
  proof -
    obtain m pend where r: "sse_read (take k (concat (map write_lines ?rs))) = (take m ?rs, pend)"
      "pend = [] \<or> (\<exists>r\<in>set ?rs. pend = [r])" using read by blast
    have "length (join_lines pend) \<le> maxSSEPendingBytes"
      using r(2) clean by (auto simp: maxSSEPendingBytes_def maxSSEAggregateBytes_def intro: order_trans)
    moreover have "length (stream_text (sv_decode E) (take m ?rs)) \<le> length (stream_text (sv_decode E) (take m ?rs @ drop m ?rs))"
      unfolding stream_text_append by simp
    ultimately show ?thesis using r(1) assms(2) replay_text [OF assms(1)] by (simp add: fits_def)
  qed
  moreover have "length (concat (map write_lines ?rs)) = 2 * length ?rs"
    by (simp add: length_concat write_lines_def comp_def sum_list_triv)
  then have "sse_read (concat (map write_lines ?rs)) = (?rs, [])"
    using read [of "2 * length ?rs"] by auto
  ultimately show ?thesis using lines cut by (simp add: stream_fits_def stream_payloads_def read_lines_def)
qed

lemma replay_kept:
  assumes "length response \<le> maxSSEAggregateBytes" "replay_codec E query sliceID response" "status < 400"
  shows "sr_session (streamThrough E err status (concat (replayStream E query sliceID response)) t) = Some (turns (ti_request t) response)"
proof -
  have "list_ex (event_ends (sv_decode E)) (replay_payloads E query sliceID response)"
    by (simp add: replay_payloads_def Let_def event_ends_def)
  then show ?thesis
    using kept_iff [OF assms(3), of E "concat (replayStream E query sliceID response)" err t] replay_fits [OF assms(2,1)] replay_text [OF assms(2)]
    by simp
qed

text \<open>
  C38. A cached answer is replayed in pieces of at most 256 bytes that cut no character, and the replayed stream, relayed by a
  further gateway, is read back: that gateway keeps exactly the cached answer for its session.
\<close>

theorem replay_read_back:
  assumes "utf8_valid response" "length response \<le> maxSSEAggregateBytes" "replay_codec E query sliceID response" "status < 400"
  shows "(\<forall>p\<in>set (pieces response). utf8_valid p \<and> length p \<le> 256 \<and> p \<noteq> []) \<and> concat (pieces response) = response \<and>
    sr_session (streamThrough E err status (concat (replayStream E query sliceID response)) t) = Some (turns (ti_request t) response)"
  using pieces_valid [OF assms(1)] concat_pieces replay_kept [OF assms(2-4)] by blast

section \<open>A concrete exchange\<close>

text \<open>A codec for one answer: an event is written as its delta, a usage event as a word.\<close>

definition demo_chunk :: "string \<Rightarrow> (string \<times> string) option \<Rightarrow> string option \<Rightarrow> string" where
  "demo_chunk eid d f = (case d of Some (k, v) \<Rightarrow> k @ ''='' @ v | None \<Rightarrow> ''stop'')"

definition demo_decode :: decoder where
  "demo_decode p =
     (if p = ''role=assistant'' then Some \<lparr>se_ID = ''chatcmpl-s'', se_Choices = [([], None)], se_Usage = []\<rparr>
      else if p = ''content=hi'' then Some \<lparr>se_ID = ''chatcmpl-s'', se_Choices = [(''hi'', None)], se_Usage = []\<rparr>
      else if p = ''stop'' then Some \<lparr>se_ID = ''chatcmpl-s'', se_Choices = [([], Some ''stop'')], se_Usage = []\<rparr>
      else if p = ''usage'' then Some \<lparr>se_ID = ''chatcmpl-s'', se_Choices = [], se_Usage = ''u''\<rparr>
      else None)"

definition demo_env :: sse_env where
  "demo_env = \<lparr>sv_decode = demo_decode, sv_usage = \<lambda>_. None, sv_usage_chunk = \<lambda>_ _ _ _ _. ''usage'', sv_chunk = demo_chunk, sv_randomID = ''r''\<rparr>"

definition demo_turn :: turn_info where
  "demo_turn = \<lparr>ti_session = ''a'', ti_request = \<lparr>cr_Model = ''m'', cr_Messages = [], cr_Stream = True, cr_Temperature = None\<rparr>,
     ti_query = ''q'', ti_injected = 0, ti_hits = 0, ti_provider = ''p'', ti_vendor = ''openai'', ti_now = 0\<rparr>"

definition demo_body :: string where
  "demo_body = concat (replayStream demo_env ''q'' ''s'' ''hi'')"

lemma pieces_hi: "pieces ''hi'' = [''hi'']"
  by (simp add: pieces.simps piece_len_def)

lemma utf8_hi: "utf8_valid ''hi''"
  by (simp add: utf8_ascii)

lemma demo_codec: "replay_codec demo_env ''q'' ''s'' ''hi''"
  by (simp add: replay_codec_def replay_deltas_def pieces_hi one_line_def demo_env_def demo_decode_def demo_chunk_def
      delta_text_def reply_id_def Let_def)

theorem replay_read_back_witness:
  "concat (pieces ''hi'') = ''hi'' \<and>
   sr_session (streamThrough demo_env ''e'' 200 (concat (replayStream demo_env ''q'' ''s'' ''hi'')) demo_turn) = Some [(''assistant'', ''hi'')]"
  using replay_read_back [of "''hi''" demo_env "''q''" "''s''" 200 "''e''" demo_turn] demo_codec utf8_hi
  by (simp add: maxSSEAggregateBytes_def turns_def demo_turn_def)

lemma demo_kept: "sr_session (streamThrough demo_env ''e'' 200 demo_body demo_turn) = Some [(''assistant'', ''hi'')]"
  unfolding demo_body_def by (subst replay_kept) (simp_all add: demo_codec maxSSEAggregateBytes_def turns_def demo_turn_def)

theorem kept_stream_is_whole_witness:
  "stream_text demo_decode (stream_payloads demo_body) = ''hi'' \<and> list_ex (event_ends demo_decode) (stream_payloads demo_body)"
  using kept_stream_is_whole [OF _ demo_kept] by (simp add: turns_def demo_turn_def demo_env_def split: if_splits)

end
