(* ===== verification/Outgoing.thy ===== *)
theory Outgoing
  imports Json
begin

text \<open>
  The body the gateway sends upstream: the prefix-hygiene middleware of \<open>gateway/sanitize.go\<close> and \<open>rewriteOutgoing\<close> of
  \<open>gateway/pipeline.go\<close>, on the decoded body. Decoding yields a tree without sharing, so the in-place updates of the code
  are updates of that tree. The codec is an argument; the log messages are left out.
\<close>

section \<open>Attribution markers\<close>

record SanitizeConfig =
  sc_StripAttribution :: "bool option"
  sc_AttributionMarkers :: "string list"
  sc_SortTools :: "bool option"

definition StripAttributionEnabled :: "SanitizeConfig \<Rightarrow> bool" where
  "StripAttributionEnabled s \<longleftrightarrow> sc_StripAttribution s \<noteq> Some False"

definition SortToolsEnabled :: "SanitizeConfig \<Rightarrow> bool" where
  "SortToolsEnabled s \<longleftrightarrow> sc_SortTools s \<noteq> Some False"

definition builtinAttributionMarkers :: "string list" where
  "builtinAttributionMarkers = [''x-anthropic-billing-header'']"

definition EffectiveAttributionMarkers :: "SanitizeConfig \<Rightarrow> string list" where
  "EffectiveAttributionMarkers s =
     builtinAttributionMarkers @ filter (\<lambda>m. m \<noteq> []) (map trim_space (sc_AttributionMarkers s))"

text \<open>\<open>strings.Cut\<close> at the first newline: the line, the tail, and whether there was one.\<close>

definition cut_line :: "string \<Rightarrow> string \<times> string \<times> bool" where
  "cut_line s = (takeWhile (\<lambda>c. c \<noteq> CHR 0x0A) s, drop 1 (dropWhile (\<lambda>c. c \<noteq> CHR 0x0A) s), CHR 0x0A \<in> set s)"

lemma cut_line_shorter: "cut_line s = (line, tail, True) \<Longrightarrow> length tail < length s"
  using length_dropWhile_le [of "\<lambda>c. c \<noteq> CHR 0x0A" s]
  by (cases s) (auto simp: cut_line_def intro: le_less_trans [OF diff_le_self] le_imp_less_Suc)

function strip_head :: "string list \<Rightarrow> string \<Rightarrow> string \<Rightarrow> string" where
  "strip_head markers txt rest =
     (let (line, tail, hasNL) = cut_line rest; trimmed = trim_space line in
      if trimmed = [] \<and> rest \<noteq> txt then (if hasNL then strip_head markers txt tail else [])
      else if \<not> list_ex (\<lambda>m. prefix m trimmed) markers then rest
      else if \<not> hasNL then []
      else strip_head markers txt tail)"
  by pat_completeness auto
termination
  by (relation "measure (\<lambda>(_, _, rest). length rest)") (auto dest!: cut_line_shorter [OF sym])

declare strip_head.simps [simp del]

definition stripMarkerHead :: "string \<Rightarrow> string list \<Rightarrow> string" where
  "stripMarkerHead txt markers = strip_head markers txt txt"

definition set_field :: "string \<Rightarrow> json \<Rightarrow> json \<Rightarrow> json" where
  "set_field k v m = (case m of JObj fs \<Rightarrow> JObj (m_set k v fs) | _ \<Rightarrow> m)"

fun strip_first_text :: "string list \<Rightarrow> json list \<Rightarrow> json list" where
  "strip_first_text markers [] = []"
| "strip_first_text markers (p # ps) =
     (if field ''type'' p \<noteq> JStr ''text'' then p # strip_first_text markers ps
      else (case field ''text'' p of JStr s \<Rightarrow> set_field ''text'' (JStr (stripMarkerHead s markers)) p | _ \<Rightarrow> p) # ps)"

definition strip_message :: "string list \<Rightarrow> json \<Rightarrow> json" where
  "strip_message markers msg =
     (case field ''content'' msg of
        JStr content \<Rightarrow> set_field ''content'' (JStr (stripMarkerHead content markers)) msg
      | JArr content \<Rightarrow> set_field ''content'' (JArr (strip_first_text markers content)) msg
      | _ \<Rightarrow> msg)"

definition is_system :: "json \<Rightarrow> bool" where
  "is_system m \<longleftrightarrow> field ''role'' m = JStr ''system''"

fun strip_first_system :: "string list \<Rightarrow> json list \<Rightarrow> json list" where
  "strip_first_system markers [] = []"
| "strip_first_system markers (m # ms) =
     (if is_system m then strip_message markers m # ms else m # strip_first_system markers ms)"

type_synonym body = "(string, json) gomap"

definition stripAttributionMarkers :: "body \<Rightarrow> string list \<Rightarrow> body" where
  "stripAttributionMarkers raw markers =
     (case m_get raw ''messages'' of
        Some (JArr msgs) \<Rightarrow> m_set ''messages'' (JArr (strip_first_system markers msgs)) raw
      | _ \<Rightarrow> raw)"

section \<open>Tools and cache directives\<close>

definition toolNameOf :: "json \<Rightarrow> string option" where
  "toolNameOf v =
     (case field ''name'' (field ''function'' v) of
        JStr (c # s) \<Rightarrow> Some (c # s)
      | _ \<Rightarrow> (case field ''name'' v of JStr (c # s) \<Rightarrow> Some (c # s) | _ \<Rightarrow> None))"

definition tool_before :: "json \<Rightarrow> json \<Rightarrow> bool" where
  "tool_before a b =
     (case (toolNameOf a, toolNameOf b) of
        (Some n, Some m) \<Rightarrow> n < m
      | (Some n, None) \<Rightarrow> True
      | _ \<Rightarrow> False)"

definition sortToolsArray :: "body \<Rightarrow> body" where
  "sortToolsArray raw =
     (case m_get raw ''tools'' of
        Some (JArr tools) \<Rightarrow> if length tools < 2 then raw else m_set ''tools'' (JArr (go_sort tool_before tools)) raw
      | _ \<Rightarrow> raw)"

function stripCacheControl :: "json \<Rightarrow> json" where
  "stripCacheControl (JObj fs) = JObj (map (\<lambda>(k, v). (k, stripCacheControl v)) (filter (\<lambda>(k, _). k \<noteq> ''cache_control'') fs))"
| "stripCacheControl (JArr vs) = JArr (map stripCacheControl vs)"
| "stripCacheControl JNull = JNull" | "stripCacheControl (JBool b) = JBool b"
| "stripCacheControl (JNum n) = JNum n" | "stripCacheControl (JStr s) = JStr s"
  by pat_completeness auto
termination
  by (relation "measure size") (auto dest: size_JObj_field size_JArr_item simp del: json.size)

record UpstreamConfig =
  up_Name :: string
  up_Vendor :: string
  up_UpstreamModel :: string
  up_ModelAlias :: "string list"
  up_StripCacheControl :: bool

definition UpstreamFor :: "UpstreamConfig list \<Rightarrow> string \<Rightarrow> UpstreamConfig option" where
  "UpstreamFor ups model = find (\<lambda>u. model \<in> set (up_ModelAlias u)) ups"

definition sanitizeOutgoing :: "SanitizeConfig \<Rightarrow> UpstreamConfig \<Rightarrow> body \<Rightarrow> body" where
  "sanitizeOutgoing cfg up raw =
     (let raw = (if StripAttributionEnabled cfg then stripAttributionMarkers raw (EffectiveAttributionMarkers cfg) else raw);
          raw = (if SortToolsEnabled cfg then sortToolsArray raw else raw)
      in if up_StripCacheControl up then (case stripCacheControl (JObj raw) of JObj raw \<Rightarrow> raw | _ \<Rightarrow> raw) else raw)"

section \<open>Injection and the whole rewrite\<close>

definition takes_block :: "json \<Rightarrow> bool" where
  "takes_block m \<longleftrightarrow> is_system m \<and> as_string (field ''content'' m) \<noteq> None"

definition append_block :: "string \<Rightarrow> json \<Rightarrow> json" where
  "append_block block m =
     (case field ''content'' m of JStr s \<Rightarrow> set_field ''content'' (JStr (s @ [CHR 0x0A, CHR 0x0A] @ block)) m | _ \<Rightarrow> m)"

text \<open>The last message that takes a block, found from the end.\<close>

fun append_last :: "string \<Rightarrow> json list \<Rightarrow> json list" where
  "append_last block [] = []"
| "append_last block (m # ms) =
     (if list_ex takes_block ms then m # append_last block ms
      else if takes_block m then append_block block m # ms
      else m # ms)"

definition attachBlockRaw :: "json list \<Rightarrow> string \<Rightarrow> json list" where
  "attachBlockRaw messages block =
     (if list_ex takes_block messages then append_last block messages
      else JObj [(''role'', JStr ''system''), (''content'', JStr block)] # messages)"

definition rewrite_raw :: "SanitizeConfig \<Rightarrow> UpstreamConfig \<Rightarrow> string option \<Rightarrow> body \<Rightarrow> body" where
  "rewrite_raw cfg up injected raw0 =
     (let raw = sanitizeOutgoing cfg up (m_set ''model'' (JStr (up_UpstreamModel up)) raw0) in
      case injected of
        Some (c # block) \<Rightarrow>
          (case m_get raw ''messages'' of
             Some (JArr msgs) \<Rightarrow> m_set ''messages'' (JArr (attachBlockRaw msgs (c # block))) raw
           | _ \<Rightarrow> raw)
      | _ \<Rightarrow> raw)"

definition rewriteOutgoing ::
  "(string \<Rightarrow> body option) \<Rightarrow> (body \<Rightarrow> string option) \<Rightarrow> SanitizeConfig \<Rightarrow> UpstreamConfig \<Rightarrow> string option \<Rightarrow> string \<Rightarrow> string" where
  "rewriteOutgoing unmarshal marshal cfg up injected txt =
     (case unmarshal txt of None \<Rightarrow> txt
      | Some raw \<Rightarrow> (case marshal (rewrite_raw cfg up injected raw) of None \<Rightarrow> txt | Some out \<Rightarrow> out))"

definition sanitizeBody ::
  "(string \<Rightarrow> body option) \<Rightarrow> (body \<Rightarrow> string option) \<Rightarrow> SanitizeConfig \<Rightarrow> UpstreamConfig \<Rightarrow> string \<Rightarrow> string" where
  "sanitizeBody unmarshal marshal cfg up txt =
     (case unmarshal txt of None \<Rightarrow> txt
      | Some raw \<Rightarrow> (case marshal (sanitizeOutgoing cfg up raw) of None \<Rightarrow> txt | Some out \<Rightarrow> out))"

end
