(* ===== verification/Outgoing_Correct.thy ===== *)
theory Outgoing_Correct
  imports Outgoing
begin

text \<open>
  The rewrite keeps the conversation, and it is canonical: what a client varies from request to request without meaning, the
  order of its tools and the billing marker in front of its prompt, does not reach the upstream, whose cache compares bytes.
\<close>

section \<open>Tools\<close>

interpretation tool_order: weak_order tool_before
proof
  fix x y z
  show "\<not> tool_before y x" if "tool_before x y"
    using that by (auto simp: tool_before_def split: option.splits)
  show "\<not> tool_before z x" if "\<not> tool_before y x" "\<not> tool_before z y"
    using that by (auto simp: tool_before_def split: option.splits)
qed

definition named_apart :: "json list \<Rightarrow> bool" where
  "named_apart ts \<longleftrightarrow> (\<forall>t\<in>set ts. toolNameOf t \<noteq> None) \<and> distinct (map toolNameOf ts)"

lemma tools_canonical:
  assumes "mset ts = mset us" "named_apart ts"
  shows "go_sort tool_before ts = go_sort tool_before us"
proof (rule sorted_wrt_antisym_unique [where R = "\<lambda>a b. \<not> tool_before b a"])
  show "mset (go_sort tool_before ts) = mset (go_sort tool_before us)" using assms(1) by simp
  show "sorted_wrt (\<lambda>a b. \<not> tool_before b a) (go_sort tool_before ts)" "sorted_wrt (\<lambda>a b. \<not> tool_before b a) (go_sort tool_before us)"
    using tool_order.everywhere.sorted_go_sort by auto
  fix a b assume "a \<in> set (go_sort tool_before ts)" "b \<in> set (go_sort tool_before ts)" "\<not> tool_before b a" "\<not> tool_before a b"
  then have ab: "a \<in> set ts" "b \<in> set ts" "toolNameOf a = toolNameOf b"
    using assms(2) by (auto simp: named_apart_def tool_before_def split: option.splits)
  have "inj_on toolNameOf (set ts)" using assms(2) by (simp add: named_apart_def distinct_map)
  then show "a = b" using ab by (auto dest: inj_onD)
qed

section \<open>Markers\<close>

definition marker_line :: "string list \<Rightarrow> string \<Rightarrow> bool" where
  "marker_line markers l \<longleftrightarrow> CHR 0x0A \<notin> set l \<and> trim_space l \<noteq> [] \<and> list_ex (\<lambda>m. prefix m (trim_space l)) markers"

lemma cut_line_append: "CHR 0x0A \<notin> set l \<Longrightarrow> cut_line (l @ CHR 0x0A # t) = (l, t, True)"
  by (simp add: cut_line_def takeWhile_append dropWhile_append takeWhile_eq_all_conv [THEN iffD2])

lemma strip_head_marker:
  "marker_line markers l \<Longrightarrow> strip_head markers s (l @ CHR 0x0A # t) = strip_head markers s t"
  by (subst strip_head.simps) (simp add: marker_line_def cut_line_append)

text \<open>Once a line is gone the text compared with is longer than what is left, so only its length matters.\<close>

lemma strip_head_other:
  "length t < length s \<Longrightarrow> length t < length s' \<Longrightarrow> strip_head markers s t = strip_head markers s' t"
proof (induction markers s t rule: strip_head.induct)
  case (1 markers s t)
  obtain line tail hasNL where c: "cut_line t = (line, tail, hasNL)" by (cases "cut_line t") auto
  have ne: "t \<noteq> s" "t \<noteq> s'" using "1.prems" by auto
  have tail: "hasNL \<Longrightarrow> length tail < length t" using cut_line_shorter [of t line tail] c by simp
  have IH: "strip_head markers s tail = strip_head markers s' tail"
    if hasNL "trim_space line = [] \<or> \<not> \<not> list_ex (\<lambda>m. prefix m (trim_space line)) markers"
  proof (cases "trim_space line = []")
    case True
    show ?thesis by (rule "1.IH"(1)) (use c True that(1) ne tail "1.prems" in auto)
  next
    case False
    show ?thesis by (rule "1.IH"(2)) (use c False that ne tail "1.prems" in auto)
  qed
  show ?case using IH ne c by (subst (1 2) strip_head.simps) (auto simp: Let_def)
qed

lemma marker_value_irrelevant:
  assumes "marker_line markers l" "marker_line markers l'"
  shows "stripMarkerHead (l @ CHR 0x0A # t) markers = stripMarkerHead (l' @ CHR 0x0A # t) markers"
  unfolding stripMarkerHead_def strip_head_marker [OF assms(1)] strip_head_marker [OF assms(2)]
  by (rule strip_head_other) simp_all

text \<open>A text that begins with other text is unchanged, and what is left ends the given text.\<close>

lemma strip_head_suffix: "suffix (strip_head markers s t) t"
proof (induction markers s t rule: strip_head.induct)
  case (1 markers s t)
  obtain line tail hasNL where c: "cut_line t = (line, tail, hasNL)" by (cases "cut_line t") auto
  have tail: "suffix tail t"
    using c by (auto simp: cut_line_def intro: suffix_order.trans [OF suffix_drop suffix_dropWhile])
  have "suffix (strip_head markers s tail) t"
    if hasNL "trim_space line = [] \<and> t \<noteq> s \<or> list_ex (\<lambda>m. prefix m (trim_space line)) markers"
  proof (cases "trim_space line = [] \<and> t \<noteq> s")
    case True
    have "suffix (strip_head markers s tail) tail" by (rule "1.IH"(1)) (use c True that in auto)
    then show ?thesis using tail by (rule suffix_order.trans)
  next
    case False
    have "suffix (strip_head markers s tail) tail" by (rule "1.IH"(2)) (use c False that in auto)
    then show ?thesis using tail by (rule suffix_order.trans)
  qed
  then show ?case using c by (subst strip_head.simps) (auto simp: Let_def)
qed

lemma plain_head_kept:
  "\<not> list_ex (\<lambda>m. prefix m (trim_space (fst (cut_line s)))) markers \<Longrightarrow> stripMarkerHead s markers = s"
  unfolding stripMarkerHead_def by (subst strip_head.simps) (auto simp: Let_def case_prod_beta)

section \<open>Cache directives\<close>

fun mentions :: "string \<Rightarrow> json \<Rightarrow> bool" where
  "mentions k (JObj fs) \<longleftrightarrow> (\<exists>f\<in>set fs. fst f = k) \<or> (\<exists>f\<in>set fs. mentions k (snd f))"
| "mentions k (JArr vs) \<longleftrightarrow> (\<exists>v\<in>set vs. mentions k v)"
| "mentions k _ \<longleftrightarrow> False"

lemma no_cache_control: "\<not> mentions ''cache_control'' (stripCacheControl v)"
proof (induction v rule: stripCacheControl.induct)
  case (1 fs)
  then show ?case by (fastforce simp: split_beta)
qed auto

lemma stripCacheControl_id: "\<not> mentions ''cache_control'' v \<Longrightarrow> stripCacheControl v = v"
proof (induction v rule: stripCacheControl.induct)
  case (1 fs)
  have "filter (\<lambda>(k, _). k \<noteq> ''cache_control'') fs = fs" using 1(2) by (auto simp: filter_id_conv)
  moreover have "map (\<lambda>(k, v). (k, stripCacheControl v)) fs = fs"
  proof (rule map_idI)
    fix f assume f: "f \<in> set fs"
    obtain k v where kv: "f = (k, v)" by (cases f)
    have k: "k \<noteq> ''cache_control''" and v: "\<not> mentions ''cache_control'' v" using 1(2) f unfolding kv by fastforce+
    have "f \<in> set (filter (\<lambda>(k, _). k \<noteq> ''cache_control'') fs)" using f k kv by simp
    from 1(1) [OF this kv [symmetric] v] have "stripCacheControl v = v" .
    then show "(\<lambda>(k, v). (k, stripCacheControl v)) f = f" using kv by simp
  qed
  ultimately show ?case by simp
next
  case (2 vs)
  then show ?case by (auto intro!: map_idI)
qed auto

section \<open>The conversation\<close>

lemma field_set_field: "field k (set_field j v m) = (if k = j \<and> (\<exists>fs. m = JObj fs) then v else field k m)"
  by (cases m) (auto simp: field_def set_field_def)

lemma is_system_set [simp]: "is_system (set_field ''content'' v m) = is_system m"
  by (simp add: is_system_def field_set_field)

lemma is_system_strip [simp]: "is_system (strip_message markers m) = is_system m"
  by (simp add: strip_message_def split: json.split)

lemma is_system_append [simp]: "is_system (append_block block m) = is_system m"
  by (simp add: append_block_def split: json.split)

definition conversation :: "json list \<Rightarrow> json list" where
  "conversation ms = filter (\<lambda>m. \<not> is_system m) ms"

lemma conversation_strip: "conversation (strip_first_system markers ms) = conversation ms"
  by (induction ms) (auto simp: conversation_def)

lemma conversation_append: "conversation (append_last block ms) = conversation ms"
  by (induction ms) (auto simp: conversation_def takes_block_def)

lemma conversation_attach: "conversation (attachBlockRaw ms block) = conversation ms"
  by (simp add: attachBlockRaw_def conversation_append) (simp add: conversation_def is_system_def field_def m_get_or_def)

definition items_of :: "string \<Rightarrow> body \<Rightarrow> json list" where
  "items_of k raw = (case m_get raw k of Some (JArr vs) \<Rightarrow> vs | _ \<Rightarrow> [])"

lemma items_of_set: "items_of k (m_set j (JArr vs) raw) = (if k = j then vs else items_of k raw)"
  by (simp add: items_of_def)

definition clean :: "UpstreamConfig \<Rightarrow> json \<Rightarrow> json" where
  "clean up v = (if up_StripCacheControl up then stripCacheControl v else v)"

lemma clean_cases: "clean up = (if up_StripCacheControl up then stripCacheControl else (\<lambda>v. v))"
  by (auto simp: clean_def)

lemma map_of_clean:
  "map_of (map (\<lambda>(k, v). (k, g v)) (filter (\<lambda>(k, _). k \<noteq> c) fs)) k = (if k = c then None else map_option g (map_of fs k))"
  by (induction fs) auto

lemma field_clean: "k \<noteq> ''cache_control'' \<Longrightarrow> field k (stripCacheControl v) = stripCacheControl (field k v)"
  by (cases v) (simp_all add: field_def m_get_or_def map_of_clean split: option.split)

lemma clean_JStr: "stripCacheControl v = JStr s \<longleftrightarrow> v = JStr s"
  by (cases v) auto

lemma is_system_clean: "is_system (clean up v) = is_system v"
  by (simp add: clean_def is_system_def field_clean clean_JStr)

lemma conversation_clean: "conversation (map (clean up) ms) = map (clean up) (conversation ms)"
  by (simp add: conversation_def filter_map comp_def is_system_clean)

text \<open>Each stage, as seen by the reader of a field.\<close>

definition cleaned :: "UpstreamConfig \<Rightarrow> body \<Rightarrow> body" where
  "cleaned up raw = (if up_StripCacheControl up then (case stripCacheControl (JObj raw) of JObj raw \<Rightarrow> raw | _ \<Rightarrow> raw) else raw)"

lemma m_get_cleaned:
  "m_get (cleaned up raw) k = (if up_StripCacheControl up \<and> k = ''cache_control'' then None else map_option (clean up) (m_get raw k))"
  by (simp add: cleaned_def clean_cases m_get_def map_of_clean option.map_ident)

lemma items_cleaned: "k \<noteq> ''cache_control'' \<Longrightarrow> items_of k (cleaned up raw) = map (clean up) (items_of k raw)"
  by (simp add: items_of_def m_get_cleaned clean_cases split: option.split) (auto split: json.splits)

lemma stripAttribution_frame:
  "k \<noteq> ''messages'' \<Longrightarrow> m_get (stripAttributionMarkers raw markers) k = m_get raw k"
  "conversation (items_of ''messages'' (stripAttributionMarkers raw markers)) = conversation (items_of ''messages'' raw)"
  by (auto simp: stripAttributionMarkers_def items_of_def conversation_strip split: option.splits json.splits)

lemma sortTools_frame:
  "k \<noteq> ''tools'' \<Longrightarrow> m_get (sortToolsArray raw) k = m_get raw k"
  "mset (items_of ''tools'' (sortToolsArray raw)) = mset (items_of ''tools'' raw)"
  by (auto simp: sortToolsArray_def items_of_def split: option.splits json.splits)

lemma sanitize_frame:
  "k \<notin> {''messages'', ''tools''} \<Longrightarrow> m_get (sanitizeOutgoing cfg up raw) k = m_get (cleaned up raw) k"
  "conversation (items_of ''messages'' (sanitizeOutgoing cfg up raw)) = map (clean up) (conversation (items_of ''messages'' raw))"
  "mset (items_of ''tools'' (sanitizeOutgoing cfg up raw)) = image_mset (clean up) (mset (items_of ''tools'' raw))"
proof -
  let ?a = "if StripAttributionEnabled cfg then stripAttributionMarkers raw (EffectiveAttributionMarkers cfg) else raw"
  let ?b = "if SortToolsEnabled cfg then sortToolsArray ?a else ?a"
  have s: "sanitizeOutgoing cfg up raw = cleaned up ?b" by (simp add: sanitizeOutgoing_def cleaned_def Let_def)
  have tools: "items_of ''tools'' ?a = items_of ''tools'' raw" by (simp add: items_of_def stripAttribution_frame)
  have msgs: "items_of ''messages'' ?b = items_of ''messages'' ?a" by (simp add: items_of_def sortTools_frame)
  show "k \<notin> {''messages'', ''tools''} \<Longrightarrow> m_get (sanitizeOutgoing cfg up raw) k = m_get (cleaned up raw) k"
    unfolding s by (simp add: m_get_cleaned stripAttribution_frame sortTools_frame)
  have "conversation (items_of ''messages'' ?a) = conversation (items_of ''messages'' raw)" by (simp add: stripAttribution_frame)
  then show "conversation (items_of ''messages'' (sanitizeOutgoing cfg up raw)) = map (clean up) (conversation (items_of ''messages'' raw))"
    unfolding s by (simp only: items_cleaned [of "''messages''", simplified] conversation_clean msgs)
  have "mset (items_of ''tools'' ?b) = mset (items_of ''tools'' raw)"
    using tools sortTools_frame(2) [of ?a] by simp
  then show "mset (items_of ''tools'' (sanitizeOutgoing cfg up raw)) = image_mset (clean up) (mset (items_of ''tools'' raw))"
    unfolding s by (simp only: items_cleaned [of "''tools''", simplified] mset_map)
qed


section \<open>Canonical bytes\<close>

lemma m_set_again: "m_set k v (m_set k w m) = m_set k v m"
  by (induction m) auto

lemma m_set_swap: "k \<in> fst ` set m \<Longrightarrow> j \<noteq> k \<Longrightarrow> m_set k v (m_set j x m) = m_set j x (m_set k v m)"
proof (induction m)
  case (Cons e m)
  then show ?case by (cases "fst e = k") (cases e; simp)+
qed simp

definition system_message :: "string \<Rightarrow> json" where
  "system_message s = JObj [(''role'', JStr ''system''), (''content'', JStr s)]"

lemma strip_system_message:
  "strip_first_system markers (system_message s # ms) = system_message (stripMarkerHead s markers) # ms"
  by (simp add: system_message_def is_system_def field_def m_get_or_def strip_message_def set_field_def)

definition request_body :: "body \<Rightarrow> string \<Rightarrow> json list \<Rightarrow> json list \<Rightarrow> body" where
  "request_body raw system msgs tools = m_set ''tools'' (JArr tools) (m_set ''messages'' (JArr (system_message system # msgs)) raw)"

lemma sanitize_request:
  assumes "StripAttributionEnabled cfg" "SortToolsEnabled cfg"
  shows "sanitizeOutgoing cfg up (m_set ''model'' v (request_body raw system msgs tools)) =
    cleaned up (m_set ''model'' v (request_body raw (stripMarkerHead system (EffectiveAttributionMarkers cfg)) msgs
      (if length tools < 2 then tools else go_sort tool_before tools)))"
proof -
  let ?M = "EffectiveAttributionMarkers cfg" and ?m = "m_set ''model'' v"
  let ?b = "request_body raw (stripMarkerHead system ?M) msgs"
  have "stripAttributionMarkers (?m (request_body raw system msgs tools)) ?M =
      m_set ''messages'' (JArr (system_message (stripMarkerHead system ?M) # msgs)) (?m (request_body raw system msgs tools))"
    by (simp add: stripAttributionMarkers_def request_body_def strip_system_message del: strip_first_system.simps)
  also have "\<dots> = ?m (?b tools)"
    by (simp add: request_body_def m_set_swap [of "''messages''"] m_set_again)
  finally have a: "stripAttributionMarkers (?m (request_body raw system msgs tools)) ?M = ?m (?b tools)" .
  have "m_set ''tools'' (JArr ts) (?m (?b tools)) = ?m (?b ts)" for ts
    by (simp add: request_body_def m_set_swap [of "''tools''"] m_set_again)
  moreover have "m_get (?m (?b tools)) ''tools'' = Some (JArr tools)" by (simp add: request_body_def)
  ultimately have "sortToolsArray (?m (?b tools)) = ?m (?b (if length tools < 2 then tools else go_sort tool_before tools))"
    by (simp add: sortToolsArray_def)
  then show ?thesis using assms a by (simp add: sanitizeOutgoing_def cleaned_def Let_def)
qed

lemma short_mset: "mset ts = mset us \<Longrightarrow> length ts < 2 \<Longrightarrow> ts = us"
  by (cases ts; cases us) (auto dest: mset_eq_length)


section \<open>A concrete request\<close>

definition demo_config :: SanitizeConfig where
  "demo_config = \<lparr>sc_StripAttribution = None, sc_AttributionMarkers = [], sc_SortTools = None\<rparr>"

definition demo_upstream :: UpstreamConfig where
  "demo_upstream = \<lparr>up_Name = ''u'', up_Vendor = ''openai'', up_UpstreamModel = ''glm'', up_ModelAlias = [''m''], up_StripCacheControl = True\<rparr>"

definition demo_tool :: "string \<Rightarrow> json" where
  "demo_tool n = JObj [(''name'', JStr n)]"

definition demo_user :: json where
  "demo_user = JObj [(''role'', JStr ''user''), (''cache_control'', JNull), (''content'', JStr ''hi'')]"

lemma demo_markers:
  "marker_line (EffectiveAttributionMarkers demo_config) ''x-anthropic-billing-header: 1''"
  "marker_line (EffectiveAttributionMarkers demo_config) ''x-anthropic-billing-header: 2''"
  by code_simp+



end
