(* ===== verification/Gateway_Ingest.thy ===== *)
theory Gateway_Ingest
  imports Ingest
begin

text \<open>
  How the gateway grows its library, \<open>gateway/gateway.go\<close>: every answered request is appended to the file of its session and the
  file is drained into the store and the index; kernel events go through the same path. The adapters around the extractor and
  the store stamp the slices in place before the inner operation sees them, so store and index get the stamped slice.

  Ingestion runs in a goroutine of its own, one at a time; the model runs it at once, which is one of its schedules. Lines are
  appended whole: a write error leaves a number of them. The file is read back the way \<open>JSONLSource.Next\<close> does: a closed-loop event is no transcript
  line (it has no role), and its projection is appended as a user line.
\<close>

section \<open>Session files\<close>

datatype session_line = TurnLine string string | ClosedLoop string

definition transcript_line :: "string \<Rightarrow> string \<Rightarrow> transcriptLine" where
  "transcript_line role content =
     \<lparr>tl_Role = role, tl_Type = [], tl_Content = content, tl_RawContent = [], tl_Name = [], tl_ToolCall = [], tl_Verification = [],
      tl_WorkspaceMutation = False, tl_ToolCalls = []\<rparr>"

fun raw_line :: "session_line \<Rightarrow> scanned" where
  "raw_line (TurnLine role content) = Decoded (transcript_line role content)"
| "raw_line (ClosedLoop projection) = Decoded (transcript_line [] [])"

fun projected :: "session_line \<Rightarrow> scanned list" where
  "projected (TurnLine role content) = []"
| "projected (ClosedLoop projection) = (if projection \<noteq> [] then [Decoded (transcript_line ''user'' projection)] else [])"

definition session_transcript :: "session_line list \<Rightarrow> scanned list" where
  "session_transcript ls = map raw_line ls @ concat (map projected ls)"

section \<open>The library of the gateway\<close>

record ('s, 'i) gateway_lib =
  gl_closing :: bool
  gl_disabled :: bool
  gl_SessionsDir :: string
  gl_L3SafeDefault :: bool
  gl_Scope :: Scope
  gl_files :: "(string, session_line list) gomap"
  gl_store :: 's
  gl_index :: 'i

text \<open>\<open>l3SafeExtractor\<close> and \<open>metaStore\<close>: what they do to one slice.\<close>

definition l3_default :: "bool \<Rightarrow> Slice \<Rightarrow> Slice" where
  "l3_default l3Safe s =
     (if sl_Type s = Result \<and> m_Deps (sl_Meta s) = [] then s\<lparr>sl_Meta := (sl_Meta s)\<lparr>m_L3Safe := l3Safe\<rparr>\<rparr> else s)"

definition stamp :: "string \<Rightarrow> string \<Rightarrow> Slice \<Rightarrow> Slice" where
  "stamp ctxHash model s =
     (if sl_Type s = Result then
        let m = (sl_Meta s)\<lparr>m_ContextHash := ctxHash, m_Model := model\<rparr>
        in s\<lparr>sl_Meta := (if m_Origin m = [] then m\<lparr>m_Origin := OriginSessionAuto\<rparr> else m)\<rparr>
      else s)"

definition gateway_slice :: "bool \<Rightarrow> string \<Rightarrow> string \<Rightarrow> Slice \<Rightarrow> Slice" where
  "gateway_slice l3Safe ctxHash model s = stamp ctxHash model (l3_default l3Safe s)"

definition gateway_pipeline :: "Scope \<Rightarrow> string \<Rightarrow> Pipeline" where
  "gateway_pipeline sc sid = \<lparr>pl_Scope = sc, pl_Project = sid @ ''.jsonl'', pl_StepSplit = False\<rparr>"

text \<open>An unreadable file ends the run before anything is stored.\<close>

definition ingestSession ::
  "extract_env \<Rightarrow> ('e \<Rightarrow> Slice \<Rightarrow> 's \<Rightarrow> 'err option \<times> 's) \<Rightarrow> (Slice \<Rightarrow> 'i \<Rightarrow> 'ierr option \<times> 'i) \<Rightarrow> (nat \<Rightarrow> 'e) \<Rightarrow> bool \<Rightarrow>
   string \<Rightarrow> string \<Rightarrow> string \<Rightarrow> ('s, 'i) gateway_lib \<Rightarrow> ingest_err option \<times> ('s, 'i) gateway_lib" where
  "ingestSession E put ins ens readable sid ctxHash model g =
     (let f = gateway_slice (gl_L3SafeDefault g) ctxHash model;
          src = (if readable then SessionEvents sid (session_transcript (m_get_or [] (gl_files g) sid)) else SourceError);
          (err, stats, s, ix) = Pipeline_Run E (\<lambda>e x. put e (f x)) (\<lambda>x. ins (f x)) (gateway_pipeline (gl_Scope g) sid) ens [src] 0 []
            (gl_store g, gl_index g)
      in (err, g\<lparr>gl_store := s, gl_index := ix\<rparr>))"

definition session_char :: "char \<Rightarrow> bool" where
  "session_char c \<longleftrightarrow> (let n = of_char c :: nat in 65 \<le> n \<and> n \<le> 90 \<or> 97 \<le> n \<and> n \<le> 122 \<or> 48 \<le> n \<and> n \<le> 57) \<or> c \<in> set ''_-''"

definition sessionIDPattern :: "string \<Rightarrow> bool" where
  "sessionIDPattern s \<longleftrightarrow> 1 \<le> length s \<and> length s \<le> 64 \<and> list_all session_char s"

definition session_file :: "string \<Rightarrow> string \<Rightarrow> string" where
  "session_file randomID sid = (if sid = [] \<or> \<not> sessionIDPattern sid then ''gw-'' @ randomID else sid)"

text \<open>The outcome of the append is the number of lines written before an error, or none; the result is what the log reports.\<close>

definition recordSession ::
  "extract_env \<Rightarrow> ('e \<Rightarrow> Slice \<Rightarrow> 's \<Rightarrow> 'err option \<times> 's) \<Rightarrow> (Slice \<Rightarrow> 'i \<Rightarrow> 'ierr option \<times> 'i) \<Rightarrow> (nat \<Rightarrow> 'e) \<Rightarrow> bool \<Rightarrow> nat option \<Rightarrow> string \<Rightarrow>
   string \<Rightarrow> string \<Rightarrow> string \<Rightarrow> session_line list \<Rightarrow> ('s, 'i) gateway_lib \<Rightarrow> ingest_err option \<times> ('s, 'i) gateway_lib" where
  "recordSession E put ins ens readable fault randomID sessionID ctxHash model turns g =
     (if gl_closing g then (None, g)
      else
        let sid = session_file randomID sessionID in
        if gl_SessionsDir g = [] then (None, g)
        else
          let old = m_get_or [] (gl_files g) sid in
          case fault of
            Some n \<Rightarrow> (None, g\<lparr>gl_files := m_set sid (old @ take n turns) (gl_files g)\<rparr>)
          | None \<Rightarrow>
              let g = g\<lparr>gl_files := m_set sid (old @ turns) (gl_files g)\<rparr>
              in if gl_disabled g then (None, g) else ingestSession E put ins ens readable sid ctxHash model g)"

definition recordKernelEvent ::
  "extract_env \<Rightarrow> ('e \<Rightarrow> Slice \<Rightarrow> 's \<Rightarrow> 'err option \<times> 's) \<Rightarrow> (Slice \<Rightarrow> 'i \<Rightarrow> 'ierr option \<times> 'i) \<Rightarrow> (nat \<Rightarrow> 'e) \<Rightarrow> bool \<Rightarrow> nat option \<Rightarrow> string \<Rightarrow>
   string \<Rightarrow> string \<Rightarrow> string \<Rightarrow> string \<Rightarrow> ('s, 'i) gateway_lib \<Rightarrow> ingest_err option \<times> ('s, 'i) gateway_lib" where
  "recordKernelEvent E put ins ens readable fault randomID sessionID ctxHash model projection g =
     recordSession E put ins ens readable fault randomID sessionID ctxHash model [ClosedLoop projection] g"

section \<open>What a run stores\<close>

lemma gateway_slice_ID [simp]: "sl_ID (gateway_slice l c m s) = sl_ID s" "sl_Type (gateway_slice l c m s) = sl_Type s"
  "sl_Scope (gateway_slice l c m s) = sl_Scope s" "sl_Content (gateway_slice l c m s) = sl_Content s"
  by (simp_all add: gateway_slice_def stamp_def l3_default_def Let_def)

lemma gateway_slice_result:
  "sl_Type s = Result \<Longrightarrow> m_ContextHash (sl_Meta (gateway_slice l c m s)) = c \<and> m_Model (sl_Meta (gateway_slice l c m s)) = m \<and>
     (m_Deps (sl_Meta s) = [] \<longrightarrow> m_L3Safe (sl_Meta (gateway_slice l c m s)) = l)"
  by (simp add: gateway_slice_def stamp_def l3_default_def Let_def)

context slice_store
begin

text \<open>An adapter in front of the store that keeps identifiers: each slice is stored as the adapter leaves it.\<close>

lemma persist_adapted:
  assumes "\<And>x. sl_ID (f x) = sl_ID x"
    and "persist (\<lambda>e x. put e (f x)) ins p ens sid sls k n (s, ix) = (None, k', n', s', ix')" "inv s" "distinct (map sl_ID sls)"
  shows "inv s' \<and> (\<forall>x\<in>set (listing s). sl_ID x \<notin> sl_ID ` set sls \<longrightarrow> x \<in> set (listing s')) \<and>
    (\<forall>sl\<in>set sls. sl_Type sl = Context \<and> pl_Scope p \<noteq> Project \<or> stored_form (f (sl\<lparr>sl_Scope := pl_Scope p\<rparr>)) \<in> set (listing s'))"
  using assms(2-4)
proof (induction sls arbitrary: k n s ix)
  case (Cons sl sls)
  show ?case
  proof (cases "sl_Type sl = Context \<and> pl_Scope p \<noteq> Project")
    case True
    then show ?thesis using Cons by auto
  next
    case False
    let ?sl = "sl\<lparr>sl_Scope := pl_Scope p\<rparr>"
    obtain s1 where 1: "put (ens k) (f ?sl) s = (None, s1)"
      using Cons.prems(1) False by (cases "put (ens k) (f ?sl) s"; cases "fst (put (ens k) (f ?sl) s)") (auto simp: Let_def)
    obtain ix1 where 2: "ins (fst (EnforceAdmission ?sl)) ix = (None, ix1)"
      using Cons.prems(1) False 1
      by (cases "ins (fst (EnforceAdmission ?sl)) ix"; cases "fst (ins (fst (EnforceAdmission ?sl)) ix)") (auto simp: Let_def)
    have rest: "persist (\<lambda>e x. put e (f x)) ins p ens sid sls (Suc k) (Suc n) (s1, ix1) = (None, k', n', s', ix')"
      using Cons.prems(1) False 1 2 by (auto simp: Let_def)
    have l: "listing s1 = up_slice (stored_form (f ?sl)) (listing s)" by (rule put_ok [OF Cons.prems(2) 1])
    note IH = Cons.IH [OF rest put_inv [OF Cons.prems(2) 1]]
    have new: "stored_form (f ?sl) \<in> set (listing s1)" by (simp add: l up_slice_def)
    have old: "x \<in> set (listing s1)" if "x \<in> set (listing s)" "sl_ID x \<noteq> sl_ID sl" for x
      using that assms(1) by (simp add: l up_slice_def)
    have "sl_ID sl \<notin> sl_ID ` set sls" "distinct (map sl_ID sls)" using Cons.prems(3) by auto
    then show ?thesis using IH new old assms(1) by auto
  qed
qed simp

lemma one_per_id: "inv s \<Longrightarrow> x \<in> set (listing s) \<Longrightarrow> y \<in> set (listing s) \<Longrightarrow> sl_ID x = sl_ID y \<Longrightarrow> x = y"
  using distinct_ids by (metis distinct_map inj_onD)

end

lemma Extract_distinct: "distinct (map sl_ID (fst (Extract E sp session meta)))"
  by (cases "parseTranscript session") (simp add: Extract_def dedup_def dedup_loop_props)

lemma Extract_no_deps:
  assumes "s \<in> set (fst (Extract E sp session meta))" "sl_Type s = Result" shows "m_Deps (sl_Meta s) = m_Deps meta"
  using Extract_cases [OF assms(1)] assms(2)
  by (elim disjE exE conjE) (auto simp: compressionMeta_def result_meta_def newSlice_def Let_def split: prod.split bool.split)

lemma stored_form_meta [simp]: "sl_Meta (stored_form s) = sl_Meta s"
  by (simp add: stored_form_def EnforceAdmission_def split: SliceType.split)

abbreviation (input) session_slices :: "extract_env \<Rightarrow> string \<Rightarrow> ('s, 'i) gateway_lib \<Rightarrow> Slice list" where
  "session_slices E sid g \<equiv>
     fst (Extract E False (session_transcript (m_get_or [] (gl_files g) sid)) (session_meta (gateway_pipeline (gl_Scope g) sid) sid))"

text \<open>What a run of the gateway leaves in the store: each result of the session, stamped with the hash and the model of the run.\<close>

context slice_store
begin

lemma ingest_stores:
  assumes "ingestSession E put ins ens True sid ctxHash model g = (None, g')" "inv (gl_store g)"
    and "r \<in> set (session_slices E sid g)" "sl_Type r = Result"
  shows "inv (gl_store g') \<and>
    stored_form (gateway_slice (gl_L3SafeDefault g) ctxHash model (r\<lparr>sl_Scope := gl_Scope g\<rparr>)) \<in> set (listing (gl_store g'))"
proof -
  let ?f = "gateway_slice (gl_L3SafeDefault g) ctxHash model" and ?p = "gateway_pipeline (gl_Scope g) sid"
  let ?t = "session_transcript (m_get_or [] (gl_files g) sid)"
  obtain slices err where e: "Extract E False ?t (session_meta ?p sid) = (slices, err)" by fastforce
  obtain y k1 n1 s1 ix1 where q: "persist (\<lambda>e x. put e (?f x)) (\<lambda>x. ins (?f x)) ?p ens sid slices 0 0 (gl_store g, gl_index g) = (y, k1, n1, s1, ix1)"
    by (metis prod_cases5)
  have y: "y = None" "gl_store g' = s1"
    using assms(1) e q by (cases y; auto simp: ingestSession_def gateway_pipeline_def Let_def split: if_splits)+
  have d: "distinct (map sl_ID slices)" using Extract_distinct [of E False ?t "session_meta ?p sid"] e by simp
  note P = persist_adapted [OF gateway_slice_ID(1) q [unfolded y(1)] assms(2) d]
  then have "stored_form (?f (r\<lparr>sl_Scope := pl_Scope ?p\<rparr>)) \<in> set (listing s1)" using assms(3,4) e by fastforce
  then show ?thesis using P y(2) by (simp add: gateway_pipeline_def)
qed

lemma ingest_stamps:
  assumes "ingestSession E put ins ens True sid ctxHash model g = (None, g')" "inv (gl_store g)"
    and "r \<in> set (session_slices E sid g)" "sl_Type r = Result" "x \<in> set (listing (gl_store g'))" "sl_ID x = sl_ID r"
  shows "m_ContextHash (sl_Meta x) = ctxHash \<and> m_Model (sl_Meta x) = model \<and> m_L3Safe (sl_Meta x) = gl_L3SafeDefault g"
proof -
  let ?r = "r\<lparr>sl_Scope := gl_Scope g\<rparr>"
  note S = ingest_stores [OF assms(1-4)]
  have "x = stored_form (gateway_slice (gl_L3SafeDefault g) ctxHash model ?r)"
    by (rule one_per_id [OF S [THEN conjunct1] assms(5) S [THEN conjunct2]]) (simp add: assms(6))
  moreover have "m_Deps (sl_Meta r) = []" using Extract_no_deps [OF assms(3,4)] by (simp add: session_meta_def zero_meta_def)
  ultimately show ?thesis using gateway_slice_result [of ?r] assms(4) by simp
qed

end

section \<open>Reading a session again\<close>

text \<open>A user line at the end changes neither the result of a session nor whether it was verified.\<close>

lemma verify_user: "verify_lines calls i (ls @ [transcript_line ''user'' p]) v = verify_lines calls i ls v"
  by (induction ls arbitrary: i v) (simp_all add: transcript_line_def Let_def)

lemma finalResult_user: "finalResultSlice E (ls @ [transcript_line ''user'' p]) meta = finalResultSlice E ls meta"
proof -
  have "calls_of E (ls @ [transcript_line ''user'' p]) = calls_of E ls" by (simp add: calls_of_def transcript_line_def)
  then have "result_meta E (ls @ [transcript_line ''user'' p]) meta = result_meta E ls meta"
    by (simp add: result_meta_def resultVerifiedAfterLatestMutation_def verify_user)
  then show ?thesis by (simp add: finalResultSlice_def) (simp add: transcript_line_def)
qed

lemma parse_decoded:
  "\<forall>x\<in>set xs. tl_Type x = [] \<Longrightarrow> parseTranscript (map Decoded xs) = (filter (\<lambda>x. tl_Role x \<noteq> []) xs, False)"
  by (induction xs) (auto simp: Let_def)

fun raw_tl :: "session_line \<Rightarrow> transcriptLine" where
  "raw_tl (TurnLine role content) = transcript_line role content"
| "raw_tl (ClosedLoop p) = transcript_line [] []"

fun proj_tl :: "session_line \<Rightarrow> transcriptLine list" where
  "proj_tl (TurnLine role content) = []"
| "proj_tl (ClosedLoop p) = (if p \<noteq> [] then [transcript_line ''user'' p] else [])"

lemma session_decoded: "session_transcript ls = map Decoded (map raw_tl ls @ concat (map proj_tl ls))"
proof -
  have "raw_line l = Decoded (raw_tl l)" "projected l = map Decoded (proj_tl l)" for l by (cases l; simp)+
  then have "map raw_line ls = map Decoded (map raw_tl ls)" "map projected ls = map (map Decoded) (map proj_tl ls)" by simp_all
  then show ?thesis by (simp only: session_transcript_def map_concat map_append)
qed

definition session_lines :: "session_line list \<Rightarrow> transcriptLine list" where
  "session_lines ls = filter (\<lambda>x. tl_Role x \<noteq> []) (map raw_tl ls @ concat (map proj_tl ls))"

lemma session_parsed: "parseTranscript (session_transcript ls) = (session_lines ls, False)"
proof -
  have "tl_Type (raw_tl l) = []" "\<forall>x\<in>set (proj_tl l). tl_Type x = []" for l by (cases l; simp add: transcript_line_def)+
  then show ?thesis unfolding session_decoded session_lines_def by (intro parse_decoded) auto
qed

lemma session_lines_event: "p \<noteq> [] \<Longrightarrow> session_lines (ls @ [ClosedLoop p]) = session_lines ls @ [transcript_line ''user'' p]"
  by (simp add: session_lines_def transcript_line_def)

lemma dedup_covers:
  "s \<in> set ss \<Longrightarrow> list_ex (searchable E) (runes_of (sl_Content s)) \<Longrightarrow> sl_ID s \<notin> set seen \<Longrightarrow> sl_ID s \<in> sl_ID ` set (dedup_loop E seen ss)"
proof (induction ss arbitrary: seen)
  case (Cons a ss)
  show ?case
  proof (cases "s = a \<or> sl_ID s = sl_ID a")
    case True
    then show ?thesis using Cons by (cases "s = a") auto
  next
    case False
    then show ?thesis using Cons.IH [of seen] Cons.IH [of "sl_ID a # seen"] Cons.prems by auto
  qed
qed simp

lemma Extract_result:
  assumes "r \<in> set (fst (Extract E sp session meta))" "sl_Type r = Result"
  shows "finalResultSlice E (fst (parseTranscript session)) meta = Some r \<and> list_ex (searchable E) (runes_of (sl_Content r))"
proof -
  obtain ls err where p: "parseTranscript session = (ls, err)" by (cases "parseTranscript session")
  let ?out = "concat (map (flushTurn E sp meta) (segment [] ls)) @ opt_list (contextSlice E ls meta) @ opt_list (finalResultSlice E ls meta)"
  have e: "fst (Extract E sp session meta) = dedup_loop E [] ?out" using p by (simp add: Extract_def dedup_def)
  have "r \<in> set ?out" and s: "list_ex (searchable E) (runes_of (sl_Content r))"
    using dedup_loop_props [of E "[]" ?out] assms(1) unfolding e by blast+
  then have "finalResultSlice E ls meta = Some r"
    using assms(2) by (auto simp: opt_list_set dest!: flushTurn_new contextSlice_new)
  then show ?thesis using p s by simp
qed

lemma event_keeps_result:
  assumes "r \<in> set (fst (Extract E False (session_transcript ls) meta))" "sl_Type r = Result" "p \<noteq> []"
  shows "sl_ID r \<in> sl_ID ` set (fst (Extract E False (session_transcript (ls @ [ClosedLoop p])) meta))"
proof -
  have r: "finalResultSlice E (session_lines ls) meta = Some r" "list_ex (searchable E) (runes_of (sl_Content r))"
    using Extract_result [OF assms(1,2)] by (simp_all add: session_parsed)
  let ?ls = "session_lines (ls @ [ClosedLoop p])"
  have "finalResultSlice E ?ls meta = Some r" using r(1) by (simp add: session_lines_event [OF assms(3)] finalResult_user)
  then have "r \<in> set (concat (map (flushTurn E False meta) (segment [] ?ls)) @ opt_list (contextSlice E ?ls meta) @ opt_list (finalResultSlice E ?ls meta))"
    by (simp add: opt_list_def)
  from dedup_covers [OF this r(2), of "[]"] show ?thesis by (simp add: Extract_def dedup_def session_parsed)
qed

section \<open>Properties\<close>

definition recording :: "string \<Rightarrow> ('s, 'i) gateway_lib \<Rightarrow> bool" where
  "recording sid g \<longleftrightarrow> \<not> gl_closing g \<and> \<not> gl_disabled g \<and> gl_SessionsDir g \<noteq> [] \<and> sessionIDPattern sid"

lemma recordSession_open:
  assumes "recording sid g"
  shows "recordSession E put ins ens True None rid sid c m turns g =
    ingestSession E put ins ens True sid c m (g\<lparr>gl_files := m_set sid (m_get_or [] (gl_files g) sid @ turns) (gl_files g)\<rparr>)"
  using assms by (auto simp: recordSession_def recording_def session_file_def sessionIDPattern_def Let_def)

lemma ingest_frame:
  "ingestSession E put ins ens b sid c m g = (x, g') \<Longrightarrow> gl_closing g' = gl_closing g \<and> gl_disabled g' = gl_disabled g \<and>
     gl_SessionsDir g' = gl_SessionsDir g \<and> gl_files g' = gl_files g \<and>
     gl_L3SafeDefault g' = gl_L3SafeDefault g \<and> gl_Scope g' = gl_Scope g"
  by (auto simp: ingestSession_def Let_def split: prod.splits)


text \<open>
  C35. A kernel event moves an old answer to another request. When a request of a session is answered from the cache or with
  injected slices, its event is recorded under the context hash of that request, the session file is ingested again, and
  its last answer, which was given to an earlier request, is stored under the hash and the model of the later one.
\<close>

theorem event_restamps_answer:
  assumes "slice_store good listing put del stat" "recording sid g" "good (gl_store g)"
    and "recordSession E put ins ens True None rid sid c1 m1 turns g = (None, g1)"
    and "recordKernelEvent E put ins ens' True None rid' sid c2 m2 projection g1 = (None, g2)"
    and "r \<in> set (session_slices E sid g1)" "sl_Type r = Result" "projection \<noteq> []"
    and "\<forall>s\<in>set (session_slices E sid g2). sl_ID s = sl_ID r \<longrightarrow> sl_Type s = Result"
  shows "(\<exists>x\<in>set (listing (gl_store g1)). sl_ID x = sl_ID r \<and> m_ContextHash (sl_Meta x) = c1 \<and> m_Model (sl_Meta x) = m1) \<and>
    (\<exists>x\<in>set (listing (gl_store g2)). sl_ID x = sl_ID r \<and> m_ContextHash (sl_Meta x) = c2 \<and> m_Model (sl_Meta x) = m2)"
proof -
  let ?old = "m_get_or [] (gl_files g) sid @ turns"
  let ?g = "g\<lparr>gl_files := m_set sid ?old (gl_files g)\<rparr>"
  have i1: "ingestSession E put ins ens True sid c1 m1 ?g = (None, g1)" using assms(4) recordSession_open [OF assms(2)] by metis
  note F1 = ingest_frame [OF i1]
  have r1: "r \<in> set (session_slices E sid ?g)" using assms(6) F1 by simp
  have v: "good (gl_store ?g)" using assms(3) by simp
  note S1 = slice_store.ingest_stores [OF assms(1) i1 v r1 assms(7)]
  have rec1: "recording sid g1" using F1 assms(2) by (simp add: recording_def)
  have files1: "m_get_or [] (gl_files g1) sid = ?old" using F1 by simp
  let ?h = "g1\<lparr>gl_files := m_set sid (m_get_or [] (gl_files g1) sid @ [ClosedLoop projection]) (gl_files g1)\<rparr>"
  have i2: "ingestSession E put ins ens' True sid c2 m2 ?h = (None, g2)"
    using assms(5) recordSession_open [OF rec1] unfolding recordKernelEvent_def by metis
  note F2 = ingest_frame [OF i2]
  have "sl_ID r \<in> sl_ID ` set (session_slices E sid ?h)"
    using event_keeps_result [OF assms(6,7,8)] by simp
  then obtain s where s: "s \<in> set (session_slices E sid ?h)" "sl_ID s = sl_ID r" by force
  have st: "sl_Type s = Result" using assms(9) s F2 by simp
  have v2: "good (gl_store ?h)" using S1 by simp
  note S2 = slice_store.ingest_stores [OF assms(1) i2 v2 s(1) st]
  let ?x1 = "stored_form (gateway_slice (gl_L3SafeDefault ?g) c1 m1 (r\<lparr>sl_Scope := gl_Scope ?g\<rparr>))"
  let ?x2 = "stored_form (gateway_slice (gl_L3SafeDefault ?h) c2 m2 (s\<lparr>sl_Scope := gl_Scope ?h\<rparr>))"
  have "sl_ID ?x1 = sl_ID r \<and> m_ContextHash (sl_Meta ?x1) = c1 \<and> m_Model (sl_Meta ?x1) = m1"
    using gateway_slice_result [of "r\<lparr>sl_Scope := gl_Scope ?g\<rparr>"] assms(7) by simp
  moreover have "sl_ID ?x2 = sl_ID r \<and> m_ContextHash (sl_Meta ?x2) = c2 \<and> m_Model (sl_Meta ?x2) = m2"
    using gateway_slice_result [of "s\<lparr>sl_Scope := gl_Scope ?h\<rparr>"] st s(2) by simp
  ultimately show ?thesis using S1 S2 by blast
qed

section \<open>A concrete session\<close>

text \<open>A store that is its listing, and an index that takes every slice.\<close>

definition list_put :: "unit \<Rightarrow> Slice \<Rightarrow> Slice list \<Rightarrow> unit option \<times> Slice list" where
  "list_put e x L = (None, up_slice (stored_form x) L)"

definition list_del :: "unit \<Rightarrow> string \<Rightarrow> Slice list \<Rightarrow> unit option \<times> Slice list" where
  "list_del e k L = (None, rm_slice k L)"

definition list_stat :: "unit \<Rightarrow> string \<Rightarrow> SliceStats \<Rightarrow> Slice list \<Rightarrow> unit option \<times> Slice list" where
  "list_stat e k d L = (if k \<in> sl_ID ` set L then (None, stat_slice k d L) else (Some (), L))"

definition any_index :: "Slice \<Rightarrow> unit \<Rightarrow> unit option \<times> unit" where
  "any_index x i = (None, i)"

abbreviation (input) ids_distinct :: "Slice list \<Rightarrow> bool" where "ids_distinct L \<equiv> distinct (map sl_ID L)"

lemma distinct_up: "ids_distinct L \<Longrightarrow> ids_distinct (up_slice x L)"
  by (auto simp: up_slice_def distinct_map_filter)

lemma list_store: "slice_store ids_distinct (\<lambda>L. L) list_put list_del list_stat"
proof
  show "ids_distinct L' " if "ids_distinct L" "list_stat e k d L = (x, L')" for L L' e k d x
  proof -
    have "map sl_ID (stat_slice k d L) = map sl_ID L" by (simp add: stat_slice_def)
    then show ?thesis using that by (auto simp: list_stat_def split: if_splits)
  qed
qed (auto simp: list_put_def list_del_def list_stat_def rm_slice_def distinct_map_filter distinct_up split: if_splits)

lemma persist_total:
  "fst (persist (\<lambda>e x. list_put e (f x)) (\<lambda>x. any_index (f x)) p ens sid sls k n (L, ix)) = None"
  by (induction sls arbitrary: k n L ix) (simp_all add: list_put_def any_index_def Let_def)

lemma ingest_total: "fst (ingestSession E list_put any_index ens True sid c m g) = None"
proof -
  let ?p = "gateway_pipeline (gl_Scope g) sid" and ?t = "session_transcript (m_get_or [] (gl_files g) sid)"
  let ?f = "gateway_slice (gl_L3SafeDefault g) c m"
  have "snd (Extract E (pl_StepSplit ?p) ?t (session_meta ?p sid)) = False" by (simp add: Extract_def session_parsed Let_def)
  then show ?thesis
    using persist_total [of ?f ?p ens sid "fst (Extract E (pl_StepSplit ?p) ?t (session_meta ?p sid))" 0 0 "gl_store g" "gl_index g"]
    by (auto simp: ingestSession_def Let_def split: prod.splits option.splits)
qed

definition demo_lib :: "(Slice list, unit) gateway_lib" where
  "demo_lib = \<lparr>gl_closing = False, gl_disabled = False, gl_SessionsDir = ''d'', gl_L3SafeDefault = True, gl_Scope = Project, gl_files = [],
     gl_store = [], gl_index = ()\<rparr>"

definition demo_turns :: "session_line list" where
  "demo_turns = [TurnLine ''assistant'' ''ok'']"

definition demo_lib1 :: "(Slice list, unit) gateway_lib" where
  "demo_lib1 = snd (recordSession sample_extract_env list_put any_index (\<lambda>_. ()) True None ''r'' ''s'' ''h1'' ''m'' demo_turns demo_lib)"

definition demo_lib2 :: "(Slice list, unit) gateway_lib" where
  "demo_lib2 = snd (recordKernelEvent sample_extract_env list_put any_index (\<lambda>_. ()) True None ''r'' ''s'' ''h2'' ''m'' ''slice hit'' demo_lib1)"

definition demo_answer :: Slice where
  "demo_answer = the (finalResultSlice sample_extract_env [transcript_line ''assistant'' ''ok'']
     (session_meta (gateway_pipeline Project ''s'') ''s''))"

lemma demo_recording: "recording ''s'' demo_lib"
  by (simp add: recording_def demo_lib_def sessionIDPattern_def session_char_def)

lemma demo_run1: "recordSession sample_extract_env list_put any_index (\<lambda>_. ()) True None ''r'' ''s'' ''h1'' ''m'' demo_turns demo_lib = (None, demo_lib1)"
  using ingest_total by (simp add: demo_lib1_def recordSession_open [OF demo_recording] prod_eq_iff)

lemma demo_files1: "m_get_or [] (gl_files demo_lib1) ''s'' = demo_turns" "gl_Scope demo_lib1 = Project" "recording ''s'' demo_lib1"
  using ingest_frame [OF demo_run1 [unfolded recordSession_open [OF demo_recording]]] demo_recording
  by (simp_all add: demo_lib_def m_get_or_def recording_def)

lemma demo_run2: "recordKernelEvent sample_extract_env list_put any_index (\<lambda>_. ()) True None ''r'' ''s'' ''h2'' ''m'' ''slice hit'' demo_lib1 = (None, demo_lib2)"
  using ingest_total by (simp add: demo_lib2_def recordKernelEvent_def recordSession_open [OF demo_files1(3)] prod_eq_iff)

lemma demo_extracted:
  "demo_answer \<in> set (session_slices sample_extract_env ''s'' demo_lib1)" "sl_Type demo_answer = Result"
proof -
  let ?E = sample_extract_env and ?l = "transcript_line ''assistant'' ''ok''" and ?m = "session_meta (gateway_pipeline Project ''s'') ''s''"
  have lines: "session_lines demo_turns = [?l]" by (simp add: session_lines_def demo_turns_def transcript_line_def)
  have "the (compressText ''ok'' maxResultLen) = ''ok''" by code_simp
  then have r: "finalResultSlice ?E [?l] ?m = Some (newSlice ?E Result Project ''ok'' (compressionMeta (result_meta ?E [?l] ?m) ''ok'' ''ok''))"
    by (simp add: finalResultSlice_def) (simp add: transcript_line_def storedContent_def trim_space_def trim_left.simps trim_right.simps Let_def)
  then have a: "demo_answer = newSlice ?E Result Project ''ok'' (compressionMeta (result_meta ?E [?l] ?m) ''ok'' ''ok'')"
    by (simp add: demo_answer_def)
  have s: "list_ex (searchable ?E) (runes_of (sl_Content demo_answer))" unfolding a by (simp add: sanitize_ok) code_simp
  have "flushTurn ?E False ?m [?l] = []"
    by (simp add: flushTurn_def promptSlice_def toolPatternSlice_def opt_list_def transcript_line_def minToolSeq_def)
  moreover have "contextSlice ?E [?l] ?m = None"
    by (simp add: contextSlice_def context_of_def transcript_line_def topContextEntries_def)
  ultimately have "fst (Extract ?E False (session_transcript demo_turns) ?m) = [demo_answer]"
    using r a s by (simp add: Extract_def session_parsed lines dedup_def opt_list_def)
  then show "demo_answer \<in> set (session_slices ?E ''s'' demo_lib1)" by (simp add: demo_files1)
  show "sl_Type demo_answer = Result" by (simp add: a)
qed

text \<open>With the identity for a hash, the first byte of an identifier is the type.\<close>

lemma demo_ids:
  assumes "s \<in> set (fst (Extract sample_extract_env False t meta))" "sl_ID s = sl_ID demo_answer" shows "sl_Type s = Result"
proof -
  have "extracted_ok sample_extract_env s" by (rule Extract_ok(1) [OF assms(1)])
  moreover have "extracted_ok sample_extract_env demo_answer" by (rule Extract_ok(1) [OF demo_extracted(1)])
  ultimately have "hd (sl_ID s) = char_of (type_byte (sl_Type s))" "hd (sl_ID demo_answer) = char_of (3 :: nat)"
    using demo_extracted(2) by (simp_all add: extracted_ok_def sliceID_def sample_extract_env_def)
  then have "char_of (type_byte (sl_Type s)) = (char_of (3 :: nat) :: char)" using assms(2) by simp
  moreover have "sl_Type s \<in> {Prompt, ToolPattern, Context, Result}"
    using Extract_cases [OF assms(1)] by (elim disjE exE conjE) auto
  ultimately show ?thesis by auto
qed

theorem event_restamps_answer_witness:
  "(\<exists>x\<in>set (gl_store demo_lib1). sl_ID x = sl_ID demo_answer \<and> m_ContextHash (sl_Meta x) = ''h1'' \<and> m_Model (sl_Meta x) = ''m'') \<and>
   (\<exists>x\<in>set (gl_store demo_lib2). sl_ID x = sl_ID demo_answer \<and> m_ContextHash (sl_Meta x) = ''h2'' \<and> m_Model (sl_Meta x) = ''m'')"
proof (rule event_restamps_answer [OF list_store demo_recording _ demo_run1 demo_run2 demo_extracted])
  show "\<forall>s\<in>set (session_slices sample_extract_env ''s'' demo_lib2). sl_ID s = sl_ID demo_answer \<longrightarrow> sl_Type s = Result"
    using demo_ids by blast
qed (simp_all add: demo_lib_def)


end
