(* ===== verification/Spec2Isabelle.thy ===== *)
theory Spec2Isabelle
  imports Prelude Go_Float Slice_Types File_Store File_Store_Correct File_Store_Props Slice_Store Score
    Maintenance Maintenance_Props Promote Promote_Correct Zone_Classifier Judge L3 L3_Correct Sched Sched_Correct
    Prefetch Prefetch_Correct BM25 BM25_Correct
    Levenshtein Adapt Adapt_Correct Gateway_Retry Quota Quota_Correct TaskType
    Utf8 Inject Inject_Correct Prune Prune_Correct Unit_Interval Fuse Fuse_Correct Evolve Evolve_Correct Event_Bus Compress
    Compress_Correct Sanitize Sanitize_Correct Redact_Correct Sanitize_Props Json Extractor Extractor_Correct Ingest
    Chat Sse Sse_Correct Sse_Props Outgoing Outgoing_Correct Gateway_Ingest
begin

text \<open>
  Verification of the memory kernel and the gateway of Semantix (Go sources under \<open>src/kernel\<close> and \<open>src/gateway\<close>, and
  \<open>src/harness/semantix/evolution.go\<close>).

  \<^bold>\<open>The program.\<close> Semantix puts a memory between a coding agent and a language model. Session transcripts are sanitized and cut
  into \<^emph>\<open>slices\<close> (prompts, results, context and experience cards), which are kept in a journaled library. For a new request the gateway
  searches the library; the hits are classified into zones, injected into the prompt as a delimited reuse block (L2), or,
  when a hit is an earlier answer that passes the reuse gate, served instead of a call to the model (L3). Around this core are the
  scheduler of a round of tool calls, speculative prefetching, online tuning of the thresholds, the promotion memory of judged
  answers, maintenance of the library, and in the gateway the relay of streams, the free-tier quota and the detection of retries.

  \<^bold>\<open>Theories and sources.\<close> A theory with the suffix \<open>_Correct\<close> or \<open>_Props\<close> holds the lemmas and properties of the theory it is
  named after; the others hold the definitions, one per function of the source and under its name.

  \<^item> Foundations: \<open>Prelude\<close> (wrapping integers, Go maps as association lists, package \<open>sort\<close>, strings), \<open>Go_Float\<close>
    (IEEE doubles: a value is a rational, an infinity or NaN; \<open>r64\<close> rounds to nearest even), \<open>Unit_Interval\<close>
    (convex combinations under rounding), \<open>Utf8\<close> (runes of byte strings), \<open>Json\<close> (decoded values).
  \<^item> The library: \<open>Slice_Types\<close> (\<open>slice/slice.go\<close>, \<open>admission.go\<close>); \<open>File_Store\<close> (\<open>slice/file_store.go\<close>: the index in memory, the
    base file and the journal on the disk, every system call a point of failure); \<open>Slice_Store\<close> (the contract of
    \<open>slice/store.go\<close>); \<open>Score\<close> (\<open>score.go\<close>); \<open>Maintenance\<close> (\<open>maintenance.go\<close>); \<open>Prune\<close> (\<open>prune.go\<close>, \<open>prune_store.go\<close>);
    \<open>Compress\<close> (\<open>compress.go\<close>); \<open>TaskType\<close> (\<open>task_type.go\<close>).
  \<^item> Filling it: \<open>Sanitize\<close> (\<open>sanitize/sanitize.go\<close>), \<open>Extractor\<close> (\<open>slice/extractor.go\<close>), \<open>Ingest\<close> (\<open>ingest/ingest.go\<close>),
    \<open>Gateway_Ingest\<close> (\<open>gateway/gateway.go\<close>: recording a request in its session file and ingesting it).
  \<^item> Searching it: \<open>BM25\<close> (\<open>bm25/\<close>), \<open>Fuse\<close> (\<open>fuse/fuse.go\<close>), \<open>Zone_Classifier\<close> (\<open>zone/zone.go\<close>).
  \<^item> Reusing it: \<open>Judge\<close> (\<open>fingerprint/\<close>, \<open>judge/judge.go\<close>, \<open>cache.go\<close>, \<open>consensus.go\<close>), \<open>Promote\<close> (\<open>promote/\<close>), \<open>L3\<close>
    (\<open>cache/\<close>), \<open>Inject\<close> (\<open>inject/inject.go\<close>).
  \<^item> Control: \<open>Sched\<close> (\<open>sched/\<close>), \<open>Prefetch\<close> (\<open>prefetch/\<close>), \<open>Evolve\<close> (\<open>evolve/evolve.go\<close>, \<open>harness/semantix/evolution.go\<close>),
    \<open>Adapt\<close> (\<open>adapt/adapt.go\<close>), \<open>Event_Bus\<close> (\<open>event/bus.go\<close>).
  \<^item> Gateway: \<open>Chat\<close> (\<open>normalize.go\<close>, \<open>usagewire.go\<close>, \<open>thinking.go\<close>), \<open>Outgoing\<close> (\<open>sanitize.go\<close>, \<open>rewriteOutgoing\<close> and
    \<open>attachBlockRaw\<close> of \<open>pipeline.go\<close>), \<open>Sse\<close> (\<open>sse.go\<close>, \<open>streamThrough\<close> and \<open>replayStream\<close>), \<open>Quota\<close> (\<open>quota.go\<close>), \<open>Levenshtein\<close> and
    \<open>Gateway_Retry\<close> (\<open>levenshtein.go\<close>, the record of served answers).

  \<^bold>\<open>State and errors.\<close> A struct is a record, an operation a function from the state to the result and the next state; a Go error is the
  first component (\<open>Some\<close> or \<open>Inl\<close>), a panic a value of its own where one is possible. Integers wrap where the code's do; texts are byte
  strings. Code behind a mutex is modelled as its sequence of critical sections.

  \<^bold>\<open>Interfaces.\<close> Where one part relies on another the contract is a locale: \<open>slice_store\<close> (interpreted on the file store, used by
  imports, ingestion), \<open>logged_update\<close> (a change of the memory and the journal records that replay it; interpreted
  on put, delete and statistics), \<open>slice_index\<close> and \<open>ingestion\<close> (on the lexical index), \<open>promote_store\<close> and \<open>rejection_store\<close> (each on the
  memory and the file implementation), \<open>promotion\<close> (what the reuse gate needs of the promotion decision), \<open>rounding\<close> (on \<open>r64\<close>), and
  \<open>weak_order_on\<close> (on every comparison function handed to a sort, so that sorted results do not depend on an unstable sort).

  \<^bold>\<open>What is shown.\<close> The store is atomic under failing system calls and durable over histories of operations and restarts; imports are idempotent,
  collection and pruning lose nothing that is not archived. The incremental index searches as the library would from scratch.
  The sanitizer ends and leaves nothing it promises to remove; extraction marks a result as verified only when it was; ingestion keeps store
  and index in step and isolates the answers of different contexts. Every route to reuse is fail-closed: the zone classifier, the rule gate,
  the verdict cache, promotions, blacklists, the L3 gate, and the reuse block that a stored slice cannot leave. Scores, averages and
  thresholds stay in their bands in double precision. Parallel groups are safe, tiers do not sink below the floor, prefetch plans are
  read-only. The gateway meters exactly, keeps only whole streams, replays what it kept, and sends the conversation unchanged. Some theorems
  are about defects (a torn journal tail that swallows a put; a kernel event that restamps an answer); the other defects
  found are lemmas beside the operations they concern.

  \<^bold>\<open>Termination.\<close> There is no fuel: every loop is a structural recursion or has a measure (the rest of a text, the size of a value), so the
  definitions are total; the rounds of phrase removal end because each shortens the text.

  \<^bold>\<open>Arguments.\<close> Code outside the sources is an argument with its documented behaviour as a hypothesis: hashes, \<open>math.Exp\<close> and
  \<open>math.Log\<close>, random draws, the clock, Unicode tables, the formatting of quoted strings and decimals, the JSON codec, the judge model, the embedding hits, and for
  each call the environment that says which system calls fail. Iteration over a Go map takes its order as an argument or is shown
  not to depend on it. Floating-point expressions are evaluated with one rounding per operation (amd64; other
  targets may fuse a multiplication and an addition). Letters are lowered as ASCII where they are compared with ASCII literals.

  \<^bold>\<open>Not modelled.\<close> In the modelled parts: the advisory lease of a library, the collector's fallback for a store
  without \<open>CompactWith\<close>, warm-up executors, statistics snapshots, observer callbacks and log lines, nil receivers, and real concurrency: gateway ingestion runs at once
  instead of in its goroutine, a decision sees one state of the file system, lines are appended whole. Kernel parts left out: embeddings and
  vector indexes (single-precision approximate search with random levels over an external model), \<open>judge/llm.go\<close> (HTTP), \<open>config\<close>, \<open>audit\<close>, \<open>lookup\<close>,
  price tables, task distillation for display. In the gateway: the Anthropic endpoint, serving, configuration, reranking and counters. The
  agent under \<open>src/harness\<close> (derived from an upstream project), the command line tools and the desktop application are user interfaces, provider
  protocols and operating-system integration around this core.
\<close>

end
